(* ===== verification/E2S_Prelude.thy ===== *)
theory E2S_Prelude
  imports Main "HOL-Library.Word"
begin

text \<open>
  Shared vocabulary of the ether2ser development: the C integer types the firmware uses, the
  collections of rewrite rules the component theories feed, invariants of step systems, the
  ring-slice view of a circular buffer, and the correspondence between bytes and bit lists in both
  bit orders.

  Conventions used by every component theory:
  \<^item> \<open>uint8_t\<close>, \<open>uint16_t\<close>, \<open>uint32_t\<close>, \<open>uint64_t\<close> values that are data (bytes, checksums,
    counters that may wrap) are words; \<open>size_t\<close> lengths and indices, which the invariants
    keep far below \<open>2 ^ 32\<close>, are \<open>nat\<close>;
  \<^item> a pointer to an object is modelled by the object; a pointer the code compares with
    \<open>NULL\<close> is an \<open>option\<close> whenever callers may really pass \<open>NULL\<close>;
  \<^item> a buffer is the list of the bytes it owns, written with \<open>xs[i := v]\<close>;
  \<^item> log output has no effect on the state the theorems speak about and is left out.
\<close>

unbundle bit_operations_syntax

section \<open>Machine types\<close>

type_synonym byte = "8 word"
type_synonym u16 = "16 word"
type_synonym u32 = "32 word"
type_synonym u64 = "64 word"

text \<open>
  \<open>ring_simps\<close>: how the ring operations act on the list they represent;
  \<open>bits_simps\<close>: bytes against bit lists.
\<close>

named_theorems ring_simps
named_theorems bits_simps

section \<open>Lists\<close>

lemma take_Suc_update [simp]:
  assumes "n < length xs"
  shows "take (Suc n) (xs[n := x]) = take n xs @ [x]"
  using assms by (simp add: take_Suc_conv_app_nth)

lemma take_update_same [simp]: "n \<le> i \<Longrightarrow> take n (xs[i := x]) = take n xs"
  by simp

lemma length_take_le [simp]: "n \<le> length xs \<Longrightarrow> length (take n xs) = n"
  by simp

section \<open>Sequencing with early exit\<close>

text \<open>
  The code's pattern "call, and leave on failure": a call returns its success flag and the
  state it leaves behind.
\<close>

definition and_then :: "bool \<times> 's \<Rightarrow> ('s \<Rightarrow> bool \<times> 's) \<Rightarrow> bool \<times> 's" where
  "and_then r k = (if fst r then k (snd r) else r)"

fun for_each :: "('x \<Rightarrow> 's \<Rightarrow> bool \<times> 's) \<Rightarrow> 'x list \<Rightarrow> 's \<Rightarrow> bool \<times> 's" where
  "for_each f [] s = (True, s)"
| "for_each f (x # xs) s = and_then (f x s) (for_each f xs)"

lemma and_then_True [simp]: "and_then (True, s) k = k s"
  by (simp add: and_then_def)

lemma and_then_False [simp]: "and_then (False, s) k = (False, s)"
  by (simp add: and_then_def)

lemma and_then_assoc: "and_then (and_then r j) k = and_then r (\<lambda>s. and_then (j s) k)"
  by (simp add: and_then_def)

lemma and_then_ret [simp]: "and_then r (\<lambda>s. (True, s)) = r"
  by (cases r) (simp add: and_then_def)

lemma for_each_append: "for_each f (xs @ ys) s = and_then (for_each f xs s) (for_each f ys)"
proof (induction xs arbitrary: s)
  case Nil
  then show ?case by simp
next
  case (Cons x xs)
  then show ?case
    by (cases "f x s") (auto simp: and_then_assoc and_then_def)
qed

section \<open>Runs and their invariants\<close>

text \<open>
  What the concurrent and reactive parts share: states to start from, steps, and an invariant that
  holds at the start and is kept by every step, hence holds in every state a run can reach.
\<close>

locale safe_system =
  fixes start :: "'s \<Rightarrow> bool"
    and step :: "'s \<Rightarrow> 's \<Rightarrow> bool"
    and invar :: "'s \<Rightarrow> bool"
  assumes invar_start: "start s \<Longrightarrow> invar s"
    and invar_step: "invar s \<Longrightarrow> step s t \<Longrightarrow> invar t"
begin

lemma invar_steps: "step\<^sup>*\<^sup>* s t \<Longrightarrow> invar s \<Longrightarrow> invar t"
  by (induction rule: rtranclp_induct) (blast intro: invar_step)+

lemma reachable_invar: "start s \<Longrightarrow> step\<^sup>*\<^sup>* s t \<Longrightarrow> invar t"
  using invar_start invar_steps by blast

end

section \<open>Circular buffers as list slices\<close>

text \<open>
  The \<open>n\<close> elements of a circular buffer of \<open>N\<close> slots that starts at slot \<open>s\<close>, oldest first.
\<close>

definition ring_slice :: "'a list \<Rightarrow> nat \<Rightarrow> nat \<Rightarrow> nat \<Rightarrow> 'a list" where
  "ring_slice buf N s n = map (\<lambda>i. buf ! ((s + i) mod N)) [0..<n]"

lemma length_ring_slice [simp]: "length (ring_slice buf N s n) = n"
  by (simp add: ring_slice_def)

lemma ring_slice_0 [simp]: "ring_slice buf N s 0 = []"
  by (simp add: ring_slice_def)

lemma ring_slice_empty_iff [simp]: "ring_slice buf N s n = [] \<longleftrightarrow> n = 0"
  by (simp add: ring_slice_def)

text \<open>Two slots less than a full turn apart are different slots.\<close>

lemma ring_slot_neq:
  fixes s :: nat
  assumes "i < n" "n < N"
  shows "(s + i) mod N \<noteq> (s + n) mod N"
proof
  assume "(s + i) mod N = (s + n) mod N"
  then have "(s + i + (n - i)) mod N = (s + i) mod N"
    using assms by simp
  then have "(n - i) mod N = 0"
    by (metis add_diff_cancel_left' add.commute mod_eq_dvd_iff_nat
        dvd_imp_mod_0 le_add2)
  with assms show False
    by simp
qed

lemma ring_slice_snoc [ring_simps]:
  assumes "n < N" "N \<le> length buf"
  shows "ring_slice (buf[(s + n) mod N := x]) N s (Suc n) = ring_slice buf N s n @ [x]"
proof -
  have "(s + n) mod N < length buf"
    by (rule less_le_trans [OF mod_less_divisor assms(2)]) (use assms(1) in simp)
  moreover have "(s + n) mod N \<noteq> (s + i) mod N" if "i < n" for i
    using ring_slot_neq [OF that assms(1)] by metis
  ultimately show ?thesis
    by (simp add: ring_slice_def)
qed

lemma ring_slice_Cons [ring_simps]:
  "ring_slice buf N s (Suc n) = buf ! (s mod N) # ring_slice buf N (Suc s mod N) n"
proof -
  have "map (\<lambda>i. buf ! ((s + i) mod N)) [Suc 0..<Suc n]
      = map (\<lambda>i. buf ! ((Suc s mod N + i) mod N)) [0..<n]"
    by (rule nth_equalityI) (simp_all del: upt_Suc add: mod_simps add.commute)
  then show ?thesis
    by (simp add: ring_slice_def upt_conv_Cons del: upt_Suc)
qed

section \<open>Bytes and bit lists\<close>

text \<open>
  The bits of a byte in transmission order: least significant first (\<open>lsb\<close>) or most
  significant first; and the byte whose transmitted bits are a given list of at most eight
  bits, the missing ones zero.
\<close>

definition bit_pos :: "bool \<Rightarrow> nat \<Rightarrow> nat" where
  "bit_pos lsb i = (if lsb then i else 7 - i)"

definition byte_bits :: "bool \<Rightarrow> byte \<Rightarrow> bool list" where
  "byte_bits lsb b = map (\<lambda>i. bit b (bit_pos lsb i)) [0..<8]"

definition bits_byte :: "bool \<Rightarrow> bool list \<Rightarrow> byte" where
  "bits_byte lsb bs =
     (if lsb then horner_sum of_bool 2 (take 8 bs)
      else horner_sum of_bool 2 (rev (take 8 (bs @ replicate 8 False))))"

abbreviation bytes_bits :: "bool \<Rightarrow> byte list \<Rightarrow> bool list" where
  "bytes_bits lsb bs \<equiv> concat (map (byte_bits lsb) bs)"

lemma length_byte_bits [simp]: "length (byte_bits lsb b) = 8"
  by (simp add: byte_bits_def)

lemma length_bytes_bits [simp]: "length (bytes_bits lsb bs) = 8 * length bs"
  by (induction bs) auto

lemma nth_byte_bits [simp]: "i < 8 \<Longrightarrow> byte_bits lsb b ! i = bit b (bit_pos lsb i)"
  by (simp add: byte_bits_def)

lemma bit_bits_byte:
  assumes "length bs \<le> 8"
  shows "bit (bits_byte lsb bs) n \<longleftrightarrow> n < 8 \<and> bit_pos lsb n < length bs \<and> bs ! bit_pos lsb n"
proof (cases lsb)
  case True
  with assms show ?thesis
    by (auto simp: bits_byte_def bit_pos_def bit_horner_sum_bit_word_iff)
next
  case False
  have "length (take 8 (bs @ replicate 8 False)) = 8"
    by simp
  with False assms show ?thesis
    by (auto simp: bits_byte_def bit_pos_def bit_horner_sum_bit_word_iff rev_nth nth_append
        simp del: take_append split: if_splits)
qed

lemma bits_byte_Nil [simp]: "bits_byte lsb [] = 0"
  by (rule bit_word_eqI) (simp add: bit_bits_byte)

lemma byte_bits_bits_byte [bits_simps]:
  assumes "length bs = 8"
  shows "byte_bits lsb (bits_byte lsb bs) = bs"
  using assms by (intro nth_equalityI) (auto simp: bit_bits_byte bit_pos_def)

lemma bits_byte_byte_bits [bits_simps]: "bits_byte lsb (byte_bits lsb b) = b"
  by (rule bit_word_eqI) (auto simp: bit_bits_byte bit_pos_def)

lemma byte_bits_inject: "byte_bits lsb a = byte_bits lsb b \<longleftrightarrow> a = b"
  by (metis bits_byte_byte_bits)

text \<open>A partial byte is zero padded.\<close>

lemma byte_bits_pad:
  assumes "length bs \<le> 8"
  shows "byte_bits lsb (bits_byte lsb bs) = bs @ replicate (8 - length bs) False"
  using assms
  by (intro nth_equalityI) (auto simp: bit_bits_byte bit_pos_def nth_append)

lemma div8_Suc:
  fixes n :: nat
  shows "n mod 8 = 7 \<Longrightarrow> Suc n div 8 = Suc (n div 8)" and "n mod 8 \<noteq> 7 \<Longrightarrow> Suc n div 8 = n div 8"
  by (auto simp: div_Suc mod_Suc)

lemma div8_exact:
  fixes n :: nat
  shows "n mod 8 = 0 \<Longrightarrow> (n + 7) div 8 = n div 8"
  by (simp add: div_add1_eq)

lemma div8_round_up:
  fixes n :: nat
  assumes "n mod 8 \<noteq> 0"
  shows "(n + 7) div 8 = Suc (n div 8)"
proof -
  have "n + 7 = (n mod 8 - 1) + Suc (n div 8) * 8"
    using assms div_mult_mod_eq [of n 8] by (simp only: mult_Suc)
  moreover have "(n mod 8 - 1) div 8 = 0"
    using mod_less_divisor [of 8 n] by (simp del: mod_less_divisor)
  ultimately show ?thesis
    by (simp only: div_mult_self1)
qed

text \<open>
  A bit list as bytes: the complete bytes, the bits left over, and all of it with the last
  byte zero padded.
\<close>

definition full_bytes :: "bool \<Rightarrow> bool list \<Rightarrow> byte list" where
  "full_bytes lsb bs = map (\<lambda>i. bits_byte lsb (take 8 (drop (8 * i) bs))) [0..<length bs div 8]"

definition rest_bits :: "bool list \<Rightarrow> bool list" where
  "rest_bits bs = drop (8 * (length bs div 8)) bs"

definition padded_bytes :: "bool \<Rightarrow> bool list \<Rightarrow> byte list" where
  "padded_bytes lsb bs =
     full_bytes lsb bs @ (if rest_bits bs = [] then [] else [bits_byte lsb (rest_bits bs)])"

lemma length_full_bytes [simp]: "length (full_bytes lsb bs) = length bs div 8"
  by (simp add: full_bytes_def)

lemma length_rest_bits [simp]: "length (rest_bits bs) = length bs mod 8"
  by (simp add: rest_bits_def minus_mult_div_eq_mod)

lemma rest_bits_Nil_iff: "rest_bits bs = [] \<longleftrightarrow> length bs mod 8 = 0"
  by (metis length_0_conv length_rest_bits)

lemma full_bytes_Nil [simp]: "full_bytes lsb [] = []"
  by (simp add: full_bytes_def)

lemma rest_bits_Nil [simp]: "rest_bits [] = []"
  by (simp add: rest_bits_def)

lemma length_padded_bytes: "length (padded_bytes lsb bs) = (length bs + 7) div 8"
  by (cases "length bs mod 8 = 0")
    (auto simp: padded_bytes_def rest_bits_Nil_iff div8_round_up div8_exact)

text \<open>Appending one bit, as the encoder does.\<close>

lemma full_bytes_snoc:
  "full_bytes lsb (bs @ [b]) =
     (if length bs mod 8 = 7 then full_bytes lsb bs @ [bits_byte lsb (rest_bits bs @ [b])]
      else full_bytes lsb bs)"
proof -
  let ?n = "length bs div 8"
  have split: "length bs = 8 * ?n + length bs mod 8"
    by simp
  have keep: "take 8 (drop (8 * i) (bs @ [b])) = take 8 (drop (8 * i) bs)" if "i < ?n" for i
    using that by simp
  show ?thesis
  proof (cases "length bs mod 8 = 7")
    case True
    have "length (bs @ [b]) div 8 = Suc ?n"
      using True by (simp add: div8_Suc)
    moreover have "take 8 (drop (8 * ?n) (bs @ [b])) = rest_bits bs @ [b]"
      using True split by (simp add: rest_bits_def)
    ultimately show ?thesis
      using True keep by (simp add: full_bytes_def)
  next
    case False
    have "length (bs @ [b]) div 8 = ?n"
      using False by (simp add: div8_Suc)
    then show ?thesis
      using False keep by (simp add: full_bytes_def)
  qed
qed

lemma rest_bits_snoc:
  "rest_bits (bs @ [b]) = (if length bs mod 8 = 7 then [] else rest_bits bs @ [b])"
proof (cases "length bs mod 8 = 7")
  case True
  then have "length (bs @ [b]) mod 8 = 0"
    by (simp add: mod_Suc)
  with True show ?thesis
    by (simp add: rest_bits_Nil_iff del: length_append)
next
  case False
  then have "Suc (length bs) div 8 = length bs div 8"
    by (simp add: div8_Suc)
  with False show ?thesis
    by (simp add: rest_bits_def)
qed

lemma bytes_bits_full_bytes:
  "bytes_bits lsb (full_bytes lsb bs) = take (8 * (length bs div 8)) bs"
proof (induction bs rule: rev_induct)
  case Nil
  then show ?case by simp
next
  case (snoc b bs)
  show ?case
  proof (cases "length bs mod 8 = 7")
    case True
    then have "Suc (length bs) div 8 = Suc (length bs div 8)"
      by (simp add: div8_Suc)
    moreover have "length (rest_bits bs @ [b]) = 8"
      using True by simp
    moreover have "8 + 8 * (length bs div 8) = Suc (length bs)"
      using True div_mult_mod_eq [of "length bs" 8] by linarith
    ultimately show ?thesis
      using True snoc by (simp add: full_bytes_snoc byte_bits_bits_byte rest_bits_def)
  next
    case False
    then have "Suc (length bs) div 8 = length bs div 8"
      by (simp add: div8_Suc)
    with False snoc show ?thesis
      by (simp add: full_bytes_snoc)
  qed
qed

lemma bytes_bits_padded_bytes:
  "\<exists>pad < 8. bytes_bits lsb (padded_bytes lsb bs) = bs @ replicate pad False"
proof (cases "rest_bits bs = []")
  case True
  then have "8 * (length bs div 8) = length bs"
    by (auto simp: rest_bits_Nil_iff)
  with True have "bytes_bits lsb (padded_bytes lsb bs) = bs @ replicate 0 False"
    by (simp add: padded_bytes_def bytes_bits_full_bytes)
  then show ?thesis
    by (intro exI [of _ 0]) simp
next
  case False
  have "take (8 * (length bs div 8)) bs @ rest_bits bs = bs"
    by (simp add: rest_bits_def)
  then have "bytes_bits lsb (padded_bytes lsb bs) = bs @ replicate (8 - length bs mod 8) False"
    using False by (simp add: padded_bytes_def bytes_bits_full_bytes byte_bits_pad less_imp_le)
  moreover have "8 - length bs mod 8 < 8"
    using False by (simp add: rest_bits_Nil_iff)
  ultimately show ?thesis
    by blast
qed

lemma nth_bytes_bits:
  assumes "i < 8 * length bs"
  shows "bytes_bits lsb bs ! i = bit (bs ! (i div 8)) (bit_pos lsb (i mod 8))"
  using assms
proof (induction bs arbitrary: i)
  case Nil
  then show ?case by simp
next
  case (Cons b bs)
  show ?case
  proof (cases "i < 8")
    case True
    then show ?thesis by (simp add: nth_append)
  next
    case False
    then have "i div 8 = Suc ((i - 8) div 8)" "i mod 8 = (i - 8) mod 8"
      by (simp_all add: le_div_geq le_mod_geq)
    with False Cons.IH [of "i - 8"] Cons.prems show ?thesis
      by (simp add: nth_append)
  qed
qed

lemma full_bytes_step:
  assumes "8 \<le> length bs"
  shows "full_bytes lsb bs = bits_byte lsb (take 8 bs) # full_bytes lsb (drop 8 bs)"
proof -
  obtain n where n: "length bs div 8 = Suc n"
    using assms by (cases "length bs div 8") auto
  then have "length (drop 8 bs) div 8 = n"
    using assms by (simp add: le_div_geq)
  then show ?thesis
    by (simp add: full_bytes_def n upt_conv_Cons map_Suc_upt [symmetric] add.commute
        del: upt_Suc length_drop)
qed

lemma full_bytes_short: "length bs < 8 \<Longrightarrow> full_bytes lsb bs = []"
  by (simp add: full_bytes_def)

lemma full_bytes_bytes_bits [bits_simps]:
  "length rest < 8 \<Longrightarrow> full_bytes lsb (bytes_bits lsb bs @ rest) = bs"
proof (induction bs)
  case Nil
  then show ?case by (simp add: full_bytes_short)
next
  case (Cons b bs)
  then show ?case
    by (subst full_bytes_step) (simp_all add: bits_byte_byte_bits)
qed

end
