(* ===== verification/Fifo_Spec.thy ===== *)
theory Fifo_Spec
  imports E2S_Prelude
begin

text \<open>
  The contract shared by the bounded queues of the firmware (the generic ring buffer under the TX
  queue and the control-plane event queue): a first-in first-out list of at most \<open>cap\<close> elements
  whose push is refused, and changes nothing queued, when full.  The index arithmetic of the rings
  that keep one slot free is here too; the event queue and the log queue use it.

  Clients only rely on the laws of the locale \<open>bounded_fifo\<close>; each queue's theory interprets
  it on its own definitions.  The main consequence proved here is that any interleaving of
  pushes and pops is observationally the abstract list queue.
\<close>

section \<open>The abstract queue\<close>

datatype 'a fifo_op = Push 'a | Pop

datatype 'a fifo_obs = Pushed bool | Popped "'a option"

text \<open>Running an operation sequence on an implementation, collecting what each call returns.\<close>

fun fifo_run ::
  "('a \<Rightarrow> 'q \<Rightarrow> bool \<times> 'q) \<Rightarrow> ('q \<Rightarrow> 'a option \<times> 'q) \<Rightarrow> 'a fifo_op list \<Rightarrow> 'q \<Rightarrow> 'a fifo_obs list \<times> 'q"
where
  "fifo_run push pop [] q = ([], q)"
| "fifo_run push pop (Push x # ops) q =
     (let (ok, q1) = push x q; (obs, q2) = fifo_run push pop ops q1 in (Pushed ok # obs, q2))"
| "fifo_run push pop (Pop # ops) q =
     (let (r, q1) = pop q; (obs, q2) = fifo_run push pop ops q1 in (Popped r # obs, q2))"

text \<open>The same sequence on a plain list of bounded length.\<close>

fun list_run :: "nat \<Rightarrow> 'a fifo_op list \<Rightarrow> 'a list \<Rightarrow> 'a fifo_obs list \<times> 'a list" where
  "list_run n [] xs = ([], xs)"
| "list_run n (Push x # ops) xs =
     (if length xs < n
      then let (obs, ys) = list_run n ops (xs @ [x]) in (Pushed True # obs, ys)
      else let (obs, ys) = list_run n ops xs in (Pushed False # obs, ys))"
| "list_run n (Pop # ops) xs =
     (case xs of
        [] \<Rightarrow> let (obs, ys) = list_run n ops [] in (Popped None # obs, ys)
      | x # rest \<Rightarrow> let (obs, ys) = list_run n ops rest in (Popped (Some x) # obs, ys))"

section \<open>The interface\<close>

locale bounded_fifo =
  fixes push :: "'a \<Rightarrow> 'q \<Rightarrow> bool \<times> 'q"
    and pop :: "'q \<Rightarrow> 'a option \<times> 'q"
    and contents :: "'q \<Rightarrow> 'a list"
    and cap :: "'q \<Rightarrow> nat"
    and invar :: "'q \<Rightarrow> bool"
  assumes within_cap: "invar q \<Longrightarrow> length (contents q) \<le> cap q"
    and push_room: "invar q \<Longrightarrow> length (contents q) < cap q \<Longrightarrow>
      fst (push x q) \<and> contents (snd (push x q)) = contents q @ [x]"
    and push_full: "invar q \<Longrightarrow> length (contents q) = cap q \<Longrightarrow>
      \<not> fst (push x q) \<and> contents (snd (push x q)) = contents q"
    and pop_none: "invar q \<Longrightarrow> contents q = [] \<Longrightarrow>
      fst (pop q) = None \<and> contents (snd (pop q)) = []"
    and pop_some: "invar q \<Longrightarrow> contents q = y # ys \<Longrightarrow>
      fst (pop q) = Some y \<and> contents (snd (pop q)) = ys"
    and push_keeps: "invar q \<Longrightarrow> invar (snd (push x q)) \<and> cap (snd (push x q)) = cap q"
    and pop_keeps: "invar q \<Longrightarrow> invar (snd (pop q)) \<and> cap (snd (pop q)) = cap q"
begin

lemma push_accepted_iff: "invar q \<Longrightarrow> fst (push x q) \<longleftrightarrow> length (contents q) < cap q"
  using push_room push_full within_cap nat_less_le by blast

lemma pop_is_hd: "invar q \<Longrightarrow> fst (pop q) = (case contents q of [] \<Rightarrow> None | y # _ \<Rightarrow> Some y)"
  by (cases "contents q") (auto simp: pop_none pop_some)

lemma pop_is_tl: "invar q \<Longrightarrow> contents (snd (pop q)) = tl (contents q)"
  by (cases "contents q") (auto simp: pop_none pop_some)

theorem run_refines:
  assumes "invar q"
  shows "fst (fifo_run push pop ops q) = fst (list_run (cap q) ops (contents q))
    \<and> contents (snd (fifo_run push pop ops q)) = snd (list_run (cap q) ops (contents q))
    \<and> invar (snd (fifo_run push pop ops q))
    \<and> cap (snd (fifo_run push pop ops q)) = cap q"
  using assms
proof (induction ops arbitrary: q)
  case Nil
  then show ?case by simp
next
  case (Cons op ops)
  show ?case
  proof (cases op)
    case (Push x)
    define q1 where "q1 = snd (push x q)"
    have q1: "invar q1" "cap q1 = cap q"
      using push_keeps [OF Cons.prems] by (auto simp: q1_def)
    show ?thesis
    proof (cases "length (contents q) < cap q")
      case True
      then have "push x q = (True, q1)" "contents q1 = contents q @ [x]"
        using push_room [OF Cons.prems True, of x] by (auto simp: q1_def prod_eq_iff)
      with True Push Cons.IH [OF q1(1)] q1 show ?thesis
        by (auto simp: split_beta Let_def)
    next
      case False
      then have "length (contents q) = cap q"
        using within_cap [OF Cons.prems] by simp
      then have "push x q = (False, q1)" "contents q1 = contents q"
        using push_full [OF Cons.prems, of x] by (auto simp: q1_def prod_eq_iff)
      with False Push Cons.IH [OF q1(1)] q1 show ?thesis
        by (auto simp: split_beta Let_def)
    qed
  next
    case Pop
    define q1 where "q1 = snd (pop q)"
    have q1: "invar q1" "cap q1 = cap q"
      using pop_keeps [OF Cons.prems] by (auto simp: q1_def)
    show ?thesis
    proof (cases "contents q")
      case Nil
      then have "pop q = (None, q1)" "contents q1 = []"
        using pop_none [OF Cons.prems Nil] by (auto simp: q1_def prod_eq_iff)
      with Nil Pop Cons.IH [OF q1(1)] q1 show ?thesis
        by (auto simp: split_beta Let_def)
    next
      case (Cons y ys)
      then have "pop q = (Some y, q1)" "contents q1 = ys"
        using pop_some [OF Cons.prems Cons] by (auto simp: q1_def prod_eq_iff)
      with Cons Pop Cons.IH [OF q1(1)] q1 show ?thesis
        by (auto simp: split_beta Let_def)
    qed
  qed
qed

end

section \<open>Rings with one free slot\<close>

text \<open>
  The event queue and the log queue keep a write and a read index into \<open>N\<close> slots and never fill the
  last slot, so that equal indices mean empty.
\<close>

definition gap_count :: "nat \<Rightarrow> nat \<Rightarrow> nat \<Rightarrow> nat" where
  "gap_count N w r = (w + N - r) mod N"

definition gap_contents :: "nat \<Rightarrow> 'a list \<Rightarrow> nat \<Rightarrow> nat \<Rightarrow> 'a list" where
  "gap_contents N slots w r = ring_slice slots N r (gap_count N w r)"

lemma gap_count_eq:
  assumes "w < N" "r < N"
  shows "gap_count N w r = (if r \<le> w then w - r else w + N - r)"
proof (cases "r \<le> w")
  case True
  then have "w + N - r = (w - r) + N"
    by simp
  then show ?thesis
    unfolding gap_count_def using assms True by (simp only: mod_add_self2) simp
qed (use assms in \<open>simp add: gap_count_def\<close>)

lemma length_gap_contents [simp]: "length (gap_contents N slots w r) = gap_count N w r"
  by (simp add: gap_contents_def)

lemma gap_count_less: "w < N \<Longrightarrow> gap_count N w r < N"
  by (simp add: gap_count_def)

lemma gap_empty_iff: "w < N \<Longrightarrow> r < N \<Longrightarrow> gap_count N w r = 0 \<longleftrightarrow> w = r"
  by (auto simp: gap_count_eq)

lemma gap_full_iff: "w < N \<Longrightarrow> r < N \<Longrightarrow> Suc w mod N = r \<longleftrightarrow> gap_count N w r = N - 1"
  by (auto simp: gap_count_eq mod_Suc)

lemma gap_slot: "w < N \<Longrightarrow> r < N \<Longrightarrow> (r + gap_count N w r) mod N = w"
  by (auto simp: gap_count_eq)

lemma gap_count_push:
  "w < N \<Longrightarrow> r < N \<Longrightarrow> Suc w mod N \<noteq> r \<Longrightarrow> gap_count N (Suc w mod N) r = Suc (gap_count N w r)"
  by (auto simp: gap_count_eq mod_Suc split: if_splits)

lemma gap_count_pop:
  "w < N \<Longrightarrow> r < N \<Longrightarrow> w \<noteq> r \<Longrightarrow> gap_count N w r = Suc (gap_count N w (Suc r mod N))"
  by (auto simp: gap_count_eq mod_Suc split: if_splits)

lemma gap_contents_push [ring_simps]:
  assumes "w < N" "r < N" "N \<le> length slots" "Suc w mod N \<noteq> r"
  shows "gap_contents N (slots[w := x]) (Suc w mod N) r = gap_contents N slots w r @ [x]"
proof -
  have "gap_count N w r < N - 1"
    using gap_full_iff [OF assms(1,2)] gap_count_less [OF assms(1), of r] assms(4) by simp
  then have "gap_count N w r < N"
    by simp
  from ring_slice_snoc [OF this assms(3), of r x] show ?thesis
    using gap_slot [OF assms(1,2)] gap_count_push [OF assms(1,2,4)] by (simp add: gap_contents_def)
qed

lemma gap_contents_pop [ring_simps]:
  assumes "w < N" "r < N" "w \<noteq> r"
  shows "gap_contents N slots w r = slots ! r # gap_contents N slots w (Suc r mod N)"
  using assms gap_count_pop [OF assms] by (simp add: gap_contents_def ring_slice_Cons)

text \<open>Writing the free slot does not disturb what is queued.\<close>

lemma gap_contents_free [ring_simps]:
  assumes "w < N" "r < N"
  shows "gap_contents N (slots[w := x]) w r = gap_contents N slots w r"
proof -
  have "w \<noteq> (r + i) mod N" if "i < gap_count N w r" for i
    using ring_slot_neq [OF that gap_count_less [OF assms(1)]] gap_slot [OF assms] by metis
  then show ?thesis
    by (auto simp: gap_contents_def ring_slice_def)
qed

end
