(* ===== verification/Ringbuffer.thy ===== *)
theory Ringbuffer
  imports Fifo_Spec
begin

text \<open>
  The generic ring buffer of \<open>src/system/ringbuffer.c\<close>.  The C structure holds raw memory and
  pointers into it; the model keeps the pointers as byte offsets from \<open>buffer\<close> (so that the
  pointer arithmetic and the comparison with \<open>bufferEnd\<close> are the source's) and the memory as
  its sequence of element slots of \<open>itemSizeInByte\<close> bytes each: a \<open>memcpy\<close> of one element at
  byte offset \<open>p\<close> reads or writes slot \<open>p div itemSizeInByte\<close>.

  Shown here: the representation invariant and its preservation, and that the buffer
  implements the interface \<open>bounded_fifo\<close>; the overwriting push keeps the newest elements.
\<close>

section \<open>The structure and its operations\<close>

record 'a Ringbuffer =
  rb_buffer :: "'a list"
  rb_bufferEnd :: nat
  rb_capacity :: nat
  rb_count :: nat
  rb_itemSizeInByte :: nat
  rb_head :: nat
  rb_tail :: nat

text \<open>
  \<open>zero\<close> is the element whose bytes are all zero, which \<open>memset\<close> leaves in every slot.
  \<open>None\<close> is the \<open>NULL\<close> buffer pointer: only the field \<open>buffer\<close> is written then.
\<close>

definition RbInit ::
  "'a \<Rightarrow> 'a Ringbuffer \<Rightarrow> 'a list option \<Rightarrow> nat \<Rightarrow> nat \<Rightarrow> int \<times> 'a Ringbuffer" where
  "RbInit zero rb bufferPointer capacity itemSizeInByte =
     (case bufferPointer of
        None \<Rightarrow> (- 1, rb\<lparr>rb_buffer := []\<rparr>)
      | Some slots \<Rightarrow>
          (0, rb\<lparr>rb_buffer := replicate capacity zero @ drop capacity slots,
                 rb_bufferEnd := capacity * itemSizeInByte,
                 rb_capacity := capacity,
                 rb_count := 0,
                 rb_itemSizeInByte := itemSizeInByte,
                 rb_head := 0,
                 rb_tail := 0\<rparr>))"

text \<open>One element forward, back to the start at \<open>bufferEnd\<close>.\<close>

definition rb_advance :: "'a Ringbuffer \<Rightarrow> nat \<Rightarrow> nat" where
  "rb_advance rb p =
     (let p' = p + rb_itemSizeInByte rb in if p' = rb_bufferEnd rb then 0 else p')"

definition RbPushBack :: "'a Ringbuffer \<Rightarrow> 'a \<Rightarrow> int \<times> 'a Ringbuffer" where
  "RbPushBack rb element =
     (if rb_count rb = rb_capacity rb then (- 1, rb)
      else (0, rb\<lparr>rb_buffer := (rb_buffer rb)[rb_head rb div rb_itemSizeInByte rb := element],
                  rb_head := rb_advance rb (rb_head rb),
                  rb_count := Suc (rb_count rb)\<rparr>))"

text \<open>The popped element is returned instead of written through the output pointer.\<close>

definition RbPopFront :: "'a Ringbuffer \<Rightarrow> int \<times> 'a option \<times> 'a Ringbuffer" where
  "RbPopFront rb =
     (if rb_count rb = 0 then (- 1, None, rb)
      else (0, Some (rb_buffer rb ! (rb_tail rb div rb_itemSizeInByte rb)),
            rb\<lparr>rb_tail := rb_advance rb (rb_tail rb),
               rb_count := rb_count rb - 1\<rparr>))"

definition RbPushBackWrap :: "'a Ringbuffer \<Rightarrow> 'a \<Rightarrow> 'a Ringbuffer" where
  "RbPushBackWrap rb element =
     (let rb1 = (if rb_count rb = rb_capacity rb
                 then rb\<lparr>rb_tail := rb_advance rb (rb_tail rb)\<rparr>
                 else rb\<lparr>rb_count := Suc (rb_count rb)\<rparr>)
      in rb1\<lparr>rb_buffer := (rb_buffer rb1)[rb_head rb1 div rb_itemSizeInByte rb1 := element],
             rb_head := rb_advance rb1 (rb_head rb1)\<rparr>)"

section \<open>Representation\<close>

abbreviation rb_tail_slot :: "'a Ringbuffer \<Rightarrow> nat" where
  "rb_tail_slot rb \<equiv> rb_tail rb div rb_itemSizeInByte rb"

text \<open>The queued elements, oldest first.\<close>

definition rb_contents :: "'a Ringbuffer \<Rightarrow> 'a list" where
  "rb_contents rb = ring_slice (rb_buffer rb) (rb_capacity rb) (rb_tail_slot rb) (rb_count rb)"

definition rb_inv :: "'a Ringbuffer \<Rightarrow> bool" where
  "rb_inv rb \<longleftrightarrow>
     0 < rb_capacity rb \<and> 0 < rb_itemSizeInByte rb \<and>
     rb_bufferEnd rb = rb_capacity rb * rb_itemSizeInByte rb \<and>
     rb_capacity rb \<le> length (rb_buffer rb) \<and>
     rb_count rb \<le> rb_capacity rb \<and>
     rb_tail_slot rb < rb_capacity rb \<and>
     rb_tail rb = rb_tail_slot rb * rb_itemSizeInByte rb \<and>
     rb_head rb = ((rb_tail_slot rb + rb_count rb) mod rb_capacity rb) * rb_itemSizeInByte rb"

lemma length_rb_contents [simp]: "length (rb_contents rb) = rb_count rb"
  by (simp add: rb_contents_def)

text \<open>On slot boundaries, advancing a pointer is the successor modulo the capacity.\<close>

lemma rb_advance_slot:
  assumes "0 < rb_itemSizeInByte rb" "rb_bufferEnd rb = rb_capacity rb * rb_itemSizeInByte rb"
    and "k < rb_capacity rb"
  shows "rb_advance rb (k * rb_itemSizeInByte rb) = (Suc k mod rb_capacity rb) * rb_itemSizeInByte rb"
proof -
  have "k * rb_itemSizeInByte rb + rb_itemSizeInByte rb = Suc k * rb_itemSizeInByte rb"
    by simp
  then show ?thesis
    using assms
    by (cases "Suc k = rb_capacity rb") (auto simp: rb_advance_def Let_def simp del: mult_Suc)
qed

lemma RbInit_inv:
  assumes "0 < capacity" "0 < item"
  shows "rb_inv (snd (RbInit zero rb (Some slots) capacity item))"
  using assms by (simp add: RbInit_def rb_inv_def)

lemma RbInit_contents: "rb_contents (snd (RbInit zero rb (Some slots) capacity item)) = []"
  by (simp add: RbInit_def rb_contents_def)

lemma RbPushBack_room:
  assumes "rb_inv rb" "rb_count rb < rb_capacity rb"
  shows "fst (RbPushBack rb x) = 0"
    and "rb_contents (snd (RbPushBack rb x)) = rb_contents rb @ [x]"
    and "rb_inv (snd (RbPushBack rb x))"
proof -
  let ?t = "rb_tail_slot rb" and ?n = "rb_count rb" and ?N = "rb_capacity rb"
  have head: "rb_head rb div rb_itemSizeInByte rb = (?t + ?n) mod ?N"
    using assms(1) by (simp add: rb_inv_def)
  have "(?t + ?n) mod ?N < ?N"
    using assms by (simp add: rb_inv_def)
  then have adv: "rb_advance rb (rb_head rb) = ((?t + Suc ?n) mod ?N) * rb_itemSizeInByte rb"
    using assms(1) rb_advance_slot [of rb "(?t + ?n) mod ?N"]
    by (simp add: rb_inv_def mod_Suc_eq)
  show "fst (RbPushBack rb x) = 0"
    using assms by (simp add: RbPushBack_def)
  show "rb_contents (snd (RbPushBack rb x)) = rb_contents rb @ [x]"
    using assms head by (simp add: RbPushBack_def rb_contents_def rb_inv_def ring_slice_snoc)
  show "rb_inv (snd (RbPushBack rb x))"
    using assms adv unfolding rb_inv_def by (simp add: RbPushBack_def)
qed

lemma RbPopFront_some:
  assumes "rb_inv rb" "rb_count rb > 0"
  shows "RbPopFront rb = (0, Some (hd (rb_contents rb)), snd (snd (RbPopFront rb)))"
    and "rb_contents (snd (snd (RbPopFront rb))) = tl (rb_contents rb)"
    and "rb_inv (snd (snd (RbPopFront rb)))"
proof -
  let ?t = "rb_tail_slot rb" and ?N = "rb_capacity rb"
  obtain m where m: "rb_count rb = Suc m"
    using assms(2) gr0_implies_Suc by blast
  have adv: "rb_advance rb (rb_tail rb) = (Suc ?t mod ?N) * rb_itemSizeInByte rb"
    using assms(1) rb_advance_slot [of rb ?t] by (auto simp: rb_inv_def)
  have cont: "rb_contents rb = rb_buffer rb ! ?t # ring_slice (rb_buffer rb) ?N (Suc ?t mod ?N) m"
    using assms(1) m by (simp add: rb_contents_def ring_slice_Cons rb_inv_def)
  show "RbPopFront rb = (0, Some (hd (rb_contents rb)), snd (snd (RbPopFront rb)))"
    using m cont by (simp add: RbPopFront_def)
  show "rb_contents (snd (snd (RbPopFront rb))) = tl (rb_contents rb)"
    using assms(1) m cont adv by (simp add: RbPopFront_def rb_contents_def rb_inv_def)
  show "rb_inv (snd (snd (RbPopFront rb)))"
    using assms(1) m adv unfolding rb_inv_def by (simp add: RbPopFront_def mod_simps)
qed

section \<open>The interface\<close>

text \<open>The two calls as clients see them: success flag, or the popped element.\<close>

definition rb_push :: "'a \<Rightarrow> 'a Ringbuffer \<Rightarrow> bool \<times> 'a Ringbuffer" where
  "rb_push x rb = (let (rc, rb') = RbPushBack rb x in (0 \<le> rc, rb'))"

definition rb_pop :: "'a Ringbuffer \<Rightarrow> 'a option \<times> 'a Ringbuffer" where
  "rb_pop rb = (let (rc, el, rb') = RbPopFront rb in (if 0 \<le> rc then el else None, rb'))"

lemma RbPushBack_full: "rb_count rb = rb_capacity rb \<Longrightarrow> RbPushBack rb x = (- 1, rb)"
  by (simp add: RbPushBack_def)

lemma RbPopFront_empty: "rb_count rb = 0 \<Longrightarrow> RbPopFront rb = (- 1, None, rb)"
  by (simp add: RbPopFront_def)

lemma RbPushBack_capacity [simp]: "rb_capacity (snd (RbPushBack rb x)) = rb_capacity rb"
  by (simp add: RbPushBack_def)

lemma RbPopFront_capacity [simp]: "rb_capacity (snd (snd (RbPopFront rb))) = rb_capacity rb"
  by (simp add: RbPopFront_def)

interpretation rbq: bounded_fifo rb_push rb_pop rb_contents rb_capacity rb_inv
proof unfold_locales
  fix q :: "'a Ringbuffer" and x y ys
  assume inv: "rb_inv q"
  show "length (rb_contents q) \<le> rb_capacity q"
    using inv by (simp add: rb_inv_def)
  show "fst (rb_push x q) \<and> rb_contents (snd (rb_push x q)) = rb_contents q @ [x]"
    if "length (rb_contents q) < rb_capacity q"
    using RbPushBack_room [OF inv, of x] that by (simp add: rb_push_def split_beta)
  show "\<not> fst (rb_push x q) \<and> rb_contents (snd (rb_push x q)) = rb_contents q"
    if "length (rb_contents q) = rb_capacity q"
    using that by (simp add: rb_push_def RbPushBack_full)
  show "fst (rb_pop q) = None \<and> rb_contents (snd (rb_pop q)) = []" if "rb_contents q = []"
  proof -
    have "rb_count q = 0"
      using that length_rb_contents [of q] by simp
    with that show ?thesis
      by (simp add: rb_pop_def RbPopFront_empty)
  qed
  show "fst (rb_pop q) = Some y \<and> rb_contents (snd (rb_pop q)) = ys" if "rb_contents q = y # ys"
  proof -
    have pos: "rb_count q > 0"
      using that length_rb_contents [of q] by simp
    show ?thesis
      using RbPopFront_some(1,2) [OF inv pos] that
      by (cases "RbPopFront q") (auto simp: rb_pop_def)
  qed
  show "rb_inv (snd (rb_push x q)) \<and> rb_capacity (snd (rb_push x q)) = rb_capacity q"
    using inv RbPushBack_room(3) [OF inv, of x]
    by (cases "rb_count q < rb_capacity q")
      (auto simp: rb_push_def split_beta RbPushBack_full rb_inv_def)
  show "rb_inv (snd (rb_pop q)) \<and> rb_capacity (snd (rb_pop q)) = rb_capacity q"
    using inv RbPopFront_some(3) [OF inv]
    by (cases "rb_count q = 0") (auto simp: rb_pop_def split_beta RbPopFront_empty)
qed

section \<open>Properties\<close>

text \<open>
  C20.  Over any sequence of \<open>RbPushBack\<close> and \<open>RbPopFront\<close> calls a ring buffer returns exactly
  what a list of at most \<open>capacity\<close> elements returns: elements come out in the order they were
  accepted, a push is refused exactly when \<open>capacity\<close> elements are queued, a pop fails exactly
  when none is, and the representation invariant is kept.
\<close>

theorem ringbuffer_refines_list_queue:
  assumes "rb_inv rb"
  shows "fst (fifo_run rb_push rb_pop ops rb) = fst (list_run (rb_capacity rb) ops (rb_contents rb))
    \<and> rb_contents (snd (fifo_run rb_push rb_pop ops rb)) = snd (list_run (rb_capacity rb) ops (rb_contents rb))
    \<and> rb_inv (snd (fifo_run rb_push rb_pop ops rb))"
  using rbq.run_refines [OF assms] by blast

theorem ringbuffer_refines_list_queue_witness:
  "fst (fifo_run rb_push rb_pop [Push 7, Push 8, Push 9, Pop, Push 5, Pop, Pop, Pop]
        (snd (RbInit 0 \<lparr>rb_buffer = [], rb_bufferEnd = 0, rb_capacity = 0, rb_count = 0,
                       rb_itemSizeInByte = 0, rb_head = 0, rb_tail = 0\<rparr> (Some [1, 1]) 2 (4::nat))))
     = [Pushed True, Pushed True, Pushed False, Popped (Some (7::nat)), Pushed True,
        Popped (Some 8), Popped (Some 5), Popped None]"
  by (subst ringbuffer_refines_list_queue [THEN conjunct1])
    (simp_all add: RbInit_inv RbInit_contents, simp add: RbInit_def)

text \<open>
  The overwriting push \<open>RbPushBackWrap\<close> always stores the element: it appends while there is
  room and, on a full buffer, drops exactly the oldest element; the invariant is kept.
\<close>

lemma RbPushBackWrap_keeps_newest:
  assumes "rb_inv rb"
  shows "rb_contents (RbPushBackWrap rb x) =
      (if rb_count rb = rb_capacity rb then tl (rb_contents rb) @ [x] else rb_contents rb @ [x])
    \<and> rb_inv (RbPushBackWrap rb x)"
proof (cases "rb_count rb = rb_capacity rb")
  case False
  then have "RbPushBackWrap rb x = snd (RbPushBack rb x)"
    by (simp add: RbPushBackWrap_def RbPushBack_def rb_advance_def Let_def)
  moreover have "rb_count rb < rb_capacity rb"
    using assms False by (simp add: rb_inv_def)
  ultimately show ?thesis
    using RbPushBack_room [OF assms] False by simp
next
  case True
  have pos: "rb_count rb > 0"
    using True assms by (simp add: rb_inv_def)
  define rb1 where "rb1 = snd (snd (RbPopFront rb))"
  have "RbPushBackWrap rb x = snd (RbPushBack rb1 x)" "rb_count rb1 < rb_capacity rb1"
    using True pos
    by (auto simp: RbPushBackWrap_def RbPushBack_def RbPopFront_def rb1_def rb_advance_def Let_def)
  then show ?thesis
    using True RbPushBack_room [of rb1 x] RbPopFront_some(2,3) [OF assms pos]
    by (simp add: rb1_def)
qed

end
