(* ===== verification/Log_Queue.thy ===== *)
theory Log_Queue
  imports Fifo_Spec
begin

text \<open>
  \<open>src/system/log.c\<close>: the queue of formatted log lines between the main core, which produces them,
  and the second core, which prints them.  Head and tail are 16 bit words reduced with a mask, as in
  the source.  Formatting (\<open>vsnprintf\<close>) is done by the caller of the model: \<open>None\<close> is a formatting
  error, \<open>Some text\<close> the full text, of which the queue keeps what fits its 160 byte slots.

  Shown here: each operation on its own keeps the queue in order with room for 127 lines and the
  printing loop ends; and under every interleaving of the two cores the lines come out in order,
  none lost, duplicated or torn.
\<close>

section \<open>Levels\<close>

datatype log_level_t = LOG_LEVEL_PLAIN | LOG_LEVEL_ERROR | LOG_LEVEL_INFO | LOG_LEVEL_DEBUG | LOG_LEVEL_TRACE

fun log_level_rank :: "log_level_t \<Rightarrow> nat" where
  "log_level_rank LOG_LEVEL_PLAIN = 0"
| "log_level_rank LOG_LEVEL_ERROR = 1"
| "log_level_rank LOG_LEVEL_INFO = 2"
| "log_level_rank LOG_LEVEL_DEBUG = 3"
| "log_level_rank LOG_LEVEL_TRACE = 4"

instantiation log_level_t :: linorder
begin

definition less_eq_log_level_t :: "log_level_t \<Rightarrow> log_level_t \<Rightarrow> bool" where
  "less_eq_log_level_t a b \<longleftrightarrow> log_level_rank a \<le> log_level_rank b"

definition less_log_level_t :: "log_level_t \<Rightarrow> log_level_t \<Rightarrow> bool" where
  "less_log_level_t a b \<longleftrightarrow> log_level_rank a < log_level_rank b"

instance
proof
  fix a b c :: log_level_t
  show "a < b \<longleftrightarrow> a \<le> b \<and> \<not> b \<le> a" and "a \<le> a" and "a \<le> b \<or> b \<le> a"
    by (auto simp: less_eq_log_level_t_def less_log_level_t_def)
  show "a \<le> c" if "a \<le> b" "b \<le> c"
    using that by (simp add: less_eq_log_level_t_def)
  show "a = b" if "a \<le> b" "b \<le> a"
    using that by (cases a; cases b) (simp_all add: less_eq_log_level_t_def)
qed

end

section \<open>The queue\<close>

definition LOG_QUEUE_DEPTH :: nat where "LOG_QUEUE_DEPTH = 128"
definition LOG_QUEUE_MASK :: u16 where "LOG_QUEUE_MASK = 127"
definition LOG_LINE_MAX :: nat where "LOG_LINE_MAX = 160"

record global_log_state_t =
  lg_current_log_level :: log_level_t
  lg_head :: u16
  lg_tail :: u16
  lg_dropped :: u32
  lg_high_water_mark :: u32
  lg_log_emitted :: bool
  lg_queue :: "string list"

definition get_loglevel :: "global_log_state_t \<Rightarrow> log_level_t" where
  "get_loglevel s = lg_current_log_level s"

definition set_loglevel :: "log_level_t \<Rightarrow> global_log_state_t \<Rightarrow> global_log_state_t" where
  "set_loglevel level s = s\<lparr>lg_current_log_level := level\<rparr>"

text \<open>What a slot keeps of a formatted text: all but the terminating zero.\<close>

definition log_line :: "string \<Rightarrow> string" where
  "log_line text = take (LOG_LINE_MAX - 1) text"

definition log_write :: "log_level_t \<Rightarrow> string option \<Rightarrow> global_log_state_t \<Rightarrow> global_log_state_t" where
  "log_write level formatted s =
     (if lg_current_log_level s < level then s
      else (case formatted of
              None \<Rightarrow> s
            | Some text \<Rightarrow>
                let head = lg_head s; nxt = (head + 1) AND LOG_QUEUE_MASK in
                if nxt = lg_tail s then s\<lparr>lg_dropped := lg_dropped s + 1\<rparr>
                else
                  let s1 = s\<lparr>lg_queue := (lg_queue s)[unat head := log_line text], lg_head := nxt\<rparr>;
                      depth = ucast ((nxt - lg_tail s1) AND LOG_QUEUE_MASK);
                      s2 = (if depth > lg_high_water_mark s1 then s1\<lparr>lg_high_water_mark := depth\<rparr> else s1)
                  in if level > LOG_LEVEL_PLAIN then s2\<lparr>lg_log_emitted := True\<rparr> else s2))"

text \<open>One iteration of the printing loop of the second core: the line printed, if any.\<close>

definition log_drain_step :: "global_log_state_t \<Rightarrow> string option \<times> global_log_state_t" where
  "log_drain_step s =
     (if lg_tail s = lg_head s then (None, s)
      else (Some (lg_queue s ! unat (lg_tail s)), s\<lparr>lg_tail := (lg_tail s + 1) AND LOG_QUEUE_MASK\<rparr>))"

definition log_take_dropped_count :: "global_log_state_t \<Rightarrow> u32 \<times> global_log_state_t" where
  "log_take_dropped_count s = (lg_dropped s, s\<lparr>lg_dropped := 0\<rparr>)"

definition log_get_high_water_mark :: "global_log_state_t \<Rightarrow> u32" where
  "log_get_high_water_mark s = lg_high_water_mark s"

definition log_take_emitted_flag :: "global_log_state_t \<Rightarrow> bool \<times> global_log_state_t" where
  "log_take_emitted_flag s = (lg_log_emitted s, s\<lparr>lg_log_emitted := False\<rparr>)"

section \<open>Masked indices\<close>

lemma u16_eq_iff: "(x :: u16) = y \<longleftrightarrow> unat x = unat y"
  by (auto intro: unsigned_word_eqI)

lemma and_mask_mod: "unat (x AND LOG_QUEUE_MASK) = unat x mod 128"
proof -
  have "LOG_QUEUE_MASK = mask 7"
    by (simp add: LOG_QUEUE_MASK_def mask_eq_exp_minus_1)
  then have "unat (x AND LOG_QUEUE_MASK) = take_bit 7 (unat x)"
    by (metis take_bit_eq_mask unsigned_take_bit_eq)
  then show ?thesis
    by (simp add: take_bit_eq_mod)
qed

lemma next_index: "unat ((x + 1) AND LOG_QUEUE_MASK) = Suc (unat x) mod 128"
  by (simp add: and_mask_mod unat_word_ariths mod_mod_cancel)

lemma index_distance:
  assumes "unat x < 128" "unat y < 128"
  shows "unat ((x - y) AND LOG_QUEUE_MASK) = gap_count 128 (unat x) (unat y)"
proof (cases "unat y \<le> unat x")
  case True
  then have "unat (x - y) = unat x - unat y"
    by (simp add: unat_sub word_le_nat_alt)
  then show ?thesis
    using True assms by (simp add: and_mask_mod gap_count_eq)
next
  case False
  then have "unat (x - y) = 65536 + unat x - unat y"
    by (simp add: unat_sub_if_size word_le_nat_alt word_size)
  moreover have "65536 + unat x - unat y = (128 + unat x - unat y) + 511 * 128"
    using assms by simp
  ultimately have "unat (x - y) mod 128 = (128 + unat x - unat y) mod 128"
    by (metis mod_mult_self1)
  then show ?thesis
    using False assms by (simp add: and_mask_mod gap_count_eq add.commute)
qed

section \<open>Representation\<close>

definition log_contents :: "global_log_state_t \<Rightarrow> string list" where
  "log_contents s = gap_contents LOG_QUEUE_DEPTH (lg_queue s) (unat (lg_head s)) (unat (lg_tail s))"

definition log_inv :: "global_log_state_t \<Rightarrow> bool" where
  "log_inv s \<longleftrightarrow> length (lg_queue s) = LOG_QUEUE_DEPTH \<and> unat (lg_head s) < LOG_QUEUE_DEPTH
     \<and> unat (lg_tail s) < LOG_QUEUE_DEPTH"

lemma log_contents_length: "log_inv s \<Longrightarrow> length (log_contents s) < 128"
  by (auto simp: log_contents_def log_inv_def LOG_QUEUE_DEPTH_def intro: gap_count_less)

lemma log_full_iff:
  assumes "log_inv s"
  shows "(lg_head s + 1) AND LOG_QUEUE_MASK = lg_tail s \<longleftrightarrow> length (log_contents s) = 127"
proof -
  have "(lg_head s + 1) AND LOG_QUEUE_MASK = lg_tail s \<longleftrightarrow> Suc (unat (lg_head s)) mod 128 = unat (lg_tail s)"
    by (simp add: u16_eq_iff next_index)
  then show ?thesis
    using assms gap_full_iff [of "unat (lg_head s)" 128 "unat (lg_tail s)"]
    by (simp add: log_contents_def log_inv_def LOG_QUEUE_DEPTH_def)
qed

lemma log_empty_iff: "log_inv s \<Longrightarrow> lg_tail s = lg_head s \<longleftrightarrow> log_contents s = []"
  using gap_empty_iff [of "unat (lg_head s)" 128 "unat (lg_tail s)"]
  by (auto simp: log_contents_def log_inv_def LOG_QUEUE_DEPTH_def u16_eq_iff simp flip: length_0_conv)

text \<open>Copying a line into the free slot, publishing it, and advancing the tail.\<close>

lemma log_contents_publish:
  assumes "log_inv s" "length (log_contents s) < 127"
    and "s' = s\<lparr>lg_queue := (lg_queue s)[unat (lg_head s) := l], lg_head := (lg_head s + 1) AND LOG_QUEUE_MASK\<rparr>"
  shows "log_contents s' = log_contents s @ [l]" "log_inv s'"
proof -
  have "Suc (unat (lg_head s)) mod 128 \<noteq> unat (lg_tail s)"
    using assms(1,2) gap_full_iff [of "unat (lg_head s)" 128 "unat (lg_tail s)"]
    by (simp add: log_contents_def log_inv_def LOG_QUEUE_DEPTH_def)
  then show "log_contents s' = log_contents s @ [l]"
    using assms(1) unfolding assms(3)
    by (simp add: log_contents_def log_inv_def LOG_QUEUE_DEPTH_def next_index gap_contents_push)
  show "log_inv s'"
    using assms(1) unfolding assms(3) by (simp add: log_inv_def LOG_QUEUE_DEPTH_def next_index)
qed

lemma log_write_free_slot:
  assumes "log_inv s"
  shows "log_contents (s\<lparr>lg_queue := (lg_queue s)[unat (lg_head s) := l]\<rparr>) = log_contents s"
    "log_inv (s\<lparr>lg_queue := (lg_queue s)[unat (lg_head s) := l]\<rparr>)"
  using assms by (simp_all add: log_contents_def log_inv_def gap_contents_free)

lemma log_contents_advance:
  assumes "log_inv s" "log_contents s \<noteq> []"
  shows "log_contents s = lg_queue s ! unat (lg_tail s)
      # log_contents (s\<lparr>lg_tail := (lg_tail s + 1) AND LOG_QUEUE_MASK\<rparr>)"
    and "log_inv (s\<lparr>lg_tail := (lg_tail s + 1) AND LOG_QUEUE_MASK\<rparr>)"
proof -
  have "unat (lg_head s) \<noteq> unat (lg_tail s)"
    using assms log_empty_iff [of s] by (auto simp: u16_eq_iff)
  then show "log_contents s = lg_queue s ! unat (lg_tail s)
      # log_contents (s\<lparr>lg_tail := (lg_tail s + 1) AND LOG_QUEUE_MASK\<rparr>)"
    using assms(1) by (simp add: log_contents_def log_inv_def LOG_QUEUE_DEPTH_def next_index gap_contents_pop)
  show "log_inv (s\<lparr>lg_tail := (lg_tail s + 1) AND LOG_QUEUE_MASK\<rparr>)"
    using assms(1) by (simp add: log_inv_def LOG_QUEUE_DEPTH_def next_index)
qed

lemma log_contents_updates [simp]:
  "log_contents (s\<lparr>lg_dropped := d\<rparr>) = log_contents s"
  "log_contents (s\<lparr>lg_high_water_mark := h\<rparr>) = log_contents s"
  "log_contents (s\<lparr>lg_log_emitted := e\<rparr>) = log_contents s"
  "log_inv (s\<lparr>lg_dropped := d\<rparr>) = log_inv s"
  "log_inv (s\<lparr>lg_high_water_mark := h\<rparr>) = log_inv s"
  "log_inv (s\<lparr>lg_log_emitted := e\<rparr>) = log_inv s"
  by (simp_all add: log_contents_def log_inv_def)

section \<open>The sequential queue\<close>

text \<open>The printing loop run to its end with the other core idle: the lines printed and the final state.\<close>

partial_function (option) log_core1_drain :: "global_log_state_t \<Rightarrow> (string list \<times> global_log_state_t) option" where
  "log_core1_drain s =
     (case log_drain_step s of
        (None, s') \<Rightarrow> Some ([], s')
      | (Some line, s') \<Rightarrow> Option.bind (log_core1_drain s') (\<lambda>(lines, t). Some (line # lines, t)))"

lemma log_core1_drain_returns:
  assumes "log_inv s"
  shows "log_core1_drain s = Some (log_contents s, s\<lparr>lg_tail := lg_head s\<rparr>)"
  using assms
proof (induction "log_contents s" arbitrary: s)
  case Nil
  then have "lg_tail s = lg_head s"
    using log_empty_iff by metis
  then have "s\<lparr>lg_tail := lg_head s\<rparr> = s"
    by (metis global_log_state_t.surjective global_log_state_t.update_convs(3))
  then show ?case
    using Nil \<open>lg_tail s = lg_head s\<close> by (subst log_core1_drain.simps) (simp add: log_drain_step_def)
next
  case (Cons l ls)
  define s' where "s' = s\<lparr>lg_tail := (lg_tail s + 1) AND LOG_QUEUE_MASK\<rparr>"
  have ne: "log_contents s \<noteq> []" and neq: "lg_tail s \<noteq> lg_head s"
    using Cons(2) log_empty_iff [OF Cons.prems] by auto
  note adv = log_contents_advance [OF Cons.prems ne, folded s'_def]
  have "log_drain_step s = (Some (lg_queue s ! unat (lg_tail s)), s')"
    using neq by (simp add: log_drain_step_def s'_def)
  moreover have "log_core1_drain s' = Some (log_contents s', s'\<lparr>lg_tail := lg_head s'\<rparr>)"
    using Cons(1) [OF _ adv(2)] adv(1) Cons(2) by simp
  ultimately show ?case
    using adv(1) by (subst log_core1_drain.simps) (simp add: s'_def)
qed

section \<open>Two cores\<close>

text \<open>
  Core 0 runs \<open>log_write\<close> and core 1 runs \<open>log_core1_drain\<close> at the same time, with no lock.  Their
  accesses to the shared state are separate steps.  A producer has found room for a line
  (\<open>P_room\<close>), has copied it but not yet published it (\<open>P_copied\<close>), or has published it and still has
  to update the statistics (\<open>P_published\<close>).  A consumer has seen a line in the queue (\<open>C_seen\<close>) or
  has printed it but not yet released its slot (\<open>C_printed\<close>).  The copy is not atomic: while it
  runs the slot may hold anything.  The barriers of the source order the accesses of each core, so
  the steps are interleaved one at a time.
\<close>

datatype producer = P_idle | P_room log_level_t string | P_copied log_level_t string | P_published log_level_t
datatype consumer = C_idle | C_seen | C_printed

record log_cores =
  lc_state :: global_log_state_t
  lc_producer :: producer
  lc_consumer :: consumer
  lc_accepted :: "string list"
  lc_printed :: "string list"

definition log_statistics :: "log_level_t \<Rightarrow> global_log_state_t \<Rightarrow> global_log_state_t" where
  "log_statistics level s =
     (let depth = ucast ((lg_head s - lg_tail s) AND LOG_QUEUE_MASK);
          s2 = (if depth > lg_high_water_mark s then s\<lparr>lg_high_water_mark := depth\<rparr> else s)
      in if level > LOG_LEVEL_PLAIN then s2\<lparr>lg_log_emitted := True\<rparr> else s2)"

inductive log_step :: "log_cores \<Rightarrow> log_cores \<Rightarrow> bool" where
  log_drop: "lc_producer c = P_idle \<Longrightarrow> level \<le> lg_current_log_level (lc_state c) \<Longrightarrow>
    (lg_head (lc_state c) + 1) AND LOG_QUEUE_MASK = lg_tail (lc_state c) \<Longrightarrow>
    log_step c (c\<lparr>lc_state := lc_state c\<lparr>lg_dropped := lg_dropped (lc_state c) + 1\<rparr>\<rparr>)"
| log_room: "lc_producer c = P_idle \<Longrightarrow> level \<le> lg_current_log_level (lc_state c) \<Longrightarrow>
    (lg_head (lc_state c) + 1) AND LOG_QUEUE_MASK \<noteq> lg_tail (lc_state c) \<Longrightarrow>
    log_step c (c\<lparr>lc_producer := P_room level (log_line text)\<rparr>)"
| log_copying: "lc_producer c = P_room level l \<Longrightarrow>
    log_step c (c\<lparr>lc_state := lc_state c\<lparr>lg_queue := (lg_queue (lc_state c))[unat (lg_head (lc_state c)) := partly]\<rparr>\<rparr>)"
| log_copied: "lc_producer c = P_room level l \<Longrightarrow>
    log_step c (c\<lparr>lc_state := lc_state c\<lparr>lg_queue := (lg_queue (lc_state c))[unat (lg_head (lc_state c)) := l]\<rparr>,
      lc_producer := P_copied level l\<rparr>)"
| log_publish: "lc_producer c = P_copied level l \<Longrightarrow>
    log_step c (c\<lparr>lc_state := lc_state c\<lparr>lg_head := (lg_head (lc_state c) + 1) AND LOG_QUEUE_MASK\<rparr>,
      lc_producer := P_published level, lc_accepted := lc_accepted c @ [l]\<rparr>)"
| log_account: "lc_producer c = P_published level \<Longrightarrow>
    log_step c (c\<lparr>lc_state := log_statistics level (lc_state c), lc_producer := P_idle\<rparr>)"
| log_see: "lc_consumer c = C_idle \<Longrightarrow> lg_tail (lc_state c) \<noteq> lg_head (lc_state c) \<Longrightarrow>
    log_step c (c\<lparr>lc_consumer := C_seen\<rparr>)"
| log_print: "lc_consumer c = C_seen \<Longrightarrow>
    log_step c (c\<lparr>lc_consumer := C_printed,
      lc_printed := lc_printed c @ [lg_queue (lc_state c) ! unat (lg_tail (lc_state c))]\<rparr>)"
| log_release: "lc_consumer c = C_printed \<Longrightarrow>
    log_step c (c\<lparr>lc_consumer := C_idle,
      lc_state := lc_state c\<lparr>lg_tail := (lg_tail (lc_state c) + 1) AND LOG_QUEUE_MASK\<rparr>\<rparr>)"

inductive_cases log_stepE: "log_step c d"

text \<open>The queued lines that are still to be printed.\<close>

definition log_pending :: "log_cores \<Rightarrow> string list" where
  "log_pending c = (if lc_consumer c = C_printed then tl (log_contents (lc_state c)) else log_contents (lc_state c))"

definition cores_inv :: "log_cores \<Rightarrow> bool" where
  "cores_inv c \<longleftrightarrow> log_inv (lc_state c)
     \<and> (lc_consumer c \<noteq> C_idle \<longrightarrow> log_contents (lc_state c) \<noteq> [])
     \<and> (case lc_producer c of
          P_room _ _ \<Rightarrow> length (log_contents (lc_state c)) < 127
        | P_copied _ l \<Rightarrow> length (log_contents (lc_state c)) < 127
            \<and> lg_queue (lc_state c) ! unat (lg_head (lc_state c)) = l
        | _ \<Rightarrow> True)
     \<and> lc_accepted c = lc_printed c @ log_pending c"

lemma log_statistics_same [simp]:
  "log_contents (log_statistics level s) = log_contents s" "log_inv (log_statistics level s) = log_inv s"
  by (simp_all add: log_statistics_def Let_def)

lemma log_publish_contents:
  assumes "log_inv s" "length (log_contents s) < 127" "lg_queue s ! unat (lg_head s) = l"
  shows "log_contents (s\<lparr>lg_head := (lg_head s + 1) AND LOG_QUEUE_MASK\<rparr>) = log_contents s @ [l]"
    "log_inv (s\<lparr>lg_head := (lg_head s + 1) AND LOG_QUEUE_MASK\<rparr>)"
proof -
  have "(lg_queue s)[unat (lg_head s) := l] = lg_queue s"
    using assms(3) by (metis list_update_id)
  then have "s\<lparr>lg_queue := (lg_queue s)[unat (lg_head s) := l], lg_head := (lg_head s + 1) AND LOG_QUEUE_MASK\<rparr>
      = s\<lparr>lg_head := (lg_head s + 1) AND LOG_QUEUE_MASK\<rparr>"
    by simp
  then show "log_contents (s\<lparr>lg_head := (lg_head s + 1) AND LOG_QUEUE_MASK\<rparr>) = log_contents s @ [l]"
    "log_inv (s\<lparr>lg_head := (lg_head s + 1) AND LOG_QUEUE_MASK\<rparr>)"
    using log_contents_publish [OF assms(1,2) refl, of l] by simp_all
qed

lemma cores_inv_step:
  assumes "log_step c d" "cores_inv c"
  shows "cores_inv d"
  using assms
proof (cases rule: log_step.cases)
  case (log_room level txt0)
  then show ?thesis
    using assms(2) log_contents_length [of "lc_state c"] log_full_iff [of "lc_state c"]
    by (auto simp: cores_inv_def log_pending_def)
next
  case (log_copied level l)
  then have "unat (lg_head (lc_state c)) < length (lg_queue (lc_state c))"
    using assms(2) by (simp add: cores_inv_def log_inv_def)
  then show ?thesis
    using log_copied assms(2) log_write_free_slot [of "lc_state c" l]
    by (auto simp: cores_inv_def log_pending_def)
next
  case (log_copying level l partly)
  then show ?thesis
    using assms(2) log_write_free_slot [of "lc_state c" partly] by (auto simp: cores_inv_def log_pending_def)
next
  case (log_publish level l)
  then show ?thesis
    using assms(2) log_publish_contents [of "lc_state c" l] by (auto simp: cores_inv_def log_pending_def)
next
  case log_see
  then show ?thesis
    using assms(2) log_empty_iff [of "lc_state c"]
    by (auto simp: cores_inv_def log_pending_def split: producer.splits)
next
  case log_print
  then show ?thesis
    using assms(2) log_contents_advance(1) [of "lc_state c"]
    by (auto simp: cores_inv_def log_pending_def split: producer.splits)
next
  case log_release
  have adv: "log_contents (lc_state c) = lg_queue (lc_state c) ! unat (lg_tail (lc_state c))
      # log_contents (lc_state d)" "log_inv (lc_state d)"
    using log_release assms(2) log_contents_advance [of "lc_state c"] by (auto simp: cores_inv_def)
  then show ?thesis
    using log_release assms(2) by (auto simp: cores_inv_def log_pending_def split: producer.splits)
qed (auto simp: cores_inv_def log_pending_def split: producer.splits)

text \<open>Both cores idle, nothing written or printed yet.\<close>

definition log_start :: "global_log_state_t \<Rightarrow> log_cores" where
  "log_start s = \<lparr>lc_state = s, lc_producer = P_idle, lc_consumer = C_idle, lc_accepted = [], lc_printed = []\<rparr>"

definition log_reachable :: "global_log_state_t \<Rightarrow> log_cores \<Rightarrow> bool" where
  "log_reachable s c \<longleftrightarrow> log_step\<^sup>*\<^sup>* (log_start s) c"

text \<open>The static initialiser: no line queued; the slots hold zeros, which are empty lines.\<close>

definition global_logstate :: global_log_state_t where
  "global_logstate = \<lparr>lg_current_log_level = LOG_LEVEL_INFO, lg_head = 0, lg_tail = 0, lg_dropped = 0,
     lg_high_water_mark = 0, lg_log_emitted = False, lg_queue = replicate LOG_QUEUE_DEPTH []\<rparr>"

lemma global_logstate_inv: "log_inv global_logstate" "log_contents global_logstate = []"
  by (simp_all add: log_inv_def log_contents_def global_logstate_def gap_contents_def gap_count_def
      LOG_QUEUE_DEPTH_def)

interpretation cores: safe_system "\<lambda>c. c = log_start global_logstate" log_step cores_inv
  by unfold_locales
    (use cores_inv_step global_logstate_inv in \<open>auto simp: cores_inv_def log_pending_def log_start_def\<close>)

text \<open>The producer's steps with no interference are the function \<open>log_write\<close>.\<close>

lemma log_write_is_steps:
  assumes "log_inv s" "level \<le> lg_current_log_level s" "length (log_contents s) < 127"
    and "c = \<lparr>lc_state = s, lc_producer = P_idle, lc_consumer = cons, lc_accepted = acc, lc_printed = pr\<rparr>"
  shows "log_step\<^sup>*\<^sup>* c (c\<lparr>lc_state := log_write level (Some txt0) s, lc_accepted := acc @ [log_line txt0]\<rparr>)"
proof -
  let ?l = "log_line txt0" and ?s1 = "s\<lparr>lg_queue := (lg_queue s)[unat (lg_head s) := log_line txt0]\<rparr>"
  have ne: "(lg_head s + 1) AND LOG_QUEUE_MASK \<noteq> lg_tail s"
    using log_full_iff [OF assms(1)] assms(3) by simp
  have 1: "log_step c (c\<lparr>lc_producer := P_room level ?l\<rparr>)"
    using log_step.log_room [of c level txt0] ne assms by simp
  have 2: "log_step (c\<lparr>lc_producer := P_room level ?l\<rparr>) (c\<lparr>lc_state := ?s1, lc_producer := P_copied level ?l\<rparr>)"
    using log_step.log_copied [of "c\<lparr>lc_producer := P_room level ?l\<rparr>" level ?l] assms(4) by simp
  let ?s2 = "?s1\<lparr>lg_head := (lg_head s + 1) AND LOG_QUEUE_MASK\<rparr>"
  have 3: "log_step (c\<lparr>lc_state := ?s1, lc_producer := P_copied level ?l\<rparr>)
      (c\<lparr>lc_state := ?s2, lc_producer := P_published level, lc_accepted := acc @ [?l]\<rparr>)"
    using log_step.log_publish [of "c\<lparr>lc_state := ?s1, lc_producer := P_copied level ?l\<rparr>" level ?l] assms(4) by simp
  have 4: "log_step (c\<lparr>lc_state := ?s2, lc_producer := P_published level, lc_accepted := acc @ [?l]\<rparr>)
      (c\<lparr>lc_state := log_statistics level ?s2, lc_accepted := acc @ [?l]\<rparr>)"
    using log_step.log_account [of "c\<lparr>lc_state := ?s2, lc_producer := P_published level, lc_accepted := acc @ [?l]\<rparr>" level]
      assms(4) by simp
  have "log_write level (Some txt0) s = log_statistics level ?s2"
    using assms(2) ne by (simp add: log_write_def log_statistics_def Let_def)
  then show ?thesis
    using rtranclp.rtrancl_into_rtrancl [OF rtranclp.rtrancl_into_rtrancl [OF
        rtranclp.rtrancl_into_rtrancl [OF r_into_rtranclp [of log_step, OF 1] 2] 3] 4] by simp
qed

section \<open>Properties\<close>

text \<open>
  C14.  Whatever the interleaving of the two cores, starting from the static initial state, the
  lines that \<open>log_write\<close> accepted are the lines printed so far followed by the lines still queued,
  in the same order: no line is lost, duplicated, reordered or torn.  The slot that is being
  filled is never the slot that is being printed.
\<close>

theorem log_cores_in_order:
  assumes "log_reachable global_logstate c"
  shows "lc_accepted c = lc_printed c @ log_pending c
    \<and> length (log_pending c) \<le> 127
    \<and> ((\<exists>level l. lc_producer c = P_room level l) \<and> lc_consumer c \<noteq> C_idle \<longrightarrow>
         lg_head (lc_state c) \<noteq> lg_tail (lc_state c))"
proof -
  have inv: "cores_inv c"
    using cores.reachable_invar assms by (simp add: log_reachable_def)
  have "lg_head (lc_state c) \<noteq> lg_tail (lc_state c)" if "lc_consumer c \<noteq> C_idle"
    using inv that log_empty_iff [of "lc_state c"] by (auto simp: cores_inv_def)
  moreover have "length (log_pending c) \<le> 127"
    using inv log_contents_length [of "lc_state c"] by (auto simp: cores_inv_def log_pending_def)
  ultimately show ?thesis
    using inv by (simp add: cores_inv_def)
qed

text \<open>A run in which the second core starts printing the first line while the second is half copied.\<close>

lemma log_cores_example:
  "\<exists>c. log_reachable global_logstate c \<and> lc_printed c = [''one''] \<and> lc_accepted c = [''one'']
     \<and> lc_producer c = P_room LOG_LEVEL_INFO ''two'' \<and> lc_consumer c = C_printed"
proof -
  define c0 where "c0 = log_start global_logstate"
  define c1 where "c1 = c0\<lparr>lc_producer := P_room LOG_LEVEL_INFO ''one''\<rparr>"
  define c2 where "c2 = c1\<lparr>lc_state := (lc_state c1)\<lparr>lg_queue := (lg_queue global_logstate)[0 := ''one'']\<rparr>,
    lc_producer := P_copied LOG_LEVEL_INFO ''one''\<rparr>"
  define c3 where "c3 = c2\<lparr>lc_state := (lc_state c2)\<lparr>lg_head := 1\<rparr>,
    lc_producer := P_published LOG_LEVEL_INFO, lc_accepted := [''one'']\<rparr>"
  define c4 where "c4 = c3\<lparr>lc_state := log_statistics LOG_LEVEL_INFO (lc_state c3), lc_producer := P_idle\<rparr>"
  define c5 where "c5 = c4\<lparr>lc_consumer := C_seen\<rparr>"
  define c6 where "c6 = c5\<lparr>lc_producer := P_room LOG_LEVEL_INFO ''two''\<rparr>"
  define c7 where "c7 = c6\<lparr>lc_state := (lc_state c6)\<lparr>lg_queue := (lg_queue (lc_state c6))[1 := ''t'']\<rparr>\<rparr>"
  define c8 where "c8 = c7\<lparr>lc_consumer := C_printed, lc_printed := [''one'']\<rparr>"
  note defs = c0_def log_start_def c1_def c2_def c3_def c4_def c5_def c6_def c7_def c8_def global_logstate_def
    log_statistics_def Let_def LOG_QUEUE_MASK_def less_eq_log_level_t_def less_log_level_t_def LOG_QUEUE_DEPTH_def
  have "log_step c0 c1"
    using log_step.log_room [of c0 LOG_LEVEL_INFO "''one''"] by (simp add: defs log_line_def LOG_LINE_MAX_def)
  have "log_step c1 c2"
    using log_step.log_copied [of c1 LOG_LEVEL_INFO "''one''"] by (simp add: defs)
  have "log_step c2 c3"
    using log_step.log_publish [of c2 LOG_LEVEL_INFO "''one''"] by (simp add: defs)
  have "log_step c3 c4"
    using log_step.log_account [of c3 LOG_LEVEL_INFO] by (simp add: defs)
  have "log_step c4 c5"
    using log_step.log_see [of c4] by (simp add: defs)
  have "log_step c5 c6"
    using log_step.log_room [of c5 LOG_LEVEL_INFO "''two''"] by (simp add: defs log_line_def LOG_LINE_MAX_def)
  have "log_step c6 c7"
    using log_step.log_copying [of c6 LOG_LEVEL_INFO "''two''" "''t''"] by (simp add: defs)
  have "log_step c7 c8"
    using log_step.log_print [of c7] by (simp add: defs)
  have "log_step\<^sup>*\<^sup>* c0 c8"
    by ((rule converse_rtranclp_into_rtranclp, fact)+, rule rtranclp.rtrancl_refl)
  then have "log_reachable global_logstate c8"
    by (simp add: log_reachable_def c0_def)
  then show ?thesis
    by (intro exI [of _ c8]) (simp add: defs)
qed

theorem log_cores_in_order_witness:
  "\<exists>c. log_reachable global_logstate c \<and> lc_printed c = [''one''] \<and> log_pending c = []
     \<and> lg_head (lc_state c) \<noteq> lg_tail (lc_state c)"
proof -
  obtain c where c: "log_reachable global_logstate c" "lc_printed c = [''one'']" "lc_accepted c = [''one'']"
    "lc_producer c = P_room LOG_LEVEL_INFO ''two''" "lc_consumer c = C_printed"
    using log_cores_example by blast
  with log_cores_in_order [OF c(1)] show ?thesis
    by (intro exI [of _ c]) simp
qed

text \<open>
  With the other core idle, \<open>log_write\<close> drops a line above the current level or one that cannot
  be formatted, counts a line it has no room for, and otherwise queues the first 159 characters of
  the text behind the lines already there; \<open>log_core1_drain\<close> ends, prints the queued lines in order
  and leaves the queue empty.
\<close>

lemma log_write_then_drain:
  fixes level :: log_level_t and formatted :: "string option"
  assumes "log_inv s"
  defines "s' \<equiv> log_write level formatted s"
  shows "log_inv s'
    \<and> (if level > lg_current_log_level s \<or> formatted = None then s' = s
       else if length (log_contents s) = 127 then s' = s\<lparr>lg_dropped := lg_dropped s + 1\<rparr>
       else log_contents s' = log_contents s @ [take 159 (the formatted)] \<and> lg_dropped s' = lg_dropped s)
    \<and> (\<exists>t. log_core1_drain s' = Some (log_contents s', t) \<and> log_contents t = [])"
proof -
  have queued: "log_inv s' \<and> log_contents s' = log_contents s @ [log_line txt0] \<and> lg_dropped s' = lg_dropped s"
    if "formatted = Some txt0" "\<not> lg_current_log_level s < level" "length (log_contents s) < 127" for txt0
    using log_contents_publish [OF assms(1) that(3) refl, of "log_line txt0"] that log_full_iff [OF assms(1)]
    by (simp add: s'_def log_write_def Let_def)
  have main: "log_inv s' \<and> (if level > lg_current_log_level s \<or> formatted = None then s' = s
       else if length (log_contents s) = 127 then s' = s\<lparr>lg_dropped := lg_dropped s + 1\<rparr>
       else log_contents s' = log_contents s @ [take 159 (the formatted)] \<and> lg_dropped s' = lg_dropped s)"
    using queued log_contents_length [OF assms(1)] assms(1) log_full_iff [OF assms(1)]
    by (cases formatted) (auto simp: s'_def log_write_def Let_def log_line_def LOG_LINE_MAX_def)
  moreover have "log_contents (s'\<lparr>lg_tail := lg_head s'\<rparr>) = []"
    by (simp add: log_contents_def gap_contents_def gap_count_def LOG_QUEUE_DEPTH_def)
  ultimately show ?thesis
    using log_core1_drain_returns [of s'] by auto
qed

end
