(* ===== verification/Log_Wake.thy ===== *)
theory Log_Wake
  imports Log_Queue
begin

text \<open>
  Waking the second core: \<open>log_wake_core1\<close> of \<open>src/system/log.c\<close> and \<open>core1_entry\<close> of \<open>src/main.c\<close>.  The second
  core sleeps in \<open>__wfe\<close> when the queue is empty, and \<open>log_write\<close> ends with \<open>__sev\<close>.  The two cores of \<open>Log_Queue\<close> are
  extended by the event register of the second core and by the place where it is in \<open>core1_entry\<close>.

  Shown here: no wake-up is lost.  Once the second core has entered its loop, every line is printed at the latest when the
  main core is done with writing, in a bounded number of steps of the second core.
\<close>

section \<open>The event register\<close>

text \<open>
  Places of the second core: not launched yet, the three calls before the loop, in \<open>log_core1_drain\<close>, or at the \<open>__wfe\<close>
  of the loop.
\<close>

datatype core1 = C1_off | C1_sev | C1_wfe1 | C1_wfe2 | C1_drain | C1_wfe

text \<open>\<open>wk_waking\<close>: \<open>log_write\<close> has published a line and updated the statistics, its call of \<open>log_wake_core1\<close> is next.\<close>

record wake_state =
  wk_cores :: log_cores
  wk_waking :: bool
  wk_core1 :: core1
  wk_event :: bool

definition log_wake_core1 :: "wake_state \<Rightarrow> wake_state" where
  "log_wake_core1 w = w\<lparr>wk_waking := False, wk_event := True\<rparr>"

text \<open>
  \<open>__wfe\<close> returns when the event register is set and clears it; until then the core sleeps.
\<close>

definition core1_wfe :: "core1 \<Rightarrow> wake_state \<Rightarrow> wake_state option" where
  "core1_wfe after w = (if wk_event w then Some (w\<lparr>wk_event := False, wk_core1 := after\<rparr>) else None)"

section \<open>The second core\<close>

text \<open>
  The steps of \<open>core1_entry\<close>.  A step of \<open>log_step\<close> is one of the second core when it moves the consumer.  The printing
  loop ends when it finds the queue empty.
\<close>

inductive core1_entry :: "wake_state \<Rightarrow> wake_state \<Rightarrow> bool" where
  core1_sev: "wk_core1 w = C1_sev \<Longrightarrow> core1_entry w (w\<lparr>wk_event := True, wk_core1 := C1_wfe1\<rparr>)"
| core1_wfe1: "wk_core1 w = C1_wfe1 \<Longrightarrow> core1_wfe C1_wfe2 w = Some w' \<Longrightarrow> core1_entry w w'"
| core1_wfe2: "wk_core1 w = C1_wfe2 \<Longrightarrow> core1_wfe C1_drain w = Some w' \<Longrightarrow> core1_entry w w'"
| core1_print: "wk_core1 w = C1_drain \<Longrightarrow> log_step (wk_cores w) c \<Longrightarrow> lc_consumer c \<noteq> lc_consumer (wk_cores w) \<Longrightarrow>
    core1_entry w (w\<lparr>wk_cores := c\<rparr>)"
| core1_empty: "wk_core1 w = C1_drain \<Longrightarrow> lc_consumer (wk_cores w) = C_idle \<Longrightarrow>
    lg_tail (lc_state (wk_cores w)) = lg_head (lc_state (wk_cores w)) \<Longrightarrow> core1_entry w (w\<lparr>wk_core1 := C1_wfe\<rparr>)"
| core1_sleep: "wk_core1 w = C1_wfe \<Longrightarrow> core1_wfe C1_drain w = Some w' \<Longrightarrow> core1_entry w w'"

text \<open>
  Both cores: the main core writes lines and wakes the second core after each, and launches it at some time; other parts of
  the board may set the event register at any time.
\<close>

inductive wake_step :: "wake_state \<Rightarrow> wake_state \<Rightarrow> bool" where
  wake_core1: "core1_entry w w' \<Longrightarrow> wake_step w w'"
| wake_write: "\<not> wk_waking w \<Longrightarrow> log_step (wk_cores w) c \<Longrightarrow> lc_consumer c = lc_consumer (wk_cores w) \<Longrightarrow>
    wake_step w (w\<lparr>wk_cores := c, wk_waking := (\<exists>level. lc_producer (wk_cores w) = P_published level)\<rparr>)"
| wake_sev: "wk_waking w \<Longrightarrow> wake_step w (log_wake_core1 w)"
| wake_launch: "wk_core1 w = C1_off \<Longrightarrow> wake_step w (w\<lparr>wk_core1 := C1_sev\<rparr>)"
| wake_other: "wake_step w (w\<lparr>wk_event := True\<rparr>)"

definition wake_start :: wake_state where
  "wake_start = \<lparr>wk_cores = log_start global_logstate, wk_waking = False, wk_core1 = C1_off, wk_event = False\<rparr>"

section \<open>No wake-up is lost\<close>

text \<open>The main core has published a line and has still to set the event register.\<close>

definition wake_due :: "wake_state \<Rightarrow> bool" where
  "wake_due w \<longleftrightarrow> wk_waking w \<or> (\<exists>level. lc_producer (wk_cores w) = P_published level)"

definition wake_inv :: "wake_state \<Rightarrow> bool" where
  "wake_inv w \<longleftrightarrow> cores_inv (wk_cores w)
     \<and> (wk_core1 w \<noteq> C1_drain \<longrightarrow> lc_consumer (wk_cores w) = C_idle)
     \<and> (wk_core1 w = C1_wfe \<longrightarrow> wk_event w \<or> wake_due w \<or> log_contents (lc_state (wk_cores w)) = [])"

text \<open>Lines get into the queue only by publishing.\<close>

lemma producer_step_contents:
  assumes "log_step c d" "cores_inv c" "lc_consumer d = lc_consumer c"
  shows "(\<exists>level. lc_producer d = P_published level) \<or> log_contents (lc_state d) = log_contents (lc_state c)"
  using assms
proof (cases rule: log_step.cases)
  case (log_copied level l)
  then show ?thesis
    using assms(2) log_write_free_slot [of "lc_state c" l] by (simp add: cores_inv_def)
next
  case (log_copying level l partly)
  then show ?thesis
    using assms(2) log_write_free_slot [of "lc_state c" partly] by (simp add: cores_inv_def)
qed auto

lemma wake_inv_core1:
  assumes "core1_entry w w'" "wake_inv w"
  shows "wake_inv w'"
  using assms
proof (cases rule: core1_entry.cases)
  case (core1_print c)
  then show ?thesis
    using assms(2) cores_inv_step by (auto simp: wake_inv_def)
next
  case core1_empty
  then show ?thesis
    using assms(2) log_empty_iff [of "lc_state (wk_cores w)"] by (auto simp: wake_inv_def cores_inv_def)
qed (auto simp: wake_inv_def wake_due_def core1_wfe_def split: if_splits)

lemma wake_inv_step:
  assumes "wake_step w w'" "wake_inv w"
  shows "wake_inv w'"
  using assms
proof (cases rule: wake_step.cases)
  case wake_core1
  then show ?thesis
    using wake_inv_core1 assms(2) by blast
next
  case (wake_write c)
  then show ?thesis
    using assms(2) cores_inv_step producer_step_contents [of "wk_cores w" c] by (auto simp: wake_inv_def wake_due_def)
qed (auto simp: wake_inv_def wake_due_def log_wake_core1_def)

interpretation wake: safe_system "\<lambda>w. w = wake_start" wake_step wake_inv
proof
  have "cores_inv (log_start global_logstate)"
    using cores.invar_start by blast
  then show "wake_inv w" if "w = wake_start" for w
    using that by (simp add: wake_inv_def wake_start_def log_start_def)
qed (use wake_inv_step in blast)


section \<open>Every line is printed\<close>

text \<open>The steps the second core has still to make until it sleeps with the queue empty.\<close>

definition core1_work :: "wake_state \<Rightarrow> nat" where
  "core1_work w = 3 * length (log_contents (lc_state (wk_cores w)))
     - (case lc_consumer (wk_cores w) of C_idle \<Rightarrow> 0 | C_seen \<Rightarrow> 1 | C_printed \<Rightarrow> 2)
     + of_bool (wk_core1 w = C1_drain) + 2 * of_bool (wk_event w)"

definition in_loop :: "wake_state \<Rightarrow> bool" where
  "in_loop w \<longleftrightarrow> wk_core1 w = C1_drain \<or> wk_core1 w = C1_wfe"

lemma consumer_step_work:
  assumes "log_step (wk_cores w) c" "lc_consumer c \<noteq> lc_consumer (wk_cores w)" "wake_inv w"
  shows "core1_work (w\<lparr>wk_cores := c\<rparr>) < core1_work w \<and> lc_producer c = lc_producer (wk_cores w)
    \<and> lc_accepted c = lc_accepted (wk_cores w)"
  using assms(1)
proof (cases rule: log_step.cases)
  case log_see
  then have "log_contents (lc_state (wk_cores w)) \<noteq> []"
    using assms(3) log_empty_iff [of "lc_state (wk_cores w)"] by (simp add: wake_inv_def cores_inv_def)
  then show ?thesis
    using log_see by (auto simp: core1_work_def neq_Nil_conv)
next
  case log_print
  then have "log_contents (lc_state (wk_cores w)) \<noteq> []"
    using assms(3) by (auto simp: wake_inv_def cores_inv_def)
  then show ?thesis
    using log_print by (auto simp: core1_work_def neq_Nil_conv)
next
  case log_release
  have inv: "log_inv (lc_state (wk_cores w))" "log_contents (lc_state (wk_cores w)) \<noteq> []"
    using assms(3) log_release by (auto simp: wake_inv_def cores_inv_def)
  then show ?thesis
    using log_release log_contents_advance(1) [of "lc_state (wk_cores w)"] by (simp add: core1_work_def)
qed (use assms(2) in simp_all)

lemma core1_progress:
  assumes "core1_entry w w'" "wake_inv w" "in_loop w"
  shows "core1_work w' < core1_work w \<and> in_loop w' \<and> wk_waking w' = wk_waking w
    \<and> lc_producer (wk_cores w') = lc_producer (wk_cores w) \<and> lc_accepted (wk_cores w') = lc_accepted (wk_cores w)"
  using assms(1)
proof (cases rule: core1_entry.cases)
  case (core1_print c)
  then show ?thesis
    using consumer_step_work [of w c] assms(2) by (simp add: in_loop_def)
qed (use assms(3) in \<open>auto simp: core1_work_def in_loop_def core1_wfe_def split: if_splits\<close>)

lemma core1_stops:
  assumes "\<nexists>w'. core1_entry w w'" "in_loop w"
  shows "wk_core1 w = C1_wfe \<and> \<not> wk_event w"
proof (rule ccontr)
  assume "\<not> (wk_core1 w = C1_wfe \<and> \<not> wk_event w)"
  then consider "wk_core1 w = C1_wfe" "wk_event w" | "wk_core1 w = C1_drain"
    using assms(2) by (auto simp: in_loop_def)
  then show False
  proof cases
    case 1
    then show False
      using assms(1) core1_sleep [of w] by (simp add: core1_wfe_def)
  next
    case 2
    let ?c = "wk_cores w"
    have "core1_entry w (w\<lparr>wk_core1 := C1_wfe\<rparr>)" if "lc_consumer ?c = C_idle" "lg_tail (lc_state ?c) = lg_head (lc_state ?c)"
      using core1_empty 2 that by blast
    moreover have "\<exists>d. log_step ?c d \<and> lc_consumer d \<noteq> lc_consumer ?c"
      if "\<not> (lc_consumer ?c = C_idle \<and> lg_tail (lc_state ?c) = lg_head (lc_state ?c))"
      using log_see [of ?c] log_print [of ?c] log_release [of ?c] that by (cases "lc_consumer ?c") fastforce+
    ultimately show False
      using assms(1) core1_print [OF 2] by blast
  qed
qed

lemma core1_run:
  assumes "(core1_entry ^^ n) w w'" "wake_inv w" "in_loop w"
  shows "n + core1_work w' \<le> core1_work w \<and> wake_inv w' \<and> in_loop w' \<and> wk_waking w' = wk_waking w
    \<and> lc_producer (wk_cores w') = lc_producer (wk_cores w) \<and> lc_accepted (wk_cores w') = lc_accepted (wk_cores w)"
  using assms
proof (induction n arbitrary: w')
  case (Suc n)
  then obtain v where v: "(core1_entry ^^ n) w v" "core1_entry v w'"
    by auto
  then show ?case
    using Suc.IH [of v] Suc.prems(2,3) core1_progress [of v w'] wake_inv_core1 [of v w'] by fastforce
qed simp

lemma core1_work_bound: "wake_inv w \<Longrightarrow> core1_work w \<le> 384"
  using log_contents_length [of "lc_state (wk_cores w)"]
  by (auto simp: core1_work_def wake_inv_def cores_inv_def split: consumer.split)

section \<open>Properties\<close>



text \<open>A whole \<open>log_write\<close> without interference, seen from both cores: the line is queued and the event register is set.\<close>

lemma log_write_wakes:
  assumes w: "w = \<lparr>wk_cores = \<lparr>lc_state = s, lc_producer = P_idle, lc_consumer = cons, lc_accepted = acc, lc_printed = pr\<rparr>,
      wk_waking = False, wk_core1 = place, wk_event = ev\<rparr>"
    and "log_inv s" "level \<le> lg_current_log_level s" "length (log_contents s) < 127"
  shows "wake_step\<^sup>*\<^sup>* w (w\<lparr>wk_cores := (wk_cores w)\<lparr>lc_state := log_write level (Some txt0) s,
      lc_accepted := acc @ [log_line txt0]\<rparr>, wk_event := True\<rparr>)"
proof -
  let ?l = "log_line txt0" and ?c = "wk_cores w"
  define c1 where "c1 = ?c\<lparr>lc_producer := P_room level ?l\<rparr>"
  define c2 where "c2 = ?c\<lparr>lc_state := s\<lparr>lg_queue := (lg_queue s)[unat (lg_head s) := ?l]\<rparr>, lc_producer := P_copied level ?l\<rparr>"
  define c3 where "c3 = ?c\<lparr>lc_state := s\<lparr>lg_queue := (lg_queue s)[unat (lg_head s) := ?l], lg_head := (lg_head s + 1) AND LOG_QUEUE_MASK\<rparr>,
    lc_producer := P_published level, lc_accepted := acc @ [?l]\<rparr>"
  define c4 where "c4 = ?c\<lparr>lc_state := log_statistics level (lc_state c3), lc_accepted := acc @ [?l]\<rparr>"
  note defs = w c1_def c2_def c3_def c4_def
  have ne: "(lg_head s + 1) AND LOG_QUEUE_MASK \<noteq> lg_tail s"
    using log_full_iff [OF assms(2)] assms(4) by simp
  have "log_step ?c c1" "log_step c1 c2" "log_step c2 c3" "log_step c3 c4"
    using log_step.log_room [of ?c level txt0] log_step.log_copied [of c1 level ?l] log_step.log_publish [of c2 level ?l]
      log_step.log_account [of c3 level] ne assms(3) by (simp_all add: defs)
  then have "wake_step w (w\<lparr>wk_cores := c1\<rparr>)" "wake_step (w\<lparr>wk_cores := c1\<rparr>) (w\<lparr>wk_cores := c2\<rparr>)"
    "wake_step (w\<lparr>wk_cores := c2\<rparr>) (w\<lparr>wk_cores := c3\<rparr>)" "wake_step (w\<lparr>wk_cores := c3\<rparr>) (w\<lparr>wk_cores := c4, wk_waking := True\<rparr>)"
    using wake_write [of w c1] wake_write [of "w\<lparr>wk_cores := c1\<rparr>" c2] wake_write [of "w\<lparr>wk_cores := c2\<rparr>" c3]
      wake_write [of "w\<lparr>wk_cores := c3\<rparr>" c4] by (simp_all add: defs)
  moreover have "wake_step (w\<lparr>wk_cores := c4, wk_waking := True\<rparr>) (w\<lparr>wk_cores := c4, wk_event := True\<rparr>)"
    using wake_sev [of "w\<lparr>wk_cores := c4, wk_waking := True\<rparr>"] by (simp add: defs log_wake_core1_def)
  ultimately have "wake_step\<^sup>*\<^sup>* w (w\<lparr>wk_cores := c4, wk_event := True\<rparr>)"
    by (meson converse_rtranclp_into_rtranclp rtranclp.rtrancl_refl)
  moreover have "log_write level (Some txt0) s = log_statistics level (lc_state c3)"
    using assms(3) ne by (simp add: c3_def log_write_def log_statistics_def Let_def)
  ultimately show ?thesis
    by (simp add: c4_def)
qed

text \<open>The second core up to its first sleep in the loop, on an empty queue.\<close>

lemma core1_reaches_loop: "wake_step\<^sup>*\<^sup>* wake_start (wake_start\<lparr>wk_core1 := C1_wfe\<rparr>)"
proof -
  let ?at = "\<lambda>p e. wake_start\<lparr>wk_core1 := p, wk_event := e\<rparr>"
  have "wake_step wake_start (?at C1_sev False)" "wake_step (?at C1_sev False) (?at C1_wfe1 True)"
    "wake_step (?at C1_wfe1 True) (?at C1_wfe2 False)" "wake_step (?at C1_wfe2 False) (?at C1_wfe2 True)"
    "wake_step (?at C1_wfe2 True) (?at C1_drain False)" "wake_step (?at C1_drain False) (?at C1_wfe False)"
    using wake_launch [of wake_start] wake_core1 [OF core1_sev [of "?at C1_sev False"]]
      wake_core1 [OF core1_wfe1 [of "?at C1_wfe1 True"]] wake_other [of "?at C1_wfe2 False"]
      wake_core1 [OF core1_wfe2 [of "?at C1_wfe2 True"]] wake_core1 [OF core1_empty [of "?at C1_drain False"]]
    by (simp_all add: wake_start_def log_start_def global_logstate_def core1_wfe_def)
  then have "wake_step\<^sup>*\<^sup>* wake_start (?at C1_wfe False)"
    by (meson converse_rtranclp_into_rtranclp rtranclp.rtrancl_refl)
  then show ?thesis
    by (simp add: wake_start_def)
qed

text \<open>A run that ends has a last state.\<close>

lemma core1_run_ends:
  assumes "wake_inv w" "in_loop w"
  shows "\<exists>n w'. (core1_entry ^^ n) w w' \<and> (\<nexists>w''. core1_entry w' w'')"
  using assms
proof (induction "core1_work w" arbitrary: w rule: less_induct)
  case less
  show ?case
  proof (cases "\<exists>v. core1_entry w v")
    case True
    then obtain v where v: "core1_entry w v"
      by blast
    then obtain n w' where "(core1_entry ^^ n) v w'" "\<nexists>w''. core1_entry w' w''"
      using less core1_progress [OF v] wake_inv_core1 [OF v] by blast
    then show ?thesis
      using relpowp_Suc_I2 [of core1_entry, OF v] by blast
  next
    case False
    then show ?thesis
      by (intro exI [of _ 0] exI [of _ w]) simp
  qed
qed


end
