(* ===== verification/Error_Codes.thy ===== *)
theory Error_Codes
  imports E2S_Prelude
begin

text \<open>
  The status codes every module returns (\<open>src/system/error.h\<close>), and the two calls that never
  return: \<open>fatal_panic\<close> (\<open>src/system/error.c\<close>) and \<open>reboot\<close> (\<open>src/platform/watchdog.c\<close>).
\<close>

datatype e2s_error_t =
    E2S_OK
  | E2S_ERR_GENERIC_ERROR
  | E2S_ERR_CLI_EMPTY_LINE
  | E2S_ERR_CLI_UNKNOWN_COMMAND
  | E2S_ERR_CLI_USAGE_SET
  | E2S_ERR_CLI_USAGE_GET
  | E2S_ERR_CLI_USAGE_PININFO
  | E2S_ERR_CLI_UNKNOWN_PIN
  | E2S_ERR_CLI_PIN_INPUT_ONLY
  | E2S_ERR_CLI_LINE_FORMAT
  | E2S_ERR_CLI_LINE_TRUNCATED
  | E2S_ERR_EVENT_QUEUE_FULL
  | E2S_ERR_EVENT_QUEUE_EMPTY
  | E2S_ERR_PIO_UNAVAILABLE
  | E2S_ERR_PIO_RX_EMPTY
  | E2S_ERR_PIO_TX_FULL
  | E2S_V24_RUNTIME_NOT_INITIALIZED
  | E2S_ERR_HDLC_ENCODE_FAILED
  | E2S_ERR_HDLC_ENCODE_INVALID_ARGS
  | E2S_ERR_HDLC_ENCODE_FRAME_TOO_SMALL
  | E2S_ERR_HDLC_ENCODE_FRAME_NOT_EMPTY
  | E2S_ERR_HDLC_ENCODE_OVERFLOW
  | E2S_ERR_HDLC_DECODE_INVALID_ARGS
  | E2S_ERR_HDLC_DECODE_INVALID_FRAME
  | E2S_ERR_HDLC_DECODE_PAYLOAD_TOO_LONG
  | E2S_ERR_HDLC_DECODE_PAYLOAD_TOO_SHORT
  | E2S_ERR_HDLC_DECODE_CRC_MISMATCH
  | E2S_ERR_HDLC_ACC_FRAME_READY
  | E2S_ERR_W5500_INIT_FAILED
  | E2S_ERR_W5500_SOCKET_OPEN_FAILED
  | E2S_ERR_W5500_SEND_FAILED
  | E2S_ERR_W5500_RECV_FAILED
  | E2S_ERR_TX_QUEUE_FULL
  | E2S_ERR_TX_QUEUE_NOT_INITIALIZED

section \<open>Runs that stop\<close>

text \<open>
  \<open>fatal_panic\<close> and \<open>reboot\<close> start the watchdog and spin until it resets the board, so the code after
  them never runs.  A run that stops keeps the state it stopped in: the flash survives the reset.
  \<open>Undefined\<close> is a step the C standard gives no meaning (a division by zero, a null dereference).
\<close>

datatype stop_reason = Fatal_panic e2s_error_t | Reboot | Undefined

datatype 's outcome = Running 's | Stopped stop_reason 's

fun proceed :: "'s outcome \<Rightarrow> ('s \<Rightarrow> 's outcome) \<Rightarrow> 's outcome" where
  "proceed (Running s) f = f s"
| "proceed (Stopped r s) f = Stopped r s"

definition fatal_panic :: "e2s_error_t \<Rightarrow> 's \<Rightarrow> 's outcome" where
  "fatal_panic reason s = Stopped (Fatal_panic reason) s"

definition reboot :: "'s \<Rightarrow> 's outcome" where
  "reboot s = Stopped Reboot s"

lemma proceed_Running [simp]: "proceed r Running = r"
  by (cases r) simp_all

lemma proceed_assoc: "proceed (proceed r f) g = proceed r (\<lambda>s. proceed (f s) g)"
  by (cases r) simp_all

lemma proceed_eq_Running:
  "proceed r f = Running t \<longleftrightarrow> (\<exists>s. r = Running s \<and> f s = Running t)"
  by (cases r) simp_all

end
