(* ===== verification/Hdlc_Common.thy ===== *)
theory Hdlc_Common
  imports E2S_Prelude
begin

text \<open>
  \<open>src/protocol/hdlc_common.h\<close> and \<open>hdlc_common.c\<close>: the framing constants, the frame
  descriptor shared by encoder, decoder and synchroniser, and the CRC-16 (CCITT-FALSE).

  Shown here: the CRC is linear and every step is injective, so that a message followed by
  its own CRC has remainder zero and no corruption confined to two neighbouring bytes goes
  undetected.
\<close>

section \<open>Constants and the frame descriptor\<close>

definition HDLC_FLAG_BYTE :: byte where "HDLC_FLAG_BYTE = 0x7E"
definition HDLC_ESCAPE_BYTE :: byte where "HDLC_ESCAPE_BYTE = 0x7D"
definition HDLC_ESCAPE_XOR :: byte where "HDLC_ESCAPE_XOR = 0x20"

lemmas hdlc_consts = HDLC_FLAG_BYTE_def HDLC_ESCAPE_BYTE_def HDLC_ESCAPE_XOR_def

text \<open>
  The storage \<open>payload\<close> points to is the list of the bytes it owns (a \<open>NULL\<close> pointer owns none).
\<close>

record HDLC_FRAME_T =
  hf_payload :: "byte list"
  hf_length :: nat
  hf_capacity :: nat

text \<open>The valid bytes of a frame, and what the descriptor promises about its storage.\<close>

definition frame_bytes :: "HDLC_FRAME_T \<Rightarrow> byte list" where
  "frame_bytes f = take (hf_length f) (hf_payload f)"

definition frame_wf :: "HDLC_FRAME_T \<Rightarrow> bool" where
  "frame_wf f \<longleftrightarrow> hf_length f \<le> hf_capacity f \<and> hf_capacity f \<le> length (hf_payload f)"

lemma length_frame_bytes [simp]: "frame_wf f \<Longrightarrow> length (frame_bytes f) = hf_length f"
  by (simp add: frame_wf_def frame_bytes_def)

text \<open>
  The longest UDP payload taken from the network (\<open>w5500_driver.c\<close>) and the size of one TX
  queue entry (\<open>tx_queue.h\<close>).
\<close>

definition UDP_MAX_PAYLOAD_BYTES :: nat where "UDP_MAX_PAYLOAD_BYTES = 1472"
definition TX_FRAME_MAX_SIZE_BYTE :: nat where "TX_FRAME_MAX_SIZE_BYTE = 2048"

section \<open>CRC-16\<close>

text \<open>One iteration of the inner loop: shift left, subtract the polynomial on carry.\<close>

definition crc16_bit :: "u16 \<Rightarrow> u16" where
  "crc16_bit crc16 =
     (if crc16 AND 0x8000 \<noteq> 0 then push_bit 1 crc16 XOR 0x1021 else push_bit 1 crc16)"

definition crc16_byte :: "u16 \<Rightarrow> byte \<Rightarrow> u16" where
  "crc16_byte crc16 b = (crc16_bit ^^ 8) (crc16 XOR push_bit 8 (ucast b))"

fun crc16_loop :: "u16 \<Rightarrow> byte list \<Rightarrow> u16" where
  "crc16_loop crc16 [] = crc16"
| "crc16_loop crc16 (b # payload) = crc16_loop (crc16_byte crc16 b) payload"

definition crc16_ccitt_false :: "byte list \<Rightarrow> u16" where
  "crc16_ccitt_false payload = crc16_loop 0xFFFF payload AND 0xFFFF"

definition hdlc_crc16 :: "byte list \<Rightarrow> u16" where
  "hdlc_crc16 payload = crc16_ccitt_false payload"

text \<open>The two bytes the encoders append, high byte first.\<close>

definition crc_hi :: "u16 \<Rightarrow> byte" where
  "crc_hi c = ucast (drop_bit 8 c AND 0xFF)"

definition crc_lo :: "u16 \<Rightarrow> byte" where
  "crc_lo c = ucast (c AND 0xFF)"

section \<open>Algebra of the CRC\<close>

lemma msb_test: "c AND 0x8000 \<noteq> 0 \<longleftrightarrow> bit (c :: u16) 15"
proof -
  have "(0x8000 :: u16) = push_bit 15 1"
    by simp
  then show ?thesis
    by (simp only: bit_iff_and_push_bit_not_eq_0)
qed

lemma crc16_bit_xor: "crc16_bit (a XOR b) = crc16_bit a XOR crc16_bit b"
  by (auto simp: crc16_bit_def msb_test bit_xor_iff push_bit_xor ac_simps)

lemma crc16_bit_pow_xor: "(crc16_bit ^^ n) (a XOR b) = (crc16_bit ^^ n) a XOR (crc16_bit ^^ n) b"
  by (induction n) (simp_all add: crc16_bit_xor)

lemma word_xor_eq_0_iff: "(a :: 'a::len word) XOR b = 0 \<longleftrightarrow> a = b"
proof
  assume "a XOR b = 0"
  then have "(a XOR b) XOR b = b"
    by simp
  then show "a = b"
    by (simp add: xor.assoc)
qed simp

lemma word_xor_cancel_right: "(a :: 'a::len word) XOR x = b XOR x \<longleftrightarrow> a = b"
proof
  assume "a XOR x = b XOR x"
  then have "(a XOR x) XOR x = (b XOR x) XOR x"
    by simp
  then show "a = b"
    by (simp add: xor.assoc)
qed simp

lemma word_xor_cancel_left: "(x :: 'a::len word) XOR a = x XOR b \<longleftrightarrow> a = b"
  using word_xor_cancel_right [of a x b] by (simp add: xor.commute)

lemma crc16_bit_eq_0_iff: "crc16_bit c = 0 \<longleftrightarrow> c = 0"
proof
  assume 0: "crc16_bit c = 0"
  show "c = 0"
  proof (cases "bit c 15")
    case True
    then have "bit (crc16_bit c) 0"
      by (simp add: crc16_bit_def msb_test bit_0 even_xor_iff)
    with 0 show ?thesis
      by simp
  next
    case False
    with 0 have push: "push_bit 1 c = 0"
      by (simp add: crc16_bit_def msb_test)
    have "\<not> bit c n" if "n < 16" for n
    proof (cases "n = 15")
      case True
      with False show ?thesis by simp
    next
      case other: False
      have "bit (push_bit 1 c) (Suc n) \<longleftrightarrow> bit c n"
        using that other by (subst bit_push_bit_iff) simp
      with push show ?thesis
        by simp
    qed
    then show ?thesis
      by (intro bit_word_eqI) simp
  qed
qed (simp add: crc16_bit_def)

lemma crc16_bit_pow_0 [simp]: "(crc16_bit ^^ n) 0 = 0"
  by (induction n) (simp_all add: crc16_bit_eq_0_iff)

lemma crc16_bit_pow_eq_0_iff: "(crc16_bit ^^ n) c = 0 \<longleftrightarrow> c = 0"
  by (induction n) (simp_all add: crc16_bit_eq_0_iff)

lemma crc16_bit_pow_inject: "(crc16_bit ^^ n) a = (crc16_bit ^^ n) b \<longleftrightarrow> a = b"
proof -
  have "(crc16_bit ^^ n) a = (crc16_bit ^^ n) b \<longleftrightarrow> (crc16_bit ^^ n) (a XOR b) = 0"
    by (simp add: crc16_bit_pow_xor word_xor_eq_0_iff)
  then show ?thesis
    by (simp add: crc16_bit_pow_eq_0_iff word_xor_eq_0_iff)
qed

text \<open>Eight steps move a byte from the low to the high half without a carry.\<close>

lemma crc16_bit_pow_low:
  assumes "k \<le> 8"
  shows "(crc16_bit ^^ k) (ucast (b :: byte)) = push_bit k (ucast b)"
  using assms
proof (induction k)
  case 0
  then show ?case by simp
next
  case (Suc k)
  have "\<not> bit (push_bit k (ucast b :: u16)) 15"
    using Suc.prems by (auto simp: bit_push_bit_iff bit_simps dest: bit_imp_le_length)
  with Suc show ?case
    by (simp add: crc16_bit_def msb_test push_bit_push_bit)
qed

lemma crc16_two_bytes:
  "crc16_byte (crc16_byte c a) b = (crc16_bit ^^ 16) (c XOR (push_bit 8 (ucast a) XOR ucast b))"
proof -
  have "push_bit 8 (ucast b :: u16) = (crc16_bit ^^ 8) (ucast b)"
    by (simp add: crc16_bit_pow_low)
  then have "crc16_byte (crc16_byte c a) b
      = (crc16_bit ^^ 8) ((crc16_bit ^^ 8) (c XOR push_bit 8 (ucast a) XOR ucast b))"
    by (simp add: crc16_byte_def crc16_bit_pow_xor xor.assoc)
  also have "\<dots> = (crc16_bit ^^ (8 + 8)) (c XOR push_bit 8 (ucast a) XOR ucast b)"
    by (simp only: funpow_add comp_apply)
  finally show ?thesis
    by (simp add: ac_simps)
qed

lemma crc16_loop_append: "crc16_loop c (xs @ ys) = crc16_loop (crc16_loop c xs) ys"
  by (induction xs arbitrary: c) simp_all

lemma crc16_loop_inject: "crc16_loop a xs = crc16_loop b xs \<longleftrightarrow> a = b"
proof (induction xs arbitrary: a b)
  case Nil
  then show ?case by simp
next
  case (Cons x xs)
  have "crc16_byte a x = crc16_byte b x \<longleftrightarrow> a = b"
    by (simp add: crc16_byte_def crc16_bit_pow_inject word_xor_cancel_right)
  with Cons show ?case
    by simp
qed

lemma hdlc_crc16_eq: "hdlc_crc16 payload = crc16_loop 0xFFFF payload"
proof -
  have ones: "(0xFFFF :: u16) = - 1"
    by simp
  have "x AND 0xFFFF = x" for x :: u16
    unfolding ones by simp
  then show ?thesis
    by (simp add: hdlc_crc16_def crc16_ccitt_false_def)
qed

lemma and_0xFF_take_bit: "(c :: u16) AND 0xFF = take_bit 8 c"
proof -
  have "(0xFF :: u16) = mask 8"
    by (simp add: mask_eq_exp_minus_1)
  then show ?thesis
    by (simp only: take_bit_eq_mask)
qed

lemma word16_halves: "push_bit 8 (ucast (crc_hi c)) XOR ucast (crc_lo c) = (c :: u16)"
proof (rule bit_word_eqI)
  fix n assume "n < LENGTH(16)"
  then show "bit (push_bit 8 (ucast (crc_hi c)) XOR ucast (crc_lo c) :: u16) n = bit c n"
    unfolding crc_hi_def crc_lo_def and_0xFF_take_bit
    by (cases "n < 8")
      (auto simp: bit_xor_iff bit_push_bit_iff bit_ucast_iff bit_take_bit_iff bit_drop_bit_eq)
qed

lemma two_bytes_inject:
  "push_bit 8 (ucast (a :: byte)) XOR ucast (b :: byte) = (push_bit 8 (ucast a') XOR ucast b' :: u16)
    \<longleftrightarrow> a = a' \<and> b = b'"
proof
  assume eq: "push_bit 8 (ucast a) XOR ucast b = (push_bit 8 (ucast a') XOR ucast b' :: u16)"
  have bits: "bit (push_bit 8 (ucast x) XOR ucast y :: u16) n \<longleftrightarrow> (if n < 8 then bit y n else bit x (n - 8))"
    if "n < 16" for x y :: byte and n
    using that by (auto simp: bit_xor_iff bit_push_bit_iff bit_ucast_iff dest: bit_imp_le_length)
  have "bit b n = bit b' n" if "n < 8" for n
    using bits [of n a b] bits [of n a' b'] eq that by simp
  moreover have "bit a n = bit a' n" if "n < 8" for n
    using bits [of "n + 8" a b] bits [of "n + 8" a' b'] eq that by simp
  ultimately show "a = a' \<and> b = b'"
    by (auto intro: bit_word_eqI)
qed simp

text \<open>Two neighbouring bytes anywhere in a payload are determined by the rest and the CRC.\<close>

lemma crc16_two_byte_inject:
  "hdlc_crc16 (xs @ [a, b] @ ys) = hdlc_crc16 (xs @ [a', b'] @ ys) \<longleftrightarrow> a = a' \<and> b = b'"
  by (simp add: hdlc_crc16_eq crc16_loop_append crc16_loop_inject crc16_two_bytes
      crc16_bit_pow_inject word_xor_cancel_left two_bytes_inject)

lemma crc16_residue_zero:
  "hdlc_crc16 (payload @ [crc_hi (hdlc_crc16 payload), crc_lo (hdlc_crc16 payload)]) = 0"
  by (simp add: hdlc_crc16_eq crc16_loop_append crc16_two_bytes word16_halves)

lemma crc16_residue_iff:
  "hdlc_crc16 (payload @ [a, b]) = 0 \<longleftrightarrow>
     a = crc_hi (hdlc_crc16 payload) \<and> b = crc_lo (hdlc_crc16 payload)"
  using crc16_two_byte_inject [of payload a b "[]" "crc_hi (hdlc_crc16 payload)" "crc_lo (hdlc_crc16 payload)"]
  by (simp add: crc16_residue_zero)

section \<open>Properties\<close>

text \<open>
  The two bytes the encoders append, the CRC high byte first, are the only two that leave
  the remainder zero; and changing any two neighbouring bytes of a payload changes its CRC.
\<close>

lemma crc16_residue:
  "(hdlc_crc16 (payload @ [a, b]) = 0 \<longleftrightarrow>
      a = crc_hi (hdlc_crc16 payload) \<and> b = crc_lo (hdlc_crc16 payload))
    \<and> (hdlc_crc16 (xs @ [c, d] @ ys) = hdlc_crc16 (xs @ [c', d'] @ ys) \<longleftrightarrow> c = c' \<and> d = d')"
  using crc16_residue_iff crc16_two_byte_inject by blast

end
