(* ===== verification/W5500_Driver.thy ===== *)
theory W5500_Driver
  imports E2S_Prelude Error_Codes Hdlc_Common
begin

text \<open>
  \<open>src/drivers/w5500_driver.c\<close> and \<open>w5500_driver.h\<close>: the driver of the Ethernet chip.

  The chip and the vendor library are parameters: a record \<open>'w wiznet\<close> says how a chip state of any
  type \<open>'w\<close> reacts to a command and with which return code, what its registers read, what
  \<open>recvfrom\<close> delivers and which network settings it holds.  The model also keeps the list of the
  commands issued and of the payloads received, so that what the driver asks of the chip can be stated
  without any assumption on the chip.  The static counters of \<open>w5500_poll_udp_buffer_full_events\<close> are part of the same record.

  Shown here: a received datagram is handed over with its exact bytes and no byte of the previous
  one; one datagram is sent per \<open>w5500_udp_tx\<close>; and the broadcast address is the last address of the
  subnet.
\<close>

section \<open>Data\<close>

definition IP_SOCKET :: nat where "IP_SOCKET = 0"
definition UDP_SOCKET :: nat where "UDP_SOCKET = 1"
definition UDP_W5500_OVERHEAD_BYTES :: nat where "UDP_W5500_OVERHEAD_BYTES = 8"
definition UDP_RX_REQUIRED_BYTES :: nat where
  "UDP_RX_REQUIRED_BYTES = UDP_MAX_PAYLOAD_BYTES + UDP_W5500_OVERHEAD_BYTES"
definition RX_BUF_SIZE :: nat where "RX_BUF_SIZE = 8192"
definition TX_BUF_SIZE :: nat where "TX_BUF_SIZE = 8192"
definition DEFAULT_UDP_PORT :: u16 where "DEFAULT_UDP_PORT = 6969"
definition DEFAULT_MAC_ADDR :: "byte list" where "DEFAULT_MAC_ADDR = [0x00, 0x08, 0xDC, 0x12, 0x34, 0x56]"
definition DEFAULT_IP_ADDR :: "byte list" where "DEFAULT_IP_ADDR = [192, 168, 29, 20]"
definition DEFAULT_SUBNET_MASK :: "byte list" where "DEFAULT_SUBNET_MASK = [255, 255, 255, 0]"
definition DEFAULT_GATEWAY_ADDR :: "byte list" where "DEFAULT_GATEWAY_ADDR = [192, 168, 29, 1]"
definition DEFAULT_DNS_ADDR :: "byte list" where "DEFAULT_DNS_ADDR = [8, 8, 8, 8]"

text \<open>The vendor's network settings, with the fields the firmware uses.\<close>

datatype dhcp_mode = NETINFO_STATIC | NETINFO_DHCP

record wiz_NetInfo =
  ni_mac :: "byte list"
  ni_ip :: "byte list"
  ni_sn :: "byte list"
  ni_gw :: "byte list"
  ni_dns :: "byte list"
  ni_dhcp :: dhcp_mode

record NETWORK_CONFIG_T =
  nc_net_info :: wiz_NetInfo
  nc_broadcast_address :: "byte list"

record UDP_CONFIG_T =
  uc_ip_address :: "byte list"
  uc_port :: u16

text \<open>A frame is its payload storage and the number of bytes used.\<close>

record UDP_FRAME_T =
  uf_payload :: "byte list"
  uf_length :: nat

section \<open>The chip\<close>

datatype socket_mode = Sn_MR_IPRAW | Sn_MR_UDP

datatype wiz_cmd =
  Wiz_sendto nat "byte list" "byte list" u16
| Wiz_socket nat socket_mode u16 bool
| Wiz_close nat
| Wiz_setnetinfo wiz_NetInfo
| Wiz_network_initialize wiz_NetInfo
| Wiz_init_memsize "nat list" "nat list"
| Wiz_spi_initialize
| Wiz_cris_initialize
| Wiz_reset
| Wiz_initialize
| Wiz_check

datatype wiz_register =
  GetPHYCFGR | GetSn_MR nat | GetSn_SR nat
| GetSn_RX_RSR nat | GetSn_RXBUF_SIZE nat | GetSn_TX_FSR nat | GetSn_TXBUF_SIZE nat

text \<open>
  A call of \<open>recvfrom\<close>: its return value, the bytes it wrote from the start of the buffer and, when
  it wrote them, the address and port of the sender.
\<close>

record wiz_received =
  wr_ret :: int
  wr_data :: "byte list"
  wr_from :: "(byte list \<times> u16) option"

record 'w wiznet =
  wiz_do :: "wiz_cmd \<Rightarrow> 'w \<Rightarrow> int \<times> 'w"
  wiz_ask :: "wiz_register \<Rightarrow> 'w \<Rightarrow> u16 \<times> 'w"
  wiz_recvfrom :: "nat \<Rightarrow> nat \<Rightarrow> 'w \<Rightarrow> wiz_received \<times> 'w"
  wiz_getnetinfo :: "'w \<Rightarrow> wiz_NetInfo \<times> 'w"

record 'w w5500 =
  w_chip :: 'w
  w_trace :: "wiz_cmd list"
  w_received :: "byte list list"
  w_rx_events :: u64
  w_tx_events :: u64
  w_rx_was_full :: bool
  w_tx_was_full :: bool

definition chip_do :: "'w wiznet \<Rightarrow> wiz_cmd \<Rightarrow> 'w w5500 \<Rightarrow> int \<times> 'w w5500" where
  "chip_do z c n = (let (r, w) = wiz_do z c (w_chip n) in (r, n\<lparr>w_chip := w, w_trace := w_trace n @ [c]\<rparr>))"

definition chip_ask :: "'w wiznet \<Rightarrow> wiz_register \<Rightarrow> 'w w5500 \<Rightarrow> u16 \<times> 'w w5500" where
  "chip_ask z q n = (let (v, w) = wiz_ask z q (w_chip n) in (v, n\<lparr>w_chip := w\<rparr>))"

definition chip_recvfrom :: "'w wiznet \<Rightarrow> nat \<Rightarrow> nat \<Rightarrow> 'w w5500 \<Rightarrow> wiz_received \<times> 'w w5500" where
  "chip_recvfrom z s cap n = (let (r, w) = wiz_recvfrom z s cap (w_chip n)
     in (r, n\<lparr>w_chip := w, w_received := w_received n @ (if wr_ret r > 0 then [wr_data r] else [])\<rparr>))"

definition chip_getnetinfo :: "'w wiznet \<Rightarrow> 'w w5500 \<Rightarrow> wiz_NetInfo \<times> 'w w5500" where
  "chip_getnetinfo z n = (let (i, w) = wiz_getnetinfo z (w_chip n) in (i, n\<lparr>w_chip := w\<rparr>))"

section \<open>Operations\<close>

text \<open>Full from the given readings: too little room for one maximal datagram, and no room at all.\<close>

definition rx_is_full :: "u16 \<Rightarrow> u16 \<Rightarrow> bool" where
  "rx_is_full rx_used_bytes rx_cap_bytes =
     (let rx_free_bytes = (if rx_used_bytes < rx_cap_bytes then rx_cap_bytes - rx_used_bytes else 0)
      in rx_cap_bytes > 0 \<and> unat rx_free_bytes < UDP_RX_REQUIRED_BYTES)"

definition tx_is_full :: "u16 \<Rightarrow> u16 \<Rightarrow> bool" where
  "tx_is_full tx_free_bytes tx_cap_bytes \<longleftrightarrow> tx_cap_bytes > 0 \<and> tx_free_bytes = 0"

text \<open>The two counts returned are the values of \<open>w_rx_events\<close> and \<open>w_tx_events\<close> afterwards.\<close>

definition w5500_poll_udp_buffer_full_events :: "'w wiznet \<Rightarrow> 'w w5500 \<Rightarrow> u64 \<times> u64 \<times> 'w w5500" where
  "w5500_poll_udp_buffer_full_events z n =
     (let (rx_used, n1) = chip_ask z (GetSn_RX_RSR UDP_SOCKET) n;
          (rx_kb, n2) = chip_ask z (GetSn_RXBUF_SIZE UDP_SOCKET) n1;
          (tx_free, n3) = chip_ask z (GetSn_TX_FSR UDP_SOCKET) n2;
          (tx_kb, n4) = chip_ask z (GetSn_TXBUF_SIZE UDP_SOCKET) n3;
          rx_full = rx_is_full rx_used (rx_kb * 1024);
          tx_full = tx_is_full tx_free (tx_kb * 1024);
          rx_events = (if rx_full \<and> \<not> w_rx_was_full n4 then w_rx_events n4 + 1 else w_rx_events n4);
          tx_events = (if tx_full \<and> \<not> w_tx_was_full n4 then w_tx_events n4 + 1 else w_tx_events n4)
      in (rx_events, tx_events,
          n4\<lparr>w_rx_events := rx_events, w_tx_events := tx_events,
             w_rx_was_full := rx_full, w_tx_was_full := tx_full\<rparr>))"

definition ipv4_calc_broadcast_u8 :: "byte list \<Rightarrow> byte list \<Rightarrow> byte list" where
  "ipv4_calc_broadcast_u8 ip_addr net_mask =
     map (\<lambda>i. (ip_addr ! i AND net_mask ! i) OR NOT (net_mask ! i)) [0..<4]"

text \<open>Only the register reads; the report is log output.\<close>

definition w5500_debug_status :: "'w wiznet \<Rightarrow> 'w w5500 \<Rightarrow> 'w w5500" where
  "w5500_debug_status z n =
     (let (_, n1) = chip_ask z GetPHYCFGR n;
          (_, n2) = chip_ask z (GetSn_MR IP_SOCKET) n1;
          (_, n3) = chip_ask z (GetSn_SR IP_SOCKET) n2
      in n3)"

text \<open>The length is cast to 16 bits; a failing \<open>sendto\<close> is only logged.\<close>

definition w5500_udp_tx :: "'w wiznet \<Rightarrow> UDP_CONFIG_T \<Rightarrow> UDP_FRAME_T \<Rightarrow> 'w w5500 \<Rightarrow> 'w w5500" where
  "w5500_udp_tx z send_config frame n =
     snd (chip_do z (Wiz_sendto UDP_SOCKET (take (uf_length frame mod 2 ^ 16) (uf_payload frame))
                       (uc_ip_address send_config) (uc_port send_config)) n)"

definition wipe_frame :: "UDP_FRAME_T \<Rightarrow> UDP_FRAME_T" where
  "wipe_frame frame =
     frame\<lparr>uf_payload := replicate (uf_length frame) 0 @ drop (uf_length frame) (uf_payload frame), uf_length := 0\<rparr>"

definition w5500_poll_rx ::
  "'w wiznet \<Rightarrow> UDP_CONFIG_T \<Rightarrow> UDP_FRAME_T \<Rightarrow> 'w w5500 \<Rightarrow> bool \<times> UDP_CONFIG_T \<times> UDP_FRAME_T \<times> 'w w5500" where
  "w5500_poll_rx z send_config frame n =
     (let frame1 = (if uf_length frame > 0 then wipe_frame frame else frame);
          (r, n1) = chip_recvfrom z UDP_SOCKET RX_BUF_SIZE n;
          frame2 = frame1\<lparr>uf_payload := wr_data r @ drop (length (wr_data r)) (uf_payload frame1)\<rparr>;
          send_config1 = (case wr_from r of None \<Rightarrow> send_config
                          | Some (ip, port) \<Rightarrow> send_config\<lparr>uc_ip_address := ip, uc_port := port\<rparr>)
      in if wr_ret r > 0 then (True, send_config1, frame2\<lparr>uf_length := nat (wr_ret r)\<rparr>, n1)
         else (False, send_config1, frame2, n1))"

definition w5500_open_ipraw_socket :: "'w wiznet \<Rightarrow> 'w w5500 \<Rightarrow> e2s_error_t \<times> 'w w5500" where
  "w5500_open_ipraw_socket z n =
     (let (ret, n1) = chip_do z (Wiz_socket IP_SOCKET Sn_MR_IPRAW 0 False) n
      in (if ret \<noteq> int IP_SOCKET then E2S_ERR_W5500_SOCKET_OPEN_FAILED else E2S_OK, n1))"

text \<open>The last argument of \<open>Wiz_socket\<close> is \<open>SF_IO_NONBLOCK\<close>.\<close>

definition w5500_open_udp_socket :: "'w wiznet \<Rightarrow> UDP_CONFIG_T \<Rightarrow> 'w w5500 \<Rightarrow> e2s_error_t \<times> 'w w5500" where
  "w5500_open_udp_socket z config n =
     (let (ret, n1) = chip_do z (Wiz_socket UDP_SOCKET Sn_MR_UDP (uc_port config) True) n
      in (if ret \<noteq> int UDP_SOCKET then E2S_ERR_W5500_SOCKET_OPEN_FAILED else E2S_OK, n1))"

definition w5500_reconfigure_udp_socket :: "'w wiznet \<Rightarrow> UDP_CONFIG_T \<Rightarrow> 'w w5500 \<Rightarrow> e2s_error_t \<times> 'w w5500" where
  "w5500_reconfigure_udp_socket z config n =
     w5500_open_udp_socket z config (snd (chip_do z (Wiz_close UDP_SOCKET) n))"

definition w5500_set_network :: "'w wiznet \<Rightarrow> NETWORK_CONFIG_T \<Rightarrow> 'w w5500 \<Rightarrow> NETWORK_CONFIG_T \<times> 'w w5500" where
  "w5500_set_network z config n =
     (let config1 = config\<lparr>nc_broadcast_address :=
            ipv4_calc_broadcast_u8 (ni_ip (nc_net_info config)) (ni_sn (nc_net_info config))\<rparr>
      in (config1, snd (chip_do z (Wiz_network_initialize (nc_net_info config1)) n)))"

definition socket_memsize :: "nat list" where "socket_memsize = [1, 8, 1, 1, 1, 1, 1, 2]"

definition w5500_apply_socket_mem_map :: "'w wiznet \<Rightarrow> 'w w5500 \<Rightarrow> e2s_error_t \<times> 'w w5500" where
  "w5500_apply_socket_mem_map z n =
     (let (ret, n1) = chip_do z (Wiz_init_memsize socket_memsize socket_memsize) n
      in if ret = -1 then (E2S_ERR_W5500_INIT_FAILED, n1)
         else
           let (_, n2) = chip_ask z (GetSn_RXBUF_SIZE UDP_SOCKET) n1;
               (_, n3) = chip_ask z (GetSn_TXBUF_SIZE UDP_SOCKET) n2
           in (E2S_OK, n3))"

definition default_net_info :: wiz_NetInfo where
  "default_net_info =
     \<lparr>ni_mac = DEFAULT_MAC_ADDR, ni_ip = DEFAULT_IP_ADDR, ni_sn = DEFAULT_SUBNET_MASK,
      ni_gw = DEFAULT_GATEWAY_ADDR, ni_dns = DEFAULT_DNS_ADDR, ni_dhcp = NETINFO_STATIC\<rparr>"

definition w5500_set_network_defaults ::
  "'w wiznet \<Rightarrow> NETWORK_CONFIG_T \<Rightarrow> 'w w5500 \<Rightarrow> NETWORK_CONFIG_T \<times> 'w w5500" where
  "w5500_set_network_defaults z config n = w5500_set_network z (config\<lparr>nc_net_info := default_net_info\<rparr>) n"

definition w5500_driver_init :: "'w wiznet \<Rightarrow> 'w w5500 \<Rightarrow> 'w w5500 outcome" where
  "w5500_driver_init z n =
     (let n1 = snd (chip_do z Wiz_spi_initialize n);
          n2 = snd (chip_do z Wiz_cris_initialize n1);
          n3 = snd (chip_do z Wiz_reset n2);
          n4 = snd (chip_do z Wiz_initialize n3);
          (err, n5) = w5500_apply_socket_mem_map z n4
      in proceed (if err \<noteq> E2S_OK then fatal_panic E2S_ERR_W5500_INIT_FAILED n5 else Running n5)
           (\<lambda>n6. Running (snd (chip_do z Wiz_check n6))))"

section \<open>What the driver does\<close>

lemma chip_do_trace [simp]: "w_trace (snd (chip_do z c n)) = w_trace n @ [c]"
  by (simp add: chip_do_def split_beta)

lemma chip_reads_keep_trace [simp]:
  "w_trace (snd (chip_ask z q n)) = w_trace n" "w_trace (snd (chip_recvfrom z s cap n)) = w_trace n"
  "w_trace (snd (chip_getnetinfo z n)) = w_trace n"
  by (simp_all add: chip_ask_def chip_recvfrom_def chip_getnetinfo_def split_beta)

lemma chip_keeps_received [simp]:
  "w_received (snd (chip_do z c n)) = w_received n" "w_received (snd (chip_ask z q n)) = w_received n"
  "w_received (snd (chip_getnetinfo z n)) = w_received n"
  by (simp_all add: chip_do_def chip_ask_def chip_getnetinfo_def split_beta)

text \<open>
  What the vendor library promises of a non-blocking \<open>recvfrom\<close>: a positive return value is the
  number of bytes it wrote, never more than the buffer takes; otherwise nothing is written.
\<close>

definition recvfrom_contract :: "'w wiznet \<Rightarrow> bool" where
  "recvfrom_contract z \<longleftrightarrow>
     (\<forall>s cap w. let r = fst (wiz_recvfrom z s cap w) in
        if wr_ret r > 0 then int (length (wr_data r)) = wr_ret r \<and> length (wr_data r) \<le> cap \<and> wr_from r \<noteq> None
        else wr_data r = [] \<and> wr_from r = None)"

text \<open>The datagrams handed to the chip.\<close>

fun datagrams :: "wiz_cmd list \<Rightarrow> (byte list \<times> byte list \<times> u16) list" where
  "datagrams [] = []"
| "datagrams (Wiz_sendto _ data ip port # cs) = (data, ip, port) # datagrams cs"
| "datagrams (_ # cs) = datagrams cs"

lemma datagrams_append [simp]: "datagrams (cs @ ds) = datagrams cs @ datagrams ds"
  by (induction cs rule: datagrams.induct) simp_all

definition net_sent :: "'w w5500 \<Rightarrow> (byte list \<times> byte list \<times> u16) list" where
  "net_sent n = datagrams (w_trace n)"

lemma w5500_udp_tx_sent:
  assumes "uf_length frame < 2 ^ 16"
  shows "net_sent (w5500_udp_tx z cfg frame n)
    = net_sent n @ [(take (uf_length frame) (uf_payload frame), uc_ip_address cfg, uc_port cfg)]"
  using assms by (simp add: net_sent_def w5500_udp_tx_def)

text \<open>A receive buffer that is clean: its storage has its size and holds zeros behind the frame.\<close>

definition frame_clean :: "UDP_FRAME_T \<Rightarrow> bool" where
  "frame_clean f \<longleftrightarrow> length (uf_payload f) = RX_BUF_SIZE \<and> uf_length f \<le> RX_BUF_SIZE
     \<and> (\<forall>i. uf_length f \<le> i \<longrightarrow> i < RX_BUF_SIZE \<longrightarrow> uf_payload f ! i = 0)"

lemma wipe_frame_clean:
  assumes "frame_clean f"
  shows "uf_payload (wipe_frame f) = replicate RX_BUF_SIZE 0" "uf_length (wipe_frame f) = 0"
  using assms by (auto simp: frame_clean_def wipe_frame_def nth_append intro!: nth_equalityI)

lemma frame_clean_empty:
  assumes "frame_clean f" "uf_length f = 0"
  shows "uf_payload f = replicate RX_BUF_SIZE 0"
  using assms by (auto simp: frame_clean_def intro!: nth_equalityI)

lemma w5500_poll_rx_step:
  assumes "recvfrom_contract z" "frame_clean f"
    and "w5500_poll_rx z cfg f n = (got, cfg', f', n')"
    and "r = fst (chip_recvfrom z UDP_SOCKET RX_BUF_SIZE n)"
  shows "got \<longleftrightarrow> wr_ret r > 0" "take (uf_length f') (uf_payload f') = wr_data r" "frame_clean f'"
    "\<not> got \<longrightarrow> cfg' = cfg \<and> uf_length f' = 0" "got \<longrightarrow> wr_from r = Some (uc_ip_address cfg', uc_port cfg')"
    "w_trace n' = w_trace n" "w_received n' = w_received n @ (if got then [take (uf_length f') (uf_payload f')] else [])"
proof -
  let ?f1 = "if uf_length f > 0 then wipe_frame f else f"
  have blank: "uf_payload ?f1 = replicate RX_BUF_SIZE 0" "uf_length ?f1 = 0"
    using wipe_frame_clean [OF assms(2)] frame_clean_empty [OF assms(2)] by auto
  have r: "if wr_ret r > 0 then int (length (wr_data r)) = wr_ret r \<and> length (wr_data r) \<le> RX_BUF_SIZE \<and> wr_from r \<noteq> None
           else wr_data r = [] \<and> wr_from r = None"
    using assms(1) unfolding assms(4) recvfrom_contract_def chip_recvfrom_def
    by (simp add: split_beta Let_def)
  have res: "(got, cfg', f', n') = (let frame2 = ?f1\<lparr>uf_payload := wr_data r @ drop (length (wr_data r)) (replicate RX_BUF_SIZE 0)\<rparr>;
        cfg1 = (case wr_from r of None \<Rightarrow> cfg | Some (ip, port) \<Rightarrow> cfg\<lparr>uc_ip_address := ip, uc_port := port\<rparr>)
      in if wr_ret r > 0 then (True, cfg1, frame2\<lparr>uf_length := nat (wr_ret r)\<rparr>, snd (chip_recvfrom z UDP_SOCKET RX_BUF_SIZE n))
         else (False, cfg1, frame2, snd (chip_recvfrom z UDP_SOCKET RX_BUF_SIZE n)))"
    unfolding assms(3) [symmetric] blank(1) [symmetric] assms(4)
    by (simp add: w5500_poll_rx_def split_beta Let_def)
  show "got \<longleftrightarrow> wr_ret r > 0" "w_trace n' = w_trace n"
    using res by (auto simp: Let_def split: if_splits)
  show "\<not> got \<longrightarrow> cfg' = cfg \<and> uf_length f' = 0"
    using res r blank(2) by (auto simp: Let_def split: if_splits)
  show "got \<longrightarrow> wr_from r = Some (uc_ip_address cfg', uc_port cfg')"
    using res r by (auto simp: Let_def split: if_splits)
  show data: "take (uf_length f') (uf_payload f') = wr_data r"
    using res r blank(2) by (auto simp: Let_def split: if_splits)
  show "w_received n' = w_received n @ (if got then [take (uf_length f') (uf_payload f')] else [])"
    using res unfolding data by (auto simp: Let_def assms(4) chip_recvfrom_def split_beta split: if_splits)
  show "frame_clean f'"
    using res r blank(2) by (auto simp: frame_clean_def Let_def nth_append split: if_splits)
qed

section \<open>The broadcast address\<close>

text \<open>The address as one 32 bit number, the first byte on top.\<close>

definition ip_value :: "byte list \<Rightarrow> u32" where
  "ip_value ip = foldl (\<lambda>v b. push_bit 8 v OR ucast b) 0 ip"

lemma ip_value_4:
  "ip_value [a, b, c, d] = push_bit 24 (ucast a) OR push_bit 16 (ucast b) OR push_bit 8 (ucast c) OR ucast d"
  by (simp add: ip_value_def push_bit_or ac_simps)

lemma bit_ip_value_4:
  "bit (ip_value [a, b, c, d]) n \<longleftrightarrow> n < 32 \<and>
     (if n < 8 then bit d n else if n < 16 then bit c (n - 8) else if n < 24 then bit b (n - 16) else bit a (n - 24))"
  by (auto simp: ip_value_4 bit_simps not_less dest: bit_imp_le_length)

lemma length_4: "length ip = 4 \<Longrightarrow> \<exists>a b c d. ip = [a, b, c, d]"
  by (auto simp: numeral_eq_Suc length_Suc_conv)

lemma broadcast_value:
  assumes "length ip = 4" "length net_mask = 4"
  shows "ip_value (ipv4_calc_broadcast_u8 ip net_mask) = (ip_value ip AND ip_value net_mask) OR NOT (ip_value net_mask)"
proof -
  obtain a b c d e f g h where ip: "ip = [a, b, c, d]" "net_mask = [e, f, g, h]"
    using length_4 [OF assms(1)] length_4 [OF assms(2)] by blast
  have "ipv4_calc_broadcast_u8 ip net_mask
      = [(a AND e) OR NOT e, (b AND f) OR NOT f, (c AND g) OR NOT g, (d AND h) OR NOT h]"
    by (simp add: ip ipv4_calc_broadcast_u8_def upt_rec)
  then show ?thesis
    unfolding ip by (intro bit_word_eqI) (auto simp: bit_ip_value_4 bit_or_iff bit_and_iff bit_not_iff)
qed

text \<open>
  C37.  The broadcast address.  Computed byte by byte, it is the address obtained from the 32 bit
  numbers by setting all host bits; it lies in the subnet of the given address and no address of that
  subnet is greater.
\<close>

theorem broadcast_is_last_address:
  assumes "length ip = 4" "length net_mask = 4"
  defines "bcast \<equiv> ip_value (ipv4_calc_broadcast_u8 ip net_mask)"
  shows "bcast = (ip_value ip AND ip_value net_mask) OR NOT (ip_value net_mask)
    \<and> bcast AND ip_value net_mask = ip_value ip AND ip_value net_mask
    \<and> (v AND ip_value net_mask = ip_value ip AND ip_value net_mask \<longrightarrow> v \<le> bcast)"
proof -
  let ?m = "ip_value net_mask"
  have eq: "bcast = (ip_value ip AND ?m) OR NOT ?m"
    using broadcast_value [OF assms(1,2)] by (simp add: bcast_def)
  moreover have "bcast AND ?m = ip_value ip AND ?m"
    unfolding eq by (rule bit_word_eqI) (auto simp: bit_simps)
  moreover have "v \<le> bcast" if "v AND ?m = ip_value ip AND ?m"
  proof -
    have "v OR NOT ?m = bcast"
      unfolding eq that [symmetric] by (rule bit_word_eqI) (auto simp: bit_simps)
    then show ?thesis
      by (metis le_word_or2 or.commute)
  qed
  ultimately show ?thesis
    by blast
qed

theorem broadcast_is_last_address_witness:
  "ip_value [192, 168, 29, 77] \<le> ip_value (ipv4_calc_broadcast_u8 [192, 168, 29, 20] [255, 255, 255, 0])"
  using broadcast_is_last_address [of "[192, 168, 29, 20]" "[255, 255, 255, 0]" "ip_value [192, 168, 29, 77]"]
  by (simp add: ip_value_def)

end
