(* ===== verification/V24_Config.thy ===== *)
theory V24_Config
  imports E2S_Prelude
begin

text \<open>
  The configuration types of \<open>src/drivers/v24_config.h\<close> and the default polarities of
  \<open>src/drivers/gpio_driver.c\<close>.  A baud rate is an enumeration whose constants are its rate; the
  code stores and compares it as that number, and a stored configuration may hold any number, so
  it is a 32 bit word with the named constants.
\<close>

type_synonym V24_BAUDRATE_T = u32

definition V24_BAUD_1200 :: V24_BAUDRATE_T where "V24_BAUD_1200 = 1200"
definition V24_BAUD_9600 :: V24_BAUDRATE_T where "V24_BAUD_9600 = 9600"

text \<open>The rates the enumeration names, in its order.\<close>

definition v24_baudrates :: "V24_BAUDRATE_T list" where
  "v24_baudrates = [1200, 2400, 4800, 9600, 16000, 19200, 38400, 57600, 115200]"

record V24_TX_POLARITIES_T =
  txd_inverted :: bool
  txc_inverted :: bool
  cts_inverted :: bool
  rts_inverted :: bool
  dtr_inverted :: bool

record V24_RX_POLARITIES_T =
  rxd_inverted :: bool
  rxc_inverted :: bool
  dcd_inverted :: bool

record V24_POLARITIES_T =
  tx_polarities :: V24_TX_POLARITIES_T
  rx_polarities :: V24_RX_POLARITIES_T

record V24_CONFIG_T =
  vc_baudrate :: V24_BAUDRATE_T
  vc_polarities :: V24_POLARITIES_T
  vc_tx_rts_holdoff_us :: u32
  vc_rts_set :: bool
  vc_external_clock :: bool

definition init_polarities :: V24_POLARITIES_T where
  "init_polarities =
     \<lparr>tx_polarities = \<lparr>txd_inverted = False, txc_inverted = True, cts_inverted = True,
                       rts_inverted = True, dtr_inverted = True\<rparr>,
      rx_polarities = \<lparr>rxd_inverted = False, rxc_inverted = True, dcd_inverted = True\<rparr>\<rparr>"

text \<open>All flags cleared, as \<open>memset\<close> with zero leaves them.\<close>

definition no_polarities :: V24_POLARITIES_T where
  "no_polarities =
     \<lparr>tx_polarities = \<lparr>txd_inverted = False, txc_inverted = False, cts_inverted = False,
                       rts_inverted = False, dtr_inverted = False\<rparr>,
      rx_polarities = \<lparr>rxd_inverted = False, rxc_inverted = False, dcd_inverted = False\<rparr>\<rparr>"

end
