(* ===== verification/Persistent_Config.thy ===== *)
theory Persistent_Config
  imports W5500_Driver V24_Config Log_Queue
begin

text \<open>
  \<open>src/system/persistent_config.c\<close>: the configuration kept in the last sector of the flash.  The
  sector is modelled by the \<open>config_t\<close> that a cast of its address reads: \<open>config_write\<close> programs the
  bytes of the structure, \<open>config_wipe\<close> programs zeros.  The printing functions of the file change
  nothing; their text is in \<open>Reports\<close>.
\<close>

definition CONFIG_MAGIC :: u32 where "CONFIG_MAGIC = 0xCAFEBABE"

record config_t =
  cf_magic :: u32
  cf_version :: u32
  cf_local_config :: UDP_CONFIG_T
  cf_remote_config :: UDP_CONFIG_T
  cf_net_config :: NETWORK_CONFIG_T
  cf_v24_config :: V24_CONFIG_T
  cf_log_level :: log_level_t

text \<open>The objects of all-zero bytes.\<close>

definition udp_config_zero :: UDP_CONFIG_T where
  "udp_config_zero = \<lparr>uc_ip_address = [0, 0, 0, 0], uc_port = 0\<rparr>"

definition net_config_zero :: NETWORK_CONFIG_T where
  "net_config_zero =
     \<lparr>nc_net_info = \<lparr>ni_mac = [0, 0, 0, 0, 0, 0], ni_ip = [0, 0, 0, 0], ni_sn = [0, 0, 0, 0], ni_gw = [0, 0, 0, 0],
        ni_dns = [0, 0, 0, 0], ni_dhcp = NETINFO_STATIC\<rparr>, nc_broadcast_address = [0, 0, 0, 0]\<rparr>"

definition v24_config_zero :: V24_CONFIG_T where
  "v24_config_zero = \<lparr>vc_baudrate = 0, vc_polarities = no_polarities, vc_tx_rts_holdoff_us = 0,
     vc_rts_set = False, vc_external_clock = False\<rparr>"

definition config_zero :: config_t where
  "config_zero = \<lparr>cf_magic = 0, cf_version = 0, cf_local_config = udp_config_zero, cf_remote_config = udp_config_zero,
     cf_net_config = net_config_zero, cf_v24_config = v24_config_zero, cf_log_level = LOG_LEVEL_PLAIN\<rparr>"

text \<open>\<open>None\<close> leaves the destination as it was.\<close>

definition config_read :: "config_t \<Rightarrow> config_t option" where
  "config_read flash = (if cf_magic flash \<noteq> CONFIG_MAGIC then None else Some flash)"

definition config_is_valid :: "config_t \<Rightarrow> bool" where
  "config_is_valid flash \<longleftrightarrow> cf_magic flash = CONFIG_MAGIC"

definition config_wipe :: "config_t \<Rightarrow> config_t" where
  "config_wipe flash = config_zero"

text \<open>
  The new content of the flash and of the structure passed in, whose magic is overwritten although
  the parameter is \<open>const\<close>.
\<close>

definition config_write :: "config_t \<Rightarrow> config_t \<Rightarrow> config_t \<times> config_t" where
  "config_write cfg flash = (let cfg_mut = cfg\<lparr>cf_magic := CONFIG_MAGIC\<rparr> in (cfg_mut, cfg_mut))"

lemma config_read_write: "config_read (fst (config_write cfg flash)) = Some (cfg\<lparr>cf_magic := CONFIG_MAGIC\<rparr>)"
  by (simp add: config_write_def config_read_def Let_def)

lemma config_read_wipe: "config_read (config_wipe flash) = None"
  by (simp add: config_wipe_def config_zero_def config_read_def CONFIG_MAGIC_def)

end
