(* ===== verification/Hdlc_Encoder.thy ===== *)
theory Hdlc_Encoder
  imports Hdlc_Common
begin

text \<open>
  \<open>src/protocol/hdlc_encoder.c\<close>: the bit-stuffing encoder the data path uses
  (\<open>hdlc_encode\<close>) and the byte-escaping compatibility encoder (\<open>hdlc_encode_byte\<close>).

  The \<open>goto abort\<close> macros become the combinator \<open>and_then\<close>: the state a failing step leaves
  behind is kept, because the caller's buffer keeps the bytes already written.  A payload is a
  pointer (\<open>option\<close>) with its length; a non-\<open>NULL\<close> payload owns at least \<open>payload_length\<close> bytes.

  Shown here: both encoders compute the reference encodings \<open>hdlc_frame\<close> and
  \<open>hdlc_frame_escaped\<close> whenever the frame fits the capacity and otherwise fail with an empty
  frame; a stuffed stream never holds six ones in a row; how long an encoded frame can get.
\<close>

section \<open>The encoders\<close>

definition hdlc_try_put_byte :: "byte \<Rightarrow> HDLC_FRAME_T \<Rightarrow> bool \<times> HDLC_FRAME_T" where
  "hdlc_try_put_byte b frame =
     (if hf_length frame + 1 > hf_capacity frame then (False, frame)
      else (True, frame\<lparr>hf_payload := (hf_payload frame)[hf_length frame := b],
                        hf_length := hf_length frame + 1\<rparr>))"

definition hdlc_escape_if_needed :: "byte \<Rightarrow> HDLC_FRAME_T \<Rightarrow> bool \<times> HDLC_FRAME_T" where
  "hdlc_escape_if_needed b frame =
     (if b = HDLC_FLAG_BYTE \<or> b = HDLC_ESCAPE_BYTE
      then and_then (hdlc_try_put_byte HDLC_ESCAPE_BYTE frame)
                    (hdlc_try_put_byte (b XOR HDLC_ESCAPE_XOR))
      else hdlc_try_put_byte b frame)"

text \<open>The common tail of both encoders: on failure the frame is emptied.\<close>

definition hdlc_abort_unless :: "bool \<times> HDLC_FRAME_T \<Rightarrow> bool \<times> HDLC_FRAME_T option" where
  "hdlc_abort_unless r = (if fst r then (True, Some (snd r)) else (False, Some ((snd r)\<lparr>hf_length := 0\<rparr>)))"

text \<open>The argument check shared by both encoders (\<open>frame\<close> itself is not \<open>NULL\<close> here).\<close>

definition hdlc_encode_bad_args :: "byte list option \<Rightarrow> nat \<Rightarrow> HDLC_FRAME_T \<Rightarrow> bool" where
  "hdlc_encode_bad_args payload payload_length frame \<longleftrightarrow>
     (payload = None \<and> payload_length > 0) \<or> hf_capacity frame < 2 \<or> hf_length frame \<noteq> 0"

definition payload_bytes :: "byte list option \<Rightarrow> nat \<Rightarrow> byte list" where
  "payload_bytes payload payload_length = (case payload of None \<Rightarrow> [] | Some bs \<Rightarrow> take payload_length bs)"

definition hdlc_encode_byte ::
  "byte list option \<Rightarrow> nat \<Rightarrow> HDLC_FRAME_T option \<Rightarrow> bool \<times> HDLC_FRAME_T option" where
  "hdlc_encode_byte payload payload_length frame_ptr =
     (case frame_ptr of
        None \<Rightarrow> (False, None)
      | Some frame \<Rightarrow>
          if hdlc_encode_bad_args payload payload_length frame
          then hdlc_abort_unless (False, frame)
          else
            let data = payload_bytes payload payload_length;
                crc16 = hdlc_crc16 data
            in hdlc_abort_unless
                 (and_then (hdlc_try_put_byte HDLC_FLAG_BYTE frame) (\<lambda>f1.
                  and_then (for_each hdlc_escape_if_needed data f1) (\<lambda>f2.
                  and_then (hdlc_escape_if_needed (crc_hi crc16) f2) (\<lambda>f3.
                  and_then (hdlc_escape_if_needed (crc_lo crc16) f3)
                           (hdlc_try_put_byte HDLC_FLAG_BYTE))))))"

record hdlc_encoder_t =
  out_byte :: byte
  out_bits_used :: nat
  ones_run :: nat
  lsb_first :: bool

definition SHIFT_IN_BIT :: "byte \<Rightarrow> bool \<Rightarrow> bool \<Rightarrow> nat \<Rightarrow> byte" where
  "SHIFT_IN_BIT outbyte bitorder b bitpos =
     (if bitorder then outbyte OR push_bit bitpos (of_bool b)
      else outbyte OR push_bit (7 - bitpos) (of_bool b))"

type_synonym enc_state = "hdlc_encoder_t \<times> HDLC_FRAME_T"

definition ENCODER_TRY_FLUSH_BYTE_OUT :: "enc_state \<Rightarrow> bool \<times> enc_state" where
  "ENCODER_TRY_FLUSH_BYTE_OUT = (\<lambda>(encoder, frame).
     let e1 = encoder\<lparr>out_bits_used := out_bits_used encoder + 1\<rparr> in
     if out_bits_used e1 = 8
     then (case hdlc_try_put_byte (out_byte e1) frame of
             (True, f1) \<Rightarrow> (True, (e1\<lparr>out_bits_used := 0, out_byte := 0\<rparr>, f1))
           | (False, f1) \<Rightarrow> (False, (e1, f1)))
     else (True, (e1, frame)))"

definition ENCODER_ZERO_PAD_AND_DRAIN :: "enc_state \<Rightarrow> bool \<times> enc_state" where
  "ENCODER_ZERO_PAD_AND_DRAIN = (\<lambda>(encoder, frame).
     if out_bits_used encoder > 0
     then (case hdlc_try_put_byte (out_byte encoder) frame of
             (True, f1) \<Rightarrow> (True, (encoder\<lparr>out_byte := 0, ones_run := 0, out_bits_used := 0\<rparr>, f1))
           | (False, f1) \<Rightarrow> (False, (encoder, f1)))
     else (True, (encoder, frame)))"

definition HDLC_BIT_STUFF_ONES_LIMIT :: nat where "HDLC_BIT_STUFF_ONES_LIMIT = 5"

definition hdlc_put_bit :: "bool \<Rightarrow> enc_state \<Rightarrow> bool \<times> enc_state" where
  "hdlc_put_bit b = (\<lambda>(encoder, frame).
     let e1 = encoder\<lparr>ones_run := (if b then ones_run encoder + 1 else 0)\<rparr>;
         e2 = e1\<lparr>out_byte := SHIFT_IN_BIT (out_byte e1) (lsb_first e1) b (out_bits_used e1)\<rparr>
     in and_then (ENCODER_TRY_FLUSH_BYTE_OUT (e2, frame)) (\<lambda>(e3, f1).
          if ones_run e3 = HDLC_BIT_STUFF_ONES_LIMIT
          then ENCODER_TRY_FLUSH_BYTE_OUT
                 (e3\<lparr>ones_run := 0,
                     out_byte := SHIFT_IN_BIT (out_byte e3) (lsb_first e3) False (out_bits_used e3)\<rparr>, f1)
          else (True, (e3, f1))))"

definition hdlc_put_byte :: "byte \<Rightarrow> enc_state \<Rightarrow> bool \<times> enc_state" where
  "hdlc_put_byte b s =
     for_each (\<lambda>i s'. let pos = (if lsb_first (fst s') then i else 7 - i)
                      in hdlc_put_bit (drop_bit pos b AND 1 \<noteq> 0) s')
       [0..<8] s"

definition hdlc_encode ::
  "byte list option \<Rightarrow> nat \<Rightarrow> HDLC_FRAME_T option \<Rightarrow> bool \<Rightarrow> bool \<times> HDLC_FRAME_T option" where
  "hdlc_encode payload payload_length frame_ptr lsb =
     (case frame_ptr of
        None \<Rightarrow> (False, None)
      | Some frame \<Rightarrow>
          if hdlc_encode_bad_args payload payload_length frame
          then hdlc_abort_unless (False, frame)
          else
            let data = payload_bytes payload payload_length;
                crc16 = hdlc_crc16 data;
                encoder = \<lparr>out_byte = 0, out_bits_used = 0, ones_run = 0, lsb_first = lsb\<rparr>;
                opened = hdlc_try_put_byte HDLC_FLAG_BYTE frame;
                written = and_then (fst opened, (encoder, snd opened)) (\<lambda>s1.
                          and_then (for_each hdlc_put_byte data s1) (\<lambda>s2.
                          and_then (hdlc_put_byte (crc_hi crc16) s2) (\<lambda>s3.
                          and_then (hdlc_put_byte (crc_lo crc16) s3)
                                   ENCODER_ZERO_PAD_AND_DRAIN)))
            in hdlc_abort_unless
                 (and_then (fst written, snd (snd written)) (hdlc_try_put_byte HDLC_FLAG_BYTE)))"

section \<open>Reference encodings\<close>

text \<open>Bit stuffing on bit lists: a zero after every fifth one; \<open>r\<close> ones precede.\<close>

fun stuff :: "nat \<Rightarrow> bool list \<Rightarrow> bool list" where
  "stuff r [] = []"
| "stuff r (False # bs) = False # stuff 0 bs"
| "stuff r (True # bs) = (if Suc r = 5 then True # False # stuff 0 bs else True # stuff (Suc r) bs)"

fun stuff_run :: "nat \<Rightarrow> bool list \<Rightarrow> nat" where
  "stuff_run r [] = r"
| "stuff_run r (False # bs) = stuff_run 0 bs"
| "stuff_run r (True # bs) = (if Suc r = 5 then stuff_run 0 bs else stuff_run (Suc r) bs)"

definition with_crc :: "byte list \<Rightarrow> byte list" where
  "with_crc data = data @ [crc_hi (hdlc_crc16 data), crc_lo (hdlc_crc16 data)]"

definition hdlc_frame :: "bool \<Rightarrow> byte list \<Rightarrow> byte list" where
  "hdlc_frame lsb data =
     [HDLC_FLAG_BYTE] @ padded_bytes lsb (stuff 0 (bytes_bits lsb (with_crc data))) @ [HDLC_FLAG_BYTE]"

definition escape :: "byte \<Rightarrow> byte list" where
  "escape b = (if b = HDLC_FLAG_BYTE \<or> b = HDLC_ESCAPE_BYTE
               then [HDLC_ESCAPE_BYTE, b XOR HDLC_ESCAPE_XOR] else [b])"

definition hdlc_frame_escaped :: "byte list \<Rightarrow> byte list" where
  "hdlc_frame_escaped data =
     [HDLC_FLAG_BYTE] @ concat (map escape (with_crc data)) @ [HDLC_FLAG_BYTE]"

section \<open>Writing into a frame\<close>

text \<open>
  An operation \<open>op\<close> \<^emph>\<open>writes\<close> the bytes \<open>bs\<close>: it appends them when they fit the capacity, fails
  when they do not, and keeps the descriptor well formed either way.
\<close>

definition same_storage :: "HDLC_FRAME_T \<Rightarrow> HDLC_FRAME_T \<Rightarrow> bool" where
  "same_storage f g \<longleftrightarrow> hf_capacity g = hf_capacity f \<and> length (hf_payload g) = length (hf_payload f)"

definition writes :: "(HDLC_FRAME_T \<Rightarrow> bool \<times> HDLC_FRAME_T) \<Rightarrow> byte list \<Rightarrow> bool" where
  "writes op bs \<longleftrightarrow> (\<forall>f. frame_wf f \<longrightarrow>
     (fst (op f) \<longleftrightarrow> hf_length f + length bs \<le> hf_capacity f) \<and>
     (fst (op f) \<longrightarrow> frame_bytes (snd (op f)) = frame_bytes f @ bs) \<and>
     frame_wf (snd (op f)) \<and> same_storage f (snd (op f)))"

lemma writesD:
  assumes "writes op bs" "frame_wf f"
  shows "fst (op f) \<longleftrightarrow> hf_length f + length bs \<le> hf_capacity f"
    and "fst (op f) \<Longrightarrow> frame_bytes (snd (op f)) = frame_bytes f @ bs"
    and "fst (op f) \<Longrightarrow> hf_length (snd (op f)) = hf_length f + length bs"
    and "frame_wf (snd (op f))"
    and "same_storage f (snd (op f))"
proof -
  show 1: "fst (op f) \<longleftrightarrow> hf_length f + length bs \<le> hf_capacity f"
    and 2: "fst (op f) \<Longrightarrow> frame_bytes (snd (op f)) = frame_bytes f @ bs"
    and 3: "frame_wf (snd (op f))"
    and 4: "same_storage f (snd (op f))"
    using assms by (simp_all add: writes_def)
  assume "fst (op f)"
  then have "length (frame_bytes (snd (op f))) = length (frame_bytes f) + length bs"
    using 2 by simp
  then show "hf_length (snd (op f)) = hf_length f + length bs"
    using assms(2) 3 by simp
qed

lemma writes_put_byte: "writes (hdlc_try_put_byte b) [b]"
  by (auto simp: writes_def hdlc_try_put_byte_def frame_wf_def frame_bytes_def same_storage_def)

lemma writes_and_then:
  assumes "writes op bs" "writes op' bs'"
  shows "writes (\<lambda>f. and_then (op f) op') (bs @ bs')"
  unfolding writes_def
proof (intro allI impI)
  fix f assume wf: "frame_wf f"
  note a = writesD [OF assms(1) wf]
  show "(fst (and_then (op f) op') \<longleftrightarrow> hf_length f + length (bs @ bs') \<le> hf_capacity f) \<and>
     (fst (and_then (op f) op') \<longrightarrow> frame_bytes (snd (and_then (op f) op')) = frame_bytes f @ bs @ bs') \<and>
     frame_wf (snd (and_then (op f) op')) \<and> same_storage f (snd (and_then (op f) op'))"
  proof (cases "fst (op f)")
    case True
    then have "and_then (op f) op' = op' (snd (op f))"
      by (simp add: and_then_def)
    with True a writesD [OF assms(2) a(4)] show ?thesis
      by (auto simp: same_storage_def)
  next
    case False
    then have "and_then (op f) op' = op f"
      by (simp add: and_then_def)
    with False a show ?thesis
      by auto
  qed
qed

lemma writes_nothing: "writes (\<lambda>f. (True, f)) []"
  by (auto simp: writes_def same_storage_def frame_wf_def)

lemma writes_for_each:
  assumes "\<And>x. writes (g x) (h x)"
  shows "writes (for_each g xs) (concat (map h xs))"
proof (induction xs)
  case Nil
  have "for_each g [] = (\<lambda>f. (True, f))"
    by (rule ext) simp
  then show ?case
    by (simp add: writes_nothing)
next
  case (Cons x xs)
  have "for_each g (x # xs) = (\<lambda>f. and_then (g x f) (for_each g xs))"
    by (rule ext) simp
  then show ?case
    using writes_and_then [OF assms Cons] by simp
qed

lemma writes_escape: "writes (hdlc_escape_if_needed b) (escape b)"
proof (cases "b = HDLC_FLAG_BYTE \<or> b = HDLC_ESCAPE_BYTE")
  case True
  then have "hdlc_escape_if_needed b =
      (\<lambda>f. and_then (hdlc_try_put_byte HDLC_ESCAPE_BYTE f) (hdlc_try_put_byte (b XOR HDLC_ESCAPE_XOR)))"
    by (intro ext) (simp add: hdlc_escape_if_needed_def)
  then show ?thesis
    using True writes_and_then [OF writes_put_byte writes_put_byte] by (simp add: escape_def)
next
  case False
  then have "hdlc_escape_if_needed b = hdlc_try_put_byte b"
    by (intro ext) (simp add: hdlc_escape_if_needed_def)
  then show ?thesis
    using False writes_put_byte by (simp add: escape_def)
qed

section \<open>The bit writer\<close>

text \<open>
  The encoder has produced the bits \<open>B\<close> after the bytes \<open>pre\<close>: the complete bytes are in the
  frame, the others wait in \<open>out_byte\<close>.
\<close>

definition enc_rel :: "bool \<Rightarrow> byte list \<Rightarrow> bool list \<Rightarrow> enc_state \<Rightarrow> bool" where
  "enc_rel lsb pre B s \<longleftrightarrow>
     lsb_first (fst s) = lsb \<and> out_byte (fst s) = bits_byte lsb (rest_bits B) \<and>
     out_bits_used (fst s) = length B mod 8 \<and> frame_wf (snd s) \<and>
     frame_bytes (snd s) = pre @ full_bytes lsb B"

lemma enc_rel_length:
  assumes "enc_rel lsb pre B s"
  shows "hf_length (snd s) = length pre + length B div 8"
proof -
  have "frame_wf (snd s)"
    using assms by (simp add: enc_rel_def)
  then have "hf_length (snd s) = length (frame_bytes (snd s))"
    by simp
  also have "\<dots> = length pre + length B div 8"
    using assms by (simp add: enc_rel_def)
  finally show ?thesis .
qed

lemma SHIFT_IN_BIT_snoc:
  assumes "length bs < 8"
  shows "SHIFT_IN_BIT (bits_byte lsb bs) lsb b (length bs) = bits_byte lsb (bs @ [b])"
proof (rule bit_word_eqI)
  fix n assume "n < LENGTH(8)"
  then show "bit (SHIFT_IN_BIT (bits_byte lsb bs) lsb b (length bs)) n = bit (bits_byte lsb (bs @ [b])) n"
    using assms
    by (cases lsb; cases b)
      (auto simp: SHIFT_IN_BIT_def bit_bits_byte bit_or_iff bit_exp_iff bit_pos_def nth_append less_Suc_eq)
qed

lemma flush_bit:
  assumes rel: "enc_rel lsb pre B (e, f)" and e2: "e2 = e\<lparr>ones_run := r,
      out_byte := SHIFT_IN_BIT (out_byte e) lsb b (out_bits_used e)\<rparr>"
  defines "res \<equiv> ENCODER_TRY_FLUSH_BYTE_OUT (e2, f)"
  shows "fst res \<longleftrightarrow> length pre + length (B @ [b]) div 8 \<le> hf_capacity f"
    and "fst res \<Longrightarrow> enc_rel lsb pre (B @ [b]) (snd res) \<and> ones_run (fst (snd res)) = r"
    and "frame_wf (snd (snd res)) \<and> same_storage f (snd (snd res))"
proof -
  have wf: "frame_wf f"
    using rel by (simp add: enc_rel_def)
  have len: "hf_length f = length pre + length B div 8"
    using enc_rel_length [OF rel] by simp
  have ob: "out_byte e2 = bits_byte lsb (rest_bits B @ [b])"
    using rel SHIFT_IN_BIT_snoc [of "rest_bits B" lsb b] by (simp add: enc_rel_def e2)
  note w = writesD [OF writes_put_byte wf, of "out_byte e2"]
  have "(fst res \<longleftrightarrow> length pre + length (B @ [b]) div 8 \<le> hf_capacity f)
    \<and> (fst res \<longrightarrow> enc_rel lsb pre (B @ [b]) (snd res) \<and> ones_run (fst (snd res)) = r)
    \<and> frame_wf (snd (snd res)) \<and> same_storage f (snd (snd res))"
  proof (cases "length B mod 8 = 7")
    case True
    then have used: "out_bits_used e2 = 7"
      using rel by (simp add: enc_rel_def e2)
    have div: "length (B @ [b]) div 8 = Suc (length B div 8)" "length (B @ [b]) mod 8 = 0"
      using True by (simp_all add: div8_Suc mod_Suc)
    obtain ok f1 where put: "hdlc_try_put_byte (out_byte e2) f = (ok, f1)"
      by (cases "hdlc_try_put_byte (out_byte e2) f")
    have res: "res = (if ok then (True, (e2\<lparr>out_bits_used := 0, out_byte := 0\<rparr>, f1))
                      else (False, (e2\<lparr>out_bits_used := 8\<rparr>, f1)))"
      using used put by (simp add: res_def ENCODER_TRY_FLUSH_BYTE_OUT_def Let_def)
    have bytes: "ok \<Longrightarrow> frame_bytes f1 = pre @ full_bytes lsb (B @ [b])"
      using w put rel True ob by (simp add: full_bytes_snoc enc_rel_def)
    show ?thesis
      using w put div len bytes rel True
      by (auto simp: res enc_rel_def e2 rest_bits_snoc)
  next
    case False
    then have used: "out_bits_used e2 = length B mod 8"
      using rel by (simp add: enc_rel_def e2)
    have neq: "Suc (length B mod 8) \<noteq> 8"
      using False by simp
    have div: "length (B @ [b]) div 8 = length B div 8" "length (B @ [b]) mod 8 = Suc (length B mod 8)"
      using False by (simp_all add: div8_Suc mod_Suc)
    have res: "res = (True, (e2\<lparr>out_bits_used := Suc (length B mod 8)\<rparr>, f))"
      using used neq by (simp add: res_def ENCODER_TRY_FLUSH_BYTE_OUT_def Let_def)
    have "length pre + length B div 8 \<le> hf_capacity f"
      using wf len by (simp add: frame_wf_def)
    then show ?thesis
      using False rel wf div ob
      by (simp add: res enc_rel_def e2 full_bytes_snoc rest_bits_snoc same_storage_def)
  qed
  then show "fst res \<longleftrightarrow> length pre + length (B @ [b]) div 8 \<le> hf_capacity f"
    and "fst res \<Longrightarrow> enc_rel lsb pre (B @ [b]) (snd res) \<and> ones_run (fst (snd res)) = r"
    and "frame_wf (snd (snd res)) \<and> same_storage f (snd (snd res))"
    by blast+
qed

text \<open>
  A bit operation in state \<open>s\<close> \<^emph>\<open>emits\<close> the bits \<open>bs\<close> after \<open>pre\<close> and \<open>B\<close>, leaving a run of \<open>r\<close> ones.
\<close>

definition emits :: "bool \<Rightarrow> byte list \<Rightarrow> bool list \<Rightarrow> bool list \<Rightarrow> nat \<Rightarrow> HDLC_FRAME_T \<Rightarrow> bool \<times> enc_state \<Rightarrow> bool" where
  "emits lsb pre B bs r f res \<longleftrightarrow>
     (fst res \<longleftrightarrow> length pre + length (B @ bs) div 8 \<le> hf_capacity f) \<and>
     (fst res \<longrightarrow> enc_rel lsb pre (B @ bs) (snd res) \<and> ones_run (fst (snd res)) = r) \<and>
     frame_wf (snd (snd res)) \<and> same_storage f (snd (snd res))"

lemma emits_flush:
  assumes "enc_rel lsb pre B (e, f)"
  shows "emits lsb pre B [b] r f (ENCODER_TRY_FLUSH_BYTE_OUT
    (e\<lparr>ones_run := r, out_byte := SHIFT_IN_BIT (out_byte e) lsb b (out_bits_used e)\<rparr>, f))"
  using flush_bit [OF assms refl, where r = r and b = b] by (simp add: emits_def)

lemma emits_and_then:
  assumes first: "emits lsb pre B bs r f res"
    and next_op: "\<And>s. enc_rel lsb pre (B @ bs) s \<Longrightarrow> ones_run (fst s) = r \<Longrightarrow>
      emits lsb pre (B @ bs) bs' r' (snd s) (k s)"
  shows "emits lsb pre B (bs @ bs') r' f (and_then res k)"
proof (cases "fst res")
  case True
  then have "emits lsb pre (B @ bs) bs' r' (snd (snd res)) (k (snd res))"
    using first next_op [of "snd res"] by (simp add: emits_def)
  with True first show ?thesis
    by (auto simp: emits_def and_then_def same_storage_def)
next
  case False
  have "length (B @ bs) div 8 \<le> length (B @ bs @ bs') div 8"
    by (simp add: div_le_mono)
  with False first show ?thesis
    by (auto simp: emits_def and_then_def)
qed

lemma emits_nothing: "enc_rel lsb pre B s \<Longrightarrow> emits lsb pre B [] (ones_run (fst s)) (snd s) (True, s)"
  using enc_rel_length [of lsb pre B s]
  by (auto simp: emits_def enc_rel_def same_storage_def frame_wf_def)

lemma emits_put_bit:
  assumes rel: "enc_rel lsb pre B s"
  shows "emits lsb pre B (stuff (ones_run (fst s)) [b]) (stuff_run (ones_run (fst s)) [b]) (snd s) (hdlc_put_bit b s)"
proof -
  obtain e f where s: "s = (e, f)"
    by (cases s)
  let ?r = "if b then ones_run e + 1 else 0"
  let ?k = "\<lambda>(e3, f1). if ones_run e3 = HDLC_BIT_STUFF_ONES_LIMIT
      then ENCODER_TRY_FLUSH_BYTE_OUT
             (e3\<lparr>ones_run := 0, out_byte := SHIFT_IN_BIT (out_byte e3) (lsb_first e3) False (out_bits_used e3)\<rparr>, f1)
      else (True, (e3, f1))"
  have first: "emits lsb pre B [b] ?r f (ENCODER_TRY_FLUSH_BYTE_OUT
      (e\<lparr>ones_run := ?r, out_byte := SHIFT_IN_BIT (out_byte e) lsb b (out_bits_used e)\<rparr>, f))"
    using rel s by (intro emits_flush) simp
  have put: "hdlc_put_bit b s = and_then (ENCODER_TRY_FLUSH_BYTE_OUT
      (e\<lparr>ones_run := ?r, out_byte := SHIFT_IN_BIT (out_byte e) lsb b (out_bits_used e)\<rparr>, f)) ?k"
    using rel by (simp add: hdlc_put_bit_def s Let_def enc_rel_def)
  show ?thesis
  proof (cases "?r = 5")
    case True
    have "emits lsb pre B ([b] @ [False]) 0 f (hdlc_put_bit b s)"
      unfolding put
    proof (rule emits_and_then [OF first])
      fix t :: enc_state
      assume rel': "enc_rel lsb pre (B @ [b]) t" and run: "ones_run (fst t) = ?r"
      have "?k t = ENCODER_TRY_FLUSH_BYTE_OUT ((fst t)\<lparr>ones_run := 0,
          out_byte := SHIFT_IN_BIT (out_byte (fst t)) lsb False (out_bits_used (fst t))\<rparr>, snd t)"
        using run True rel' by (cases t) (simp add: HDLC_BIT_STUFF_ONES_LIMIT_def enc_rel_def)
      then show "emits lsb pre (B @ [b]) [False] 0 (snd t) (?k t)"
        using emits_flush [of lsb pre "B @ [b]" "fst t" "snd t" False 0] rel' by simp
    qed
    with True s show ?thesis
      by (cases b) simp_all
  next
    case False
    have "emits lsb pre B ([b] @ []) ?r f (hdlc_put_bit b s)"
      unfolding put
    proof (rule emits_and_then [OF first])
      fix t :: enc_state
      assume rel': "enc_rel lsb pre (B @ [b]) t" and run: "ones_run (fst t) = ?r"
      have "?k t = (True, t)"
        using run False by (cases t) (simp add: HDLC_BIT_STUFF_ONES_LIMIT_def)
      then show "emits lsb pre (B @ [b]) [] ?r (snd t) (?k t)"
        using emits_nothing [OF rel'] run by simp
    qed
    with False s show ?thesis
      by (cases b) simp_all
  qed
qed

lemma stuff_Cons: "stuff r (b # bs) = stuff r [b] @ stuff (stuff_run r [b]) bs"
  by (cases b) simp_all

lemma stuff_run_Cons: "stuff_run r (b # bs) = stuff_run (stuff_run r [b]) bs"
  by (cases b) simp_all

lemma emits_put_bits:
  assumes "enc_rel lsb pre B s"
  shows "emits lsb pre B (stuff (ones_run (fst s)) bs) (stuff_run (ones_run (fst s)) bs) (snd s)
    (for_each hdlc_put_bit bs s)"
  using assms
proof (induction bs arbitrary: B s)
  case Nil
  then show ?case
    by (simp add: emits_nothing)
next
  case (Cons b bs)
  have "emits lsb pre B (stuff (ones_run (fst s)) [b] @ stuff (stuff_run (ones_run (fst s)) [b]) bs)
      (stuff_run (stuff_run (ones_run (fst s)) [b]) bs) (snd s)
      (and_then (hdlc_put_bit b s) (for_each hdlc_put_bit bs))"
  proof (rule emits_and_then [OF emits_put_bit [OF Cons.prems]])
    fix t :: enc_state
    assume rel': "enc_rel lsb pre (B @ stuff (ones_run (fst s)) [b]) t"
      and run: "ones_run (fst t) = stuff_run (ones_run (fst s)) [b]"
    from Cons.IH [OF rel'] run
    show "emits lsb pre (B @ stuff (ones_run (fst s)) [b]) (stuff (stuff_run (ones_run (fst s)) [b]) bs)
        (stuff_run (stuff_run (ones_run (fst s)) [b]) bs) (snd t) (for_each hdlc_put_bit bs t)"
      by simp
  qed
  then show ?case
    by (simp only: stuff_Cons [of _ b bs] stuff_run_Cons [of _ b bs] for_each.simps)
qed

text \<open>Bit order does not change while encoding, so bytes are their bits in that order.\<close>

lemma hdlc_put_bit_lsb_first: "lsb_first (fst (snd (hdlc_put_bit b s))) = lsb_first (fst s)"
proof -
  have flush: "lsb_first (fst (snd (ENCODER_TRY_FLUSH_BYTE_OUT t))) = lsb_first (fst t)" for t
    by (cases t) (auto simp: ENCODER_TRY_FLUSH_BYTE_OUT_def Let_def split: prod.splits bool.splits)
  show ?thesis
    by (cases s) (simp add: hdlc_put_bit_def Let_def and_then_def flush case_prod_beta)
qed

lemma hdlc_put_byte_bits:
  "hdlc_put_byte b s = for_each hdlc_put_bit (byte_bits (lsb_first (fst s)) b) s"
proof -
  have "for_each (\<lambda>i s'. hdlc_put_bit (g (lsb_first (fst s')) i) s') is s
      = for_each hdlc_put_bit (map (g (lsb_first (fst s))) is) s" for g :: "bool \<Rightarrow> nat \<Rightarrow> bool" and "is"
    by (induction "is" arbitrary: s) (auto simp: and_then_def hdlc_put_bit_lsb_first)
  note loop = this [of "\<lambda>lsb i. bit b (bit_pos lsb i)" "[0..<8]"]
  have "drop_bit pos b AND 1 \<noteq> 0 \<longleftrightarrow> bit b pos" for pos
    by (simp add: bit_iff_odd_drop_bit and_one_eq flip: odd_iff_mod_2_eq_one)
  then show ?thesis
    using loop by (simp only: hdlc_put_byte_def byte_bits_def bit_pos_def Let_def)
qed

lemma for_each_put_bit_lsb_first:
  "lsb_first (fst (snd (for_each hdlc_put_bit bs s))) = lsb_first (fst s)"
  by (induction bs arbitrary: s) (auto simp: and_then_def hdlc_put_bit_lsb_first)

lemma hdlc_put_bytes_bits:
  "for_each hdlc_put_byte data s = for_each hdlc_put_bit (bytes_bits (lsb_first (fst s)) data) s"
proof (induction data arbitrary: s)
  case Nil
  then show ?case by simp
next
  case (Cons b data)
  then show ?case
    by (auto simp: hdlc_put_byte_bits for_each_append and_then_def for_each_put_bit_lsb_first)
qed

lemma pad_and_drain:
  assumes rel: "enc_rel lsb pre B s"
  defines "res \<equiv> ENCODER_ZERO_PAD_AND_DRAIN s"
  shows "(fst res \<longleftrightarrow> length pre + length (padded_bytes lsb B) \<le> hf_capacity (snd s)) \<and>
    (fst res \<longrightarrow> frame_bytes (snd (snd res)) = pre @ padded_bytes lsb B) \<and>
    frame_wf (snd (snd res)) \<and> same_storage (snd s) (snd (snd res))"
proof -
  obtain e f where s: "s = (e, f)"
    by (cases s)
  have wf: "frame_wf f" and used: "out_bits_used e = length B mod 8"
    using rel by (simp_all add: s enc_rel_def)
  have len: "hf_length f = length pre + length B div 8"
    using enc_rel_length [OF rel] s by simp
  obtain ok f1 where put: "hdlc_try_put_byte (out_byte e) f = (ok, f1)"
    by (cases "hdlc_try_put_byte (out_byte e) f")
  show ?thesis
  proof (cases "length B mod 8 = 0")
    case True
    then show ?thesis
      using rel wf used len
      by (auto simp: res_def s ENCODER_ZERO_PAD_AND_DRAIN_def padded_bytes_def rest_bits_Nil_iff
          enc_rel_def same_storage_def frame_wf_def)
  next
    case False
    then show ?thesis
      using rel put used len writesD [OF writes_put_byte wf, of "out_byte e"]
      by (auto simp: res_def s ENCODER_ZERO_PAD_AND_DRAIN_def padded_bytes_def rest_bits_Nil_iff
          enc_rel_def split: bool.splits)
  qed
qed

section \<open>Both encoders compute the reference encodings\<close>

lemma length_hdlc_frame_ge_2: "2 \<le> length (hdlc_frame lsb data)" "2 \<le> length (hdlc_frame_escaped data)"
  by (simp_all add: hdlc_frame_def hdlc_frame_escaped_def)

lemma frame_bytes_0 [simp]: "hf_length f = 0 \<Longrightarrow> frame_bytes f = []"
  by (simp add: frame_bytes_def)

lemma writes_hdlc_body:
  fixes lsb :: bool and data :: "byte list" and f :: HDLC_FRAME_T
  assumes "frame_wf f" "hf_length f = 0"
  defines "enc \<equiv> \<lparr>out_byte = 0, out_bits_used = 0, ones_run = 0, lsb_first = lsb\<rparr>"
    and "opened \<equiv> hdlc_try_put_byte HDLC_FLAG_BYTE f"
  defines "written \<equiv> and_then (fst opened, (enc, snd opened)) (\<lambda>s1.
      and_then (for_each hdlc_put_byte (with_crc data) s1) ENCODER_ZERO_PAD_AND_DRAIN)"
  defines "res \<equiv> and_then (fst written, snd (snd written)) (hdlc_try_put_byte HDLC_FLAG_BYTE)"
  shows "fst res \<longleftrightarrow> length (hdlc_frame lsb data) \<le> hf_capacity f"
    and "fst res \<Longrightarrow> frame_bytes (snd res) = hdlc_frame lsb data"
    and "frame_wf (snd res) \<and> same_storage f (snd res)"
proof -
  let ?B = "stuff 0 (bytes_bits lsb (with_crc data))"
  note o = writesD [OF writes_put_byte assms(1), of HDLC_FLAG_BYTE, folded opened_def]
  have "(fst res \<longleftrightarrow> length (hdlc_frame lsb data) \<le> hf_capacity f)
    \<and> (fst res \<longrightarrow> frame_bytes (snd res) = hdlc_frame lsb data)
    \<and> frame_wf (snd res) \<and> same_storage f (snd res)"
  proof (cases "fst opened")
    case False
    then have "hf_capacity f = 0"
      using o assms(2) by simp
    with False o show ?thesis
      by (simp add: res_def written_def and_then_def hdlc_frame_def)
  next
    case True
    have "enc_rel lsb [HDLC_FLAG_BYTE] [] (enc, snd opened)"
      using True o assms(2) by (simp add: enc_rel_def enc_def)
    from emits_put_bits [OF this, of "bytes_bits lsb (with_crc data)"]
    have em: "emits lsb [HDLC_FLAG_BYTE] [] ?B (stuff_run 0 (bytes_bits lsb (with_crc data))) (snd opened)
        (for_each hdlc_put_byte (with_crc data) (enc, snd opened))"
      by (simp add: hdlc_put_bytes_bits enc_def)
    let ?w = "for_each hdlc_put_byte (with_crc data) (enc, snd opened)"
    have w: "written = and_then ?w ENCODER_ZERO_PAD_AND_DRAIN"
      using True by (simp add: written_def)
    have ww: "(fst written \<longleftrightarrow> 1 + length (padded_bytes lsb ?B) \<le> hf_capacity f)
      \<and> (fst written \<longrightarrow> frame_bytes (snd (snd written)) = [HDLC_FLAG_BYTE] @ padded_bytes lsb ?B)
      \<and> frame_wf (snd (snd written)) \<and> same_storage f (snd (snd written))"
    proof (cases "fst ?w")
      case ok: True
      then have "enc_rel lsb [HDLC_FLAG_BYTE] ?B (snd ?w)"
        using em by (simp add: emits_def)
      from pad_and_drain [OF this] ok em o(5) show ?thesis
        by (simp add: w and_then_def emits_def same_storage_def)
    next
      case nok: False
      have "length ?B div 8 \<le> length (padded_bytes lsb ?B)"
        by (simp add: padded_bytes_def)
      with nok em o(5) show ?thesis
        by (auto simp: w and_then_def emits_def same_storage_def)
    qed
    note c = writesD [OF writes_put_byte, of "snd (snd written)" HDLC_FLAG_BYTE]
    show ?thesis
    proof (cases "fst written")
      case ok: True
      have "hf_length (snd (snd written)) = length (frame_bytes (snd (snd written)))"
        using ww by simp
      also have "\<dots> = 1 + length (padded_bytes lsb ?B)"
        using ww ok by simp
      finally show ?thesis
        using ok ww c by (auto simp: res_def and_then_def hdlc_frame_def same_storage_def)
    next
      case nok: False
      with ww show ?thesis
        by (auto simp: res_def and_then_def hdlc_frame_def)
    qed
  qed
  then show "fst res \<longleftrightarrow> length (hdlc_frame lsb data) \<le> hf_capacity f"
    and "fst res \<Longrightarrow> frame_bytes (snd res) = hdlc_frame lsb data"
    and "frame_wf (snd res) \<and> same_storage f (snd res)"
    by blast+
qed

lemma hdlc_encode_run:
  assumes wf: "frame_wf f" "hf_length f = 0" and args: "payload = None \<Longrightarrow> n = 0"
    and cap: "2 \<le> hf_capacity f"
  shows "\<exists>ok f'. hdlc_encode payload n (Some f) lsb = (ok, Some f')
    \<and> (ok \<longleftrightarrow> length (hdlc_frame lsb (payload_bytes payload n)) \<le> hf_capacity f)
    \<and> (ok \<longrightarrow> frame_bytes f' = hdlc_frame lsb (payload_bytes payload n))
    \<and> (\<not> ok \<longrightarrow> hf_length f' = 0)
    \<and> frame_wf f' \<and> same_storage f f'"
proof -
  let ?data = "payload_bytes payload n"
  let ?opened = "hdlc_try_put_byte HDLC_FLAG_BYTE f"
  let ?enc = "\<lparr>out_byte = 0, out_bits_used = 0, ones_run = 0, lsb_first = lsb\<rparr>"
  let ?written = "and_then (fst ?opened, (?enc, snd ?opened)) (\<lambda>s1.
      and_then (for_each hdlc_put_byte (with_crc ?data) s1) ENCODER_ZERO_PAD_AND_DRAIN)"
  let ?res = "and_then (fst ?written, snd (snd ?written)) (hdlc_try_put_byte HDLC_FLAG_BYTE)"
  have good: "\<not> hdlc_encode_bad_args payload n f"
    using args cap wf by (auto simp: hdlc_encode_bad_args_def)
  have "hdlc_encode payload n (Some f) lsb = hdlc_abort_unless ?res"
    using good by (simp add: hdlc_encode_def Let_def with_crc_def for_each_append and_then_assoc)
  then show ?thesis
    using writes_hdlc_body [OF wf, of lsb ?data]
    by (cases ?res) (auto simp: hdlc_abort_unless_def frame_wf_def same_storage_def)
qed

lemma hdlc_encode_byte_run:
  assumes wf: "frame_wf f" "hf_length f = 0" and args: "payload = None \<Longrightarrow> n = 0"
    and cap: "2 \<le> hf_capacity f"
  shows "\<exists>ok f'. hdlc_encode_byte payload n (Some f) = (ok, Some f')
    \<and> (ok \<longleftrightarrow> length (hdlc_frame_escaped (payload_bytes payload n)) \<le> hf_capacity f)
    \<and> (ok \<longrightarrow> frame_bytes f' = hdlc_frame_escaped (payload_bytes payload n))
    \<and> (\<not> ok \<longrightarrow> hf_length f' = 0)
    \<and> frame_wf f' \<and> same_storage f f'"
proof -
  let ?data = "payload_bytes payload n"
  let ?op = "\<lambda>f. and_then (hdlc_try_put_byte HDLC_FLAG_BYTE f) (\<lambda>f1.
      and_then (for_each hdlc_escape_if_needed (with_crc ?data) f1) (hdlc_try_put_byte HDLC_FLAG_BYTE))"
  have good: "\<not> hdlc_encode_bad_args payload n f"
    using args cap wf by (auto simp: hdlc_encode_bad_args_def)
  have run: "hdlc_encode_byte payload n (Some f) = hdlc_abort_unless (?op f)"
    using good
    by (simp add: hdlc_encode_byte_def Let_def with_crc_def for_each_append and_then_assoc)
  have "writes ?op (hdlc_frame_escaped ?data)"
    unfolding hdlc_frame_escaped_def
    by (intro writes_and_then writes_put_byte writes_for_each writes_escape)
  from writesD [OF this wf(1)] show ?thesis
    using wf(2) unfolding run
    by (cases "?op f") (auto simp: hdlc_abort_unless_def frame_wf_def same_storage_def)
qed

section \<open>What stuffing guarantees\<close>

text \<open>At most five ones in a row, \<open>r\<close> ones having gone before.\<close>

fun ones_ok :: "nat \<Rightarrow> bool list \<Rightarrow> bool" where
  "ones_ok r [] = True"
| "ones_ok r (False # bs) = ones_ok 0 bs"
| "ones_ok r (True # bs) = (r < 5 \<and> ones_ok (Suc r) bs)"

lemma ones_ok_stuff: "r < 5 \<Longrightarrow> ones_ok r (stuff r bs)"
  by (induction r bs rule: stuff.induct) auto

lemma ones_ok_mono: "ones_ok r bs \<Longrightarrow> r' \<le> r \<Longrightarrow> ones_ok r' bs"
  by (induction r bs arbitrary: r' rule: ones_ok.induct) auto

lemma ones_ok_zeros: "ones_ok r bs \<Longrightarrow> ones_ok r (bs @ replicate k False)"
proof (induction r bs rule: ones_ok.induct)
  case (1 r)
  have "ones_ok r (replicate k False)" for r
    by (induction k arbitrary: r) auto
  then show ?case by simp
qed auto

lemma ones_ok_suffix: "ones_ok r (xs @ ys) \<Longrightarrow> ones_ok 0 ys"
  by (induction r xs rule: ones_ok.induct) (auto intro: ones_ok_mono)

lemma ones_ok_no_six: "ones_ok r (xs @ replicate 6 True @ ys) \<Longrightarrow> False"
  using ones_ok_suffix [of r xs "replicate 6 True @ ys"] by (simp add: numeral_eq_Suc)

lemma flag_bits: "byte_bits lsb HDLC_FLAG_BYTE = [False] @ replicate 6 True @ [False]"
proof -
  have "byte_bits True HDLC_FLAG_BYTE = [False] @ replicate 6 True @ [False]"
    and "byte_bits False HDLC_FLAG_BYTE = [False] @ replicate 6 True @ [False]"
    by code_simp+
  then show ?thesis
    by (cases lsb) simp_all
qed

lemma ones_ok_no_flag: "ones_ok 0 (bytes_bits lsb bs) \<Longrightarrow> HDLC_FLAG_BYTE \<notin> set bs"
proof
  assume ok: "ones_ok 0 (bytes_bits lsb bs)" and "HDLC_FLAG_BYTE \<in> set bs"
  then obtain xs ys where "bs = xs @ HDLC_FLAG_BYTE # ys"
    by (auto dest: split_list)
  with ok have "ones_ok 0 ((bytes_bits lsb xs @ [False]) @ replicate 6 True @ [False] @ bytes_bits lsb ys)"
    by (simp add: flag_bits)
  then show False
    by (rule ones_ok_no_six)
qed

lemma ones_ok_body: "ones_ok 0 (bytes_bits lsb (padded_bytes lsb (stuff 0 bs)))"
proof -
  obtain k where "bytes_bits lsb (padded_bytes lsb (stuff 0 bs)) = stuff 0 bs @ replicate k False"
    using bytes_bits_padded_bytes by blast
  then show ?thesis
    by (simp add: ones_ok_zeros ones_ok_stuff)
qed

lemma length_stuff_ge: "length bs \<le> length (stuff r bs)"
  by (induction r bs rule: stuff.induct) auto

lemma length_stuff_le: "r < 5 \<Longrightarrow> 5 * length (stuff r bs) \<le> 6 * length bs + r"
  by (induction r bs rule: stuff.induct) auto

lemma length_hdlc_frame:
  "length (hdlc_frame lsb data) = 2 + (length (stuff 0 (bytes_bits lsb (with_crc data))) + 7) div 8"
  by (simp add: hdlc_frame_def length_padded_bytes)

lemma length_hdlc_frame_ge: "4 \<le> length (hdlc_frame lsb data)"
proof -
  have "length (bytes_bits lsb (with_crc data)) \<ge> 16"
    by (simp add: with_crc_def)
  then have "16 \<le> length (stuff 0 (bytes_bits lsb (with_crc data)))"
    using length_stuff_ge order_trans by blast
  then have "2 \<le> (length (stuff 0 (bytes_bits lsb (with_crc data))) + 7) div 8"
    by (simp add: div_le_mono [of 16 _ 8, simplified] le_div_geq)
  then show ?thesis
    by (simp add: length_hdlc_frame)
qed

lemma length_hdlc_frame_le:
  "length (hdlc_frame lsb data) \<le> 2 + ((48 * (length data + 2)) div 5 + 7) div 8"
proof -
  let ?L = "length (stuff 0 (bytes_bits lsb (with_crc data)))"
  have "5 * ?L \<le> 48 * (length data + 2)"
    using length_stuff_le [of 0 "bytes_bits lsb (with_crc data)"] by (simp add: with_crc_def)
  then have "?L \<le> (48 * (length data + 2)) div 5"
    by simp
  then show ?thesis
    by (simp add: length_hdlc_frame div_le_mono)
qed

lemma length_hdlc_frame_max:
  assumes "length data \<le> UDP_MAX_PAYLOAD_BYTES"
  shows "length (hdlc_frame lsb data) \<le> 1771"
proof -
  have "48 * (length data + 2) \<le> 48 * 1474"
    using assms by (simp add: UDP_MAX_PAYLOAD_BYTES_def)
  then have "2 + ((48 * (length data + 2)) div 5 + 7) div 8 \<le> 2 + ((48 * 1474) div 5 + 7) div (8::nat)"
    by (intro add_mono div_le_mono order_refl)
  then show ?thesis
    using length_hdlc_frame_le [of lsb data] by simp
qed

section \<open>Properties\<close>

text \<open>An empty frame descriptor over \<open>n\<close> bytes of cleared storage.\<close>

definition empty_frame :: "nat \<Rightarrow> HDLC_FRAME_T" where
  "empty_frame n = \<lparr>hf_payload = replicate n 0, hf_length = 0, hf_capacity = n\<rparr>"

lemma empty_frame_simps [simp]:
  "frame_wf (empty_frame n)" "hf_length (empty_frame n) = 0" "hf_capacity (empty_frame n) = n"
  by (simp_all add: empty_frame_def frame_wf_def)

text \<open>
  C16.  \<open>hdlc_encode\<close>, every branch.  A \<open>NULL\<close> frame, a \<open>NULL\<close> payload with a length, a capacity
  below two or a frame that is not empty is refused.  Otherwise the encoder succeeds exactly
  when flag, stuffed payload and CRC (zero padded to a byte) and flag fit the capacity, and then
  the frame holds exactly these bytes; a failure leaves the frame empty.  Nothing is ever written
  outside the storage the descriptor owns.
\<close>

theorem hdlc_encode_correct:
  assumes "frame_wf f"
  shows "hdlc_encode payload n None lsb = (False, None)
    \<and> (hdlc_encode_bad_args payload n f
        \<longrightarrow> hdlc_encode payload n (Some f) lsb = (False, Some (f\<lparr>hf_length := 0\<rparr>)))
    \<and> (\<not> hdlc_encode_bad_args payload n f \<longrightarrow>
        (\<exists>ok f'. hdlc_encode payload n (Some f) lsb = (ok, Some f')
          \<and> (ok \<longleftrightarrow> length (hdlc_frame lsb (payload_bytes payload n)) \<le> hf_capacity f)
          \<and> frame_bytes f' = (if ok then hdlc_frame lsb (payload_bytes payload n) else [])
          \<and> frame_wf f' \<and> same_storage f f'))"
proof (intro conjI impI)
  show "hdlc_encode payload n None lsb = (False, None)"
    by (simp add: hdlc_encode_def)
  show "hdlc_encode payload n (Some f) lsb = (False, Some (f\<lparr>hf_length := 0\<rparr>))"
    if "hdlc_encode_bad_args payload n f"
    using that by (simp add: hdlc_encode_def hdlc_abort_unless_def)
  assume "\<not> hdlc_encode_bad_args payload n f"
  then have good: "hf_length f = 0" "payload = None \<Longrightarrow> n = 0" "2 \<le> hf_capacity f"
    by (auto simp: hdlc_encode_bad_args_def)
  show "\<exists>ok f'. hdlc_encode payload n (Some f) lsb = (ok, Some f')
          \<and> (ok \<longleftrightarrow> length (hdlc_frame lsb (payload_bytes payload n)) \<le> hf_capacity f)
          \<and> frame_bytes f' = (if ok then hdlc_frame lsb (payload_bytes payload n) else [])
          \<and> frame_wf f' \<and> same_storage f f'"
    using hdlc_encode_run [OF assms good(1,2,3), of payload lsb] by auto
qed

lemma hdlc_frame_example: "hdlc_frame True [0xFF] = [0x7E, 0xDF, 0xF7, 0x05, 0x00, 0x7E]"
  by code_simp

theorem hdlc_encode_correct_witness:
  "(\<exists>f. hdlc_encode (Some [0xFF, 0xAA]) 1 (Some (empty_frame 6)) True = (True, Some f)
      \<and> frame_bytes f = [0x7E, 0xDF, 0xF7, 0x05, 0x00, 0x7E])
    \<and> (\<exists>f. hdlc_encode (Some [0xFF, 0xAA]) 1 (Some (empty_frame 5)) True = (False, Some f)
      \<and> frame_bytes f = [])"
proof -
  have "payload_bytes (Some [0xFF, 0xAA]) 1 = [0xFF]" "\<not> hdlc_encode_bad_args (Some [0xFF, 0xAA]) 1 (empty_frame 6)"
    "\<not> hdlc_encode_bad_args (Some [0xFF, 0xAA]) 1 (empty_frame 5)"
    by (simp_all add: payload_bytes_def hdlc_encode_bad_args_def)
  then show ?thesis
    using hdlc_encode_correct [of "empty_frame 6" "Some [0xFF, 0xAA]" 1 True]
      hdlc_encode_correct [of "empty_frame 5" "Some [0xFF, 0xAA]" 1 True]
    by (auto simp: hdlc_frame_example)
qed

text \<open>
  C25.  Transparency.  Between the two flags of an encoded frame there are never six ones in a row
  in transmission order, at whatever bit offset; in particular no byte of the body is the flag,
  so a receiver finds the end of the frame at the first flag after the opening one.
\<close>

theorem hdlc_frame_transparent:
  assumes "frame_wf f" "hdlc_encode payload n (Some f) lsb = (True, Some f')"
  shows "\<exists>body. frame_bytes f' = [HDLC_FLAG_BYTE] @ body @ [HDLC_FLAG_BYTE]
    \<and> HDLC_FLAG_BYTE \<notin> set body
    \<and> (\<forall>xs ys. bytes_bits lsb body \<noteq> xs @ replicate 6 True @ ys)"
proof (intro exI conjI allI)
  let ?body = "padded_bytes lsb (stuff 0 (bytes_bits lsb (with_crc (payload_bytes payload n))))"
  have "\<not> hdlc_encode_bad_args payload n f"
    using assms(2) by (auto simp: hdlc_encode_def hdlc_abort_unless_def)
  then have "hf_length f = 0" "payload = None \<longrightarrow> n = 0" "2 \<le> hf_capacity f"
    by (auto simp: hdlc_encode_bad_args_def)
  then show "frame_bytes f' = [HDLC_FLAG_BYTE] @ ?body @ [HDLC_FLAG_BYTE]"
    using hdlc_encode_run [OF assms(1), of payload n lsb] assms(2) by (auto simp: hdlc_frame_def)
  show "HDLC_FLAG_BYTE \<notin> set ?body"
    by (rule ones_ok_no_flag [OF ones_ok_body])
  show "bytes_bits lsb ?body \<noteq> xs @ replicate 6 True @ ys" for xs ys
    using ones_ok_body [of lsb] ones_ok_no_six by metis
qed

theorem hdlc_frame_transparent_witness:
  "\<exists>f' body. hdlc_encode (Some [0xFF]) 1 (Some (empty_frame 6)) True = (True, Some f')
    \<and> frame_bytes f' = [HDLC_FLAG_BYTE] @ body @ [HDLC_FLAG_BYTE] \<and> HDLC_FLAG_BYTE \<notin> set body"
proof -
  have "payload_bytes (Some [0xFF]) 1 = [0xFF]"
    by (simp add: payload_bytes_def)
  then obtain f' where run: "hdlc_encode (Some [0xFF]) 1 (Some (empty_frame 6)) True = (True, Some f')"
    using hdlc_encode_run [of "empty_frame 6" "Some [0xFF]" 1 True] by (auto simp: hdlc_frame_example)
  have "frame_wf (empty_frame 6)"
    by simp
  from hdlc_frame_transparent [OF this run] run show ?thesis
    by blast
qed

text \<open>
  The sizes the firmware fixes are consistent: the longest payload accepted from the network
  (1472 bytes) always encodes, in either bit order, into the 2048 byte TX frame, and takes at most
  1771 bytes.
\<close>

lemma hdlc_encode_max_payload_fits:
  assumes "length data = n" "n \<le> UDP_MAX_PAYLOAD_BYTES"
  shows "\<exists>f. hdlc_encode (Some data) n (Some (empty_frame TX_FRAME_MAX_SIZE_BYTE)) lsb = (True, Some f)
    \<and> frame_bytes f = hdlc_frame lsb data \<and> hf_length f \<le> 1771"
proof -
  have short: "length (hdlc_frame lsb data) \<le> 1771"
    using length_hdlc_frame_max assms by blast
  have "payload_bytes (Some data) n = data"
    using assms(1) by (simp add: payload_bytes_def)
  then show ?thesis
    using hdlc_encode_run [of "empty_frame TX_FRAME_MAX_SIZE_BYTE" "Some data" n lsb] short
    by (auto simp: TX_FRAME_MAX_SIZE_BYTE_def simp flip: length_frame_bytes)
qed

text \<open>
  The byte-escaping encoder succeeds exactly when the escaped frame fits and then writes it;
  between its flags no flag byte occurs.
\<close>

lemma hdlc_encode_byte_correct:
  assumes "frame_wf f" "\<not> hdlc_encode_bad_args payload n f"
  defines "frame \<equiv> hdlc_frame_escaped (payload_bytes payload n)"
  shows "\<exists>ok f'. hdlc_encode_byte payload n (Some f) = (ok, Some f')
    \<and> (ok \<longleftrightarrow> length frame \<le> hf_capacity f)
    \<and> frame_bytes f' = (if ok then frame else [])
    \<and> frame_wf f' \<and> same_storage f f'
    \<and> HDLC_FLAG_BYTE \<notin> set (butlast (tl frame))"
proof -
  have good: "hf_length f = 0" "payload = None \<Longrightarrow> n = 0" "2 \<le> hf_capacity f"
    using assms(2) by (auto simp: hdlc_encode_bad_args_def)
  have "HDLC_FLAG_BYTE \<notin> set (escape b)" for b
    by (auto simp: escape_def hdlc_consts)
  then have "HDLC_FLAG_BYTE \<notin> set (butlast (tl frame))"
    by (auto simp: frame_def hdlc_frame_escaped_def)
  then show ?thesis
    using hdlc_encode_byte_run [OF assms(1) good(1,2,3), of payload] by (auto simp: frame_def)
qed

end
