(* ===== verification/V24_Driver.thy ===== *)
theory V24_Driver
  imports E2S_Prelude V24_Config
begin

text \<open>
  \<open>src/drivers/pio_tx_rx_driver.c\<close>: the driver between the firmware and the PIO state machines that
  clock bytes in and out of the V.24 port.

  The hardware and the SDK are parameters: a record \<open>'h sdk\<close> says how a hardware state of any type
  \<open>'h\<close> reacts to a command, what it answers to a query (which may change it: time passes) and which
  CTS interrupts it has raised.  The model also keeps the list of the commands issued and of the
  bytes received, so that what the driver does can be stated without any assumption on the hardware.

  \<open>v24_runtime\<close> and the function-static variables are one record.  A PIO instance is its index,
  \<open>NULL\<close> is \<open>None\<close>.  \<open>assert\<close> is not modelled: release builds compile it away, and the branches after
  it are.

  Shown here: a byte reaches the FIFO exactly when \<open>tx_put\<close> succeeds, and never before RTS is up;
  RTS is released only after the transmitter has been seen idle for the whole holdoff time; and a
  flaw: the sticky stall flag lets RTS drop while bytes are waiting.
\<close>

section \<open>Pins\<close>

definition V24_TXC_DCE :: nat where "V24_TXC_DCE = 0"
definition V24_RXC :: nat where "V24_RXC = 4"
definition V24_TXC_DTE :: nat where "V24_TXC_DTE = 5"
definition V24_DCD :: nat where "V24_DCD = 9"
definition V24_DSR :: nat where "V24_DSR = 10"
definition V24_CTS :: nat where "V24_CTS = 11"
definition V24_RXD :: nat where "V24_RXD = 12"
definition V24_RTS :: nat where "V24_RTS = 13"
definition V24_TXD :: nat where "V24_TXD = 14"
definition V24_DTR :: nat where "V24_DTR = 15"
definition V24_TX_ACTIVE :: nat where "V24_TX_ACTIVE = 1"
definition V24_STATUS_LED :: nat where "V24_STATUS_LED = 25"

lemmas v24_pins = V24_TXC_DCE_def V24_RXC_def V24_TXC_DTE_def V24_DCD_def V24_DSR_def V24_CTS_def
  V24_RXD_def V24_RTS_def V24_TXD_def V24_DTR_def V24_TX_ACTIVE_def V24_STATUS_LED_def

section \<open>The hardware interface\<close>

datatype pio_program = Rck_rxd | Tck_txd | Xck_txd | Led_mirror

text \<open>The settings made on a state machine configuration, in the order of the calls.\<close>

datatype sm_setting =
  Sm_config_set_jmp_pin nat
| Sm_config_set_in_pins nat
| Sm_config_set_in_shift bool bool nat
| Sm_config_set_fifo_join_rx
| Sm_config_set_sideset_pins nat
| Sm_config_set_out_pins nat nat
| Sm_config_set_out_shift bool bool nat
| Sm_config_set_set_pins nat nat

text \<open>
  One constructor per SDK call or register write.  The clock divider is kept as the quotient it is
  computed from; an override carries whether it inverts.
\<close>

datatype hw_cmd =
  Pio_sm_set_enabled nat nat bool
| Pio_sm_clear_fifos nat nat
| Pio_sm_restart nat nat
| Pio_sm_clkdiv_restart nat nat
| Pio_fdebug_write nat u32
| Pio_sm_put nat nat u32
| Pio_sm_set_clkdiv nat nat nat nat
| Pio_sm_claim nat nat
| Pio_sm_unclaim nat nat
| Pio_gpio_init nat nat
| Pio_sm_set_consecutive_pindirs nat nat nat nat bool
| Pio_sm_init nat nat u64 pio_program "sm_setting list"
| Gpio_put nat bool
| Gpio_init nat
| Gpio_set_dir nat bool
| Gpio_pull_down nat
| Gpio_set_inover nat bool
| Gpio_set_outover nat bool
| Gpio_add_raw_irq_handler nat
| Gpio_set_irq_enabled nat
| Gpio_set_irq_enabled_with_callback nat
| Gpio_set_irq_enabled_rise nat
| Add_repeating_timer_ms nat
| Irq_set_enabled_bank0

datatype hw_query =
  Pio_sm_is_tx_fifo_full nat nat
| Pio_sm_is_tx_fifo_empty nat nat
| Pio_sm_is_rx_fifo_empty nat nat
| Pio_sm_get nat nat
| Pio_fdebug nat
| Pio_add_program nat pio_program
| Pio_can_add_program nat pio_program
| Pio_claim_unused_sm nat
| To_us_since_boot
| To_ms_since_boot
| Gpio_get nat
| Gpio_is_dir_out nat
| Gpio_get_function nat
| Getchar_timeout_us

text \<open>
  \<open>sdk_cts_irqs\<close> gives the event masks of the interrupts raised since it was asked last.  The bit
  positions and masks are constants of the chip's headers.
\<close>

record 'h sdk =
  sdk_do :: "hw_cmd \<Rightarrow> 'h \<Rightarrow> 'h"
  sdk_ask :: "hw_query \<Rightarrow> 'h \<Rightarrow> u64 \<times> 'h"
  sdk_cts_irqs :: "'h \<Rightarrow> u32 list \<times> 'h"
  PIO_FDEBUG_TXSTALL_LSB :: nat
  PIO_FDEBUG_RXSTALL_LSB :: nat
  GPIO_IRQ_EDGES :: u32
  SYS_CLK_HZ :: nat
  GPIO_FUNC_SIO :: u64
  PICO_ERROR_TIMEOUT :: int

section \<open>Driver state\<close>

record v24_runtime_t =
  rt_tx_rts_holdoff_us :: u32
  rt_rts_set :: bool
  rt_tx_pio :: "nat option"
  rt_tx_sm :: nat
  rt_rx_pio :: "nat option"
  rt_rx_sm :: nat
  rt_tx_clock_forced_low :: bool
  rt_cts_toggle_seq :: u32

record 'h v24_driver =
  dr_runtime :: v24_runtime_t
  dr_deassert_pending :: bool
  dr_deassert_deadline_us :: u64
  dr_cts_initialized :: bool
  dr_hw :: 'h
  dr_trace :: "hw_cmd list"
  dr_rx :: "byte list"

definition hw_do :: "'h sdk \<Rightarrow> hw_cmd \<Rightarrow> 'h v24_driver \<Rightarrow> 'h v24_driver" where
  "hw_do k c d = d\<lparr>dr_hw := sdk_do k c (dr_hw d), dr_trace := dr_trace d @ [c]\<rparr>"

definition hw_ask :: "'h sdk \<Rightarrow> hw_query \<Rightarrow> 'h v24_driver \<Rightarrow> u64 \<times> 'h v24_driver" where
  "hw_ask k q d = (let (v, h) = sdk_ask k q (dr_hw d) in (v, d\<lparr>dr_hw := h\<rparr>))"

fun hw_do_all :: "'h sdk \<Rightarrow> hw_cmd list \<Rightarrow> 'h v24_driver \<Rightarrow> 'h v24_driver" where
  "hw_do_all k [] d = d"
| "hw_do_all k (c # cs) d = hw_do_all k cs (hw_do k c d)"

definition upd_runtime :: "(v24_runtime_t \<Rightarrow> v24_runtime_t) \<Rightarrow> 'h v24_driver \<Rightarrow> 'h v24_driver" where
  "upd_runtime f d = d\<lparr>dr_runtime := f (dr_runtime d)\<rparr>"

lemma hw_do_simps [simp]:
  "dr_runtime (hw_do k c d) = dr_runtime d" "dr_trace (hw_do k c d) = dr_trace d @ [c]"
  "dr_deassert_pending (hw_do k c d) = dr_deassert_pending d"
  "dr_deassert_deadline_us (hw_do k c d) = dr_deassert_deadline_us d" "dr_rx (hw_do k c d) = dr_rx d"
  by (simp_all add: hw_do_def)

lemma hw_do_all_simps [simp]:
  "dr_runtime (hw_do_all k cs d) = dr_runtime d" "dr_trace (hw_do_all k cs d) = dr_trace d @ cs"
  "dr_deassert_pending (hw_do_all k cs d) = dr_deassert_pending d"
  "dr_deassert_deadline_us (hw_do_all k cs d) = dr_deassert_deadline_us d" "dr_rx (hw_do_all k cs d) = dr_rx d"
  by (induction cs arbitrary: d) simp_all

lemma hw_ask_simps [simp]:
  "dr_runtime (snd (hw_ask k q d)) = dr_runtime d" "dr_trace (snd (hw_ask k q d)) = dr_trace d"
  "dr_deassert_pending (snd (hw_ask k q d)) = dr_deassert_pending d"
  "dr_deassert_deadline_us (snd (hw_ask k q d)) = dr_deassert_deadline_us d" "dr_rx (snd (hw_ask k q d)) = dr_rx d"
  by (simp_all add: hw_ask_def split_beta Let_def)

lemma upd_runtime_simps [simp]:
  "dr_runtime (upd_runtime f d) = f (dr_runtime d)" "dr_trace (upd_runtime f d) = dr_trace d"
  "dr_hw (upd_runtime f d) = dr_hw d" "dr_deassert_pending (upd_runtime f d) = dr_deassert_pending d"
  "dr_deassert_deadline_us (upd_runtime f d) = dr_deassert_deadline_us d" "dr_rx (upd_runtime f d) = dr_rx d"
  by (simp_all add: upd_runtime_def)

section \<open>CTS interrupts\<close>

definition cts_raw_irq_handler :: "'h sdk \<Rightarrow> u32 \<Rightarrow> v24_runtime_t \<Rightarrow> v24_runtime_t" where
  "cts_raw_irq_handler k events rt =
     (if events AND GPIO_IRQ_EDGES k \<noteq> 0
      then rt\<lparr>rt_cts_toggle_seq := rt_cts_toggle_seq rt + 1\<rparr> else rt)"

text \<open>The interrupts raised before the read have run when the counter is read.\<close>

definition tx_clock_get_cts_toggle_seq :: "'h sdk \<Rightarrow> 'h v24_driver \<Rightarrow> u32 \<times> 'h v24_driver" where
  "tx_clock_get_cts_toggle_seq k d =
     (let (irqs, h) = sdk_cts_irqs k (dr_hw d);
          d1 = upd_runtime (fold (cts_raw_irq_handler k) irqs) (d\<lparr>dr_hw := h\<rparr>)
      in (rt_cts_toggle_seq (dr_runtime d1), d1))"

definition cts_irq_init :: "'h sdk \<Rightarrow> 'h v24_driver \<Rightarrow> 'h v24_driver" where
  "cts_irq_init k d =
     (let d1 = (if \<not> dr_cts_initialized d
                then (hw_do k (Gpio_add_raw_irq_handler V24_CTS) d)\<lparr>dr_cts_initialized := True\<rparr> else d)
      in hw_do_all k [Gpio_set_irq_enabled V24_CTS, Irq_set_enabled_bank0] d1)"

section \<open>Configuration\<close>

definition V24_RTS_MIN_HOLDOFF :: u32 where "V24_RTS_MIN_HOLDOFF = 200"
definition V24_RTS_HOLDOFF_MARGIN :: u32 where "V24_RTS_HOLDOFF_MARGIN = 41"
definition US_PER_SECOND :: u32 where "US_PER_SECOND = 1000000"
definition TX_PIO_CYCLES_PER_BIT :: nat where "TX_PIO_CYCLES_PER_BIT = 8"

text \<open>\<open>None\<close> is the division by zero, which the C standard leaves undefined.\<close>

definition reinit_v24_config ::
  "V24_CONFIG_T \<Rightarrow> V24_BAUDRATE_T \<Rightarrow> v24_runtime_t \<Rightarrow> (V24_CONFIG_T \<times> v24_runtime_t) option" where
  "reinit_v24_config config baudrate rt =
     (let config1 = config\<lparr>vc_baudrate := (if baudrate \<ge> V24_BAUD_1200 then baudrate else V24_BAUD_1200)\<rparr> in
      if baudrate = 0 then None
      else
        let t_bit_us = (US_PER_SECOND + baudrate - 1) div baudrate;
            holdoff = V24_RTS_HOLDOFF_MARGIN * t_bit_us;
            holdoff1 = (if holdoff < V24_RTS_MIN_HOLDOFF then V24_RTS_MIN_HOLDOFF else holdoff)
        in Some (config1, rt\<lparr>rt_tx_rts_holdoff_us := holdoff1, rt_rts_set := False\<rparr>))"

definition init_v24_config ::
  "V24_CONFIG_T \<Rightarrow> V24_BAUDRATE_T \<Rightarrow> v24_runtime_t \<Rightarrow> (V24_CONFIG_T \<times> v24_runtime_t) option" where
  "init_v24_config config baudrate rt =
     reinit_v24_config (config\<lparr>vc_polarities := init_polarities\<rparr>) baudrate rt"

section \<open>Receiving\<close>

definition RX_SHIFT_TO_LSB :: nat where "RX_SHIFT_TO_LSB = 24"

definition fdebug_bit :: "nat \<Rightarrow> u32" where "fdebug_bit n = push_bit n 1"

definition rx_clock_poll_stall :: "'h sdk \<Rightarrow> 'h v24_driver \<Rightarrow> bool \<times> 'h v24_driver" where
  "rx_clock_poll_stall k d =
     (case rt_rx_pio (dr_runtime d) of
        None \<Rightarrow> (False, d)
      | Some pio \<Rightarrow>
          let rx_stall_mask = fdebug_bit (PIO_FDEBUG_RXSTALL_LSB k + rt_rx_sm (dr_runtime d));
              (fdebug, d1) = hw_ask k (Pio_fdebug pio) d
          in if ucast fdebug AND rx_stall_mask \<noteq> 0
             then (True, hw_do k (Pio_fdebug_write pio rx_stall_mask) d1)
             else (False, d1))"

definition rx_get :: "'h sdk \<Rightarrow> 'h v24_driver \<Rightarrow> byte option \<times> 'h v24_driver" where
  "rx_get k d =
     (case rt_rx_pio (dr_runtime d) of
        None \<Rightarrow> (None, d)
      | Some pio \<Rightarrow>
          let (is_empty, d1) = hw_ask k (Pio_sm_is_rx_fifo_empty pio (rt_rx_sm (dr_runtime d))) d in
          if is_empty \<noteq> 0 then (None, d1)
          else let (v, d2) = hw_ask k (Pio_sm_get pio (rt_rx_sm (dr_runtime d))) d1;
                   b = ucast (drop_bit RX_SHIFT_TO_LSB (ucast v :: u32))
               in (Some b, d2\<lparr>dr_rx := dr_rx d2 @ [b]\<rparr>))"

definition rx_clock_update_settings ::
  "'h sdk \<Rightarrow> V24_RX_POLARITIES_T option \<Rightarrow> 'h v24_driver \<Rightarrow> 'h v24_driver option" where
  "rx_clock_update_settings k polarities d =
     (case rt_rx_pio (dr_runtime d) of
        None \<Rightarrow> None
      | Some pio \<Rightarrow>
          let sm = rt_rx_sm (dr_runtime d) in
          Some (hw_do_all k
            ([Pio_sm_set_enabled pio sm False]
             @ (case polarities of
                  None \<Rightarrow> []
                | Some p \<Rightarrow> [Gpio_set_inover V24_RXC (rxc_inverted p), Gpio_set_inover V24_RXD (rxd_inverted p),
                             Gpio_set_inover V24_DCD (dcd_inverted p)])
             @ [Pio_sm_set_enabled pio sm True]) d))"

definition rx_clock_hard_reset :: "'h sdk \<Rightarrow> 'h v24_driver \<Rightarrow> 'h v24_driver" where
  "rx_clock_hard_reset k d =
     (case rt_rx_pio (dr_runtime d) of
        None \<Rightarrow> d
      | Some pio \<Rightarrow>
          let sm = rt_rx_sm (dr_runtime d) in
          hw_do_all k [Pio_sm_set_enabled pio sm False, Pio_sm_clear_fifos pio sm, Pio_sm_restart pio sm,
                       Pio_sm_clkdiv_restart pio sm, Pio_sm_set_enabled pio sm True] d)"

definition rck_settings :: "sm_setting list" where
  "rck_settings = [Sm_config_set_jmp_pin V24_RXC, Sm_config_set_in_pins V24_RXD,
     Sm_config_set_in_shift True True 8, Sm_config_set_fifo_join_rx]"

definition rx_clock_init ::
  "'h sdk \<Rightarrow> nat \<Rightarrow> nat \<Rightarrow> V24_RX_POLARITIES_T option \<Rightarrow> 'h v24_driver \<Rightarrow> 'h v24_driver option" where
  "rx_clock_init k pio pio_sm polarities d =
     (let d1 = upd_runtime (\<lambda>rt. rt\<lparr>rt_rx_pio := Some pio, rt_rx_sm := pio_sm\<rparr>) (hw_do k (Pio_sm_claim pio pio_sm) d);
          (offset, d2) = hw_ask k (Pio_add_program pio Rck_rxd) d1;
          d3 = hw_do_all k
            [Pio_gpio_init pio V24_RXD, Pio_sm_set_consecutive_pindirs pio pio_sm V24_RXD 1 False,
             Pio_gpio_init pio V24_RXC, Pio_sm_set_consecutive_pindirs pio pio_sm V24_RXC 1 False,
             Pio_sm_init pio pio_sm offset Rck_rxd rck_settings] d2
      in rx_clock_update_settings k polarities d3)"

section \<open>Transmitting\<close>

text \<open>
  The decision of \<open>tx_poll\<close> on what it observes: the new value of \<open>(deassert_pending,
  deassert_deadline_us)\<close> and whether RTS is released.
\<close>

definition tx_poll_decide ::
  "u32 \<Rightarrow> bool \<Rightarrow> bool \<Rightarrow> u64 \<Rightarrow> bool \<times> u64 \<Rightarrow> bool \<times> bool \<times> u64" where
  "tx_poll_decide holdoff fifo_empty stalled now_us st =
     (if \<not> (fifo_empty \<or> stalled) then (False, False, snd st)
      else if \<not> fst st then (False, True, now_us + ucast holdoff)
      else if now_us < snd st then (False, st)
      else (True, False, snd st))"

definition tx_poll :: "'h sdk \<Rightarrow> 'h v24_driver \<Rightarrow> (bool \<times> 'h v24_driver) option" where
  "tx_poll k d =
     (if \<not> rt_rts_set (dr_runtime d) then Some (True, d\<lparr>dr_deassert_pending := False\<rparr>)
      else case rt_tx_pio (dr_runtime d) of
        None \<Rightarrow> None
      | Some pio \<Rightarrow>
          let sm = rt_tx_sm (dr_runtime d);
              (is_empty, d1) = hw_ask k (Pio_sm_is_tx_fifo_empty pio sm) d;
              (fdebug, d2) = hw_ask k (Pio_fdebug pio) d1;
              (now_us, d3) = hw_ask k To_us_since_boot d2;
              stalled = (ucast fdebug AND fdebug_bit (PIO_FDEBUG_TXSTALL_LSB k + sm) \<noteq> 0);
              (release, pending, deadline) =
                tx_poll_decide (rt_tx_rts_holdoff_us (dr_runtime d)) (is_empty \<noteq> 0) stalled now_us
                  (dr_deassert_pending d, dr_deassert_deadline_us d);
              d4 = d3\<lparr>dr_deassert_pending := pending, dr_deassert_deadline_us := deadline\<rparr>
          in if release
             then Some (True, upd_runtime (\<lambda>rt. rt\<lparr>rt_rts_set := False\<rparr>) (hw_do k (Gpio_put V24_RTS False) d4))
             else Some (False, d4))"

definition tx_put :: "'h sdk \<Rightarrow> byte \<Rightarrow> 'h v24_driver \<Rightarrow> bool \<times> 'h v24_driver" where
  "tx_put k data d =
     (case rt_tx_pio (dr_runtime d) of
        None \<Rightarrow> (False, d)
      | Some pio \<Rightarrow>
          let sm = rt_tx_sm (dr_runtime d);
              d1 = (if \<not> rt_rts_set (dr_runtime d)
                    then upd_runtime (\<lambda>rt. rt\<lparr>rt_rts_set := True\<rparr>)
                           (hw_do_all k [Pio_fdebug_write pio (fdebug_bit (PIO_FDEBUG_TXSTALL_LSB k + sm)),
                                         Gpio_set_dir V24_RTS True, Gpio_put V24_RTS True] d)
                    else d);
              (full, d2) = hw_ask k (Pio_sm_is_tx_fifo_full pio sm) d1
          in if full \<noteq> 0 then (False, d2) else (True, hw_do k (Pio_sm_put pio sm (ucast data)) d2))"

definition tx_clock_hard_reset :: "'h sdk \<Rightarrow> 'h v24_driver \<Rightarrow> 'h v24_driver" where
  "tx_clock_hard_reset k d =
     (case rt_tx_pio (dr_runtime d) of
        None \<Rightarrow> d
      | Some pio \<Rightarrow>
          let sm = rt_tx_sm (dr_runtime d) in
          hw_do_all k [Pio_sm_set_enabled pio sm False, Pio_sm_clear_fifos pio sm, Pio_sm_restart pio sm,
                       Pio_sm_clkdiv_restart pio sm,
                       Pio_fdebug_write pio (fdebug_bit (PIO_FDEBUG_TXSTALL_LSB k + sm)),
                       Pio_sm_set_enabled pio sm True] d)"

text \<open>The divisor \<open>SYS_CLK_HZ / (TX_PIO_CYCLES_PER_BIT * baudrate)\<close> as numerator and denominator.\<close>

definition tx_clock_update_settings :: "'h sdk \<Rightarrow> V24_CONFIG_T \<Rightarrow> 'h v24_driver \<Rightarrow> 'h v24_driver option" where
  "tx_clock_update_settings k config d =
     (case rt_tx_pio (dr_runtime d) of
        None \<Rightarrow> None
      | Some pio \<Rightarrow>
          let sm = rt_tx_sm (dr_runtime d); p = tx_polarities (vc_polarities config) in
          Some (hw_do_all k
            ([Pio_sm_set_enabled pio sm False]
             @ (if vc_external_clock config then [Gpio_set_inover V24_TXC_DCE (txc_inverted p)]
                else [Gpio_set_outover V24_TXC_DTE (txc_inverted p)])
             @ [Gpio_set_outover V24_TXD (txd_inverted p), Gpio_set_outover V24_DTR (dtr_inverted p),
                Gpio_set_outover V24_RTS (rts_inverted p), Gpio_set_inover V24_CTS (cts_inverted p)]
             @ (if vc_external_clock config then []
                else [Pio_sm_set_clkdiv pio sm (SYS_CLK_HZ k) (TX_PIO_CYCLES_PER_BIT * unat (vc_baudrate config))])
             @ [Pio_sm_set_enabled pio sm True]) d))"

definition tck_settings :: "sm_setting list" where
  "tck_settings = [Sm_config_set_sideset_pins V24_TXC_DTE, Sm_config_set_out_pins V24_TXD 1,
     Sm_config_set_jmp_pin V24_CTS, Sm_config_set_out_shift True True 8]"

definition tx_clock_init_tck :: "'h sdk \<Rightarrow> nat \<Rightarrow> nat \<Rightarrow> V24_CONFIG_T \<Rightarrow> 'h v24_driver \<Rightarrow> 'h v24_driver option" where
  "tx_clock_init_tck k pio pio_sm config d =
     (let d1 = upd_runtime (\<lambda>rt. rt\<lparr>rt_tx_pio := Some pio, rt_tx_sm := pio_sm\<rparr>) (hw_do k (Pio_sm_claim pio pio_sm) d);
          (offset, d2) = hw_ask k (Pio_add_program pio Tck_txd) d1;
          d3 = hw_do_all k
            [Pio_gpio_init pio V24_TXC_DTE, Pio_sm_set_consecutive_pindirs pio pio_sm V24_TXC_DTE 1 True,
             Pio_gpio_init pio V24_TXD, Pio_sm_set_consecutive_pindirs pio pio_sm V24_TXD 1 True,
             Pio_gpio_init pio V24_CTS, Pio_sm_set_consecutive_pindirs pio pio_sm V24_CTS 1 False,
             Pio_sm_init pio pio_sm offset Tck_txd tck_settings] d2
      in tx_clock_update_settings k config d3)"

definition xck_settings :: "sm_setting list" where
  "xck_settings = [Sm_config_set_in_pins V24_TXC_DCE, Sm_config_set_out_pins V24_TXD 1,
     Sm_config_set_jmp_pin V24_CTS, Sm_config_set_out_shift True False 8]"

definition tx_clock_init_xck :: "'h sdk \<Rightarrow> nat \<Rightarrow> nat \<Rightarrow> V24_CONFIG_T \<Rightarrow> 'h v24_driver \<Rightarrow> 'h v24_driver option" where
  "tx_clock_init_xck k pio pio_sm config d =
     (let d1 = upd_runtime (\<lambda>rt. rt\<lparr>rt_tx_pio := Some pio, rt_tx_sm := pio_sm\<rparr>) (hw_do k (Pio_sm_claim pio pio_sm) d);
          (offset, d2) = hw_ask k (Pio_add_program pio Xck_txd) d1;
          d3 = hw_do_all k
            [Pio_gpio_init pio V24_TXC_DCE, Pio_sm_set_consecutive_pindirs pio pio_sm V24_TXC_DCE 1 False,
             Pio_gpio_init pio V24_TXD, Pio_sm_set_consecutive_pindirs pio pio_sm V24_TXD 1 True,
             Pio_gpio_init pio V24_CTS, Pio_sm_set_consecutive_pindirs pio pio_sm V24_CTS 1 False,
             Pio_sm_init pio pio_sm offset Xck_txd xck_settings] d2
      in tx_clock_update_settings k config d3)"

definition tx_clock_init :: "'h sdk \<Rightarrow> nat \<Rightarrow> nat \<Rightarrow> V24_CONFIG_T \<Rightarrow> 'h v24_driver \<Rightarrow> 'h v24_driver option" where
  "tx_clock_init k pio pio_sm config d =
     map_option (cts_irq_init k)
       (if vc_external_clock config then tx_clock_init_xck k pio pio_sm config d
        else tx_clock_init_tck k pio pio_sm config d)"

definition V24_inputs :: "nat list" where "V24_inputs = [V24_DCD, V24_DSR, V24_CTS, V24_RXD, V24_RXC]"
definition V24_outputs :: "nat list" where "V24_outputs = [V24_RTS, V24_TXD, V24_DTR, V24_TXC_DTE, V24_TXC_DCE]"

definition init_pins :: "'h sdk \<Rightarrow> 'h v24_driver \<Rightarrow> 'h v24_driver" where
  "init_pins k d =
     hw_do_all k
       (concat (map (\<lambda>p. [Gpio_init p, Gpio_set_dir p False, Gpio_pull_down p]) V24_inputs)
        @ concat (map (\<lambda>p. [Gpio_init p, Gpio_set_dir p True]) V24_outputs)) d"

section \<open>The indicator\<close>

text \<open>
  \<open>led_mirror_init\<close> is not called: its pin resets the network chip.  The claim answers with a state
  machine or a negative number.
\<close>

definition led_mirror_settings :: "sm_setting list" where
  "led_mirror_settings = [Sm_config_set_set_pins V24_STATUS_LED 1, Sm_config_set_jmp_pin V24_TXD,
     Sm_config_set_in_pins V24_RXD, Sm_config_set_in_shift False False 32]"

definition led_mirror_init :: "'h sdk \<Rightarrow> 'h v24_driver \<Rightarrow> 'h v24_driver" where
  "led_mirror_init k d =
     (let (claimed, d1) = hw_ask k (Pio_claim_unused_sm 0) d;
          pio_sm = unat claimed in
      if sint (ucast claimed :: 32 word) < 0 then d1
      else
        let (can_add, d2) = hw_ask k (Pio_can_add_program 0 Led_mirror) d1 in
        if can_add = 0 then hw_do k (Pio_sm_unclaim 0 pio_sm) d2
        else
          let (offset, d3) = hw_ask k (Pio_add_program 0 Led_mirror) d2
          in hw_do_all k
               [Pio_gpio_init 0 V24_STATUS_LED, Pio_sm_set_consecutive_pindirs 0 pio_sm V24_STATUS_LED 1 True,
                Pio_sm_init 0 pio_sm offset Led_mirror led_mirror_settings, Pio_sm_set_enabled 0 pio_sm True] d3)"

section \<open>RTS covers every byte\<close>

text \<open>The level of the RTS pin after a command sequence, and the bytes handed to the TX FIFO.\<close>

fun rts_level :: "bool \<Rightarrow> hw_cmd list \<Rightarrow> bool" where
  "rts_level l [] = l"
| "rts_level l (Gpio_put pin v # cs) = rts_level (if pin = V24_RTS then v else l) cs"
| "rts_level l (_ # cs) = rts_level l cs"

fun bytes_put :: "hw_cmd list \<Rightarrow> byte list" where
  "bytes_put [] = []"
| "bytes_put (Pio_sm_put _ _ v # cs) = ucast v # bytes_put cs"
| "bytes_put (_ # cs) = bytes_put cs"

text \<open>No byte is handed over while RTS is down.\<close>

fun rts_covers :: "bool \<Rightarrow> hw_cmd list \<Rightarrow> bool" where
  "rts_covers l [] = True"
| "rts_covers l (Gpio_put pin v # cs) = rts_covers (if pin = V24_RTS then v else l) cs"
| "rts_covers l (Pio_sm_put _ _ _ # cs) = (l \<and> rts_covers l cs)"
| "rts_covers l (_ # cs) = rts_covers l cs"

lemma rts_level_append [simp]: "rts_level l (cs @ ds) = rts_level (rts_level l cs) ds"
  by (induction l cs rule: rts_level.induct) simp_all

lemma bytes_put_append [simp]: "bytes_put (cs @ ds) = bytes_put cs @ bytes_put ds"
  by (induction cs rule: bytes_put.induct) simp_all

lemma rts_covers_append [simp]: "rts_covers l (cs @ ds) \<longleftrightarrow> rts_covers l cs \<and> rts_covers (rts_level l cs) ds"
  by (induction l cs rule: rts_covers.induct) simp_all

definition rts_ok :: "'h v24_driver \<Rightarrow> bool" where
  "rts_ok d \<longleftrightarrow> rts_covers False (dr_trace d) \<and> (rt_rts_set (dr_runtime d) \<longrightarrow> rts_level False (dr_trace d))"

lemma ucast_byte_u32 [simp]: "ucast (ucast (b :: byte) :: u32) = b"
  by (rule ucast_up_ucast_id) (simp add: is_up)

lemma tx_put_trace:
  "bytes_put (dr_trace (snd (tx_put k b d))) = bytes_put (dr_trace d) @ (if fst (tx_put k b d) then [b] else [])"
  by (auto simp: tx_put_def split_beta Let_def split: option.splits)

lemma tx_put_rts_ok: "rts_ok d \<Longrightarrow> rts_ok (snd (tx_put k b d))"
  by (auto simp: tx_put_def rts_ok_def split_beta Let_def split: option.splits)

lemma tx_poll_rts_ok: "rts_ok d \<Longrightarrow> tx_poll k d = Some (idle, d') \<Longrightarrow> rts_ok d'"
  by (auto simp: tx_poll_def rts_ok_def split_beta Let_def split: option.splits if_splits)

lemma cts_handler_rts [simp]: "rt_rts_set (fold (cts_raw_irq_handler k) irqs rt) = rt_rts_set rt"
  by (induction irqs arbitrary: rt) (simp_all add: cts_raw_irq_handler_def)

text \<open>Everything the firmware does to a running driver.\<close>

inductive v24_step :: "'h sdk \<Rightarrow> 'h v24_driver \<Rightarrow> 'h v24_driver \<Rightarrow> bool" for k where
  step_put: "v24_step k d (snd (tx_put k b d))"
| step_poll: "tx_poll k d = Some (idle, d') \<Longrightarrow> v24_step k d d'"
| step_cts: "v24_step k d (snd (tx_clock_get_cts_toggle_seq k d))"
| step_tx_reset: "v24_step k d (tx_clock_hard_reset k d)"
| step_tx_settings: "tx_clock_update_settings k config d = Some d' \<Longrightarrow> v24_step k d d'"
| step_rx_get: "v24_step k d (snd (rx_get k d))"
| step_rx_stall: "v24_step k d (snd (rx_clock_poll_stall k d))"
| step_rx_reset: "v24_step k d (rx_clock_hard_reset k d)"
| step_rx_settings: "rx_clock_update_settings k polarities d = Some d' \<Longrightarrow> v24_step k d d'"
| step_reinit: "reinit_v24_config config baudrate (dr_runtime d) = Some (config', rt) \<Longrightarrow>
    v24_step k d (d\<lparr>dr_runtime := rt\<rparr>)"

lemma v24_step_rts_ok:
  assumes "v24_step k d d'" "rts_ok d"
  shows "rts_ok d'"
  using assms
proof (cases rule: v24_step.cases)
  case step_cts
  then show ?thesis
    using assms(2) by (simp add: tx_clock_get_cts_toggle_seq_def rts_ok_def split_beta Let_def)
next
  case step_tx_reset
  then show ?thesis
    using assms(2) by (auto simp: tx_clock_hard_reset_def rts_ok_def Let_def split: option.splits)
next
  case (step_tx_settings config)
  then show ?thesis
    using assms(2) by (auto simp: tx_clock_update_settings_def rts_ok_def Let_def split: option.splits)
next
  case step_rx_get
  then show ?thesis
    using assms(2) by (simp add: rx_get_def rts_ok_def split_beta Let_def split: option.splits)
next
  case step_rx_stall
  then show ?thesis
    using assms(2) by (simp add: rx_clock_poll_stall_def rts_ok_def split_beta Let_def split: option.splits)
next
  case step_rx_reset
  then show ?thesis
    using assms(2) by (auto simp: rx_clock_hard_reset_def rts_ok_def Let_def split: option.splits)
next
  case (step_rx_settings polarities)
  then show ?thesis
    using assms(2) by (auto simp: rx_clock_update_settings_def rts_ok_def Let_def split: option.splits)
next
  case (step_reinit config baudrate config' rt)
  then have "\<not> rt_rts_set rt"
    by (auto simp: reinit_v24_config_def Let_def split: if_splits)
  then show ?thesis
    using step_reinit(1) assms(2) by (simp add: rts_ok_def)
qed (use tx_put_rts_ok tx_poll_rts_ok in auto)

interpretation rts: safe_system "\<lambda>d. dr_trace d = [] \<and> \<not> rt_rts_set (dr_runtime d)" "v24_step k" rts_ok for k
  by unfold_locales (use v24_step_rts_ok in \<open>auto simp: rts_ok_def\<close>)

section \<open>RTS holdoff\<close>

text \<open>
  A sequence of polls with RTS up, as \<open>tx_poll\<close> decides them: each observation is whether the FIFO
  is empty, whether the stall flag is set, and the time.  The result is whether some poll released
  RTS (the polls after that one are not looked at) and the state of the two static variables.
\<close>

fun poll_run :: "u32 \<Rightarrow> (bool \<times> bool \<times> u64) list \<Rightarrow> bool \<times> u64 \<Rightarrow> bool \<times> bool \<times> u64" where
  "poll_run holdoff [] st = (False, st)"
| "poll_run holdoff ((drained, stalled, now_us) # obs) st =
     (let (release, st') = tx_poll_decide holdoff drained stalled now_us st in
      if release then (True, st') else poll_run holdoff obs st')"

abbreviation idle_obs :: "bool \<times> bool \<times> u64 \<Rightarrow> bool" where
  "idle_obs ob \<equiv> fst ob \<or> fst (snd ob)"

abbreviation obs_time :: "bool \<times> bool \<times> u64 \<Rightarrow> u64" where
  "obs_time ob \<equiv> snd (snd ob)"

lemma poll_run_quiet:
  assumes "fst (poll_run h obs st)"
  shows "(\<exists>i j. i < j \<and> j < length obs \<and> (\<forall>m. i \<le> m \<and> m \<le> j \<longrightarrow> idle_obs (obs ! m))
            \<and> obs_time (obs ! i) + ucast h \<le> obs_time (obs ! j))
       \<or> fst st \<and> (\<exists>j < length obs. (\<forall>m \<le> j. idle_obs (obs ! m)) \<and> snd st \<le> obs_time (obs ! j))"
  using assms
proof (induction obs arbitrary: st)
  case (Cons ob obs)
  obtain e s t where ob: "ob = (e, s, t)"
    using prod_cases3 by blast
  obtain r st' where dec: "tx_poll_decide h e s t st = (r, st')"
    by (cases "tx_poll_decide h e s t st")
  show ?case
  proof (cases r)
    case True
    then have "fst st" "e \<or> s" "snd st \<le> t"
      using dec by (auto simp: tx_poll_decide_def split: if_splits)
    then show ?thesis
      using ob by (intro disjI2) auto
  next
    case False
    then have run: "fst (poll_run h obs st')"
      using Cons.prems ob dec by simp
    have later: "\<exists>i j. i < j \<and> j < length (ob # obs) \<and> (\<forall>m. i \<le> m \<and> m \<le> j \<longrightarrow> idle_obs ((ob # obs) ! m))
        \<and> obs_time ((ob # obs) ! i) + ucast h \<le> obs_time ((ob # obs) ! j)"
      if "i < j" "j < length obs" "\<forall>m. i \<le> m \<and> m \<le> j \<longrightarrow> idle_obs (obs ! m)"
        "obs_time (obs ! i) + ucast h \<le> obs_time (obs ! j)" for i j
    proof -
      have "idle_obs ((ob # obs) ! m)" if m: "Suc i \<le> m" "m \<le> Suc j" for m
        using that(1,2) \<open>\<forall>m. i \<le> m \<and> m \<le> j \<longrightarrow> idle_obs (obs ! m)\<close> m by (cases m) auto
      then show ?thesis
        using that by (intro exI [of _ "Suc i"] exI [of _ "Suc j"]) auto
    qed
    show ?thesis
    proof (cases "\<exists>i j. i < j \<and> j < length obs \<and> (\<forall>m. i \<le> m \<and> m \<le> j \<longrightarrow> idle_obs (obs ! m))
        \<and> obs_time (obs ! i) + ucast h \<le> obs_time (obs ! j)")
      case True
      then show ?thesis
        using later by blast
    next
      case noij: False
      obtain j where j: "j < length obs" "\<forall>m \<le> j. idle_obs (obs ! m)" "snd st' \<le> obs_time (obs ! j)" "fst st'"
        using Cons.IH [OF run] noij by blast
      have idle: "e \<or> s" "\<forall>m \<le> Suc j. idle_obs ((ob # obs) ! m)"
        using dec j(4) False j(2) ob by (auto simp: tx_poll_decide_def nth_Cons split: if_splits nat.splits)
      show ?thesis
      proof (cases "fst st")
        case True
        then have "st' = st"
          using dec False idle(1) by (auto simp: tx_poll_decide_def split: if_splits)
        then show ?thesis
          using True j idle(2) by (intro disjI2 conjI exI [of _ "Suc j"]) auto
      next
        case fresh: False
        then have "snd st' = t + ucast h"
          using dec False idle(1) by (auto simp: tx_poll_decide_def split: if_splits)
        then show ?thesis
          using j idle(2) ob by (intro disjI1 exI [of _ 0] exI [of _ "Suc j"]) auto
      qed
    qed
  qed
qed simp

lemma poll_run_pending:
  assumes "fst st" "\<forall>ob\<in>set obs. idle_obs ob"
  shows "fst (poll_run h obs st) \<longleftrightarrow> (\<exists>ob\<in>set obs. snd st \<le> obs_time ob)"
  using assms(2)
proof (induction obs)
  case (Cons ob obs)
  obtain e s t where ob: "ob = (e, s, t)"
    using prod_cases3 by blast
  have "tx_poll_decide h e s t st = (if t < snd st then (False, st) else (True, False, snd st))"
    using Cons.prems assms(1) ob by (auto simp: tx_poll_decide_def)
  then show ?case
    using Cons ob by (cases "t < snd st") auto
qed simp

lemma poll_run_releases:
  assumes "\<forall>ob\<in>set obs. idle_obs ob" "obs = first # rest" "\<not> fst st"
  shows "fst (poll_run h obs st) \<longleftrightarrow> (\<exists>ob\<in>set rest. obs_time first + ucast h \<le> obs_time ob)"
proof -
  obtain e s t where ob: "first = (e, s, t)"
    using prod_cases3 by blast
  have "tx_poll_decide h e s t st = (False, True, t + ucast h)"
    using assms ob by (auto simp: tx_poll_decide_def)
  then show ?thesis
    using poll_run_pending [of "(True, t + ucast h)" rest h] assms(1,2) ob by simp
qed

text \<open>
  What a poll of the driver observes (asked in the order of the source), and a sequence of polls
  with nothing in between but the passing of time; it ends at the first poll that finds RTS down
  or takes it down.
\<close>

definition tx_observe :: "'h sdk \<Rightarrow> 'h v24_driver \<Rightarrow> bool \<times> bool \<times> u64" where
  "tx_observe k d =
     (let pio = the (rt_tx_pio (dr_runtime d)); sm = rt_tx_sm (dr_runtime d);
          (is_empty, d1) = hw_ask k (Pio_sm_is_tx_fifo_empty pio sm) d;
          (fdebug, d2) = hw_ask k (Pio_fdebug pio) d1;
          (now_us, d3) = hw_ask k To_us_since_boot d2
      in (is_empty \<noteq> 0, ucast fdebug AND fdebug_bit (PIO_FDEBUG_TXSTALL_LSB k + sm) \<noteq> 0, now_us))"

fun tx_polls :: "'h sdk \<Rightarrow> nat \<Rightarrow> 'h v24_driver \<Rightarrow> (bool \<times> bool \<times> u64) list \<times> 'h v24_driver" where
  "tx_polls k 0 d = ([], d)"
| "tx_polls k (Suc n) d =
     (case tx_poll k d of
        None \<Rightarrow> ([], d)
      | Some (idle, d1) \<Rightarrow>
          if idle then ([tx_observe k d], d1)
          else let (obs, d2) = tx_polls k n d1 in (tx_observe k d # obs, d2))"

lemma tx_poll_observe:
  assumes "rt_rts_set (dr_runtime d)" "rt_tx_pio (dr_runtime d) = Some pio"
  shows "\<exists>d'. tx_poll k d = Some (fst (tx_poll_decide (rt_tx_rts_holdoff_us (dr_runtime d))
        (fst (tx_observe k d)) (fst (snd (tx_observe k d))) (snd (snd (tx_observe k d)))
        (dr_deassert_pending d, dr_deassert_deadline_us d)), d')
    \<and> (dr_deassert_pending d', dr_deassert_deadline_us d')
      = snd (tx_poll_decide (rt_tx_rts_holdoff_us (dr_runtime d))
        (fst (tx_observe k d)) (fst (snd (tx_observe k d))) (snd (snd (tx_observe k d)))
        (dr_deassert_pending d, dr_deassert_deadline_us d))
    \<and> (rt_rts_set (dr_runtime d') \<longleftrightarrow> \<not> fst (tx_poll_decide (rt_tx_rts_holdoff_us (dr_runtime d))
        (fst (tx_observe k d)) (fst (snd (tx_observe k d))) (snd (snd (tx_observe k d)))
        (dr_deassert_pending d, dr_deassert_deadline_us d)))
    \<and> rt_tx_pio (dr_runtime d') = Some pio
    \<and> rt_tx_rts_holdoff_us (dr_runtime d') = rt_tx_rts_holdoff_us (dr_runtime d)"
  using assms by (simp add: tx_poll_def tx_observe_def split_beta Let_def)

lemma tx_polls_run:
  assumes "rt_rts_set (dr_runtime d)" "rt_tx_pio (dr_runtime d) = Some pio"
  shows "fst (poll_run (rt_tx_rts_holdoff_us (dr_runtime d)) (fst (tx_polls k n d))
      (dr_deassert_pending d, dr_deassert_deadline_us d)) \<longleftrightarrow> \<not> rt_rts_set (dr_runtime (snd (tx_polls k n d)))"
  using assms
proof (induction n arbitrary: d)
  case (Suc n)
  define ob where "ob = tx_observe k d"
  define dec where "dec = tx_poll_decide (rt_tx_rts_holdoff_us (dr_runtime d)) (fst ob) (fst (snd ob)) (snd (snd ob))
      (dr_deassert_pending d, dr_deassert_deadline_us d)"
  obtain d' where d': "tx_poll k d = Some (fst dec, d')"
    "(dr_deassert_pending d', dr_deassert_deadline_us d') = snd dec"
    "rt_rts_set (dr_runtime d') \<longleftrightarrow> \<not> fst dec" "rt_tx_pio (dr_runtime d') = Some pio"
    "rt_tx_rts_holdoff_us (dr_runtime d') = rt_tx_rts_holdoff_us (dr_runtime d)"
    using tx_poll_observe [OF Suc.prems, of k] unfolding dec_def ob_def by blast
  obtain e s t where ob: "ob = (e, s, t)"
    using prod_cases3 by blast
  show ?case
  proof (cases "fst dec")
    case True
    then show ?thesis
      using d' ob by (simp add: ob_def [symmetric] dec_def split_beta Let_def)
  next
    case False
    then have "fst (poll_run (rt_tx_rts_holdoff_us (dr_runtime d')) (fst (tx_polls k n d')) (snd dec))
        \<longleftrightarrow> \<not> rt_rts_set (dr_runtime (snd (tx_polls k n d')))"
      using Suc.IH [of d'] d' by simp
    with False show ?thesis
      using d'(1,5) ob by (simp add: ob_def [symmetric] dec_def split_beta Let_def)
  qed
qed simp

section \<open>A concrete transmitter\<close>

text \<open>
  Hardware to run the driver on: a four place FIFO from which one byte leaves per look at the clock,
  a stall flag that is set when the machine finds the FIFO empty and stays set until a one is
  written to it, and a clock that advances by 100 microseconds per look.
\<close>

record tx_hw =
  th_fifo :: "u32 list"
  th_stall :: bool
  th_now :: u64

definition tx_hw_tick :: "tx_hw \<Rightarrow> tx_hw" where
  "tx_hw_tick h =
     (case th_fifo h of
        [] \<Rightarrow> h\<lparr>th_stall := True, th_now := th_now h + 100\<rparr>
      | _ # rest \<Rightarrow> h\<lparr>th_fifo := rest, th_now := th_now h + 100\<rparr>)"

fun tx_hw_do :: "hw_cmd \<Rightarrow> tx_hw \<Rightarrow> tx_hw" where
  "tx_hw_do (Pio_sm_put _ _ v) h = h\<lparr>th_fifo := th_fifo h @ [v]\<rparr>"
| "tx_hw_do (Pio_fdebug_write _ v) h = (if bit v 24 then h\<lparr>th_stall := False\<rparr> else h)"
| "tx_hw_do (Pio_sm_clear_fifos _ _) h = h\<lparr>th_fifo := []\<rparr>"
| "tx_hw_do _ h = h"

fun tx_hw_ask :: "hw_query \<Rightarrow> tx_hw \<Rightarrow> u64 \<times> tx_hw" where
  "tx_hw_ask (Pio_sm_is_tx_fifo_full _ _) h = (if length (th_fifo h) = 4 then 1 else 0, h)"
| "tx_hw_ask (Pio_sm_is_tx_fifo_empty _ _) h = (if th_fifo h = [] then 1 else 0, h)"
| "tx_hw_ask (Pio_fdebug _) h = (if th_stall h then push_bit 24 1 else 0, h)"
| "tx_hw_ask To_us_since_boot h = (th_now h, tx_hw_tick h)"
| "tx_hw_ask _ h = (0, h)"

definition tx_hw_sdk :: "tx_hw sdk" where
  "tx_hw_sdk = \<lparr>sdk_do = tx_hw_do, sdk_ask = tx_hw_ask, sdk_cts_irqs = (\<lambda>h. ([], h)),
     PIO_FDEBUG_TXSTALL_LSB = 24, PIO_FDEBUG_RXSTALL_LSB = 0, GPIO_IRQ_EDGES = 12, SYS_CLK_HZ = 125000000,
     GPIO_FUNC_SIO = 5, PICO_ERROR_TIMEOUT = -1\<rparr>"

definition tx_demo :: "bool \<Rightarrow> bool \<Rightarrow> u64 \<Rightarrow> u32 list \<Rightarrow> bool \<Rightarrow> u64 \<Rightarrow> hw_cmd list \<Rightarrow> tx_hw v24_driver" where
  "tx_demo rts pending deadline fifo stall now cmds =
     \<lparr>dr_runtime = \<lparr>rt_tx_rts_holdoff_us = 200, rt_rts_set = rts, rt_tx_pio = Some 0, rt_tx_sm = 0,
        rt_rx_pio = Some 0, rt_rx_sm = 1, rt_tx_clock_forced_low = False, rt_cts_toggle_seq = 0\<rparr>,
      dr_deassert_pending = pending, dr_deassert_deadline_us = deadline, dr_cts_initialized = True,
      dr_hw = \<lparr>th_fifo = fifo, th_stall = stall, th_now = now\<rparr>, dr_trace = cmds, dr_rx = []\<rparr>"

lemma tx_demo_put:
  "length fifo < 4 \<Longrightarrow> tx_put tx_hw_sdk b (tx_demo rts pending deadline fifo stall now cmds) =
     (True, tx_demo True pending deadline (fifo @ [ucast b]) (stall \<and> rts) now
        (cmds @ (if rts then [] else [Pio_fdebug_write 0 (push_bit 24 1), Gpio_set_dir V24_RTS True, Gpio_put V24_RTS True])
          @ [Pio_sm_put 0 0 (ucast b)]))"
  by (simp add: tx_put_def tx_hw_sdk_def tx_demo_def hw_do_def hw_ask_def upd_runtime_def fdebug_bit_def Let_def)

lemma tx_demo_observe:
  "tx_observe tx_hw_sdk (tx_demo rts pending deadline fifo stall now cmds) = (fifo = [], stall, now)"
  by (simp add: tx_observe_def tx_hw_sdk_def tx_demo_def hw_ask_def fdebug_bit_def Let_def tx_hw_tick_def split_beta)

lemma tx_demo_poll:
  "tx_poll tx_hw_sdk (tx_demo True pending deadline fifo stall now cmds) =
     (case tx_poll_decide 200 (fifo = []) stall now (pending, deadline) of (release, p, dl) \<Rightarrow>
       Some (release, tx_demo (\<not> release) p dl (tl fifo) (fifo = [] \<or> stall) (now + 100)
         (cmds @ (if release then [Gpio_put V24_RTS False] else []))))"
  by (cases fifo)
   (simp_all add: tx_poll_def tx_hw_sdk_def tx_demo_def hw_ask_def hw_do_def upd_runtime_def fdebug_bit_def Let_def tx_hw_tick_def split_beta)

definition tx_hw_driver :: "tx_hw v24_driver" where
  "tx_hw_driver = tx_demo False False 0 [] True 0 []"

lemma tx_polls_numeral [simp]:
  "tx_polls k (numeral m) d =
     (case tx_poll k d of
        None \<Rightarrow> ([], d)
      | Some (idle, d1) \<Rightarrow>
          if idle then ([tx_observe k d], d1)
          else let (obs, d2) = tx_polls k (pred_numeral m) d1 in (tx_observe k d # obs, d2))"
  by (simp add: numeral_eq_Suc)

lemmas tx_demo_simps = tx_hw_driver_def tx_demo_put tx_demo_observe tx_demo_poll tx_poll_decide_def

section \<open>Properties\<close>

text \<open>
  C24.  Whatever the hardware does and in whatever order the driver's operations are called, no byte
  is handed to the transmit FIFO while the RTS line is down, starting from a driver that has issued
  no command; and each call of \<open>tx_put\<close> hands over exactly its byte when it reports success and
  nothing otherwise.
\<close>

theorem v24_rts_covers_bytes:
  assumes "(v24_step k)\<^sup>*\<^sup>* d d'" "dr_trace d = []" "\<not> rt_rts_set (dr_runtime d)"
  shows "rts_covers False (dr_trace d')
    \<and> bytes_put (dr_trace (snd (tx_put k b d'))) = bytes_put (dr_trace d') @ (if fst (tx_put k b d') then [b] else [])"
  using rts.reachable_invar [OF _ assms(1)] assms(2,3) by (simp add: rts_ok_def tx_put_trace)

theorem v24_rts_covers_bytes_witness:
  "let d = snd (tx_put tx_hw_sdk 0x7E tx_hw_driver) in
     rts_covers False (dr_trace d)
     \<and> bytes_put (dr_trace (snd (tx_put tx_hw_sdk 0x42 d))) = [0x7E, 0x42]"
proof -
  let ?d = "snd (tx_put tx_hw_sdk 0x7E tx_hw_driver)"
  have step: "(v24_step tx_hw_sdk)\<^sup>*\<^sup>* tx_hw_driver ?d"
    by (intro r_into_rtranclp v24_step.step_put)
  have start: "dr_trace tx_hw_driver = []" "\<not> rt_rts_set (dr_runtime tx_hw_driver)"
    by (simp_all add: tx_hw_driver_def tx_demo_def)
  have "fst (tx_put tx_hw_sdk 0x42 ?d)" "bytes_put (dr_trace ?d) = [0x7E]"
    by (simp_all add: tx_demo_simps) (simp add: tx_demo_def)
  then show ?thesis
    using v24_rts_covers_bytes [OF step start, of "0x42"] by simp
qed

text \<open>
  C28.  RTS holdoff.  Over any number of consecutive polls, on any hardware: RTS is released only if
  an earlier poll and every poll since saw the transmitter idle (FIFO empty or stall flag set) and
  at least the holdoff time has passed between the two; and when every poll sees it idle, RTS is
  released as soon as a poll comes the holdoff time after the first one.
\<close>

theorem tx_poll_holdoff:
  fixes k :: "'h sdk" and n :: nat
  assumes "rt_rts_set (dr_runtime d)" "rt_tx_pio (dr_runtime d) = Some pio" "\<not> dr_deassert_pending d"
  defines "holdoff \<equiv> ucast (rt_tx_rts_holdoff_us (dr_runtime d)) :: u64"
    and "obs \<equiv> fst (tx_polls k n d)" and "d' \<equiv> snd (tx_polls k n d)"
  shows "(\<not> rt_rts_set (dr_runtime d') \<longrightarrow>
       (\<exists>i j. i < j \<and> j < length obs \<and> (\<forall>m. i \<le> m \<and> m \<le> j \<longrightarrow> fst (obs ! m) \<or> fst (snd (obs ! m)))
         \<and> snd (snd (obs ! i)) + holdoff \<le> snd (snd (obs ! j))))
    \<and> (\<forall>first rest. obs = first # rest \<and> (\<forall>ob\<in>set obs. fst ob \<or> fst (snd ob)) \<longrightarrow>
       (\<not> rt_rts_set (dr_runtime d') \<longleftrightarrow> (\<exists>ob\<in>set rest. snd (snd first) + holdoff \<le> snd (snd ob))))"
proof -
  note run = tx_polls_run [OF assms(1,2), of k n, folded obs_def d'_def]
  have 1: "\<exists>i j. i < j \<and> j < length obs \<and> (\<forall>m. i \<le> m \<and> m \<le> j \<longrightarrow> idle_obs (obs ! m))
      \<and> obs_time (obs ! i) + holdoff \<le> obs_time (obs ! j)" if "\<not> rt_rts_set (dr_runtime d')"
    using poll_run_quiet [OF run [THEN iffD2, OF that]] assms(3) by (simp add: holdoff_def)
  have 2: "\<not> rt_rts_set (dr_runtime d') \<longleftrightarrow> (\<exists>ob\<in>set rest. obs_time first + holdoff \<le> obs_time ob)"
    if "obs = first # rest" "\<forall>ob\<in>set obs. idle_obs ob" for first rest
    using poll_run_releases [OF that(2,1), of "(dr_deassert_pending d, dr_deassert_deadline_us d)"
        "rt_tx_rts_holdoff_us (dr_runtime d)"] assms(3) run
    by (simp add: holdoff_def)
  show ?thesis
    using 1 2 by blast
qed

theorem tx_poll_holdoff_witness:
  "let d = snd (tx_put tx_hw_sdk 0x7E tx_hw_driver) in
     fst (tx_polls tx_hw_sdk 9 d)
       = [(False, False, 0), (True, False, 100), (True, True, 200), (True, True, 300)]
     \<and> (\<exists>i j. i < j \<and> j < 4 \<and> snd (snd (fst (tx_polls tx_hw_sdk 9 d) ! i)) + 200
          \<le> snd (snd (fst (tx_polls tx_hw_sdk 9 d) ! j)))"
proof -
  let ?d = "snd (tx_put tx_hw_sdk 0x7E tx_hw_driver)"
  have start: "rt_rts_set (dr_runtime ?d)" "rt_tx_pio (dr_runtime ?d) = Some 0" "\<not> dr_deassert_pending ?d"
    by (simp_all add: tx_demo_simps) (simp_all add: tx_demo_def)
  have obs: "fst (tx_polls tx_hw_sdk 9 ?d)
      = [(False, False, 0), (True, False, 100), (True, True, 200), (True, True, 300)]"
    and down: "\<not> rt_rts_set (dr_runtime (snd (tx_polls tx_hw_sdk 9 ?d)))"
    and hold: "rt_tx_rts_holdoff_us (dr_runtime ?d) = 200"
    by (simp_all add: tx_demo_simps) (simp_all add: tx_demo_def)
  from tx_poll_holdoff [OF start, of tx_hw_sdk 9, THEN conjunct1, rule_format, OF down]
  obtain i j where "i < j" "j < 4" "snd (snd (fst (tx_polls tx_hw_sdk 9 ?d) ! i)) + 200
      \<le> snd (snd (fst (tx_polls tx_hw_sdk 9 ?d) ! j))"
    unfolding obs hold by auto
  then show ?thesis
    using obs unfolding Let_def by blast
qed


text \<open>
  \<open>reinit_v24_config\<close> divides by the requested rate: a rate of zero is a division by zero.
  For every other rate up to \<open>2 ^ 32 - 10 ^ 6\<close> it stores a rate of at least 1200, a holdoff of at
  least 200 microseconds and of at least 41 bit times of the requested rate, less than one
  microsecond per bit above them, and marks RTS as down.
\<close>

lemma reinit_v24_config_holdoff:
  assumes "0 < unat baudrate" "unat baudrate \<le> 2 ^ 32 - 10 ^ 6"
  shows "reinit_v24_config config 0 rt = None
    \<and> (\<exists>config' rt'. reinit_v24_config config baudrate rt = Some (config', rt')
      \<and> unat (vc_baudrate config') = max 1200 (unat baudrate)
      \<and> vc_polarities config' = vc_polarities config
      \<and> \<not> rt_rts_set rt'
      \<and> 200 \<le> unat (rt_tx_rts_holdoff_us rt')
      \<and> 41 * 10 ^ 6 \<le> unat (rt_tx_rts_holdoff_us rt') * unat baudrate
      \<and> (200 < unat (rt_tx_rts_holdoff_us rt') \<longrightarrow>
           unat (rt_tx_rts_holdoff_us rt') * unat baudrate < 41 * (10 ^ 6 + unat baudrate)))"
proof -
  let ?b = "unat baudrate" and ?t = "(10 ^ 6 + unat baudrate - 1) div unat baudrate"
  have "unat (US_PER_SECOND + baudrate - 1) = 10 ^ 6 + ?b - 1"
    using assms by (simp add: US_PER_SECOND_def unat_word_ariths unat_sub_if_size word_size)
  then have t: "unat ((US_PER_SECOND + baudrate - 1) div baudrate) = ?t"
    by (simp add: unat_div_distrib)
  have "?t * ?b \<le> 10 ^ 6 + ?b - 1" "10 ^ 6 + ?b - 1 < (?t + 1) * ?b"
    using assms(1) dividend_less_div_times [of ?b "10 ^ 6 + ?b - 1"] by (simp_all add: algebra_simps)
  then have lo: "10 ^ 6 \<le> ?t * ?b" and hi: "?t * ?b < 10 ^ 6 + ?b"
    using assms(1) by (simp_all only: distrib_right mult_1)
  have small: "?t \<le> 10 ^ 6"
  proof (rule ccontr)
    assume "\<not> ?t \<le> 10 ^ 6"
    then have "(10 ^ 6 + 1) * ?b \<le> ?t * ?b"
      by (intro mult_le_mono1) simp
    moreover have "10 ^ 6 + ?b \<le> (10 ^ 6 + 1) * ?b"
      using assms(1) by simp
    ultimately show False
      using hi by linarith
  qed
  define h where "h = V24_RTS_HOLDOFF_MARGIN * ((US_PER_SECOND + baudrate - 1) div baudrate)"
  have "unat h = (unat V24_RTS_HOLDOFF_MARGIN * ?t) mod 2 ^ 32"
    unfolding h_def t [symmetric] by (simp add: unat_word_ariths(2))
  then have h: "unat h = 41 * ?t"
    using small by (simp add: V24_RTS_HOLDOFF_MARGIN_def)
  define h1 where "h1 = (if h < V24_RTS_MIN_HOLDOFF then V24_RTS_MIN_HOLDOFF else h)"
  have h1: "unat h1 = max 200 (41 * ?t)"
    using h by (auto simp: h1_def V24_RTS_MIN_HOLDOFF_def word_less_nat_alt)
  have "41 * 10 ^ 6 \<le> 41 * (?t * ?b)"
    by (rule mult_le_mono2) (rule lo)
  also have "\<dots> = 41 * ?t * ?b"
    by (rule mult.assoc [symmetric])
  also have "\<dots> \<le> unat h1 * ?b"
    unfolding h1 by (intro mult_le_mono1 max.cobounded2)
  finally have low: "41 * 10 ^ 6 \<le> unat h1 * ?b" .
  have high: "unat h1 * ?b < 41 * (10 ^ 6 + ?b)" if "200 < unat h1"
  proof -
    have "unat h1 * ?b = 41 * (?t * ?b)"
      using that unfolding h1 by (simp add: max_def split: if_splits)
    also have "\<dots> < 41 * (10 ^ 6 + ?b)"
      using hi by (intro mult_strict_left_mono) simp_all
    finally show ?thesis .
  qed
  have "baudrate \<noteq> 0"
    using assms(1) by auto
  then have "reinit_v24_config config baudrate rt =
      Some (config\<lparr>vc_baudrate := (if baudrate \<ge> V24_BAUD_1200 then baudrate else V24_BAUD_1200)\<rparr>,
        rt\<lparr>rt_tx_rts_holdoff_us := h1, rt_rts_set := False\<rparr>)"
    by (simp add: reinit_v24_config_def h_def h1_def Let_def)
  moreover have "unat (if baudrate \<ge> V24_BAUD_1200 then baudrate else V24_BAUD_1200) = max 1200 ?b"
    by (auto simp: V24_BAUD_1200_def word_le_nat_alt)
  moreover have "reinit_v24_config config 0 rt = None"
    by (simp add: reinit_v24_config_def)
  ultimately show ?thesis
    using low high h1 by simp
qed

end
