(* ===== verification/Tx_Queue.thy ===== *)
theory Tx_Queue
  imports Ringbuffer Error_Codes Hdlc_Encoder V24_Driver W5500_Driver "HOL-Library.Sublist"
begin

text \<open>
  \<open>src/drivers/tx_queue.c\<close>: the queue of encoded frames on their way to the V.24 port.  Frames are
  encoded when they are queued and drained to the transmit FIFO a few bytes at a time; when the CTS
  line toggles in the middle of a frame the transmitter is reset and the frame is sent again from
  its first byte.

  An entry owns its storage; the frame descriptor inside it points to that storage.  The copy that
  is pushed into the ring still points to the caller's local variable, which is gone when the call
  returns, so the queued descriptor has no storage in the model until \<open>tx_queue_drain\<close> points it to
  the storage of the copy.  The guards against a \<open>NULL\<close> queue or output pointer have no counterpart:
  the arguments of the model are objects.  The progress message of \<open>tx_queue_drain\<close>, with its own
  static time stamp, is left out with the other log output.

  Shown here: what every call does to the stream of bytes still to be sent, and that over any
  sequence of calls, on any hardware, the bytes handed to the transmitter are the accepted frames in
  order, each complete and preceded only by broken-off attempts of the same frame.
\<close>

section \<open>Data\<close>

definition TX_FRAME_QUEUE_SIZE :: nat where "TX_FRAME_QUEUE_SIZE = 64"
definition QUEUE_FILLING_UP_THRESHOLD :: nat where "QUEUE_FILLING_UP_THRESHOLD = 5"

record TX_QUEUE_ENTRY_T =
  te_payload :: "byte list"
  te_frame :: HDLC_FRAME_T
  te_offset :: nat

text \<open>2048 payload bytes, the three words of the descriptor and the offset.\<close>

definition sizeof_tx_queue_entry :: nat where "sizeof_tx_queue_entry = 2064"

definition tx_entry_zero :: TX_QUEUE_ENTRY_T where
  "tx_entry_zero = \<lparr>te_payload = replicate TX_FRAME_MAX_SIZE_BYTE 0,
     te_frame = \<lparr>hf_payload = [], hf_length = 0, hf_capacity = 0\<rparr>, te_offset = 0\<rparr>"

record TX_QUEUE_T =
  tq_current_entry :: TX_QUEUE_ENTRY_T
  tq_queue_buffer :: "TX_QUEUE_ENTRY_T Ringbuffer"
  tq_queue_touched :: bool
  tq_tx_wire_bytes :: u64
  tq_cts_seq_start :: u32
  tq_cts_seq_valid :: bool

section \<open>Operations\<close>

definition tx_queue_init :: "TX_QUEUE_T \<Rightarrow> TX_QUEUE_ENTRY_T list \<Rightarrow> e2s_error_t \<times> TX_QUEUE_T" where
  "tx_queue_init q buffer_data =
     (E2S_OK, q\<lparr>tq_queue_buffer := snd (RbInit tx_entry_zero (tq_queue_buffer q) (Some buffer_data)
                                   TX_FRAME_QUEUE_SIZE sizeof_tx_queue_entry),
               tq_queue_touched := False, tq_tx_wire_bytes := 0, tq_cts_seq_start := 0,
               tq_cts_seq_valid := False\<rparr>)"

definition poll_queue_stats :: "TX_QUEUE_T \<Rightarrow> e2s_error_t \<times> TX_QUEUE_T" where
  "poll_queue_stats q =
     (let rb = tq_queue_buffer q;
          queue_filling_up = rb_capacity rb - rb_count rb < QUEUE_FILLING_UP_THRESHOLD
      in (E2S_OK, if tq_queue_touched q \<or> queue_filling_up then q\<lparr>tq_queue_touched := False\<rparr> else q))"

text \<open>
  The loop of \<open>tx_queue_drain_bytes\<close>: \<open>n\<close> iterations to go, \<open>i\<close> bytes drained.  The FIFO state
  queried at the head of the loop body is not used.
\<close>

fun drain_loop :: "'h sdk \<Rightarrow> byte list \<Rightarrow> nat \<Rightarrow> nat \<Rightarrow> nat \<Rightarrow> 'h v24_driver \<Rightarrow> nat \<times> 'h v24_driver" where
  "drain_loop k payload offset i 0 d = (i, d)"
| "drain_loop k payload offset i (Suc n) d =
     (let (_, d0) = hw_ask k (Pio_sm_is_tx_fifo_full 0 0) d;
          (ok, d1) = tx_put k (payload ! (offset + i)) d0
      in if ok then drain_loop k payload offset (Suc i) n d1 else (i, d1))"

definition tx_queue_drain_bytes ::
  "'h sdk \<Rightarrow> nat \<Rightarrow> TX_QUEUE_T \<Rightarrow> 'h v24_driver \<Rightarrow> nat \<times> TX_QUEUE_T \<times> 'h v24_driver" where
  "tx_queue_drain_bytes k bytes_to_drain q d =
     (let entry = tq_current_entry q;
          remaining = hf_length (te_frame entry) - te_offset entry;
          effective_bytes_to_drain = (if bytes_to_drain \<ge> remaining then remaining else bytes_to_drain);
          (bytes_drained, d1) = drain_loop k (hf_payload (te_frame entry)) (te_offset entry) 0
                                  effective_bytes_to_drain d
      in (bytes_drained,
          q\<lparr>tq_current_entry := entry\<lparr>te_offset := te_offset entry + bytes_drained\<rparr>,
            tq_tx_wire_bytes := tq_tx_wire_bytes q + of_nat bytes_drained\<rparr>, d1))"

definition tx_queue_get_count :: "TX_QUEUE_T \<Rightarrow> nat" where
  "tx_queue_get_count q = rb_count (tq_queue_buffer q)"

text \<open>The current entry has been drained completely (or there never was one).\<close>

definition entry_drained :: "TX_QUEUE_T \<Rightarrow> bool" where
  "entry_drained q \<longleftrightarrow> te_offset (tq_current_entry q) \<ge> hf_length (te_frame (tq_current_entry q))"

definition tx_queue_is_empty :: "TX_QUEUE_T \<Rightarrow> bool" where
  "tx_queue_is_empty q \<longleftrightarrow> rb_count (tq_queue_buffer q) = 0 \<and> entry_drained q"

text \<open>Fetching the next entry when the current one is drained; \<open>None\<close> when there is none.\<close>

definition next_entry :: "TX_QUEUE_T \<Rightarrow> TX_QUEUE_T option" where
  "next_entry q =
     (if entry_drained q then
        (case RbPopFront (tq_queue_buffer q) of
           (rc, Some e, rb) \<Rightarrow>
             if rc < 0 then None
             else Some (q\<lparr>tq_queue_buffer := rb,
                          tq_current_entry := e\<lparr>te_frame := (te_frame e)\<lparr>hf_payload := te_payload e,
                              hf_capacity := TX_FRAME_MAX_SIZE_BYTE\<rparr>\<rparr>,
                          tq_cts_seq_valid := False\<rparr>)
         | (_, None, _) \<Rightarrow> None)
      else Some q)"

definition tx_queue_drain ::
  "'h sdk \<Rightarrow> nat \<Rightarrow> TX_QUEUE_T \<Rightarrow> 'h v24_driver \<Rightarrow> e2s_error_t \<times> nat \<times> TX_QUEUE_T \<times> 'h v24_driver" where
  "tx_queue_drain k bytes_to_drain q d =
     (let (cts_seq, d1) = tx_clock_get_cts_toggle_seq k d;
          entry = tq_current_entry q;
          frame_mid_send = (te_offset entry > 0 \<and> te_offset entry < hf_length (te_frame entry))
      in if frame_mid_send \<and> tq_cts_seq_valid q \<and> cts_seq \<noteq> tq_cts_seq_start q
         then (E2S_OK, 0, q\<lparr>tq_current_entry := entry\<lparr>te_offset := 0\<rparr>, tq_cts_seq_valid := False\<rparr>,
               tx_clock_hard_reset k d1)
         else case next_entry q of
           None \<Rightarrow> (E2S_OK, 0, q\<lparr>tq_cts_seq_valid := False\<rparr>, d1)
         | Some q1 \<Rightarrow>
             let offset_before_drain = te_offset (tq_current_entry q1);
                 (bytes_drained, q2, d2) = tx_queue_drain_bytes k bytes_to_drain q1 d1;
                 (q3, d3) = (if \<not> tq_cts_seq_valid q2 \<and> offset_before_drain = 0 \<and> bytes_drained > 0
                             then let (seq, d3) = tx_clock_get_cts_toggle_seq k d2
                                  in (q2\<lparr>tq_cts_seq_start := seq, tq_cts_seq_valid := True\<rparr>, d3)
                             else (q2, d2))
             in (E2S_OK, bytes_drained, if entry_drained q3 then q3\<lparr>tq_cts_seq_valid := False\<rparr> else q3, d3))"

text \<open>A \<open>UDP_FRAME_T\<close> is its payload storage and length.\<close>

definition tx_queue_enqueue_udp_frame :: "TX_QUEUE_T \<Rightarrow> UDP_FRAME_T \<Rightarrow> e2s_error_t \<times> TX_QUEUE_T" where
  "tx_queue_enqueue_udp_frame q frame =
     (if rb_count (tq_queue_buffer q) = rb_capacity (tq_queue_buffer q) then (E2S_ERR_TX_QUEUE_FULL, q)
      else case hdlc_encode (Some (uf_payload frame)) (uf_length frame)
                  (Some \<lparr>hf_payload = te_payload tx_entry_zero, hf_length = 0, hf_capacity = TX_FRAME_MAX_SIZE_BYTE\<rparr>)
                  True of
        (True, Some f) \<Rightarrow>
          (let (rc, rb) = RbPushBack (tq_queue_buffer q)
                            \<lparr>te_payload = hf_payload f, te_frame = f\<lparr>hf_payload := []\<rparr>, te_offset = 0\<rparr>
           in if rc < 0 then (E2S_ERR_TX_QUEUE_NOT_INITIALIZED, q)
              else (E2S_OK, q\<lparr>tq_queue_buffer := rb, tq_queue_touched := True\<rparr>))
      | _ \<Rightarrow> (E2S_ERR_HDLC_ENCODE_FAILED, q))"

section \<open>The stream of pending bytes\<close>

text \<open>The frames that are queued, and the one in transmission.\<close>

definition entry_bytes :: "TX_QUEUE_ENTRY_T \<Rightarrow> byte list" where
  "entry_bytes e = take (hf_length (te_frame e)) (te_payload e)"

definition queued_frames :: "TX_QUEUE_T \<Rightarrow> byte list list" where
  "queued_frames q = map entry_bytes (rb_contents (tq_queue_buffer q))"

definition current_bytes :: "TX_QUEUE_T \<Rightarrow> byte list" where
  "current_bytes q = frame_bytes (te_frame (tq_current_entry q))"

abbreviation current_offset :: "TX_QUEUE_T \<Rightarrow> nat" where
  "current_offset q \<equiv> te_offset (tq_current_entry q)"

definition tx_stream :: "TX_QUEUE_T \<Rightarrow> byte list" where
  "tx_stream q = drop (current_offset q) (current_bytes q) @ concat (queued_frames q)"

definition entry_ok :: "TX_QUEUE_ENTRY_T \<Rightarrow> bool" where
  "entry_ok e \<longleftrightarrow> te_offset e = 0 \<and> 0 < hf_length (te_frame e) \<and> hf_length (te_frame e) \<le> TX_FRAME_MAX_SIZE_BYTE
     \<and> length (te_payload e) = TX_FRAME_MAX_SIZE_BYTE"

definition tq_inv :: "TX_QUEUE_T \<Rightarrow> bool" where
  "tq_inv q \<longleftrightarrow> rb_inv (tq_queue_buffer q) \<and> rb_capacity (tq_queue_buffer q) = TX_FRAME_QUEUE_SIZE
     \<and> (\<forall>e\<in>set (rb_contents (tq_queue_buffer q)). entry_ok e)
     \<and> frame_wf (te_frame (tq_current_entry q))
     \<and> current_offset q \<le> hf_length (te_frame (tq_current_entry q))
     \<and> (tq_cts_seq_valid q \<longleftrightarrow> 0 < current_offset q \<and> current_offset q < hf_length (te_frame (tq_current_entry q)))"

lemma length_current_bytes: "tq_inv q \<Longrightarrow> length (current_bytes q) = hf_length (te_frame (tq_current_entry q))"
  by (simp add: tq_inv_def current_bytes_def)

lemma entry_drained_iff: "tq_inv q \<Longrightarrow> entry_drained q \<longleftrightarrow> current_offset q = length (current_bytes q)"
  using length_current_bytes [of q] by (auto simp: entry_drained_def tq_inv_def)

lemma drain_loop_run:
  assumes "offset + i + n \<le> length payload"
  shows "\<exists>m d'. drain_loop k payload offset i n d = (i + m, d') \<and> m \<le> n
    \<and> bytes_put (dr_trace d') = bytes_put (dr_trace d) @ take m (drop (offset + i) payload)"
  using assms
proof (induction n arbitrary: i d)
  case (Suc n)
  define d0 where "d0 = snd (hw_ask k (Pio_sm_is_tx_fifo_full 0 0) d)"
  define r where "r = tx_put k (payload ! (offset + i)) d0"
  have put: "bytes_put (dr_trace (snd r)) = bytes_put (dr_trace d) @ (if fst r then [payload ! (offset + i)] else [])"
    using tx_put_trace [of k "payload ! (offset + i)" d0] by (simp add: r_def d0_def)
  have step: "drain_loop k payload offset i (Suc n) d
      = (if fst r then drain_loop k payload offset (Suc i) n (snd r) else (i, snd r))"
    by (simp add: r_def d0_def split_beta Let_def)
  show ?case
  proof (cases "fst r")
    case True
    obtain m d' where m: "drain_loop k payload offset (Suc i) n (snd r) = (Suc i + m, d')" "m \<le> n"
      "bytes_put (dr_trace d') = bytes_put (dr_trace (snd r)) @ take m (drop (offset + Suc i) payload)"
      using Suc.IH [of "Suc i" "snd r"] Suc.prems by auto
    have "drop (offset + i) payload = payload ! (offset + i) # drop (offset + Suc i) payload"
      using Suc.prems by (simp add: Cons_nth_drop_Suc)
    then show ?thesis
      using step True m put by (intro exI [of _ "Suc m"] exI [of _ d']) simp
  next
    case False
    then show ?thesis
      using step put by (intro exI [of _ 0] exI [of _ "snd r"]) simp
  qed
qed simp

text \<open>The trace of handed-over bytes is not touched by the CTS counter and the transmitter reset.\<close>

lemma cts_seq_trace [simp]: "dr_trace (snd (tx_clock_get_cts_toggle_seq k d)) = dr_trace d"
  by (simp add: tx_clock_get_cts_toggle_seq_def split_beta Let_def)

lemma tx_reset_bytes [simp]: "bytes_put (dr_trace (tx_clock_hard_reset k d)) = bytes_put (dr_trace d)"
  by (simp add: tx_clock_hard_reset_def Let_def split: option.split)

lemma drain_bytes_run:
  assumes "tq_inv q"
  shows "\<exists>m d'. tx_queue_drain_bytes k n q d = (m,
      q\<lparr>tq_current_entry := (tq_current_entry q)\<lparr>te_offset := current_offset q + m\<rparr>,
        tq_tx_wire_bytes := tq_tx_wire_bytes q + of_nat m\<rparr>, d')
    \<and> m \<le> n \<and> current_offset q + m \<le> length (current_bytes q)
    \<and> bytes_put (dr_trace d') = bytes_put (dr_trace d) @ take m (drop (current_offset q) (current_bytes q))"
proof -
  let ?f = "te_frame (tq_current_entry q)" and ?o = "current_offset q"
  define eff where "eff = (if n \<ge> hf_length ?f - ?o then hf_length ?f - ?o else n)"
  have wf: "?o \<le> hf_length ?f" "hf_length ?f \<le> length (hf_payload ?f)"
    using assms by (auto simp: tq_inv_def frame_wf_def)
  have eff: "eff \<le> n" "?o + eff \<le> hf_length ?f"
    using wf by (auto simp: eff_def)
  obtain m d' where m: "drain_loop k (hf_payload ?f) ?o 0 eff d = (m, d')" "m \<le> eff"
    "bytes_put (dr_trace d') = bytes_put (dr_trace d) @ take m (drop ?o (hf_payload ?f))"
    using drain_loop_run [of ?o 0 eff "hf_payload ?f" k d] wf eff by auto
  have "take m (drop ?o (hf_payload ?f)) = take m (drop ?o (current_bytes q))"
    using m(2) eff by (simp add: current_bytes_def frame_bytes_def take_drop)
  then show ?thesis
    using m eff length_current_bytes [OF assms]
    by (intro exI [of _ m] exI [of _ d']) (simp add: tx_queue_drain_bytes_def eff_def [symmetric] Let_def)
qed

text \<open>Fetching an entry: nothing when all is drained, else the first pending frame at its offset.\<close>

lemma next_entry_cases:
  assumes "tq_inv q"
  shows "if entry_drained q then
      (case queued_frames q of
         [] \<Rightarrow> next_entry q = None
       | f # fs \<Rightarrow> \<exists>q1. next_entry q = Some q1 \<and> tq_inv q1 \<and> current_bytes q1 = f \<and> f \<noteq> [] \<and> current_offset q1 = 0
           \<and> queued_frames q1 = fs \<and> tq_tx_wire_bytes q1 = tq_tx_wire_bytes q \<and> \<not> tq_cts_seq_valid q1)
     else next_entry q = Some q"
proof (cases "entry_drained q \<and> rb_contents (tq_queue_buffer q) \<noteq> []")
  case True
  let ?rb = "tq_queue_buffer q"
  obtain e es where es: "rb_contents ?rb = e # es"
    using True by (cases "rb_contents ?rb") auto
  have inv: "rb_inv ?rb" and pos: "rb_count ?rb > 0"
    using assms es length_rb_contents [of ?rb] by (auto simp: tq_inv_def)
  define rb' where "rb' = snd (snd (RbPopFront ?rb))"
  have pop: "RbPopFront ?rb = (0, Some e, rb')" "rb_contents rb' = es" "rb_inv rb'" "rb_capacity rb' = rb_capacity ?rb"
    using RbPopFront_some [OF inv pos] es by (simp_all add: rb'_def)
  have e: "entry_ok e"
    using assms es by (simp add: tq_inv_def)
  define q1 where "q1 = q\<lparr>tq_queue_buffer := rb',
      tq_current_entry := e\<lparr>te_frame := (te_frame e)\<lparr>hf_payload := te_payload e,
        hf_capacity := TX_FRAME_MAX_SIZE_BYTE\<rparr>\<rparr>, tq_cts_seq_valid := False\<rparr>"
  have "next_entry q = Some q1"
    using True pop(1) by (simp add: next_entry_def q1_def)
  moreover have "tq_inv q1"
    using assms pop e es by (simp add: tq_inv_def q1_def frame_wf_def entry_ok_def)
  moreover have "current_bytes q1 = entry_bytes e" "current_offset q1 = 0" "entry_bytes e \<noteq> []"
    "queued_frames q1 = map entry_bytes es"
    using e pop(2) by (auto simp: q1_def current_bytes_def entry_bytes_def frame_bytes_def queued_frames_def
        entry_ok_def TX_FRAME_MAX_SIZE_BYTE_def)
  ultimately show ?thesis
    using True es by (simp add: queued_frames_def) (simp add: q1_def)
next
  case False
  have "RbPopFront (tq_queue_buffer q) = (- 1, None, tq_queue_buffer q)" if "rb_contents (tq_queue_buffer q) = []"
    using that length_rb_contents [of "tq_queue_buffer q"] by (simp add: RbPopFront_empty)
  with False show ?thesis
    by (auto simp: next_entry_def queued_frames_def)
qed

text \<open>
  One call of \<open>tx_queue_drain\<close>: the frame is started again, or nothing is pending, or the first
  pending frame makes progress by \<open>m\<close> bytes.
\<close>

definition drain_restarts :: "'h sdk \<Rightarrow> TX_QUEUE_T \<Rightarrow> 'h v24_driver \<Rightarrow> bool" where
  "drain_restarts k q d \<longleftrightarrow>
     \<not> entry_drained q \<and> tq_cts_seq_valid q \<and> fst (tx_clock_get_cts_toggle_seq k d) \<noteq> tq_cts_seq_start q"

lemma drain_restart:
  assumes "tq_inv q" "drain_restarts k q d"
  shows "\<exists>q' d'. tx_queue_drain k n q d = (E2S_OK, 0, q', d') \<and> tq_inv q' \<and> 0 < current_offset q
    \<and> current_bytes q' = current_bytes q \<and> current_offset q' = 0 \<and> queued_frames q' = queued_frames q
    \<and> tq_tx_wire_bytes q' = tq_tx_wire_bytes q \<and> bytes_put (dr_trace d') = bytes_put (dr_trace d)"
proof -
  have "0 < current_offset q" "current_offset q < hf_length (te_frame (tq_current_entry q))"
    using assms by (auto simp: drain_restarts_def tq_inv_def)
  then show ?thesis
    using assms
    by (auto simp: drain_restarts_def tx_queue_drain_def split_beta Let_def tq_inv_def current_bytes_def queued_frames_def)
qed

lemma drain_idle:
  assumes "tq_inv q" "\<not> drain_restarts k q d" "next_entry q = None"
  shows "\<exists>d'. tx_queue_drain k n q d = (E2S_OK, 0, q, d') \<and> bytes_put (dr_trace d') = bytes_put (dr_trace d)"
proof -
  have "entry_drained q"
    using assms(3) by (auto simp: next_entry_def split: if_splits)
  then have "\<not> tq_cts_seq_valid q"
    using assms(1) by (auto simp: tq_inv_def entry_drained_def)
  then show ?thesis
    using assms(3) by (simp add: tx_queue_drain_def split_beta Let_def)
qed

lemma drain_unfold:
  assumes "\<not> drain_restarts k q d" "next_entry q = Some q1"
    and "tx_queue_drain_bytes k n q1 (snd (tx_clock_get_cts_toggle_seq k d)) = (m, q2, d2)"
  defines "fresh \<equiv> \<not> tq_cts_seq_valid q2 \<and> current_offset q1 = 0 \<and> m > 0"
  defines "q3 \<equiv> if fresh then q2\<lparr>tq_cts_seq_start := fst (tx_clock_get_cts_toggle_seq k d2), tq_cts_seq_valid := True\<rparr> else q2"
  shows "tx_queue_drain k n q d =
    (E2S_OK, m, if entry_drained q3 then q3\<lparr>tq_cts_seq_valid := False\<rparr> else q3,
     if fresh then snd (tx_clock_get_cts_toggle_seq k d2) else d2)"
proof -
  have no_restart: "\<not> ((te_offset (tq_current_entry q) > 0 \<and> te_offset (tq_current_entry q)
      < hf_length (te_frame (tq_current_entry q))) \<and> tq_cts_seq_valid q
      \<and> fst (tx_clock_get_cts_toggle_seq k d) \<noteq> tq_cts_seq_start q)"
    using assms(1) by (auto simp: drain_restarts_def entry_drained_def)
  show ?thesis
    unfolding tx_queue_drain_def Let_def split_beta if_not_P [OF no_restart] assms(2) option.case assms(3) fst_conv snd_conv
    by (simp add: fresh_def q3_def)
qed

lemma drain_progress:
  assumes "tq_inv q" "\<not> drain_restarts k q d" "next_entry q = Some q1" "tq_inv q1"
    "q1 = q \<or> current_offset q1 = 0 \<and> \<not> tq_cts_seq_valid q1"
  shows "\<exists>m q' d'. tx_queue_drain k n q d = (E2S_OK, m, q', d') \<and> tq_inv q'
    \<and> m \<le> n \<and> current_bytes q' = current_bytes q1 \<and> current_offset q' = current_offset q1 + m
    \<and> current_offset q' \<le> length (current_bytes q1)
    \<and> queued_frames q' = queued_frames q1 \<and> tq_tx_wire_bytes q' = tq_tx_wire_bytes q1 + of_nat m
    \<and> bytes_put (dr_trace d') = bytes_put (dr_trace d) @ take m (drop (current_offset q1) (current_bytes q1))"
proof -
  define d1 where "d1 = snd (tx_clock_get_cts_toggle_seq k d)"
  obtain m d2 where m: "tx_queue_drain_bytes k n q1 d1 = (m,
      q1\<lparr>tq_current_entry := (tq_current_entry q1)\<lparr>te_offset := current_offset q1 + m\<rparr>,
        tq_tx_wire_bytes := tq_tx_wire_bytes q1 + of_nat m\<rparr>, d2)" "m \<le> n"
    "current_offset q1 + m \<le> length (current_bytes q1)"
    "bytes_put (dr_trace d2) = bytes_put (dr_trace d) @ take m (drop (current_offset q1) (current_bytes q1))"
    using drain_bytes_run [OF assms(4), of k n d1] by (auto simp: d1_def)
  define q2 where "q2 = q1\<lparr>tq_current_entry := (tq_current_entry q1)\<lparr>te_offset := current_offset q1 + m\<rparr>,
        tq_tx_wire_bytes := tq_tx_wire_bytes q1 + of_nat m\<rparr>"
  define fresh where "fresh \<longleftrightarrow> \<not> tq_cts_seq_valid q1 \<and> current_offset q1 = 0 \<and> m > 0"
  define q3 where "q3 = (if fresh then q2\<lparr>tq_cts_seq_start := fst (tx_clock_get_cts_toggle_seq k d2),
      tq_cts_seq_valid := True\<rparr> else q2)"
  define q4 where "q4 = (if entry_drained q3 then q3\<lparr>tq_cts_seq_valid := False\<rparr> else q3)"
  define d3 where "d3 = (if fresh then snd (tx_clock_get_cts_toggle_seq k d2) else d2)"
  have run: "tx_queue_drain k n q d = (E2S_OK, m, q4, d3)"
    using drain_unfold [OF assms(2,3) m(1) [unfolded d1_def]]
    by (simp add: q2_def q3_def q4_def d3_def fresh_def entry_drained_def)
  have same: "current_bytes q4 = current_bytes q1" "current_offset q4 = current_offset q1 + m"
    "queued_frames q4 = queued_frames q1" "tq_tx_wire_bytes q4 = tq_tx_wire_bytes q1 + of_nat m"
    "te_frame (tq_current_entry q4) = te_frame (tq_current_entry q1)" "tq_queue_buffer q4 = tq_queue_buffer q1"
    by (simp_all add: q4_def q3_def q2_def current_bytes_def queued_frames_def)
  have "tq_cts_seq_valid q4 \<longleftrightarrow> 0 < current_offset q4 \<and> \<not> entry_drained q4"
    using assms(4) length_current_bytes [OF assms(4)] m(3)
    by (auto simp: q4_def q3_def q2_def fresh_def tq_inv_def entry_drained_def)
  then have "tq_inv q4"
    using assms(4) m(3) same length_current_bytes [OF assms(4)] by (auto simp: tq_inv_def entry_drained_def)
  then show ?thesis
    using run same m by (intro exI [of _ m] exI [of _ q4] exI [of _ d3]) (auto simp: d3_def)
qed

lemma drain_stream:
  assumes "tq_inv q"
  shows "\<exists>m q' d'. tx_queue_drain k n q d = (E2S_OK, m, q', d') \<and> tq_inv q' \<and> m \<le> n
    \<and> tq_tx_wire_bytes q' = tq_tx_wire_bytes q + of_nat m
    \<and> (if drain_restarts k q d
       then m = 0 \<and> bytes_put (dr_trace d') = bytes_put (dr_trace d)
         \<and> tx_stream q' = current_bytes q @ concat (queued_frames q)
       else bytes_put (dr_trace d') = bytes_put (dr_trace d) @ take m (tx_stream q)
         \<and> tx_stream q' = drop m (tx_stream q) \<and> m \<le> length (tx_stream q))"
proof (cases "drain_restarts k q d")
  case True
  then show ?thesis
    using drain_restart [OF assms True, of n] by (auto simp: tx_stream_def)
next
  case False
  note nxt = next_entry_cases [OF assms]
  show ?thesis
  proof (cases "next_entry q")
    case None
    then have "tx_stream q = []"
      using nxt assms entry_drained_iff [OF assms]
      by (auto simp: tx_stream_def split: if_splits list.splits)
    then show ?thesis
      using drain_idle [OF assms False None, of n] assms False by auto
  next
    case (Some q1)
    then have q1: "tq_inv q1" "q1 = q \<or> current_offset q1 = 0 \<and> \<not> tq_cts_seq_valid q1"
      "tx_stream q1 = tx_stream q" "tq_tx_wire_bytes q1 = tq_tx_wire_bytes q"
      using nxt assms entry_drained_iff [OF assms]
      by (auto simp: tx_stream_def split: if_splits list.splits)
    from drain_progress [OF assms False Some q1(1,2), of n] obtain m q' d' where
      m: "tx_queue_drain k n q d = (E2S_OK, m, q', d')" "tq_inv q'" "m \<le> n"
        "current_bytes q' = current_bytes q1" "current_offset q' = current_offset q1 + m"
        "current_offset q' \<le> length (current_bytes q1)" "queued_frames q' = queued_frames q1"
        "tq_tx_wire_bytes q' = tq_tx_wire_bytes q1 + of_nat m"
        "bytes_put (dr_trace d') = bytes_put (dr_trace d) @ take m (drop (current_offset q1) (current_bytes q1))"
      by blast
    have "take m (tx_stream q1) = take m (drop (current_offset q1) (current_bytes q1))"
      "drop m (tx_stream q1) = tx_stream q'" "m \<le> length (tx_stream q1)"
      using m(4-7) by (simp_all add: tx_stream_def add.commute)
    then show ?thesis
      using m False q1 by (intro exI [of _ m] exI [of _ q'] exI [of _ d']) simp
  qed
qed

section \<open>Queueing\<close>

lemma enqueue_run:
  fixes f :: UDP_FRAME_T
  assumes "tq_inv q"
  defines "data \<equiv> take (uf_length f) (uf_payload f)"
  shows "if rb_count (tq_queue_buffer q) = TX_FRAME_QUEUE_SIZE
         then tx_queue_enqueue_udp_frame q f = (E2S_ERR_TX_QUEUE_FULL, q)
         else if length (hdlc_frame True data) > TX_FRAME_MAX_SIZE_BYTE
         then tx_queue_enqueue_udp_frame q f = (E2S_ERR_HDLC_ENCODE_FAILED, q)
         else \<exists>q'. tx_queue_enqueue_udp_frame q f = (E2S_OK, q') \<and> tq_inv q'
           \<and> queued_frames q' = queued_frames q @ [hdlc_frame True data]
           \<and> current_bytes q' = current_bytes q \<and> current_offset q' = current_offset q
           \<and> tq_tx_wire_bytes q' = tq_tx_wire_bytes q \<and> tq_queue_touched q'"
proof (cases "rb_count (tq_queue_buffer q) = TX_FRAME_QUEUE_SIZE")
  case True
  then show ?thesis
    using assms(1) by (simp add: tx_queue_enqueue_udp_frame_def tq_inv_def)
next
  case False
  let ?rb = "tq_queue_buffer q"
  define f0 where "f0 = \<lparr>hf_payload = te_payload tx_entry_zero, hf_length = 0, hf_capacity = TX_FRAME_MAX_SIZE_BYTE\<rparr>"
  have f0: "frame_wf f0" "hf_length f0 = 0" "2 \<le> hf_capacity f0" "hf_capacity f0 = TX_FRAME_MAX_SIZE_BYTE"
    "length (hf_payload f0) = TX_FRAME_MAX_SIZE_BYTE"
    by (simp_all add: f0_def tx_entry_zero_def frame_wf_def TX_FRAME_MAX_SIZE_BYTE_def)
  have "payload_bytes (Some (uf_payload f)) (uf_length f) = data"
    by (simp add: payload_bytes_def data_def)
  then obtain ok f' where enc: "hdlc_encode (Some (uf_payload f)) (uf_length f) (Some f0) True = (ok, Some f')"
    "ok \<longleftrightarrow> length (hdlc_frame True data) \<le> TX_FRAME_MAX_SIZE_BYTE" "ok \<longrightarrow> frame_bytes f' = hdlc_frame True data"
    "frame_wf f'" "same_storage f0 f'"
    using hdlc_encode_run [OF f0(1,2) _ f0(3), of "Some (uf_payload f)" "uf_length f" True] f0(4) by auto
  have room: "rb_count ?rb < rb_capacity ?rb" and inv: "rb_inv ?rb"
    using False assms(1) by (auto simp: tq_inv_def rb_inv_def)
  let ?e = "\<lparr>te_payload = hf_payload f', te_frame = f'\<lparr>hf_payload := []\<rparr>, te_offset = 0\<rparr>"
  define rb' where "rb' = snd (RbPushBack ?rb ?e)"
  have push: "RbPushBack ?rb ?e = (0, rb')" "rb_contents rb' = rb_contents ?rb @ [?e]" "rb_inv rb'"
    "rb_capacity rb' = rb_capacity ?rb"
    using RbPushBack_room [OF inv room, of ?e] by (simp_all add: rb'_def prod_eq_iff)
  have stored: "entry_ok ?e \<and> entry_bytes ?e = hdlc_frame True data" if ok
  proof -
    have "frame_bytes f' = hdlc_frame True data"
      using enc(3) that by simp
    moreover have "frame_bytes f' \<noteq> []"
      using calculation by (simp add: hdlc_frame_def)
    ultimately show ?thesis
      using enc(4,5) f0(4,5)
      by (cases "hf_length f'") (auto simp: entry_ok_def entry_bytes_def frame_bytes_def frame_wf_def same_storage_def)
  qed
  show ?thesis
  proof (cases ok)
    case True
    then have "tx_queue_enqueue_udp_frame q f = (E2S_OK, q\<lparr>tq_queue_buffer := rb', tq_queue_touched := True\<rparr>)"
      using enc(1) room push(1) by (simp add: tx_queue_enqueue_udp_frame_def f0_def)
    then show ?thesis
      using True False enc(2) push stored assms(1)
      by (auto simp: tq_inv_def queued_frames_def current_bytes_def)
  next
    case False
    then show ?thesis
      using enc(1,2) room assms(1) by (simp add: tx_queue_enqueue_udp_frame_def f0_def tq_inv_def)
  qed
qed

section \<open>Sequences of calls\<close>

datatype tx_op = Tx_enqueue UDP_FRAME_T | Tx_drain nat | Tx_stats

text \<open>The payloads accepted by a sequence of calls, and the final state.\<close>

fun tx_run :: "'h sdk \<Rightarrow> tx_op list \<Rightarrow> TX_QUEUE_T \<times> 'h v24_driver \<Rightarrow> byte list list \<times> TX_QUEUE_T \<times> 'h v24_driver" where
  "tx_run k [] (q, d) = ([], q, d)"
| "tx_run k (Tx_enqueue f # ops) (q, d) =
     (let (err, q1) = tx_queue_enqueue_udp_frame q f; (acc, s) = tx_run k ops (q1, d)
      in (if err = E2S_OK then take (uf_length f) (uf_payload f) # acc else acc, s))"
| "tx_run k (Tx_drain n # ops) (q, d) =
     (let (err, m, q1, d1) = tx_queue_drain k n q d in tx_run k ops (q1, d1))"
| "tx_run k (Tx_stats # ops) (q, d) = tx_run k ops (snd (poll_queue_stats q), d)"

text \<open>
  What was sent for a frame: the frame, preceded by attempts that were broken off.  The log of a
  queue: the accepted frames are the finished ones, the one in transmission and the queued ones, and
  the bytes sent are those of the finished frames and of the attempts at the current one.
\<close>

definition sent_frame :: "byte list \<Rightarrow> byte list \<Rightarrow> bool" where
  "sent_frame f w \<longleftrightarrow> (\<exists>ps. (\<forall>p\<in>set ps. p \<noteq> [] \<and> strict_prefix p f) \<and> w = concat ps @ f)"

definition tx_log :: "byte list list \<Rightarrow> byte list \<Rightarrow> TX_QUEUE_T \<Rightarrow> bool" where
  "tx_log frames wire q \<longleftrightarrow> (\<exists>finished ws ps.
     list_all2 sent_frame finished ws
     \<and> (\<forall>p\<in>set ps. p \<noteq> [] \<and> strict_prefix p (current_bytes q))
     \<and> frames = finished @ (if entry_drained q then [] else [current_bytes q]) @ queued_frames q
     \<and> wire = concat ws @ (if entry_drained q then [] else concat ps @ take (current_offset q) (current_bytes q)))"

lemma tx_logI:
  assumes "list_all2 sent_frame finished ws" "\<forall>p\<in>set ps. p \<noteq> [] \<and> strict_prefix p (current_bytes q)"
    "frames = finished @ (if entry_drained q then [] else [current_bytes q]) @ queued_frames q"
    "wire = concat ws @ (if entry_drained q then [] else concat ps @ take (current_offset q) (current_bytes q))"
  shows "tx_log frames wire q"
  using assms unfolding tx_log_def by blast

lemma tx_log_same:
  assumes "tq_inv q" "tq_inv q'" "current_bytes q' = current_bytes q" "current_offset q' = current_offset q"
    "queued_frames q' = queued_frames q @ extra" "tx_log frames wire q"
  shows "tx_log (frames @ extra) wire q'"
proof -
  have "entry_drained q' = entry_drained q"
    using entry_drained_iff [OF assms(1)] entry_drained_iff [OF assms(2)] assms(3,4) by simp
  then show ?thesis
    using assms(3-6) unfolding tx_log_def by fastforce
qed

lemma tx_log_restart:
  assumes "tq_inv q" "tq_inv q'" "tx_log frames wire q" "\<not> entry_drained q" "0 < current_offset q"
    "current_bytes q' = current_bytes q" "current_offset q' = 0" "queued_frames q' = queued_frames q"
  shows "tx_log frames wire q'"
proof -
  obtain finished ws ps where log: "list_all2 sent_frame finished ws"
    "\<forall>p\<in>set ps. p \<noteq> [] \<and> strict_prefix p (current_bytes q)"
    "frames = finished @ [current_bytes q] @ queued_frames q"
    "wire = concat ws @ concat ps @ take (current_offset q) (current_bytes q)"
    using assms(3,4) by (auto simp: tx_log_def)
  have lt: "current_offset q < length (current_bytes q)"
    using assms(1,4) length_current_bytes [OF assms(1)] by (simp add: entry_drained_def)
  then have "strict_prefix (take (current_offset q) (current_bytes q)) (current_bytes q)"
    by (metis take_is_prefix length_take min.absorb4 nat_neq_iff strict_prefix_def)
  moreover have "take (current_offset q) (current_bytes q) \<noteq> []"
    using lt assms(5) by auto
  moreover have "\<not> entry_drained q'"
    using entry_drained_iff [OF assms(2)] lt assms(6,7) by auto
  ultimately show ?thesis
    using log assms(6-8)
    by (intro tx_logI [of finished ws "ps @ [take (current_offset q) (current_bytes q)]"]) simp_all
qed

lemma tx_log_fetch:
  assumes "tq_inv q" "tq_inv q1" "tx_log frames wire q" "entry_drained q" "queued_frames q = current_bytes q1 # queued_frames q1"
    "current_offset q1 = 0" "current_bytes q1 \<noteq> []"
  shows "tx_log frames wire q1"
proof -
  have "\<not> entry_drained q1"
    using entry_drained_iff [OF assms(2)] assms(6,7) by auto
  moreover obtain finished ws where "list_all2 sent_frame finished ws" "frames = finished @ queued_frames q" "wire = concat ws"
    using assms(3,4) by (auto simp: tx_log_def)
  ultimately show ?thesis
    using assms(5,6) by (intro tx_logI [of finished ws "[]"]) simp_all
qed

lemma tx_log_progress:
  assumes "tq_inv q" "tq_inv q'" "tx_log frames wire q" "\<not> entry_drained q"
    "current_bytes q' = current_bytes q" "current_offset q' = current_offset q + m" "queued_frames q' = queued_frames q"
    "wire' = wire @ take m (drop (current_offset q) (current_bytes q))"
  shows "tx_log frames wire' q'"
proof -
  obtain finished ws ps where log: "list_all2 sent_frame finished ws"
    "\<forall>p\<in>set ps. p \<noteq> [] \<and> strict_prefix p (current_bytes q)"
    "frames = finished @ [current_bytes q] @ queued_frames q"
    "wire = concat ws @ concat ps @ take (current_offset q) (current_bytes q)"
    using assms(3,4) by (auto simp: tx_log_def)
  have sent: "wire' = concat ws @ concat ps @ take (current_offset q') (current_bytes q')"
    using log(4) assms(5,6,8) by (simp add: take_add)
  show ?thesis
  proof (cases "entry_drained q'")
    case True
    then have "take (current_offset q') (current_bytes q') = current_bytes q"
      using entry_drained_iff [OF assms(2)] assms(5) by simp
    moreover have "sent_frame (current_bytes q) (concat ps @ current_bytes q)"
      using log(2) by (auto simp: sent_frame_def)
    ultimately show ?thesis
      using log sent True assms(7)
      by (intro tx_logI [of "finished @ [current_bytes q]" "ws @ [concat ps @ current_bytes q]" "[]"])
        (simp_all add: list_all2_appendI)
  next
    case False
    then show ?thesis
      using log sent assms(5,7) by (intro tx_logI [of finished ws ps]) simp_all
  qed
qed

lemma tx_log_drain:
  assumes "tq_inv q" "tx_log frames (bytes_put (dr_trace d)) q"
    and "tx_queue_drain k n q d = (err, m, q', d')"
  shows "tq_inv q' \<and> tx_log frames (bytes_put (dr_trace d')) q'"
proof (cases "drain_restarts k q d")
  case True
  then have "\<not> entry_drained q"
    by (simp add: drain_restarts_def)
  then show ?thesis
    using drain_restart [OF assms(1) True, of n] tx_log_restart [OF assms(1) _ assms(2)] assms(3) by auto
next
  case False
  note nxt = next_entry_cases [OF assms(1)]
  show ?thesis
  proof (cases "next_entry q")
    case None
    then show ?thesis
      using drain_idle [OF assms(1) False None, of n] assms by auto
  next
    case (Some q1)
    have "tq_inv q1 \<and> (q1 = q \<or> current_offset q1 = 0 \<and> \<not> tq_cts_seq_valid q1) \<and> \<not> entry_drained q1
      \<and> tx_log frames (bytes_put (dr_trace d)) q1"
    proof (cases "entry_drained q")
      case drained: True
      then obtain f fs where fs: "queued_frames q = f # fs"
        using nxt Some by (auto split: list.splits)
      then have q1: "tq_inv q1" "current_bytes q1 = f" "f \<noteq> []" "current_offset q1 = 0" "queued_frames q1 = fs"
        "\<not> tq_cts_seq_valid q1"
        using nxt Some drained by auto
      moreover have "tx_log frames (bytes_put (dr_trace d)) q1"
        using tx_log_fetch [OF assms(1) q1(1) assms(2) drained] fs q1 by simp
      ultimately show ?thesis
        using entry_drained_iff [OF q1(1)] by auto
    qed (use nxt Some assms in auto)
    then have q1: "tq_inv q1" "q1 = q \<or> current_offset q1 = 0 \<and> \<not> tq_cts_seq_valid q1" "\<not> entry_drained q1"
      "tx_log frames (bytes_put (dr_trace d)) q1"
      by blast+
    from drain_progress [OF assms(1) False Some q1(1,2), of n] assms(3)
      tx_log_progress [OF q1(1) _ q1(4,3)] show ?thesis
      by auto
  qed
qed

lemma poll_queue_stats_same:
  "tq_inv q \<Longrightarrow> tq_inv (snd (poll_queue_stats q))"
  "current_bytes (snd (poll_queue_stats q)) = current_bytes q"
  "current_offset (snd (poll_queue_stats q)) = current_offset q"
  "queued_frames (snd (poll_queue_stats q)) = queued_frames q"
  by (simp_all add: poll_queue_stats_def Let_def tq_inv_def current_bytes_def queued_frames_def)

lemma tx_run_log:
  assumes "tq_inv q" "tx_log frames (bytes_put (dr_trace d)) q" "tx_run k ops (q, d) = (acc, q', d')"
  shows "tq_inv q' \<and> tx_log (frames @ map (hdlc_frame True) acc) (bytes_put (dr_trace d')) q'"
  using assms
proof (induction ops arbitrary: q d frames acc)
  case (Cons op ops)
  show ?case
  proof (cases op)
    case (Tx_enqueue f)
    obtain err q1 where enq: "tx_queue_enqueue_udp_frame q f = (err, q1)"
      by fastforce
    obtain acc1 where run: "tx_run k ops (q1, d) = (acc1, q', d')"
      and acc: "acc = (if err = E2S_OK then take (uf_length f) (uf_payload f) # acc1 else acc1)"
      using Cons.prems(3) Tx_enqueue enq by (auto simp: split_beta Let_def prod_eq_iff)
    have ok: "tq_inv q1 \<and> queued_frames q1 = queued_frames q @ [hdlc_frame True (take (uf_length f) (uf_payload f))]
        \<and> current_bytes q1 = current_bytes q \<and> current_offset q1 = current_offset q" if "err = E2S_OK"
      using enqueue_run [OF Cons.prems(1), of f] that enq by (auto split: if_splits)
    have fail: "q1 = q" if "err \<noteq> E2S_OK"
      using enqueue_run [OF Cons.prems(1), of f] that enq by (auto split: if_splits)
    show ?thesis
    proof (cases "err = E2S_OK")
      case True
      then have log: "tx_log (frames @ [hdlc_frame True (take (uf_length f) (uf_payload f))]) (bytes_put (dr_trace d)) q1"
        using tx_log_same [OF Cons.prems(1) _ _ _ _ Cons.prems(2)] ok by blast
      from Cons.IH [OF _ log run] ok True acc show ?thesis
        by simp
    next
      case False
      with fail Cons.IH [OF Cons.prems(1,2)] run acc show ?thesis
        by simp
    qed
  next
    case (Tx_drain n)
    obtain err m q1 d1 where drain: "tx_queue_drain k n q d = (err, m, q1, d1)"
      using prod_cases4 by blast
    then have "tx_run k ops (q1, d1) = (acc, q', d')"
      using Cons.prems(3) Tx_drain by simp
    then show ?thesis
      using Cons.IH tx_log_drain [OF Cons.prems(1,2) drain] by blast
  next
    case Tx_stats
    then show ?thesis
      using Cons.IH [OF poll_queue_stats_same(1) [OF Cons.prems(1)] _ Cons.prems(3) [unfolded Tx_stats tx_run.simps]]
        tx_log_same [OF Cons.prems(1) poll_queue_stats_same(1) [OF Cons.prems(1)] poll_queue_stats_same(2,3) _ Cons.prems(2), of "[]"]
      by (simp add: poll_queue_stats_same)
  qed
qed simp

text \<open>The queue at start-up: the static storage is zero, and \<open>tx_queue_init\<close> has run.\<close>

definition tx_queue_zero :: TX_QUEUE_T where
  "tx_queue_zero =
     \<lparr>tq_current_entry = tx_entry_zero,
      tq_queue_buffer = \<lparr>rb_buffer = [], rb_bufferEnd = 0, rb_capacity = 0, rb_count = 0, rb_itemSizeInByte = 0,
                         rb_head = 0, rb_tail = 0\<rparr>,
      tq_queue_touched = False, tq_tx_wire_bytes = 0, tq_cts_seq_start = 0, tq_cts_seq_valid = False\<rparr>"

definition tx_queue_start :: TX_QUEUE_T where
  "tx_queue_start = snd (tx_queue_init tx_queue_zero (replicate TX_FRAME_QUEUE_SIZE tx_entry_zero))"

lemma tx_queue_start_inv:
  "tq_inv tx_queue_start" "entry_drained tx_queue_start" "queued_frames tx_queue_start = []" "tx_stream tx_queue_start = []"
proof -
  have "rb_inv (tq_queue_buffer tx_queue_start)" "rb_contents (tq_queue_buffer tx_queue_start) = []"
    "rb_capacity (tq_queue_buffer tx_queue_start) = TX_FRAME_QUEUE_SIZE"
    "tq_current_entry tx_queue_start = tx_entry_zero" "\<not> tq_cts_seq_valid tx_queue_start"
    by (simp_all add: tx_queue_start_def tx_queue_init_def tx_queue_zero_def RbInit_inv RbInit_contents
        TX_FRAME_QUEUE_SIZE_def sizeof_tx_queue_entry_def) (simp add: RbInit_def)
  then show "tq_inv tx_queue_start" "entry_drained tx_queue_start" "queued_frames tx_queue_start = []"
    "tx_stream tx_queue_start = []"
    by (simp_all add: tq_inv_def entry_drained_def queued_frames_def tx_stream_def current_bytes_def
        tx_entry_zero_def frame_wf_def frame_bytes_def)
qed

lemma tx_run_wire_bytes:
  assumes "tq_inv q" "tq_tx_wire_bytes q = of_nat (length (bytes_put (dr_trace d)))" "tx_run k ops (q, d) = (acc, q', d')"
  shows "tq_tx_wire_bytes q' = of_nat (length (bytes_put (dr_trace d')))"
  using assms
proof (induction ops arbitrary: q d acc)
  case (Cons op ops)
  show ?case
  proof (cases op)
    case (Tx_enqueue f)
    have "tq_inv (snd (tx_queue_enqueue_udp_frame q f))
        \<and> tq_tx_wire_bytes (snd (tx_queue_enqueue_udp_frame q f)) = tq_tx_wire_bytes q"
      using enqueue_run [OF Cons.prems(1), of f] Cons.prems(1) by (auto split: if_splits)
    then show ?thesis
      using Cons.IH [of "snd (tx_queue_enqueue_udp_frame q f)" d] Cons.prems(2,3) Tx_enqueue
      by (simp add: split_beta Let_def prod_eq_iff)
  next
    case (Tx_drain n)
    obtain m q1 d1 where drain: "tx_queue_drain k n q d = (E2S_OK, m, q1, d1)" "tq_inv q1"
      "tq_tx_wire_bytes q1 = tq_tx_wire_bytes q + of_nat m"
      "length (bytes_put (dr_trace d1)) = length (bytes_put (dr_trace d)) + m"
      using drain_stream [OF Cons.prems(1), of k n d] by (auto split: if_splits)
    then show ?thesis
      using Cons.IH [of q1 d1] Cons.prems(2,3) Tx_drain by simp
  next
    case Tx_stats
    have "tq_tx_wire_bytes (snd (poll_queue_stats q)) = tq_tx_wire_bytes q"
      by (simp add: poll_queue_stats_def Let_def)
    then show ?thesis
      using Cons.IH [of "snd (poll_queue_stats q)" d] poll_queue_stats_same(1) [OF Cons.prems(1)] Cons.prems(2,3) Tx_stats
      by simp
  qed
qed simp

section \<open>Draining to the end\<close>

text \<open>Hardware whose FIFO has room at every look and which raises no CTS interrupt.\<close>

definition free_running :: "'h sdk \<Rightarrow> bool" where
  "free_running k \<longleftrightarrow> (\<forall>h pio sm. fst (sdk_ask k (Pio_sm_is_tx_fifo_full pio sm) h) = 0) \<and> (\<forall>h. fst (sdk_cts_irqs k h) = [])"

text \<open>A driver that is set up, and a queue whose CTS baseline is the current count.\<close>

definition tx_ready :: "TX_QUEUE_T \<Rightarrow> 'h v24_driver \<Rightarrow> bool" where
  "tx_ready q d \<longleftrightarrow> rt_tx_pio (dr_runtime d) \<noteq> None
     \<and> (tq_cts_seq_valid q \<longrightarrow> tq_cts_seq_start q = rt_cts_toggle_seq (dr_runtime d))"

lemma free_tx_put:
  assumes "free_running k" "rt_tx_pio (dr_runtime d) \<noteq> None"
  shows "fst (tx_put k b d)" "rt_tx_pio (dr_runtime (snd (tx_put k b d))) = rt_tx_pio (dr_runtime d)"
    "rt_cts_toggle_seq (dr_runtime (snd (tx_put k b d))) = rt_cts_toggle_seq (dr_runtime d)"
  using assms by (auto simp: tx_put_def hw_ask_def free_running_def split_beta Let_def)

lemma free_drain_loop:
  assumes "free_running k" "rt_tx_pio (dr_runtime d) \<noteq> None"
  shows "\<exists>d'. drain_loop k payload offset i n d = (i + n, d')
    \<and> rt_tx_pio (dr_runtime d') = rt_tx_pio (dr_runtime d)
    \<and> rt_cts_toggle_seq (dr_runtime d') = rt_cts_toggle_seq (dr_runtime d)"
  using assms(2)
proof (induction n arbitrary: i d)
  case (Suc n)
  define d0 where "d0 = snd (hw_ask k (Pio_sm_is_tx_fifo_full 0 0) d)"
  have d0: "rt_tx_pio (dr_runtime d0) = rt_tx_pio (dr_runtime d)"
    "rt_cts_toggle_seq (dr_runtime d0) = rt_cts_toggle_seq (dr_runtime d)"
    by (simp_all add: d0_def)
  note put = free_tx_put [OF assms(1), of d0 "payload ! (offset + i)"]
  show ?case
    using Suc.IH [of "snd (tx_put k (payload ! (offset + i)) d0)" "Suc i"] Suc.prems put d0
    by (auto simp: split_beta Let_def d0_def)
qed simp

lemma free_cts_seq:
  "free_running k \<Longrightarrow> fst (tx_clock_get_cts_toggle_seq k d) = rt_cts_toggle_seq (dr_runtime d)"
  "free_running k \<Longrightarrow> dr_runtime (snd (tx_clock_get_cts_toggle_seq k d)) = dr_runtime d"
  by (simp_all add: tx_clock_get_cts_toggle_seq_def free_running_def split_beta Let_def)

lemma free_drain:
  assumes "free_running k" "tq_inv q" "tx_ready q d" "0 < n"
  shows "\<exists>m q' d'. tx_queue_drain k n q d = (E2S_OK, m, q', d') \<and> tq_inv q' \<and> tx_ready q' d'
    \<and> bytes_put (dr_trace d') = bytes_put (dr_trace d) @ take m (tx_stream q) \<and> tx_stream q' = drop m (tx_stream q)
    \<and> (tx_stream q \<noteq> [] \<longrightarrow> 0 < m)"
proof -
  have no: "\<not> drain_restarts k q d"
    using assms(1,3) by (auto simp: drain_restarts_def tx_ready_def free_cts_seq)
  obtain m q' d' where m: "tx_queue_drain k n q d = (E2S_OK, m, q', d')" "tq_inv q'"
    "bytes_put (dr_trace d') = bytes_put (dr_trace d) @ take m (tx_stream q)" "tx_stream q' = drop m (tx_stream q)"
    using drain_stream [OF assms(2), of k n d] no by auto
  have "tx_ready q' d' \<and> (tx_stream q \<noteq> [] \<longrightarrow> 0 < m)"
  proof (cases "next_entry q")
    case None
    then have "tx_stream q = []"
      using next_entry_cases [OF assms(2)] entry_drained_iff [OF assms(2)]
      by (auto simp: tx_stream_def split: if_splits list.splits)
    moreover have "tx_ready q' d'"
      using m(1) no None assms(1,3)
      by (auto simp: tx_queue_drain_def tx_ready_def free_cts_seq split_beta Let_def drain_restarts_def split: if_splits)
    ultimately show ?thesis
      by simp
  next
    case (Some q1)
    then have q1: "tq_inv q1" "\<not> entry_drained q1" "q1 = q \<or> \<not> tq_cts_seq_valid q1"
      using next_entry_cases [OF assms(2)] assms(2) entry_drained_iff [of q1] by (auto split: if_splits list.splits)
    define d1 where "d1 = snd (tx_clock_get_cts_toggle_seq k d)"
    have d1: "dr_runtime d1 = dr_runtime d"
      using assms(1) by (simp add: d1_def free_cts_seq)
    define eff where "eff = (if n \<ge> hf_length (te_frame (tq_current_entry q1)) - current_offset q1
      then hf_length (te_frame (tq_current_entry q1)) - current_offset q1 else n)"
    obtain d2 where loop: "drain_loop k (hf_payload (te_frame (tq_current_entry q1))) (current_offset q1) 0 eff d1 = (eff, d2)"
      "rt_tx_pio (dr_runtime d2) = rt_tx_pio (dr_runtime d1)"
      "rt_cts_toggle_seq (dr_runtime d2) = rt_cts_toggle_seq (dr_runtime d1)"
      using free_drain_loop [OF assms(1), of d1 "hf_payload (te_frame (tq_current_entry q1))" "current_offset q1" 0 eff]
        assms(3) d1 by (auto simp: tx_ready_def)
    define q2 where "q2 = q1\<lparr>tq_current_entry := (tq_current_entry q1)\<lparr>te_offset := current_offset q1 + eff\<rparr>,
        tq_tx_wire_bytes := tq_tx_wire_bytes q1 + of_nat eff\<rparr>"
    have b: "tx_queue_drain_bytes k n q1 d1 = (eff, q2, d2)"
      using loop(1) by (simp add: tx_queue_drain_bytes_def q2_def eff_def [symmetric] Let_def)
    have b': "0 < eff" "tq_cts_seq_valid q2 = tq_cts_seq_valid q1" "tq_cts_seq_start q2 = tq_cts_seq_start q1"
      "rt_tx_pio (dr_runtime d2) \<noteq> None" "rt_cts_toggle_seq (dr_runtime d2) = rt_cts_toggle_seq (dr_runtime d)"
      using loop(2,3) q1(2) assms(3,4) d1 by (auto simp: eff_def q2_def tx_ready_def entry_drained_def)
    show ?thesis
      using drain_unfold [OF no Some b [unfolded d1_def]] m(1) b' q1(3) assms(1,3)
      by (auto simp: tx_ready_def free_cts_seq split: if_splits)
  qed
  with m show ?thesis
    by auto
qed

text \<open>The stream of pending bytes is empty exactly when the queue reports so.\<close>

lemma stream_empty_iff:
  assumes "tq_inv q"
  shows "tx_stream q = [] \<longleftrightarrow> tx_queue_is_empty q"
proof -
  have "\<forall>e\<in>set (rb_contents (tq_queue_buffer q)). entry_bytes e \<noteq> []"
    using assms by (auto simp: tq_inv_def entry_ok_def entry_bytes_def)
  then have "concat (queued_frames q) = [] \<longleftrightarrow> rb_contents (tq_queue_buffer q) = []"
    by (cases "rb_contents (tq_queue_buffer q)") (auto simp: queued_frames_def)
  moreover have "drop (current_offset q) (current_bytes q) = [] \<longleftrightarrow> entry_drained q"
    using assms entry_drained_iff [OF assms] length_current_bytes [OF assms] by (auto simp: tq_inv_def)
  moreover have "rb_contents (tq_queue_buffer q) = [] \<longleftrightarrow> rb_count (tq_queue_buffer q) = 0"
    by (metis length_0_conv length_rb_contents)
  ultimately show ?thesis
    by (simp only: tx_stream_def tx_queue_is_empty_def append_is_Nil_conv conj_commute)
qed

lemma free_drains:
  assumes "free_running k" "0 < n" "tq_inv q" "tx_ready q d" "length (tx_stream q) \<le> N"
  shows "\<exists>q' d'. snd (tx_run k (replicate N (Tx_drain n)) (q, d)) = (q', d') \<and> tq_inv q' \<and> tx_stream q' = []
    \<and> bytes_put (dr_trace d') = bytes_put (dr_trace d) @ tx_stream q"
  using assms(3-5)
proof (induction N arbitrary: q d)
  case (Suc N)
  obtain m q1 d1 where m: "tx_queue_drain k n q d = (E2S_OK, m, q1, d1)" "tq_inv q1" "tx_ready q1 d1"
    "bytes_put (dr_trace d1) = bytes_put (dr_trace d) @ take m (tx_stream q)" "tx_stream q1 = drop m (tx_stream q)"
    "tx_stream q \<noteq> [] \<longrightarrow> 0 < m"
    using free_drain [OF assms(1) Suc.prems(1,2) assms(2)] by blast
  have "length (tx_stream q1) \<le> N"
    using m(5,6) Suc.prems(3) by (cases "tx_stream q") auto
  from Suc.IH [OF m(2,3) this] show ?case
    using m by auto
qed simp

section \<open>Properties\<close>

text \<open>
  C12.  Whatever the hardware does and however often the CTS line toggles, and for every sequence of
  calls that queue and drain frames: the bytes handed to the transmitter are the encodings of the
  accepted payloads in the order of acceptance, each complete, and before it only proper beginnings
  of the same encoding that a CTS change broke off; the frame in transmission and the queued frames
  are the accepted ones that are not finished.  The wire byte counter counts exactly these bytes.
\<close>

theorem tx_queue_transmits_in_order:
  assumes "bytes_put (dr_trace d) = []" "tx_run k ops (tx_queue_start, d) = (accepted, q, d')"
  shows "tx_log (map (hdlc_frame True) accepted) (bytes_put (dr_trace d')) q
    \<and> tq_tx_wire_bytes q = of_nat (length (bytes_put (dr_trace d'))) \<and> tq_inv q"
proof -
  note start = tx_queue_start_inv
  have "tx_log [] (bytes_put (dr_trace d)) tx_queue_start"
    using start(2,3) assms(1) by (intro tx_logI [of "[]" "[]" "[]"]) simp_all
  moreover have "tq_tx_wire_bytes tx_queue_start = 0"
    by (simp add: tx_queue_start_def tx_queue_init_def)
  ultimately show ?thesis
    using tx_run_log [OF start(1) _ assms(2), of "[]"] tx_run_wire_bytes [OF start(1) _ assms(2)] assms(1) by simp
qed

text \<open>A small queue operation to run: one payload byte.\<close>

lemma tx_enqueue_example:
  "fst (tx_run k [Tx_enqueue \<lparr>uf_payload = [0xFF], uf_length = 1\<rparr>, Tx_drain 32] (tx_queue_start, d)) = [[0xFF]]"
proof -
  let ?f = "\<lparr>uf_payload = [0xFF], uf_length = 1\<rparr>"
  have "rb_count (tq_queue_buffer tx_queue_start) = 0"
    using tx_queue_start_inv(3) length_rb_contents [of "tq_queue_buffer tx_queue_start"] by (simp add: queued_frames_def)
  then obtain q where "tx_queue_enqueue_udp_frame tx_queue_start ?f = (E2S_OK, q)"
    using enqueue_run [OF tx_queue_start_inv(1), of ?f]
    by (auto simp: hdlc_frame_example TX_FRAME_QUEUE_SIZE_def TX_FRAME_MAX_SIZE_BYTE_def)
  then show ?thesis
    by (simp add: split_beta Let_def)
qed

theorem tx_queue_transmits_in_order_witness:
  "\<exists>q d'. tx_log [hdlc_frame True [0xFF]] (bytes_put (dr_trace d')) q
     \<and> tx_run tx_hw_sdk [Tx_enqueue \<lparr>uf_payload = [0xFF], uf_length = 1\<rparr>, Tx_drain 32] (tx_queue_start, tx_hw_driver)
       = ([[0xFF]], q, d')"
proof -
  let ?ops = "[Tx_enqueue \<lparr>uf_payload = [0xFF], uf_length = 1\<rparr>, Tx_drain 32]"
  obtain q d' where run: "tx_run tx_hw_sdk ?ops (tx_queue_start, tx_hw_driver) = ([[0xFF]], q, d')"
    using tx_enqueue_example [of tx_hw_sdk tx_hw_driver] by (metis prod.collapse)
  have "bytes_put (dr_trace tx_hw_driver) = []"
    by (simp add: tx_hw_driver_def tx_demo_def)
  from tx_queue_transmits_in_order [OF this run] run show ?thesis
    by (intro exI [of _ q] exI [of _ d']) simp
qed

text \<open>
  Nothing gets stuck: with a transmitter that takes bytes and a quiet CTS line, as many drain
  calls as there are pending bytes, of whatever positive size, empty the queue and hand over exactly
  the pending bytes.
\<close>

lemma tx_queue_drains_completely:
  assumes "free_running k" "0 < n" "tq_inv q" "tx_ready q d" "length (tx_stream q) \<le> N"
    and "tx_run k (replicate N (Tx_drain n)) (q, d) = (acc, q', d')"
  shows "tx_queue_is_empty q' \<and> bytes_put (dr_trace d') = bytes_put (dr_trace d) @ tx_stream q"
proof -
  have fin: "tq_inv q'" "tx_stream q' = []" "bytes_put (dr_trace d') = bytes_put (dr_trace d) @ tx_stream q"
    using free_drains [OF assms(1-5)] assms(6) by auto
  then show ?thesis
    using stream_empty_iff [OF fin(1)] by simp
qed

text \<open>A transmitter that takes every byte at once.\<close>

definition fast_sdk :: "unit sdk" where
  "fast_sdk = \<lparr>sdk_do = (\<lambda>_ h. h), sdk_ask = (\<lambda>_ h. (0, h)), sdk_cts_irqs = (\<lambda>h. ([], h)),
     PIO_FDEBUG_TXSTALL_LSB = 24, PIO_FDEBUG_RXSTALL_LSB = 0, GPIO_IRQ_EDGES = 12, SYS_CLK_HZ = 125000000,
     GPIO_FUNC_SIO = 5, PICO_ERROR_TIMEOUT = -1\<rparr>"

definition fast_driver :: "unit v24_driver" where
  "fast_driver = \<lparr>dr_runtime = dr_runtime tx_hw_driver, dr_deassert_pending = False, dr_deassert_deadline_us = 0,
     dr_cts_initialized = True, dr_hw = (), dr_trace = [], dr_rx = []\<rparr>"

text \<open>
  \<open>tx_queue_enqueue_udp_frame\<close>, every branch: a full queue of 64 frames and a frame that does not
  fit 2048 bytes are refused and change nothing; otherwise the encoding of the payload is appended
  behind the pending bytes.  A payload of at most 1472 bytes is refused only when the queue is full.
\<close>

lemma tx_queue_enqueue_correct:
  fixes f :: UDP_FRAME_T
  assumes "tq_inv q"
  defines "frame \<equiv> hdlc_frame True (take (uf_length f) (uf_payload f))"
    and "r \<equiv> tx_queue_enqueue_udp_frame q f"
  shows "(tx_queue_get_count q = 64 \<longrightarrow> r = (E2S_ERR_TX_QUEUE_FULL, q))
    \<and> (tx_queue_get_count q < 64 \<and> length frame > 2048 \<longrightarrow> r = (E2S_ERR_HDLC_ENCODE_FAILED, q))
    \<and> (tx_queue_get_count q < 64 \<and> length frame \<le> 2048 \<longrightarrow>
         fst r = E2S_OK \<and> tx_stream (snd r) = tx_stream q @ frame \<and> tx_queue_get_count (snd r) = tx_queue_get_count q + 1)
    \<and> tx_queue_get_count q \<le> 64 \<and> tq_inv (snd r)
    \<and> (uf_length f \<le> UDP_MAX_PAYLOAD_BYTES \<longrightarrow> length frame \<le> 2048)"
proof -
  have cnt: "tx_queue_get_count q' = length (queued_frames q')" for q'
    by (simp add: tx_queue_get_count_def queued_frames_def)
  have le: "tx_queue_get_count q \<le> 64"
    using assms(1) by (auto simp: tq_inv_def rb_inv_def tx_queue_get_count_def TX_FRAME_QUEUE_SIZE_def)
  have "length frame \<le> 2048" if "uf_length f \<le> UDP_MAX_PAYLOAD_BYTES"
    using length_hdlc_frame_max [of "take (uf_length f) (uf_payload f)" True] that by (simp add: frame_def min_le_iff_disj)
  then show ?thesis
    using enqueue_run [OF assms(1), of f] le cnt [of q] cnt [of "snd r"] assms(1)
    unfolding r_def frame_def
    by (auto simp: tx_queue_get_count_def TX_FRAME_QUEUE_SIZE_def TX_FRAME_MAX_SIZE_BYTE_def tx_stream_def split: if_splits)
qed

end
