(* ===== verification/Hdlc_Decoder.thy ===== *)
theory Hdlc_Decoder
  imports Hdlc_Encoder
begin

text \<open>
  \<open>src/protocol/hdlc_decoder.c\<close>: the bit-unstuffing decoder of the data path (\<open>hdlc_decode\<close>), the
  byte-escape decoder (\<open>hdlc_decode_byte\<close>) and the failure counters they share.

  The two output arguments of a decoder are explicit: the payload buffer, given by its current
  contents, and the length cell; \<open>None\<close> is the \<open>NULL\<close> pointer.  The file-static counters are
  passed in and returned.  Every \<open>goto abort\<close> names the counter it has incremented.

  Shown here: \<open>hdlc_decode\<close> computes \<open>hdlc_decode_spec\<close> (unstuff, cut into bytes, check the CRC)
  on every branch and terminates; it inverts the encoder; the escape decoder inverts the escape
  encoder.
\<close>

section \<open>Counters\<close>

record hdlc_decode_stats_t =
  invalid_frame :: u64
  too_short :: u64
  payload_too_long :: u64
  unstuff_error :: u64
  crc_mismatch :: u64

text \<open>Which counter a failing exit increments.\<close>

datatype hdlc_decode_failure =
  Invalid_Frame | Too_Short | Payload_Too_Long | Unstuff_Error | Crc_Mismatch

fun count_failure :: "hdlc_decode_failure \<Rightarrow> hdlc_decode_stats_t \<Rightarrow> hdlc_decode_stats_t" where
  "count_failure Invalid_Frame s = s\<lparr>invalid_frame := invalid_frame s + 1\<rparr>"
| "count_failure Too_Short s = s\<lparr>too_short := too_short s + 1\<rparr>"
| "count_failure Payload_Too_Long s = s\<lparr>payload_too_long := payload_too_long s + 1\<rparr>"
| "count_failure Unstuff_Error s = s\<lparr>unstuff_error := unstuff_error s + 1\<rparr>"
| "count_failure Crc_Mismatch s = s\<lparr>crc_mismatch := crc_mismatch s + 1\<rparr>"

definition hdlc_decode_stats_reset :: hdlc_decode_stats_t where
  "hdlc_decode_stats_reset = \<lparr>invalid_frame = 0, too_short = 0, payload_too_long = 0,
     unstuff_error = 0, crc_mismatch = 0\<rparr>"

text \<open>The destination keeps its address; a \<open>NULL\<close> destination is ignored.\<close>

definition hdlc_decode_stats_snapshot ::
  "hdlc_decode_stats_t \<Rightarrow> hdlc_decode_stats_t option \<Rightarrow> hdlc_decode_stats_t option" where
  "hdlc_decode_stats_snapshot stats out_stats = (case out_stats of None \<Rightarrow> None | Some _ \<Rightarrow> Some stats)"

section \<open>The bit reader\<close>

record hdlc_decoder_t =
  dec_ones_run :: nat
  dec_raw_bit_index :: nat
  dec_skip_next_zero :: bool
  dec_lsb_first :: bool

datatype hdlc_decoder_bit_type_t = HDLC_BIT_OK | HDLC_BIT_EOF | HDLC_BIT_ERR

definition HDLC_DEC_GET_OUT_BIT :: "hdlc_decoder_t \<Rightarrow> HDLC_FRAME_T \<Rightarrow> bool" where
  "HDLC_DEC_GET_OUT_BIT decoder frame =
     (let i = dec_raw_bit_index decoder;
          pos = (if dec_lsb_first decoder then i mod 8 else 7 - i mod 8)
      in drop_bit pos (hf_payload frame ! (1 + i div 8)) AND 1 \<noteq> 0)"

definition raw_bits_total :: "HDLC_FRAME_T \<Rightarrow> nat" where
  "raw_bits_total frame = (if hf_length frame > 2 then (hf_length frame - 2) * 8 else 0)"

text \<open>
  \<open>out_bit\<close> is the caller's cell, which keeps its value unless a bit is delivered.  The pointers
  are those of the only caller and are never \<open>NULL\<close>.
\<close>

function hdlc_get_bit ::
  "hdlc_decoder_t \<Rightarrow> HDLC_FRAME_T \<Rightarrow> bool \<Rightarrow> hdlc_decoder_bit_type_t \<times> bool \<times> hdlc_decoder_t" where
  "hdlc_get_bit decoder frame out_bit =
     (if dec_raw_bit_index decoder < raw_bits_total frame
      then let raw_bit = HDLC_DEC_GET_OUT_BIT decoder frame;
               d1 = decoder\<lparr>dec_raw_bit_index := dec_raw_bit_index decoder + 1\<rparr>
           in if dec_skip_next_zero d1
              then if raw_bit then (HDLC_BIT_ERR, out_bit, d1)
                   else hdlc_get_bit (d1\<lparr>dec_skip_next_zero := False, dec_ones_run := 0\<rparr>) frame out_bit
              else if raw_bit
              then let d2 = d1\<lparr>dec_ones_run := dec_ones_run d1 + 1\<rparr>
                   in (HDLC_BIT_OK, raw_bit,
                       if dec_ones_run d2 = HDLC_BIT_STUFF_ONES_LIMIT
                       then d2\<lparr>dec_skip_next_zero := True\<rparr> else d2)
              else (HDLC_BIT_OK, raw_bit, d1\<lparr>dec_ones_run := 0\<rparr>)
      else (HDLC_BIT_EOF, out_bit, decoder))"
  by pat_completeness auto
termination
  by (relation "measure (\<lambda>(d, f, _). raw_bits_total f - dec_raw_bit_index d)") auto

declare hdlc_get_bit.simps [simp del]

fun hdlc_get_byte_loop ::
  "nat list \<Rightarrow> hdlc_decoder_t \<Rightarrow> HDLC_FRAME_T \<Rightarrow> byte \<Rightarrow> hdlc_decoder_bit_type_t \<times> byte \<times> hdlc_decoder_t" where
  "hdlc_get_byte_loop [] decoder frame b = (HDLC_BIT_OK, b, decoder)"
| "hdlc_get_byte_loop (i # is) decoder frame b =
     (let (bit_result, bit, d1) = hdlc_get_bit decoder frame False in
      if bit_result \<noteq> HDLC_BIT_OK then (bit_result, b, d1)
      else let bit_position = (if dec_lsb_first d1 then i else 7 - i)
           in hdlc_get_byte_loop is d1 frame (b OR push_bit bit_position (of_bool bit)))"

definition hdlc_get_byte ::
  "hdlc_decoder_t \<Rightarrow> HDLC_FRAME_T \<Rightarrow> hdlc_decoder_bit_type_t \<times> byte \<times> hdlc_decoder_t" where
  "hdlc_get_byte decoder frame = hdlc_get_byte_loop [0..<8] decoder frame 0"

text \<open>Every delivered byte consumes raw bits, which is why the decoding loop ends.\<close>

lemma hdlc_get_bit_progress:
  "hdlc_get_bit decoder frame out_bit = (res, b, d1) \<Longrightarrow>
    dec_raw_bit_index decoder \<le> dec_raw_bit_index d1 \<and>
    (res = HDLC_BIT_OK \<longrightarrow> dec_raw_bit_index decoder < raw_bits_total frame
       \<and> dec_raw_bit_index decoder < dec_raw_bit_index d1)"
proof (induction decoder frame out_bit rule: hdlc_get_bit.induct)
  case (1 decoder frame out_bit)
  let ?d1 = "decoder\<lparr>dec_raw_bit_index := dec_raw_bit_index decoder + 1\<rparr>"
  note eq = "1.prems" [unfolded hdlc_get_bit.simps [of decoder frame out_bit] Let_def]
  show ?case
  proof (cases "dec_raw_bit_index decoder < raw_bits_total frame \<and> dec_skip_next_zero decoder
      \<and> \<not> HDLC_DEC_GET_OUT_BIT decoder frame")
    case True
    then have "hdlc_get_bit (?d1\<lparr>dec_skip_next_zero := False, dec_ones_run := 0\<rparr>) frame out_bit = (res, b, d1)"
      using eq by simp
    from "1.IH" [OF _ refl refl _ _ this] True show ?thesis
      by simp
  next
    case False
    with eq show ?thesis
      by (auto split: if_splits)
  qed
qed

lemma hdlc_get_byte_loop_progress:
  "hdlc_get_byte_loop is decoder frame b = (res, b', d1) \<Longrightarrow>
    dec_raw_bit_index decoder \<le> dec_raw_bit_index d1 \<and>
    (res = HDLC_BIT_OK \<and> is \<noteq> [] \<longrightarrow> dec_raw_bit_index decoder < raw_bits_total frame
       \<and> dec_raw_bit_index decoder < dec_raw_bit_index d1)"
proof (induction "is" arbitrary: decoder b)
  case Nil
  then show ?case by simp
next
  case (Cons i "is")
  obtain r bb d where bit: "hdlc_get_bit decoder frame False = (r, bb, d)"
    by (metis prod_cases3)
  with Cons.prems Cons.IH [of d] hdlc_get_bit_progress [OF bit] show ?case
    by (fastforce simp: Let_def split: if_splits)
qed

lemma hdlc_get_byte_progress:
  "hdlc_get_byte decoder frame = (HDLC_BIT_OK, b, d1) \<Longrightarrow>
    raw_bits_total frame - dec_raw_bit_index d1 < raw_bits_total frame - dec_raw_bit_index decoder"
  using hdlc_get_byte_loop_progress [of "[0..<8]" decoder frame 0 HDLC_BIT_OK b d1]
  by (simp add: hdlc_get_byte_def diff_less_mono2)

section \<open>The decoders\<close>

text \<open>The \<open>for (;;)\<close> loop: how it ended, the buffer and the number of bytes stored.\<close>

function hdlc_decode_loop ::
  "HDLC_FRAME_T \<Rightarrow> nat \<Rightarrow> hdlc_decoder_t \<Rightarrow> byte list \<Rightarrow> nat \<Rightarrow> hdlc_decode_failure option \<times> byte list \<times> nat" where
  "hdlc_decode_loop frame out_capacity decoder payload outbyte_ctr =
     (case hdlc_get_byte decoder frame of
        (HDLC_BIT_EOF, _, _) \<Rightarrow> (None, payload, outbyte_ctr)
      | (HDLC_BIT_ERR, _, _) \<Rightarrow> (Some Unstuff_Error, payload, outbyte_ctr)
      | (HDLC_BIT_OK, byte_out, d1) \<Rightarrow>
          if outbyte_ctr \<ge> out_capacity then (Some Payload_Too_Long, payload, outbyte_ctr)
          else hdlc_decode_loop frame out_capacity d1 (payload[outbyte_ctr := byte_out]) (outbyte_ctr + 1))"
  by pat_completeness auto
termination
  by (relation "measure (\<lambda>(f, _, d, _). raw_bits_total f - dec_raw_bit_index d)")
    (auto dest: hdlc_get_byte_progress [OF sym])

declare hdlc_decode_loop.simps [simp del]

text \<open>
  The part both decoders share after their loop: the length check, the length of the payload
  proper and the CRC comparison; \<open>Inl\<close> is the failing exit.
\<close>

definition hdlc_check_crc :: "byte list \<Rightarrow> nat \<Rightarrow> hdlc_decode_failure + nat" where
  "hdlc_check_crc payload outbyte_ctr =
     (if outbyte_ctr < 2 then Inl Too_Short
      else
        let crc16 = (push_bit 8 (ucast (payload ! (outbyte_ctr - 2))) OR ucast (payload ! (outbyte_ctr - 1)) :: u16);
            payload_length = outbyte_ctr - 2
        in if crc16 \<noteq> hdlc_crc16 (take payload_length payload) then Inl Crc_Mismatch
           else Inr payload_length)"

text \<open>What a decoder leaves behind: its result, the buffer, the length cell and the counters.\<close>

type_synonym decode_result = "bool \<times> byte list option \<times> nat option \<times> hdlc_decode_stats_t"

definition decode_abort ::
  "hdlc_decode_failure \<Rightarrow> byte list option \<Rightarrow> nat option \<Rightarrow> hdlc_decode_stats_t \<Rightarrow> decode_result" where
  "decode_abort failure payload payload_length stats =
     (False, payload, map_option (\<lambda>_. 0) payload_length, count_failure failure stats)"

definition hdlc_decode ::
  "HDLC_FRAME_T option \<Rightarrow> byte list option \<Rightarrow> nat \<Rightarrow> nat option \<Rightarrow> bool \<Rightarrow> hdlc_decode_stats_t \<Rightarrow> decode_result" where
  "hdlc_decode frame_ptr payload_ptr out_capacity payload_length lsb stats =
     (case (frame_ptr, payload_ptr, payload_length) of
        (Some frame, Some payload, Some _) \<Rightarrow>
          if out_capacity = 0 \<or> hf_length frame < 2 \<or> hf_payload frame ! 0 \<noteq> HDLC_FLAG_BYTE \<or>
             hf_payload frame ! (hf_length frame - 1) \<noteq> HDLC_FLAG_BYTE
          then decode_abort Invalid_Frame payload_ptr payload_length stats
          else
            let decoder = \<lparr>dec_ones_run = 0, dec_raw_bit_index = 0, dec_skip_next_zero = False,
                           dec_lsb_first = lsb\<rparr>;
                (failure, payload1, outbyte_ctr) = hdlc_decode_loop frame out_capacity decoder payload 0
            in (case failure of
                  Some fl \<Rightarrow> decode_abort fl (Some payload1) payload_length stats
                | None \<Rightarrow>
                    (case hdlc_check_crc payload1 outbyte_ctr of
                       Inl fl \<Rightarrow> decode_abort fl (Some payload1) payload_length stats
                     | Inr n \<Rightarrow> (True, Some payload1, Some n, stats)))
      | _ \<Rightarrow> decode_abort Invalid_Frame payload_ptr payload_length stats)"

text \<open>
  The escape decoder reads \<open>payload[0]\<close> and \<open>payload[length - 1]\<close> before it looks at \<open>length\<close>; the
  index is a 32 bit \<open>size_t\<close>.  The result \<open>None\<close> is a read outside the storage of the frame.
\<close>

definition c_read :: "'a list \<Rightarrow> nat \<Rightarrow> 'a option" where
  "c_read xs i = (if i < length xs then Some (xs ! i) else None)"

fun hdlc_unescape_loop ::
  "byte list \<Rightarrow> bool \<Rightarrow> nat \<Rightarrow> byte list \<Rightarrow> nat \<Rightarrow> hdlc_decode_failure option \<times> byte list \<times> nat" where
  "hdlc_unescape_loop [] found_escape out_capacity payload outbyte_ctr = (None, payload, outbyte_ctr)"
| "hdlc_unescape_loop (b # bs) found_escape out_capacity payload outbyte_ctr =
     (if b = HDLC_ESCAPE_BYTE then hdlc_unescape_loop bs True out_capacity payload outbyte_ctr
      else if outbyte_ctr \<ge> out_capacity then (Some Payload_Too_Long, payload, outbyte_ctr)
      else hdlc_unescape_loop bs False out_capacity
             (payload[outbyte_ctr := (if found_escape then b XOR HDLC_ESCAPE_XOR else b)]) (outbyte_ctr + 1))"

definition hdlc_decode_byte ::
  "HDLC_FRAME_T option \<Rightarrow> byte list option \<Rightarrow> nat \<Rightarrow> nat option \<Rightarrow> hdlc_decode_stats_t \<Rightarrow> decode_result option" where
  "hdlc_decode_byte frame_ptr payload_ptr out_capacity payload_length stats =
     (case (frame_ptr, payload_ptr, payload_length) of
        (Some frame, Some payload, Some _) \<Rightarrow>
          if out_capacity = 0 then Some (decode_abort Invalid_Frame payload_ptr payload_length stats)
          else
            (case c_read (hf_payload frame) 0 of
               None \<Rightarrow> None
             | Some first \<Rightarrow>
                 if first \<noteq> HDLC_FLAG_BYTE
                 then Some (decode_abort Invalid_Frame payload_ptr payload_length stats)
                 else
                   (case c_read (hf_payload frame) ((hf_length frame + (2 ^ 32 - 1)) mod 2 ^ 32) of
                      None \<Rightarrow> None
                    | Some last_byte \<Rightarrow>
                        if last_byte \<noteq> HDLC_FLAG_BYTE
                        then Some (decode_abort Invalid_Frame payload_ptr payload_length stats)
                        else
                          let body = map (\<lambda>i. hf_payload frame ! i) [1..<hf_length frame - 1];
                              (failure, payload1, outbyte_ctr) =
                                hdlc_unescape_loop body False out_capacity payload 0
                          in (case failure of
                                Some fl \<Rightarrow> Some (decode_abort fl (Some payload1) payload_length stats)
                              | None \<Rightarrow>
                                  (case hdlc_check_crc payload1 outbyte_ctr of
                                     Inl fl \<Rightarrow> Some (decode_abort fl (Some payload1) payload_length stats)
                                   | Inr n \<Rightarrow> Some (True, Some payload1, Some n, stats)))))
      | _ \<Rightarrow> Some (decode_abort Invalid_Frame payload_ptr payload_length stats))"

section \<open>Reference decoding\<close>

text \<open>
  Unstuffing of a raw bit list after \<open>r\<close> ones in a row: the delivered bits, and whether a sixth one
  stopped it.
\<close>

fun unstuff :: "nat \<Rightarrow> bool list \<Rightarrow> bool list \<times> bool" where
  "unstuff r [] = ([], False)"
| "unstuff r (b # bs) =
     (if r = 5 then (if b then ([], True) else unstuff 0 bs)
      else let (u, err) = unstuff (if b then Suc r else 0) bs in (b # u, err))"

text \<open>The payload in a complete output, or why it is refused.\<close>

definition check_crc_spec :: "byte list \<Rightarrow> hdlc_decode_failure + byte list" where
  "check_crc_spec out =
     (if length out < 2 then Inl Too_Short
      else let data = take (length out - 2) out
           in if out = with_crc data then Inr data else Inl Crc_Mismatch)"

definition hdlc_decode_spec :: "bool \<Rightarrow> nat \<Rightarrow> byte list \<Rightarrow> hdlc_decode_failure + byte list" where
  "hdlc_decode_spec lsb out_capacity body =
     (let (u, err) = unstuff 0 (bytes_bits lsb body); out = full_bytes lsb u
      in if length out > out_capacity then Inl Payload_Too_Long
         else if err then Inl Unstuff_Error
         else check_crc_spec out)"

text \<open>The bytes between the two flags.\<close>

definition frame_body :: "HDLC_FRAME_T \<Rightarrow> byte list" where
  "frame_body f = take (hf_length f - 2) (drop 1 (hf_payload f))"

lemma length_frame_body [simp]: "frame_wf f \<Longrightarrow> length (frame_body f) = hf_length f - 2"
  by (auto simp: frame_wf_def frame_body_def)

lemma frame_bytes_split:
  assumes "frame_wf f" "2 \<le> hf_length f"
  shows "frame_bytes f = [hf_payload f ! 0] @ frame_body f @ [hf_payload f ! (hf_length f - 1)]"
proof -
  obtain n where n: "hf_length f = Suc (Suc n)"
    using assms(2) by (metis add_2_eq_Suc le_Suc_ex)
  then have "Suc n < length (hf_payload f)"
    using assms(1) by (simp add: frame_wf_def)
  then obtain x xs where "hf_payload f = x # xs" "n < length xs"
    by (cases "hf_payload f") auto
  moreover from this have "take (Suc n) xs = take n xs @ [xs ! n]"
    by (simp only: take_Suc_conv_app_nth)
  ultimately show ?thesis
    by (simp add: n frame_bytes_def frame_body_def)
qed

section \<open>The bit reader delivers the unstuffed bits\<close>

definition dec_rel :: "HDLC_FRAME_T \<Rightarrow> hdlc_decoder_t \<Rightarrow> bool list \<times> bool \<Rightarrow> bool" where
  "dec_rel frame d ue \<longleftrightarrow>
     dec_raw_bit_index d \<le> raw_bits_total frame \<and> dec_ones_run d \<le> 5 \<and>
     (dec_skip_next_zero d \<longleftrightarrow> dec_ones_run d = 5) \<and>
     unstuff (dec_ones_run d) (drop (dec_raw_bit_index d) (bytes_bits (dec_lsb_first d) (frame_body frame))) = ue"

lemma raw_bits_total_body: "frame_wf f \<Longrightarrow> raw_bits_total f = 8 * length (frame_body f)"
  by (simp add: raw_bits_total_def)

lemma HDLC_DEC_GET_OUT_BIT_nth:
  assumes "frame_wf f" "dec_raw_bit_index d < raw_bits_total f"
  shows "HDLC_DEC_GET_OUT_BIT d f = bytes_bits (dec_lsb_first d) (frame_body f) ! dec_raw_bit_index d"
proof -
  let ?i = "dec_raw_bit_index d"
  have i: "?i < 8 * length (frame_body f)"
    using assms by (simp add: raw_bits_total_body)
  then have "?i div 8 < hf_length f - 2"
    using assms(1) by (simp add: less_mult_imp_div_less mult.commute)
  moreover from this have "1 \<le> length (hf_payload f)"
    using assms(1) unfolding frame_wf_def by linarith
  ultimately have "hf_payload f ! (1 + ?i div 8) = frame_body f ! (?i div 8)"
    by (simp add: frame_body_def)
  moreover have "drop_bit pos b AND 1 \<noteq> 0 \<longleftrightarrow> bit b pos" for pos and b :: byte
    by (simp add: bit_iff_odd_drop_bit and_one_eq flip: odd_iff_mod_2_eq_one)
  ultimately show ?thesis
    using nth_bytes_bits [OF i, of "dec_lsb_first d"]
    by (simp only: HDLC_DEC_GET_OUT_BIT_def Let_def bit_pos_def)
qed

lemma hdlc_get_bit_correct:
  assumes "frame_wf f" "dec_rel f d ue"
  shows "(\<forall>b u. fst ue = b # u \<longrightarrow>
        (\<exists>d1. hdlc_get_bit d f ob = (HDLC_BIT_OK, b, d1) \<and> dec_rel f d1 (u, snd ue)
            \<and> dec_lsb_first d1 = dec_lsb_first d)) \<and>
      (fst ue = [] \<longrightarrow> fst (hdlc_get_bit d f ob) = (if snd ue then HDLC_BIT_ERR else HDLC_BIT_EOF))"
  using assms
proof (induction d f ob rule: hdlc_get_bit.induct)
  case (1 d f ob)
  let ?R = "bytes_bits (dec_lsb_first d) (frame_body f)" and ?i = "dec_raw_bit_index d"
  have rel: "?i \<le> raw_bits_total f" "dec_ones_run d \<le> 5" "dec_skip_next_zero d \<longleftrightarrow> dec_ones_run d = 5"
    "unstuff (dec_ones_run d) (drop ?i ?R) = ue"
    using "1.prems" by (simp_all add: dec_rel_def)
  show ?case
  proof (cases "?i < raw_bits_total f")
    case False
    then have "drop ?i ?R = []"
      using "1.prems"(1) by (simp add: raw_bits_total_body)
    then show ?thesis
      using False rel by (auto simp: hdlc_get_bit.simps)
  next
    case True
    let ?b = "HDLC_DEC_GET_OUT_BIT d f" and ?d1 = "d\<lparr>dec_raw_bit_index := ?i + 1\<rparr>"
    have "?i < length ?R"
      using True "1.prems"(1) by (simp add: raw_bits_total_body)
    then have "drop ?i ?R = ?b # drop (Suc ?i) ?R"
      using HDLC_DEC_GET_OUT_BIT_nth [OF "1.prems"(1) True] by (simp add: Cons_nth_drop_Suc)
    then have u: "unstuff (dec_ones_run d) (?b # drop (Suc ?i) ?R) = ue"
      using rel by simp
    show ?thesis
    proof (cases "dec_skip_next_zero d")
      case skip: True
      show ?thesis
      proof (cases ?b)
        case b: True
        then have "ue = ([], True)"
          using skip rel(3) u by simp
        then show ?thesis
          using True skip b by (simp add: hdlc_get_bit.simps [of d] Let_def)
      next
        case b: False
        let ?d2 = "?d1\<lparr>dec_skip_next_zero := False, dec_ones_run := 0\<rparr>"
        have "dec_rel f ?d2 ue"
          using True b skip rel u by (simp add: dec_rel_def)
        moreover have "hdlc_get_bit d f ob = hdlc_get_bit ?d2 f ob"
          using True b skip by (simp add: hdlc_get_bit.simps [of d] Let_def)
        ultimately show ?thesis
          using "1.IH" [OF True refl refl _ b "1.prems"(1)] skip by simp
      qed
    next
      case False
      then have run: "dec_ones_run d < 5"
        using rel by simp
      obtain v err where v: "unstuff (if ?b then Suc (dec_ones_run d) else 0) (drop (Suc ?i) ?R) = (v, err)"
        by fastforce
      then have "ue = (?b # v, err)"
        using run u by simp
      then show ?thesis
        using True False run v
        by (cases ?b) (auto simp: hdlc_get_bit.simps [of d] Let_def dec_rel_def HDLC_BIT_STUFF_ONES_LIMIT_def)
    qed
  qed
qed

text \<open>Reading \<open>n\<close> bits into positions that follow the ones already filled.\<close>

lemma hdlc_get_byte_loop_correct:
  assumes "frame_wf f" "dec_rel f d (u, err)" "length acc + n = 8"
  shows "(n \<le> length u \<longrightarrow> (\<exists>d1. hdlc_get_byte_loop [length acc..<8] d f (bits_byte (dec_lsb_first d) acc)
          = (HDLC_BIT_OK, bits_byte (dec_lsb_first d) (acc @ take n u), d1)
          \<and> dec_rel f d1 (drop n u, err) \<and> dec_lsb_first d1 = dec_lsb_first d))
    \<and> (length u < n \<longrightarrow> fst (hdlc_get_byte_loop [length acc..<8] d f (bits_byte (dec_lsb_first d) acc))
          = (if err then HDLC_BIT_ERR else HDLC_BIT_EOF))"
  using assms
proof (induction n arbitrary: d u acc)
  case 0
  then show ?case by simp
next
  case (Suc n)
  then have upt: "[length acc..<8] = length acc # [Suc (length acc)..<8]" and acc: "length acc < 8"
    by (simp_all add: upt_conv_Cons)
  note bit = hdlc_get_bit_correct [OF Suc.prems(1,2), of False]
  show ?case
  proof (cases u)
    case Nil
    then obtain r b d1 where "hdlc_get_bit d f False = (r, b, d1)" "r = (if err then HDLC_BIT_ERR else HDLC_BIT_EOF)"
      using bit by (metis fst_conv prod_cases3 snd_conv)
    then show ?thesis
      using Nil by (simp add: upt)
  next
    case (Cons b v)
    then obtain d1 where d1: "hdlc_get_bit d f False = (HDLC_BIT_OK, b, d1)" "dec_rel f d1 (v, err)"
      "dec_lsb_first d1 = dec_lsb_first d"
      using bit by auto
    have shift: "bits_byte lsb acc OR push_bit (if lsb then length acc else 7 - length acc) (of_bool b)
        = bits_byte lsb (acc @ [b])" for lsb
      using SHIFT_IN_BIT_snoc [OF acc, of lsb b]
      by (cases lsb) (simp_all only: SHIFT_IN_BIT_def if_True if_False)
    have "hdlc_get_byte_loop [length acc..<8] d f (bits_byte (dec_lsb_first d) acc)
        = hdlc_get_byte_loop [length (acc @ [b])..<8] d1 f (bits_byte (dec_lsb_first d1) (acc @ [b]))"
      using d1 shift [of "dec_lsb_first d"] by (simp add: upt)
    then show ?thesis
      using Suc.IH [OF Suc.prems(1) d1(2), of "acc @ [b]"] Suc.prems(3) Cons d1(3) by simp
  qed
qed

lemma hdlc_get_byte_correct:
  assumes "frame_wf f" "dec_rel f d (u, err)"
  shows "8 \<le> length u \<Longrightarrow> \<exists>d1. hdlc_get_byte d f = (HDLC_BIT_OK, bits_byte (dec_lsb_first d) (take 8 u), d1)
      \<and> dec_rel f d1 (drop 8 u, err) \<and> dec_lsb_first d1 = dec_lsb_first d"
    and "length u < 8 \<Longrightarrow> fst (hdlc_get_byte d f) = (if err then HDLC_BIT_ERR else HDLC_BIT_EOF)"
  using hdlc_get_byte_loop_correct [OF assms, of "[]" 8] by (simp_all add: hdlc_get_byte_def)

section \<open>The decoder computes the reference decoding\<close>

lemma hdlc_decode_loop_correct:
  assumes "frame_wf f" "dec_rel f d (u, err)" "cap \<le> length buf" "ctr \<le> cap"
  defines "out \<equiv> full_bytes (dec_lsb_first d) u"
  shows "\<exists>fl buf' n. hdlc_decode_loop f cap d buf ctr = (fl, buf', n)
    \<and> fl = (if ctr + length out > cap then Some Payload_Too_Long else if err then Some Unstuff_Error else None)
    \<and> length buf' = length buf \<and> drop cap buf' = drop cap buf
    \<and> (ctr + length out \<le> cap \<longrightarrow> n = ctr + length out \<and> take n buf' = take ctr buf @ out)"
  using assms(1-4) unfolding out_def
proof (induction f cap d buf ctr arbitrary: u rule: hdlc_decode_loop.induct)
  case (1 f cap d buf ctr)
  note byte = hdlc_get_byte_correct [OF "1.prems"(1,2)]
  show ?case
  proof (cases "8 \<le> length u")
    case False
    then obtain r b d1 where "hdlc_get_byte d f = (r, b, d1)" "r = (if err then HDLC_BIT_ERR else HDLC_BIT_EOF)"
      using byte(2) by (metis fst_conv not_le prod_cases3)
    then show ?thesis
      using False "1.prems" by (auto simp: hdlc_decode_loop.simps [of f] full_bytes_short)
  next
    case True
    let ?b = "bits_byte (dec_lsb_first d) (take 8 u)"
    obtain d1 where d1: "hdlc_get_byte d f = (HDLC_BIT_OK, ?b, d1)" "dec_rel f d1 (drop 8 u, err)"
      "dec_lsb_first d1 = dec_lsb_first d"
      using byte(1) [OF True] by blast
    have out: "full_bytes (dec_lsb_first d) u = ?b # full_bytes (dec_lsb_first d1) (drop 8 u)"
      using full_bytes_step [OF True] d1(3) by simp
    show ?thesis
    proof (cases "ctr < cap")
      case False
      then show ?thesis
        using d1 out "1.prems" by (simp add: hdlc_decode_loop.simps [of f])
    next
      case lt: True
      have step: "hdlc_decode_loop f cap d buf ctr = hdlc_decode_loop f cap d1 (buf[ctr := ?b]) (ctr + 1)"
        using d1 lt by (simp add: hdlc_decode_loop.simps [of f _ d])
      have "cap \<le> length (buf[ctr := ?b])" "ctr + 1 \<le> cap" "\<not> cap \<le> ctr"
        using lt "1.prems" by simp_all
      from "1.IH" [OF d1(1) [symmetric] refl refl this(3) "1.prems"(1) d1(2) this(1,2)]
      show ?thesis
        using lt "1.prems" unfolding step out by simp
    qed
  qed
qed

lemma with_crc_simps [simp]:
  "length (with_crc data) = length data + 2" "take (length data) (with_crc data) = data"
  by (simp_all add: with_crc_def)

text \<open>The CRC comparison is the zero remainder test.\<close>

lemma word16_OR_halves: "push_bit 8 (ucast (a :: byte)) OR ucast (b :: byte) = (push_bit 8 (ucast a) XOR ucast b :: u16)"
proof (rule bit_word_eqI)
  fix n assume "n < LENGTH(16)"
  then show "bit (push_bit 8 (ucast a) OR ucast b :: u16) n = bit (push_bit 8 (ucast a) XOR ucast b :: u16) n"
    by (cases "n < 8") (auto simp: bit_or_iff bit_xor_iff bit_push_bit_iff bit_ucast_iff dest: bit_imp_le_length)
qed

lemma list_snoc2:
  assumes "2 \<le> length xs"
  shows "xs = take (length xs - 2) xs @ [xs ! (length xs - 2), xs ! (length xs - 1)]"
proof -
  obtain n where n: "length xs = Suc (Suc n)"
    using assms by (metis add_2_eq_Suc le_Suc_ex)
  have "take (Suc (Suc n)) xs = take n xs @ [xs ! n, xs ! Suc n]"
    using n by (simp only: take_Suc_conv_app_nth) simp
  then show ?thesis
    using n by simp
qed

lemma check_crc_spec_residue:
  "check_crc_spec out = (if length out < 2 then Inl Too_Short
     else if hdlc_crc16 out = 0 then Inr (take (length out - 2) out) else Inl Crc_Mismatch)"
proof (cases "length out < 2")
  case False
  then obtain data a b where out: "out = data @ [a, b]"
    using list_snoc2 [of out] by (metis not_less)
  show ?thesis
    by (simp add: check_crc_spec_def out with_crc_def crc16_residue_iff)
qed (simp add: check_crc_spec_def)

lemma hdlc_check_crc_correct:
  assumes "n \<le> length buf"
  shows "hdlc_check_crc buf n = map_sum id length (check_crc_spec (take n buf))"
    and "check_crc_spec (take n buf) = Inr data \<Longrightarrow> take (length data) buf = data"
proof -
  have len: "length (take n buf) = n"
    using assms by simp
  have "hdlc_check_crc buf n = map_sum id length (check_crc_spec (take n buf))" if ge: "\<not> n < 2"
  proof -
    obtain xs a b where out: "take n buf = xs @ [a, b]"
      using list_snoc2 [of "take n buf"] ge len by (metis not_less)
    have n: "n = length xs + 2"
      using out len by (metis length_append length_Cons list.size(3) numeral_2_eq_2)
    have "take n buf @ drop n buf = buf"
      by (rule append_take_drop_id)
    then obtain ys where "buf = xs @ a # b # ys"
      using out by simp metis
    then have nth: "buf ! length xs = a" "buf ! Suc (length xs) = b" "take (length xs) buf = xs"
      by (simp_all add: nth_append)
    have "push_bit 8 (ucast a) OR ucast b = hdlc_crc16 xs \<longleftrightarrow>
        a = crc_hi (hdlc_crc16 xs) \<and> b = crc_lo (hdlc_crc16 xs)"
      using two_bytes_inject [of a b "crc_hi (hdlc_crc16 xs)" "crc_lo (hdlc_crc16 xs)"]
      by (simp add: word16_OR_halves word16_halves)
    then have "hdlc_check_crc buf n = (if a = crc_hi (hdlc_crc16 xs) \<and> b = crc_lo (hdlc_crc16 xs)
        then Inr (length xs) else Inl Crc_Mismatch)"
      using nth by (simp add: hdlc_check_crc_def n)
    moreover have "check_crc_spec (take n buf) = (if a = crc_hi (hdlc_crc16 xs) \<and> b = crc_lo (hdlc_crc16 xs)
        then Inr xs else Inl Crc_Mismatch)"
      unfolding out by (simp add: check_crc_spec_def with_crc_def)
    ultimately show ?thesis
      by simp
  qed
  then show "hdlc_check_crc buf n = map_sum id length (check_crc_spec (take n buf))"
    using len by (cases "n < 2") (auto simp: hdlc_check_crc_def check_crc_spec_def)
  show "take (length data) buf = data" if "check_crc_spec (take n buf) = Inr data"
    using that len by (auto simp: check_crc_spec_def Let_def min_def split: if_splits)
qed

definition flagged :: "HDLC_FRAME_T \<Rightarrow> bool" where
  "flagged f \<longleftrightarrow> 2 \<le> hf_length f \<and> hf_payload f ! 0 = HDLC_FLAG_BYTE
     \<and> hf_payload f ! (hf_length f - 1) = HDLC_FLAG_BYTE"

text \<open>How a decoder reports the outcome \<open>res\<close> of a reference decoding.\<close>

definition decode_reports ::
  "hdlc_decode_failure + byte list \<Rightarrow> byte list \<Rightarrow> nat \<Rightarrow> hdlc_decode_stats_t \<Rightarrow> decode_result \<Rightarrow> bool" where
  "decode_reports res buf cap stats result \<longleftrightarrow>
     (\<exists>buf'. length buf' = length buf \<and> drop cap buf' = drop cap buf \<and>
       (case res of
          Inl fl \<Rightarrow> result = (False, Some buf', Some 0, count_failure fl stats)
        | Inr data \<Rightarrow> result = (True, Some buf', Some (length data), stats) \<and> take (length data) buf' = data))"

lemma hdlc_decode_run:
  assumes wf: "frame_wf f" and flags: "flagged f" and cap: "0 < cap" "cap \<le> length buf"
  shows "decode_reports (hdlc_decode_spec lsb cap (frame_body f)) buf cap stats
    (hdlc_decode (Some f) (Some buf) cap (Some l) lsb stats)"
proof -
  let ?d = "\<lparr>dec_ones_run = 0, dec_raw_bit_index = 0, dec_skip_next_zero = False, dec_lsb_first = lsb\<rparr>"
  obtain u err where u: "unstuff 0 (bytes_bits lsb (frame_body f)) = (u, err)"
    by fastforce
  let ?out = "full_bytes lsb u"
  have "dec_rel f ?d (u, err)"
    by (simp add: dec_rel_def u)
  from hdlc_decode_loop_correct [OF wf this cap(2), of 0] obtain fl buf' n where
    loop: "hdlc_decode_loop f cap ?d buf 0 = (fl, buf', n)"
      "fl = (if length ?out > cap then Some Payload_Too_Long else if err then Some Unstuff_Error else None)"
      "length buf' = length buf" "drop cap buf' = drop cap buf"
      "length ?out \<le> cap \<Longrightarrow> n = length ?out \<and> take n buf' = ?out"
    by auto
  have run: "hdlc_decode (Some f) (Some buf) cap (Some l) lsb stats =
      (case fl of Some e \<Rightarrow> decode_abort e (Some buf') (Some l) stats
       | None \<Rightarrow> (case hdlc_check_crc buf' n of Inl e \<Rightarrow> decode_abort e (Some buf') (Some l) stats
                | Inr m \<Rightarrow> (True, Some buf', Some m, stats)))"
    using flags cap loop(1) by (simp add: hdlc_decode_def flagged_def Let_def)
  show ?thesis
  proof (cases "fl = None")
    case False
    then show ?thesis
      using loop(2-4) run u
      by (auto simp: decode_reports_def decode_abort_def hdlc_decode_spec_def Let_def split: if_splits)
  next
    case True
    then have "n = length ?out" "take n buf' = ?out" "\<not> err" "length ?out \<le> cap"
      using loop(2,5) by (auto split: if_splits)
    moreover from this have "n \<le> length buf'"
      using loop(3) cap(2) by simp
    note hdlc_check_crc_correct [OF this]
    ultimately show ?thesis
      using True loop(3,4) run u
      by (auto simp: decode_reports_def decode_abort_def hdlc_decode_spec_def Let_def
          split: sum.splits intro!: exI [of _ buf'])
  qed
qed

section \<open>Unstuffing inverts stuffing\<close>

lemma unstuff_stuff:
  assumes "r < 5"
  shows "unstuff r (stuff r bs @ ys) = (let (u, err) = unstuff (stuff_run r bs) ys in (bs @ u, err))
    \<and> stuff_run r bs < 5"
  using assms by (induction r bs rule: stuff.induct) (auto simp: Let_def split_beta)

lemma unstuff_zeros: "r < 5 \<Longrightarrow> unstuff r (replicate k False) = (replicate k False, False)"
  by (induction k arbitrary: r) auto

lemma unstuff_stuffed_body:
  "\<exists>pad < 8. unstuff 0 (bytes_bits lsb (padded_bytes lsb (stuff 0 bs))) = (bs @ replicate pad False, False)"
proof -
  obtain pad where "pad < 8" "bytes_bits lsb (padded_bytes lsb (stuff 0 bs)) = stuff 0 bs @ replicate pad False"
    using bytes_bits_padded_bytes by blast
  then show ?thesis
    using unstuff_stuff [of 0 bs "replicate pad False"] unstuff_zeros [of "stuff_run 0 bs" pad]
    by (intro exI [of _ pad]) simp
qed

text \<open>Whatever bytes are stuffed into a body, exactly these bytes come out.\<close>

lemma hdlc_decode_spec_stuffed:
  "hdlc_decode_spec lsb cap (padded_bytes lsb (stuff 0 (bytes_bits lsb content)))
     = (if length content > cap then Inl Payload_Too_Long else check_crc_spec content)"
proof -
  obtain pad where "pad < 8" "unstuff 0 (bytes_bits lsb (padded_bytes lsb (stuff 0 (bytes_bits lsb content))))
      = (bytes_bits lsb content @ replicate pad False, False)"
    using unstuff_stuffed_body by blast
  then show ?thesis
    by (simp add: hdlc_decode_spec_def full_bytes_bytes_bits)
qed

lemma check_crc_spec_with_crc: "check_crc_spec (with_crc data) = Inr data"
  by (simp add: check_crc_spec_def with_crc_def)

lemma hdlc_decode_spec_frame:
  "hdlc_decode_spec lsb cap (padded_bytes lsb (stuff 0 (bytes_bits lsb (with_crc data))))
     = (if length data + 2 > cap then Inl Payload_Too_Long else Inr data)"
  by (simp add: hdlc_decode_spec_stuffed check_crc_spec_with_crc)

text \<open>A frame descriptor that holds a flag, a body and a flag.\<close>

lemma frame_bytes_flagged:
  assumes "frame_wf f" "frame_bytes f = [HDLC_FLAG_BYTE] @ body @ [HDLC_FLAG_BYTE]"
  shows "flagged f" and "frame_body f = body"
proof -
  have "hf_length f = length (frame_bytes f)"
    using assms(1) by simp
  then have len: "2 \<le> hf_length f"
    by (simp add: assms(2))
  with frame_bytes_split [OF assms(1)] assms(2) show "flagged f" and "frame_body f = body"
    by (simp_all add: flagged_def)
qed

section \<open>The escape decoder\<close>

lemma hdlc_unescape_loop_escape:
  assumes "ctr + length xs \<le> cap" "cap \<le> length buf"
  shows "\<exists>buf'. hdlc_unescape_loop (concat (map escape xs)) False cap buf ctr = (None, buf', ctr + length xs)
    \<and> length buf' = length buf \<and> drop cap buf' = drop cap buf \<and> take (ctr + length xs) buf' = take ctr buf @ xs"
  using assms
proof (induction xs arbitrary: ctr buf)
  case Nil
  then show ?case by simp
next
  case (Cons x xs)
  have one: "hdlc_unescape_loop (escape x @ bs) False cap buf ctr
      = hdlc_unescape_loop bs False cap (buf[ctr := x]) (Suc ctr)" for bs
    using Cons.prems by (auto simp: escape_def hdlc_consts)
  show ?case
    using Cons.IH [of "Suc ctr" "buf[ctr := x]"] Cons.prems by (simp add: one)
qed

lemma frame_body_nth:
  assumes "frame_wf f"
  shows "map (\<lambda>i. hf_payload f ! i) [1..<hf_length f - 1] = frame_body f"
proof (rule nth_equalityI)
  show "length (map (\<lambda>i. hf_payload f ! i) [1..<hf_length f - 1]) = length (frame_body f)"
    using assms by simp
  fix i assume "i < length (map (\<lambda>i. hf_payload f ! i) [1..<hf_length f - 1])"
  moreover from this have "1 \<le> length (hf_payload f)"
    using assms by (auto simp: frame_wf_def)
  ultimately show "map (\<lambda>i. hf_payload f ! i) [1..<hf_length f - 1] ! i = frame_body f ! i"
    by (simp add: frame_body_def)
qed

lemma c_read_last:
  assumes "frame_wf f" "0 < hf_length f" "hf_length f < 2 ^ 32"
  shows "c_read (hf_payload f) ((hf_length f + (2 ^ 32 - 1)) mod 2 ^ 32) = Some (hf_payload f ! (hf_length f - 1))"
proof -
  have "hf_length f + (2 ^ 32 - 1) = (hf_length f - 1) + 2 ^ 32"
    using assms(2) by simp
  then have "(hf_length f + (2 ^ 32 - 1)) mod 2 ^ 32 = hf_length f - 1"
    using assms(3) by (simp only: mod_add_self2) simp
  then show ?thesis
    using assms(1,2) by (auto simp: c_read_def frame_wf_def)
qed

section \<open>Properties\<close>

text \<open>
  C27.  A frame whose content (payload and CRC) differs from what was encoded in two neighbouring
  bytes, the CRC bytes included, is never accepted: \<open>hdlc_decode\<close> returns false, stores length zero
  and counts one CRC mismatch.
\<close>

theorem hdlc_decode_rejects_corruption:
  assumes "with_crc data = xs @ [a, b] @ ys" "\<not> (a = a' \<and> b = b')"
    and "frame_wf f"
    and "frame_bytes f = [HDLC_FLAG_BYTE] @ padded_bytes lsb (stuff 0 (bytes_bits lsb (xs @ [a', b'] @ ys)))
           @ [HDLC_FLAG_BYTE]"
    and "length data + 2 \<le> cap" "cap \<le> length buf"
  shows "\<exists>buf'. hdlc_decode (Some f) (Some buf) cap (Some l) lsb stats
    = (False, Some buf', Some 0, count_failure Crc_Mismatch stats)"
proof -
  let ?content = "xs @ [a', b'] @ ys"
  have len: "length ?content = length data + 2"
    using arg_cong [OF assms(1), of length] by simp
  have "hdlc_crc16 (with_crc data) = 0"
    unfolding with_crc_def by (rule crc16_residue_zero)
  then have "hdlc_crc16 ?content \<noteq> 0"
    using crc16_two_byte_inject [of xs a b ys a' b'] assms(1,2) by simp
  then have "check_crc_spec ?content = Inl Crc_Mismatch"
    using len by (simp add: check_crc_spec_residue)
  then have "hdlc_decode_spec lsb cap (frame_body f) = Inl Crc_Mismatch"
    unfolding frame_bytes_flagged(2) [OF assms(3,4)] hdlc_decode_spec_stuffed
    using len assms(5) by simp
  then show ?thesis
    using hdlc_decode_run [OF assms(3) frame_bytes_flagged(1) [OF assms(3,4)] _ assms(6), of lsb stats l] assms(5)
    by (auto simp: decode_reports_def)
qed

theorem hdlc_decode_rejects_corruption_witness:
  "\<exists>buf'. hdlc_decode (Some \<lparr>hf_payload = [0x7E, 0xBE, 0xEF, 0x01, 0x00, 0x7E], hf_length = 6, hf_capacity = 6\<rparr>)
       (Some [0, 0, 0]) 3 (Some 9) True hdlc_decode_stats_reset
    = (False, Some buf', Some 0, count_failure Crc_Mismatch hdlc_decode_stats_reset)"
proof (rule hdlc_decode_rejects_corruption [where data = "[0xFF]" and xs = "[]" and a = "0xFF" and b = "0xFF"
      and ys = "[0x00]" and a' = "0xFE" and b' = "0x7F"])
  show "with_crc [0xFF] = [] @ [0xFF, 0xFF] @ [0x00]"
    by code_simp
  show "frame_bytes \<lparr>hf_payload = [0x7E, 0xBE, 0xEF, 0x01, 0x00, 0x7E], hf_length = 6, hf_capacity = 6\<rparr>
      = [HDLC_FLAG_BYTE] @ padded_bytes True (stuff 0 (bytes_bits True ([] @ [0xFE, 0x7F] @ [0x00]))) @ [HDLC_FLAG_BYTE]"
    by code_simp
qed (simp_all add: frame_wf_def)

text \<open>
  C19.  \<open>hdlc_decode\<close>, every branch.  A \<open>NULL\<close> argument, a zero capacity or a frame without its two
  flags is an invalid frame.  Otherwise the outcome is the reference decoding of the bytes between
  the flags: the payload and its length with the counters untouched, or exactly one counter
  incremented and length zero; the buffer is never written beyond \<open>out_capacity\<close>.
\<close>

theorem hdlc_decode_correct:
  assumes "frame_wf f" "cap \<le> length buf"
  shows "hdlc_decode None payload cap len lsb stats = decode_abort Invalid_Frame payload len stats
    \<and> hdlc_decode frame None cap len lsb stats = decode_abort Invalid_Frame None len stats
    \<and> hdlc_decode frame payload cap None lsb stats = decode_abort Invalid_Frame payload None stats
    \<and> decode_reports (if cap = 0 \<or> \<not> flagged f then Inl Invalid_Frame else hdlc_decode_spec lsb cap (frame_body f))
        buf cap stats (hdlc_decode (Some f) (Some buf) cap (Some l) lsb stats)"
proof (intro conjI)
  show "hdlc_decode None payload cap len lsb stats = decode_abort Invalid_Frame payload len stats"
    by (simp add: hdlc_decode_def)
  show "hdlc_decode frame None cap len lsb stats = decode_abort Invalid_Frame None len stats"
    and "hdlc_decode frame payload cap None lsb stats = decode_abort Invalid_Frame payload None stats"
    by (simp_all add: hdlc_decode_def split: option.splits)
  show "decode_reports (if cap = 0 \<or> \<not> flagged f then Inl Invalid_Frame else hdlc_decode_spec lsb cap (frame_body f))
      buf cap stats (hdlc_decode (Some f) (Some buf) cap (Some l) lsb stats)"
  proof (cases "cap = 0 \<or> \<not> flagged f")
    case True
    then have "hdlc_decode (Some f) (Some buf) cap (Some l) lsb stats
        = decode_abort Invalid_Frame (Some buf) (Some l) stats"
      by (auto simp: hdlc_decode_def flagged_def)
    with True show ?thesis
      by (auto simp: decode_reports_def decode_abort_def)
  next
    case False
    then show ?thesis
      using hdlc_decode_run [OF assms(1) _ _ assms(2)] by simp
  qed
qed

theorem hdlc_decode_correct_witness:
  "decode_reports (Inl Unstuff_Error) [0, 0, 0, 0] 4 hdlc_decode_stats_reset
     (hdlc_decode (Some \<lparr>hf_payload = [0x7E, 0xFC, 0x7E], hf_length = 3, hf_capacity = 3\<rparr>)
        (Some [0, 0, 0, 0]) 4 (Some 7) True hdlc_decode_stats_reset)"
proof -
  let ?f = "\<lparr>hf_payload = [0x7E, 0xFC, 0x7E], hf_length = 3, hf_capacity = 3\<rparr>"
  have "hdlc_decode_spec True 4 (frame_body ?f) = Inl Unstuff_Error"
    by code_simp
  moreover have "flagged ?f"
    by (simp add: flagged_def HDLC_FLAG_BYTE_def)
  ultimately show ?thesis
    using hdlc_decode_correct [of ?f 4 "[0, 0, 0, 0]" _ _ _ _ _ 7] by (simp add: frame_wf_def) metis
qed

text \<open>
  C13.  Round trip.  Whatever bytes are encoded, in either bit order, decoding the frame with the
  same bit order returns them, provided the output buffer has two spare bytes for the CRC.
\<close>

theorem hdlc_encode_decode_round_trip:
  assumes "frame_wf f" "hf_length f = 0" "length (hdlc_frame lsb data) \<le> hf_capacity f"
    and "length data + 2 \<le> cap" "cap \<le> length buf"
  shows "\<exists>f' buf'. hdlc_encode (Some data) (length data) (Some f) lsb = (True, Some f')
    \<and> hdlc_decode (Some f') (Some buf) cap (Some l) lsb stats = (True, Some buf', Some (length data), stats)
    \<and> take (length data) buf' = data"
proof -
  have "2 \<le> hf_capacity f"
    using assms(3) length_hdlc_frame_ge_2(1) order_trans by blast
  from hdlc_encode_run [OF assms(1,2) _ this, of "Some data" "length data" lsb] obtain f' where
    f': "hdlc_encode (Some data) (length data) (Some f) lsb = (True, Some f')" "frame_wf f'"
      "frame_bytes f' = hdlc_frame lsb data"
    using assms(3) by (auto simp: payload_bytes_def)
  note fl = frame_bytes_flagged [OF f'(2) f'(3) [unfolded hdlc_frame_def]]
  have "hdlc_decode_spec lsb cap (frame_body f') = Inr data"
    using assms(4) by (simp add: fl(2) hdlc_decode_spec_frame)
  then show ?thesis
    using f'(1) hdlc_decode_run [OF f'(2) fl(1) _ assms(5), of lsb stats l] assms(4)
    by (auto simp: decode_reports_def)
qed

theorem hdlc_encode_decode_round_trip_witness:
  "\<exists>f' buf'. hdlc_encode (Some [0xFF]) 1 (Some (empty_frame 6)) True = (True, Some f')
    \<and> hdlc_decode (Some f') (Some [0, 0, 0]) 3 (Some 0) True hdlc_decode_stats_reset
       = (True, Some buf', Some 1, hdlc_decode_stats_reset)
    \<and> take 1 buf' = [0xFF]"
  using hdlc_encode_decode_round_trip [of "empty_frame 6" True "[0xFF]" 3 "[0, 0, 0]" 0 hdlc_decode_stats_reset]
  by (simp add: hdlc_frame_example)

text \<open>
  Round trip of the byte-escaping compatibility path.
\<close>

lemma hdlc_encode_decode_byte_round_trip:
  assumes "frame_wf f" "hf_length f = 0" "length (hdlc_frame_escaped data) \<le> hf_capacity f"
    and "hf_capacity f < 2 ^ 32" "length data + 2 \<le> cap" "cap \<le> length buf"
  shows "\<exists>f' buf'. hdlc_encode_byte (Some data) (length data) (Some f) = (True, Some f')
    \<and> hdlc_decode_byte (Some f') (Some buf) cap (Some l) stats = Some (True, Some buf', Some (length data), stats)
    \<and> take (length data) buf' = data"
proof -
  have "2 \<le> hf_capacity f"
    using assms(3) length_hdlc_frame_ge_2(2) order_trans by blast
  from hdlc_encode_byte_run [OF assms(1,2) _ this, of "Some data" "length data"] obtain f' where
    f': "hdlc_encode_byte (Some data) (length data) (Some f) = (True, Some f')" "frame_wf f'"
      "frame_bytes f' = hdlc_frame_escaped data" "same_storage f f'"
    using assms(3) by (auto simp: payload_bytes_def)
  note fl = frame_bytes_flagged [OF f'(2) f'(3) [unfolded hdlc_frame_escaped_def]]
  obtain buf' where loop: "hdlc_unescape_loop (frame_body f') False cap buf 0 = (None, buf', length data + 2)"
      "length buf' = length buf" "take (length data + 2) buf' = with_crc data"
    using hdlc_unescape_loop_escape [of 0 "with_crc data" cap buf] assms(5,6) by (auto simp: fl(2))
  then have crc: "hdlc_check_crc buf' (length data + 2) = Inr (length data)" "take (length data) buf' = data"
    using hdlc_check_crc_correct(1) [of "length data + 2" buf']
      hdlc_check_crc_correct(2) [of "length data + 2" buf' data] assms(5,6)
    by (simp_all add: check_crc_spec_with_crc)
  have "0 < hf_length f'" "hf_length f' < 2 ^ 32"
    using f'(2,4) fl(1) assms(4) by (auto simp: flagged_def frame_wf_def same_storage_def)
  note last = c_read_last [OF f'(2) this]
  have "c_read (hf_payload f') 0 = Some HDLC_FLAG_BYTE"
    using f'(2) fl(1) by (auto simp: c_read_def frame_wf_def flagged_def)
  then have "hdlc_decode_byte (Some f') (Some buf) cap (Some l) stats = Some (True, Some buf', Some (length data), stats)"
    using last loop(1) crc(1) assms(5) fl(1)
    by (simp add: hdlc_decode_byte_def frame_body_nth [OF f'(2)] flagged_def del: One_nat_def)
  then show ?thesis
    using f'(1) crc(2) by blast
qed

text \<open>
  Where the escape decoder reads outside the frame: for a well-formed descriptor over less
  than 4 GiB of storage this happens exactly for length zero with a flag in the first byte of the
  storage, since \<open>length - 1\<close> wraps before it is used as an index.
\<close>

lemma hdlc_decode_byte_out_of_bounds:
  assumes "frame_wf f" "hf_payload f \<noteq> []" "length (hf_payload f) < 2 ^ 32"
  shows "hdlc_decode_byte (Some f) (Some buf) cap (Some l) stats = None
    \<longleftrightarrow> cap \<noteq> 0 \<and> hf_payload f ! 0 = HDLC_FLAG_BYTE \<and> hf_length f = 0"
proof -
  have first: "c_read (hf_payload f) 0 = Some (hf_payload f ! 0)"
    using assms(2) by (simp add: c_read_def)
  show ?thesis
  proof (cases "hf_length f = 0")
    case True
    have "c_read (hf_payload f) ((hf_length f + (2 ^ 32 - 1)) mod 2 ^ 32) = None"
      using True assms(3) by (simp add: c_read_def)
    with first show ?thesis
      using True by (simp add: hdlc_decode_byte_def)
  next
    case False
    then have "0 < hf_length f" "hf_length f < 2 ^ 32"
      using assms by (auto simp: frame_wf_def)
    from c_read_last [OF assms(1) this] first show ?thesis
      using False by (auto simp: hdlc_decode_byte_def decode_abort_def Let_def split_beta split: option.splits sum.splits)
  qed
qed

end
