(* ===== verification/Hdlc_Sync.thy ===== *)
theory Hdlc_Sync
  imports Hdlc_Decoder Error_Codes "HOL-Library.Sublist"
begin

text \<open>
  \<open>src/protocol/hdlc_sync.c\<close>: the accumulator that finds HDLC frames in the raw byte stream the
  receiver delivers, whose bit alignment is unknown.  \<open>hdlc_sync_acc_process_byte\<close> appends raw
  bytes, \<open>hdlc_sync_acc_poll\<close> runs the state machine HUNTING, SYNCING, SYNCED over them and reports a
  candidate between two flags, \<open>hdlc_sync_acc_consume_candidate\<close> removes it after the caller has
  accepted or rejected it.

  The accumulator is a record, the frame under construction belongs to the caller and is passed
  along, and the cursor \<open>scan_index\<close> of one poll is explicit.  Searches that return through output
  pointers return an option.  Counters are 32 bit words.

  Shown here: the poll loop terminates; the bounds of the accumulator are kept by every operation;
  a reported candidate is exactly the aligned raw bytes between an opening and a closing flag; how
  much of the raw stream accepting and rejecting a candidate removes.
\<close>

section \<open>State\<close>

definition RX_HDLC_SYNC_MAX_BUFFER_SIZE :: nat where "RX_HDLC_SYNC_MAX_BUFFER_SIZE = 8192"
definition HDLC_SYNC_MIN_FRAME_SIZE_BYTES :: nat where "HDLC_SYNC_MIN_FRAME_SIZE_BYTES = 4"
definition HDLC_SYNC_MAX_REASONABLE_FRAME_SIZE_BYTES :: nat where
  "HDLC_SYNC_MAX_REASONABLE_FRAME_SIZE_BYTES = 2048"
definition HDLC_SYNC_SHORT_BUFFER_SEARCH_LIMIT :: nat where "HDLC_SYNC_SHORT_BUFFER_SEARCH_LIMIT = 64"

lemmas sync_consts = RX_HDLC_SYNC_MAX_BUFFER_SIZE_def HDLC_SYNC_MIN_FRAME_SIZE_BYTES_def
  HDLC_SYNC_MAX_REASONABLE_FRAME_SIZE_BYTES_def HDLC_SYNC_SHORT_BUFFER_SEARCH_LIMIT_def

datatype HDLC_SYNC_STATE_T =
  HDLC_SYNC_STATE_HUNTING | HDLC_SYNC_STATE_SYNCING | HDLC_SYNC_STATE_SYNCED

record HDLC_SYNC_ACCUMULATOR_T =
  sa_buffer :: "byte list"
  sa_position :: nat
  sa_processed :: nat
  sa_candidate_start :: nat
  sa_candidate_end :: nat
  sa_candidate_valid :: bool
  sa_bit_offset :: nat
  sa_align_shift_right :: bool
  sa_state :: HDLC_SYNC_STATE_T
  sa_sync_byte :: byte
  sa_lookahead_wait_syncing :: u32
  sa_lookahead_wait_synced :: u32
  sa_frame_ready_count :: u32
  sa_consume_count :: u32
  sa_hardcap_drop_events :: u32
  sa_hardcap_drop_bytes :: u32

datatype HDLC_SYNC_POLL_STEP_RESULT_T =
  HDLC_SYNC_POLL_STEP_PROGRESS | HDLC_SYNC_POLL_STEP_STOP
| HDLC_SYNC_POLL_STEP_FRAME_READY | HDLC_SYNC_POLL_STEP_ERROR

section \<open>Helpers\<close>

text \<open>\<open>memmove\<close> of the remaining bytes to the front leaves the bytes behind them as they were.\<close>

definition hdlc_sync_drop_prefix :: "HDLC_SYNC_ACCUMULATOR_T \<Rightarrow> nat \<Rightarrow> HDLC_SYNC_ACCUMULATOR_T" where
  "hdlc_sync_drop_prefix acc drop_count =
     (if drop_count = 0 then acc
      else if drop_count \<ge> sa_position acc then acc\<lparr>sa_position := 0, sa_processed := 0\<rparr>
      else let remaining = sa_position acc - drop_count in
        acc\<lparr>sa_buffer := take remaining (drop drop_count (sa_buffer acc)) @ drop remaining (sa_buffer acc),
            sa_position := remaining\<rparr>)"

definition hdlc_sync_reset_hunting_state :: "HDLC_SYNC_ACCUMULATOR_T \<Rightarrow> HDLC_SYNC_ACCUMULATOR_T" where
  "hdlc_sync_reset_hunting_state acc =
     acc\<lparr>sa_processed := 0, sa_candidate_start := 0, sa_candidate_end := 0, sa_candidate_valid := False,
         sa_state := HDLC_SYNC_STATE_HUNTING, sa_bit_offset := 0, sa_align_shift_right := False\<rparr>"

text \<open>The accumulator, the frame under construction and the raw cursor of one poll.\<close>

type_synonym poll_state = "HDLC_SYNC_ACCUMULATOR_T \<times> HDLC_FRAME_T \<times> nat"

definition hdlc_sync_reject_oversized_candidate :: "poll_state \<Rightarrow> poll_state" where
  "hdlc_sync_reject_oversized_candidate = (\<lambda>(acc, frame, scan_index).
     let drop_count = min (sa_candidate_start acc + 1) (sa_position acc)
     in (hdlc_sync_reset_hunting_state (hdlc_sync_drop_prefix acc drop_count), frame\<lparr>hf_length := 0\<rparr>, 0))"

definition hdlc_sync_get_aligned_byte :: "HDLC_SYNC_ACCUMULATOR_T \<Rightarrow> nat \<Rightarrow> nat \<Rightarrow> bool \<Rightarrow> byte option" where
  "hdlc_sync_get_aligned_byte acc raw_index bit_offset shift_right =
     (if raw_index \<ge> sa_position acc \<or> bit_offset \<ge> 8 then None
      else if bit_offset = 0 then Some (sa_buffer acc ! raw_index)
      else if raw_index + 1 \<ge> sa_position acc then None
      else if shift_right
      then Some (drop_bit bit_offset (sa_buffer acc ! raw_index)
                 OR push_bit (8 - bit_offset) (sa_buffer acc ! (raw_index + 1)))
      else Some (push_bit bit_offset (sa_buffer acc ! raw_index)
                 OR drop_bit (8 - bit_offset) (sa_buffer acc ! (raw_index + 1))))"

section \<open>Searching for an opening flag\<close>

text \<open>The alignments in the order the fast search tries them at one raw index.\<close>

definition opening_phases :: "bool \<Rightarrow> (nat \<times> bool) list" where
  "opening_phases allow_left_shift =
     (0, False) # map (\<lambda>bitpos. (bitpos, True)) [1..<8]
     @ (if allow_left_shift then map (\<lambda>bitpos. (bitpos, False)) [1..<8] else [])"

definition is_flag_at :: "HDLC_SYNC_ACCUMULATOR_T \<Rightarrow> nat \<Rightarrow> nat \<times> bool \<Rightarrow> bool" where
  "is_flag_at acc start = (\<lambda>(bitpos, shift_right).
     hdlc_sync_get_aligned_byte acc start bitpos shift_right = Some (sa_sync_byte acc))"

fun find_opening_loop :: "HDLC_SYNC_ACCUMULATOR_T \<Rightarrow> bool \<Rightarrow> nat list \<Rightarrow> (nat \<times> nat \<times> bool) option" where
  "find_opening_loop acc allow_left_shift [] = None"
| "find_opening_loop acc allow_left_shift (start # starts) =
     (case List.find (is_flag_at acc start) (opening_phases allow_left_shift) of
        Some (bitpos, shift_right) \<Rightarrow> Some (start, bitpos, shift_right)
      | None \<Rightarrow> find_opening_loop acc allow_left_shift starts)"

definition hdlc_sync_find_opening_candidate ::
  "HDLC_SYNC_ACCUMULATOR_T \<Rightarrow> nat \<Rightarrow> bool \<Rightarrow> (nat \<times> nat \<times> bool) option" where
  "hdlc_sync_find_opening_candidate acc scan_index allow_left_shift =
     (if sa_position acc < 2 then None
      else let start = (if scan_index > 0 then scan_index - 1 else 0) in
        if start \<ge> sa_position acc - 1 then None
        else find_opening_loop acc allow_left_shift [start..<sa_position acc - 1])"

text \<open>The exhaustive search: all alignments, both directions except for offset zero.\<close>

definition short_phases :: "(nat \<times> bool) list" where
  "short_phases = filter (\<lambda>(bitpos, shift_right). \<not> (bitpos = 0 \<and> shift_right))
     (concat (map (\<lambda>bitpos. [(bitpos, False), (bitpos, True)]) [0..<8]))"

text \<open>Probing forward from an opening flag: the size of the candidate, when a closing flag is found.\<close>

fun probe_closing :: "HDLC_SYNC_ACCUMULATOR_T \<Rightarrow> nat \<times> bool \<Rightarrow> nat list \<Rightarrow> nat \<Rightarrow> nat option" where
  "probe_closing acc phase [] frame_size = None"
| "probe_closing acc phase (probe # probes) frame_size =
     (case hdlc_sync_get_aligned_byte acc probe (fst phase) (snd phase) of
        None \<Rightarrow> None
      | Some probe_byte \<Rightarrow>
          if probe_byte = sa_sync_byte acc \<and> frame_size + 1 \<ge> HDLC_SYNC_MIN_FRAME_SIZE_BYTES
          then Some (frame_size + 1)
          else probe_closing acc phase probes (frame_size + 1))"

type_synonym best_candidate = "(nat \<times> (nat \<times> bool) \<times> nat) option"

definition try_candidate ::
  "HDLC_SYNC_ACCUMULATOR_T \<Rightarrow> nat \<times> nat \<times> bool \<Rightarrow> best_candidate \<Rightarrow> best_candidate" where
  "try_candidate acc = (\<lambda>(start, phase) best.
     if \<not> is_flag_at acc start phase then best
     else (case probe_closing acc phase [start + 1..<sa_position acc] 1 of
             None \<Rightarrow> best
           | Some frame_size \<Rightarrow>
               (case best of
                  None \<Rightarrow> Some (start, phase, frame_size)
                | Some (_, _, best_frame_size) \<Rightarrow>
                    if frame_size > best_frame_size then Some (start, phase, frame_size) else best)))"

definition hdlc_sync_find_complete_candidate_short ::
  "HDLC_SYNC_ACCUMULATOR_T \<Rightarrow> nat \<Rightarrow> (nat \<times> nat \<times> bool) option" where
  "hdlc_sync_find_complete_candidate_short acc scan_index =
     (if sa_position acc < HDLC_SYNC_MIN_FRAME_SIZE_BYTES \<or>
         sa_position acc > HDLC_SYNC_SHORT_BUFFER_SEARCH_LIMIT then None
      else let start = (if scan_index > 0 then scan_index - 1 else 0) in
        if start \<ge> sa_position acc - 1 then None
        else (case fold (try_candidate acc)
                     (List.product [start..<sa_position acc - 1] short_phases) None of
                None \<Rightarrow> None
              | Some (best_start, best_phase, _) \<Rightarrow> Some (best_start, best_phase)))"

section \<open>The steps of a poll\<close>

definition hdlc_sync_step_hunting :: "poll_state \<Rightarrow> HDLC_SYNC_POLL_STEP_RESULT_T \<times> poll_state" where
  "hdlc_sync_step_hunting = (\<lambda>(acc, frame, scan_index).
     let found = (case hdlc_sync_find_complete_candidate_short acc scan_index of
                    Some c \<Rightarrow> Some c
                  | None \<Rightarrow> hdlc_sync_find_opening_candidate acc scan_index False)
     in case found of
          None \<Rightarrow> (HDLC_SYNC_POLL_STEP_STOP, (acc, frame, sa_position acc))
        | Some (start_index, bitpos, shift_dir) \<Rightarrow>
            (HDLC_SYNC_POLL_STEP_PROGRESS,
             (acc\<lparr>sa_state := HDLC_SYNC_STATE_SYNCING, sa_bit_offset := bitpos,
                  sa_align_shift_right := shift_dir, sa_candidate_start := start_index,
                  sa_candidate_valid := False\<rparr>,
              frame\<lparr>hf_length := 1, hf_payload := (hf_payload frame)[0 := sa_sync_byte acc]\<rparr>,
              start_index + 1)))"

text \<open>
  SYNCING and SYNCED read the next aligned byte in the same way.  Either the step ends with it
  (oversized candidate, no byte yet, destination full) or the byte is stored in the frame.
\<close>

definition sync_next_byte ::
  "(HDLC_SYNC_ACCUMULATOR_T \<Rightarrow> HDLC_SYNC_ACCUMULATOR_T) \<Rightarrow> poll_state \<Rightarrow>
   (HDLC_SYNC_POLL_STEP_RESULT_T \<times> e2s_error_t \<times> poll_state) + (byte \<times> poll_state)" where
  "sync_next_byte count_wait = (\<lambda>(acc, frame, scan_index).
     if hf_length frame \<ge> HDLC_SYNC_MAX_REASONABLE_FRAME_SIZE_BYTES
     then Inl (HDLC_SYNC_POLL_STEP_PROGRESS, E2S_OK,
               hdlc_sync_reject_oversized_candidate (acc, frame, scan_index))
     else (case hdlc_sync_get_aligned_byte acc scan_index (sa_bit_offset acc) (sa_align_shift_right acc) of
             None \<Rightarrow> Inl (HDLC_SYNC_POLL_STEP_STOP, E2S_OK,
                          (if sa_bit_offset acc \<noteq> 0 then count_wait acc else acc, frame, scan_index))
           | Some aligned \<Rightarrow>
               if hf_length frame \<ge> hf_capacity frame
               then Inl (HDLC_SYNC_POLL_STEP_ERROR, E2S_ERR_HDLC_DECODE_PAYLOAD_TOO_LONG,
                         (acc\<lparr>sa_state := HDLC_SYNC_STATE_HUNTING, sa_bit_offset := 0\<rparr>,
                          frame\<lparr>hf_length := 0\<rparr>, scan_index))
               else Inr (aligned,
                         (acc, frame\<lparr>hf_payload := (hf_payload frame)[hf_length frame := aligned],
                                     hf_length := hf_length frame + 1\<rparr>, scan_index))))"

definition hdlc_sync_step_syncing ::
  "poll_state \<Rightarrow> HDLC_SYNC_POLL_STEP_RESULT_T \<times> e2s_error_t \<times> poll_state" where
  "hdlc_sync_step_syncing s =
     (case sync_next_byte (\<lambda>acc. acc\<lparr>sa_lookahead_wait_syncing := sa_lookahead_wait_syncing acc + 1\<rparr>) s of
        Inl r \<Rightarrow> r
      | Inr (_, (acc, frame, scan_index)) \<Rightarrow>
          (HDLC_SYNC_POLL_STEP_PROGRESS, E2S_OK,
           (acc\<lparr>sa_state := HDLC_SYNC_STATE_SYNCED\<rparr>, frame, scan_index + 1)))"

definition hdlc_sync_step_synced ::
  "poll_state \<Rightarrow> HDLC_SYNC_POLL_STEP_RESULT_T \<times> e2s_error_t \<times> poll_state" where
  "hdlc_sync_step_synced s =
     (case sync_next_byte (\<lambda>acc. acc\<lparr>sa_lookahead_wait_synced := sa_lookahead_wait_synced acc + 1\<rparr>) s of
        Inl r \<Rightarrow> r
      | Inr (aligned, (acc, frame, scan_index)) \<Rightarrow>
          if aligned \<noteq> sa_sync_byte acc
          then (HDLC_SYNC_POLL_STEP_PROGRESS, E2S_OK, (acc, frame, scan_index + 1))
          else (HDLC_SYNC_POLL_STEP_FRAME_READY, E2S_OK,
                (acc\<lparr>sa_frame_ready_count := sa_frame_ready_count acc + 1,
                     sa_state := HDLC_SYNC_STATE_HUNTING,
                     sa_candidate_end := scan_index + 1,
                     sa_candidate_valid := True,
                     sa_bit_offset := (if sa_align_shift_right acc \<and> sa_bit_offset acc > 0
                                       then 8 - sa_bit_offset acc else sa_bit_offset acc)\<rparr>,
                 frame, scan_index + 1)))"

definition sync_step :: "poll_state \<Rightarrow> HDLC_SYNC_POLL_STEP_RESULT_T \<times> e2s_error_t \<times> poll_state" where
  "sync_step s =
     (case sa_state (fst s) of
        HDLC_SYNC_STATE_HUNTING \<Rightarrow> (let (r, s') = hdlc_sync_step_hunting s in (r, E2S_OK, s'))
      | HDLC_SYNC_STATE_SYNCING \<Rightarrow> hdlc_sync_step_syncing s
      | HDLC_SYNC_STATE_SYNCED \<Rightarrow> hdlc_sync_step_synced s)"

definition hdlc_sync_finalize_poll_no_frame :: "HDLC_SYNC_ACCUMULATOR_T \<Rightarrow> nat \<Rightarrow> HDLC_SYNC_ACCUMULATOR_T" where
  "hdlc_sync_finalize_poll_no_frame acc scan_index =
     (let acc1 = acc\<lparr>sa_processed := scan_index\<rparr> in
      if sa_state acc1 \<noteq> HDLC_SYNC_STATE_HUNTING then acc1
      else let drop_count = min (if sa_processed acc1 > 0 then sa_processed acc1 - 1 else 0) (sa_position acc1)
           in (hdlc_sync_drop_prefix acc1 drop_count)\<lparr>sa_processed := 0\<rparr>)"

section \<open>Bounds of the searches and termination of a poll\<close>

lemma find_opening_loop_in:
  "find_opening_loop acc left starts = Some (start, phase) \<Longrightarrow>
     start \<in> set starts \<and> phase \<in> set (opening_phases left) \<and> is_flag_at acc start phase"
  by (induction starts) (auto split: option.splits simp: find_Some_iff)

lemma hdlc_sync_find_opening_candidate_in:
  assumes "hdlc_sync_find_opening_candidate acc scan left = Some (start, phase)"
  shows "scan - 1 \<le> start \<and> start + 1 < sa_position acc \<and> phase \<in> set (opening_phases left)
    \<and> is_flag_at acc start phase"
proof -
  have "find_opening_loop acc left [scan - 1..<sa_position acc - 1] = Some (start, phase)"
    using assms by (simp add: hdlc_sync_find_opening_candidate_def Let_def split: if_splits)
  from find_opening_loop_in [OF this] show ?thesis
    by auto
qed

lemma try_candidates_in:
  "fold (try_candidate acc) cs best = Some (start, phase, sz) \<Longrightarrow>
     best = Some (start, phase, sz) \<or>
     (start, phase) \<in> set cs \<and> is_flag_at acc start phase \<and>
     probe_closing acc phase [start + 1..<sa_position acc] 1 = Some sz"
proof (induction cs arbitrary: best)
  case Nil
  then show ?case by simp
next
  case (Cons c cs)
  from Cons.IH [of "try_candidate acc c best"] Cons.prems show ?case
    by (auto simp: try_candidate_def split: prod.splits option.splits if_splits)
qed

lemma hdlc_sync_find_complete_candidate_short_in:
  assumes "hdlc_sync_find_complete_candidate_short acc scan = Some (start, phase)"
  shows "scan - 1 \<le> start \<and> start + 1 < sa_position acc \<and> phase \<in> set short_phases
    \<and> is_flag_at acc start phase"
proof -
  obtain sz where "fold (try_candidate acc) (List.product [scan - 1..<sa_position acc - 1] short_phases) None
      = Some (start, phase, sz)"
    using assms
    by (auto simp: hdlc_sync_find_complete_candidate_short_def Let_def split: if_splits option.splits)
  from try_candidates_in [OF this] show ?thesis
    by auto
qed

lemma phases_bound:
  "(off, right) \<in> set (opening_phases left) \<Longrightarrow> off < 8"
  "(off, right) \<in> set short_phases \<Longrightarrow> off < 8"
  by (auto simp: opening_phases_def short_phases_def split: if_splits)

lemma hdlc_sync_step_hunting_cases:
  obtains (stop) "hdlc_sync_step_hunting (acc, frame, scan) = (HDLC_SYNC_POLL_STEP_STOP, (acc, frame, sa_position acc))"
  | (found) start off right where
      "hdlc_sync_step_hunting (acc, frame, scan) = (HDLC_SYNC_POLL_STEP_PROGRESS,
         (acc\<lparr>sa_state := HDLC_SYNC_STATE_SYNCING, sa_bit_offset := off, sa_align_shift_right := right,
              sa_candidate_start := start, sa_candidate_valid := False\<rparr>,
          frame\<lparr>hf_length := 1, hf_payload := (hf_payload frame)[0 := sa_sync_byte acc]\<rparr>, start + 1))"
      "scan - 1 \<le> start" "start + 1 < sa_position acc" "off < 8" "is_flag_at acc start (off, right)"
proof -
  let ?found = "case hdlc_sync_find_complete_candidate_short acc scan of
      Some c \<Rightarrow> Some c | None \<Rightarrow> hdlc_sync_find_opening_candidate acc scan False"
  show thesis
  proof (cases ?found)
    case None
    then show thesis
      using stop by (simp add: hdlc_sync_step_hunting_def)
  next
    case (Some c)
    obtain start off right where c: "c = (start, off, right)"
      by (cases c)
    have "scan - 1 \<le> start \<and> start + 1 < sa_position acc \<and> off < 8 \<and> is_flag_at acc start (off, right)"
      using Some c hdlc_sync_find_complete_candidate_short_in [of acc scan start "(off, right)"]
        hdlc_sync_find_opening_candidate_in [of acc scan False start "(off, right)"]
      by (auto split: option.splits dest: phases_bound)
    then show thesis
      using Some c found by (simp add: hdlc_sync_step_hunting_def)
  qed
qed

lemma hdlc_sync_drop_prefix_position:
  "sa_position (hdlc_sync_drop_prefix acc n) = sa_position acc - n"
  by (simp add: hdlc_sync_drop_prefix_def Let_def)

text \<open>
  Every step that lets the loop continue leaves fewer raw bytes, or moves the cursor forward, or
  leaves HUNTING.
\<close>

definition poll_measure :: "poll_state \<Rightarrow> nat \<times> nat" where
  "poll_measure = (\<lambda>(acc, frame, scan).
     (sa_position acc, 2 * (sa_position acc - scan) + (if sa_state acc = HDLC_SYNC_STATE_HUNTING then 1 else 0)))"

lemma sync_step_progress:
  assumes "sync_step (acc, frame, scan) = (HDLC_SYNC_POLL_STEP_PROGRESS, e, s')" "scan < sa_position acc"
  shows "(poll_measure s', poll_measure (acc, frame, scan)) \<in> less_than <*lex*> less_than"
proof (cases "sa_state acc = HDLC_SYNC_STATE_HUNTING")
  case True
  show ?thesis
    by (rule hdlc_sync_step_hunting_cases [of acc frame scan])
      (use True assms in \<open>auto simp: sync_step_def poll_measure_def\<close>)
next
  case False
  then have eq: "sync_step (acc, frame, scan) = hdlc_sync_step_syncing (acc, frame, scan)
      \<or> sync_step (acc, frame, scan) = hdlc_sync_step_synced (acc, frame, scan)"
    by (cases "sa_state acc") (auto simp: sync_step_def)
  show ?thesis
  proof (cases "hf_length frame \<ge> HDLC_SYNC_MAX_REASONABLE_FRAME_SIZE_BYTES")
    case True
    then have "s' = hdlc_sync_reject_oversized_candidate (acc, frame, scan)"
      using eq assms(1) by (auto simp: hdlc_sync_step_syncing_def hdlc_sync_step_synced_def sync_next_byte_def)
    then show ?thesis
      using assms(2)
      by (auto simp: poll_measure_def hdlc_sync_reject_oversized_candidate_def Let_def
          hdlc_sync_reset_hunting_state_def hdlc_sync_drop_prefix_position)
  next
    case small: False
    obtain acc' frame' where "s' = (acc', frame', scan + 1)" "sa_position acc' = sa_position acc"
      "sa_state acc' \<noteq> HDLC_SYNC_STATE_HUNTING"
      using eq assms(1) small False
      by (auto simp: hdlc_sync_step_syncing_def hdlc_sync_step_synced_def sync_next_byte_def
          split: option.splits if_splits)
    then show ?thesis
      using assms(2) by (simp add: poll_measure_def)
  qed
qed

section \<open>The operations\<close>

text \<open>
  The loop of one poll: the error code when the loop returns from inside, \<open>None\<close> when it stops and
  the poll is finalised.
\<close>

function hdlc_sync_poll_loop :: "poll_state \<Rightarrow> e2s_error_t option \<times> poll_state" where
  "hdlc_sync_poll_loop s =
     (let (acc, frame, scan_index) = s in
      if scan_index < sa_position acc
      then (case sync_step s of
              (HDLC_SYNC_POLL_STEP_PROGRESS, _, s1) \<Rightarrow> hdlc_sync_poll_loop s1
            | (HDLC_SYNC_POLL_STEP_FRAME_READY, _, (acc1, frame1, scan1)) \<Rightarrow>
                (Some E2S_ERR_HDLC_ACC_FRAME_READY, (acc1\<lparr>sa_processed := 0\<rparr>, frame1, scan1))
            | (HDLC_SYNC_POLL_STEP_ERROR, error_code, s1) \<Rightarrow> (Some error_code, s1)
            | (HDLC_SYNC_POLL_STEP_STOP, _, s1) \<Rightarrow> (None, s1))
      else (None, s))"
  by pat_completeness auto
termination
  by (relation "inv_image (less_than <*lex*> less_than) poll_measure") (auto dest: sync_step_progress [OF sym])

declare hdlc_sync_poll_loop.simps [simp del]

definition hdlc_sync_acc_poll ::
  "HDLC_SYNC_ACCUMULATOR_T \<Rightarrow> HDLC_FRAME_T \<Rightarrow> e2s_error_t \<times> HDLC_SYNC_ACCUMULATOR_T \<times> HDLC_FRAME_T" where
  "hdlc_sync_acc_poll acc frame =
     (if hf_payload frame = [] \<or> hf_capacity frame = 0 then (E2S_OK, acc, frame)
      else if sa_position acc = 0 then (E2S_OK, acc, frame)
      else if sa_state acc \<noteq> HDLC_SYNC_STATE_HUNTING \<and> sa_bit_offset acc \<noteq> 0 \<and> sa_position acc < 2
      then (E2S_OK, acc, frame)
      else (case hdlc_sync_poll_loop (acc, frame, sa_processed acc) of
              (Some error_code, (acc1, frame1, _)) \<Rightarrow> (error_code, acc1, frame1)
            | (None, (acc1, frame1, scan_index)) \<Rightarrow>
                (E2S_OK, hdlc_sync_finalize_poll_no_frame acc1 scan_index, frame1)))"

text \<open>\<open>hdlc_sync_acc_init\<close> leaves the raw buffer as it is.\<close>

definition hdlc_sync_acc_init :: "byte list \<Rightarrow> byte \<Rightarrow> HDLC_SYNC_ACCUMULATOR_T" where
  "hdlc_sync_acc_init buffer sync_byte =
     \<lparr>sa_buffer = buffer, sa_position = 0, sa_processed = 0, sa_candidate_start = 0, sa_candidate_end = 0,
      sa_candidate_valid = False, sa_bit_offset = 0, sa_align_shift_right = False,
      sa_state = HDLC_SYNC_STATE_HUNTING, sa_sync_byte = sync_byte, sa_lookahead_wait_syncing = 0,
      sa_lookahead_wait_synced = 0, sa_frame_ready_count = 0, sa_consume_count = 0,
      sa_hardcap_drop_events = 0, sa_hardcap_drop_bytes = 0\<rparr>"

definition hdlc_sync_acc_process_byte :: "HDLC_SYNC_ACCUMULATOR_T \<Rightarrow> byte \<Rightarrow> bool \<times> HDLC_SYNC_ACCUMULATOR_T" where
  "hdlc_sync_acc_process_byte acc b =
     (if sa_position acc \<ge> RX_HDLC_SYNC_MAX_BUFFER_SIZE then (False, acc)
      else (True, acc\<lparr>sa_buffer := (sa_buffer acc)[sa_position acc := b],
                      sa_position := sa_position acc + 1\<rparr>))"

definition hdlc_sync_acc_consume_candidate :: "HDLC_SYNC_ACCUMULATOR_T \<Rightarrow> bool \<Rightarrow> HDLC_SYNC_ACCUMULATOR_T" where
  "hdlc_sync_acc_consume_candidate acc accept =
     (if \<not> sa_candidate_valid acc then acc
      else
        let wanted = (if accept then sa_candidate_end acc else sa_candidate_start acc + 1);
            drop_count = (if wanted > sa_position acc then sa_position acc else wanted);
            acc1 = (if drop_count > 0
                    then hdlc_sync_drop_prefix (acc\<lparr>sa_consume_count := sa_consume_count acc + 1\<rparr>) drop_count
                    else acc);
            acc2 = hdlc_sync_reset_hunting_state acc1
        in if sa_position acc2 \<ge> RX_HDLC_SYNC_MAX_BUFFER_SIZE - 16
           then let cap_drop = sa_position acc2 - 16
                in (hdlc_sync_drop_prefix
                      (acc2\<lparr>sa_hardcap_drop_events := sa_hardcap_drop_events acc2 + 1,
                            sa_hardcap_drop_bytes := sa_hardcap_drop_bytes acc2 + of_nat cap_drop\<rparr>)
                      cap_drop)\<lparr>sa_processed := 0\<rparr>
           else acc2)"

section \<open>The raw stream and its alignments\<close>

definition raw :: "HDLC_SYNC_ACCUMULATOR_T \<Rightarrow> byte list" where
  "raw acc = take (sa_position acc) (sa_buffer acc)"

text \<open>The byte at raw index \<open>i\<close> of a stream read at an alignment.\<close>

definition aligned_at :: "byte list \<Rightarrow> nat \<times> bool \<Rightarrow> nat \<Rightarrow> byte option" where
  "aligned_at bs = (\<lambda>(off, right) i.
     if off = 0 then (if i < length bs then Some (bs ! i) else None)
     else if off < 8 \<and> i + 1 < length bs
     then Some (if right then drop_bit off (bs ! i) OR push_bit (8 - off) (bs ! (i + 1))
                else push_bit off (bs ! i) OR drop_bit (8 - off) (bs ! (i + 1)))
     else None)"

definition acc_ok :: "HDLC_SYNC_ACCUMULATOR_T \<Rightarrow> bool" where
  "acc_ok acc \<longleftrightarrow> length (sa_buffer acc) = RX_HDLC_SYNC_MAX_BUFFER_SIZE
     \<and> sa_position acc \<le> RX_HDLC_SYNC_MAX_BUFFER_SIZE \<and> sa_processed acc \<le> sa_position acc
     \<and> sa_bit_offset acc < 8"

lemma length_raw [simp]: "acc_ok acc \<Longrightarrow> length (raw acc) = sa_position acc"
  by (simp add: raw_def acc_ok_def)

lemma hdlc_sync_get_aligned_byte_raw:
  "acc_ok acc \<Longrightarrow> hdlc_sync_get_aligned_byte acc i off right = aligned_at (raw acc) (off, right) i"
  by (auto simp: hdlc_sync_get_aligned_byte_def aligned_at_def) (auto simp: raw_def acc_ok_def)

lemma is_flag_at_raw:
  "acc_ok acc \<Longrightarrow> is_flag_at acc i phase \<longleftrightarrow> aligned_at (raw acc) phase i = Some (sa_sync_byte acc)"
  by (cases phase) (simp add: is_flag_at_def hdlc_sync_get_aligned_byte_raw)

lemma aligned_at_append: "aligned_at bs phase i = Some b \<Longrightarrow> aligned_at (bs @ ys) phase i = Some b"
  by (auto simp: aligned_at_def nth_append split: if_splits prod.splits)

lemma aligned_at_byte: "off = 0 \<Longrightarrow> i < length bs \<Longrightarrow> aligned_at bs (off, right) i = Some (bs ! i)"
  by (simp add: aligned_at_def)

text \<open>
  A right shift reads a window of the stream of bits sent least significant first, a left shift of
  the stream of bits sent most significant first.
\<close>

lemma aligned_at_window:
  assumes "aligned_at bs (off, right) i = Some b" "off \<noteq> 0"
  shows "byte_bits right b = take 8 (drop (8 * i + off) (bytes_bits right bs))"
proof (rule nth_equalityI)
  have off: "off < 8" "i + 1 < length bs" and
    b: "b = (if right then drop_bit off (bs ! i) OR push_bit (8 - off) (bs ! (i + 1))
             else push_bit off (bs ! i) OR drop_bit (8 - off) (bs ! (i + 1)))"
    using assms by (auto simp: aligned_at_def split: if_splits)
  then show "length (byte_bits right b) = length (take 8 (drop (8 * i + off) (bytes_bits right bs)))"
    by simp
  fix n assume "n < length (byte_bits right b)"
  then have n: "n < 8" by simp
  have "take 8 (drop (8 * i + off) (bytes_bits right bs)) ! n = bytes_bits right bs ! (8 * i + (off + n))"
    using n off by (simp add: add.assoc)
  also have "\<dots> = bit (bs ! (i + (off + n) div 8)) (bit_pos right ((off + n) mod 8))"
    using n off by (subst nth_bytes_bits) auto
  also have "\<dots> = bit b (bit_pos right n)"
  proof (cases "off + n < 8")
    case True
    then show ?thesis
      using n off by (auto simp: b bit_pos_def bit_or_iff bit_push_bit_iff bit_drop_bit_eq add.commute
          dest: bit_imp_le_length)
  next
    case False
    then have "(off + n) div 8 = 1" "(off + n) mod 8 = off + n - 8"
      using n off by (simp_all add: le_div_geq le_mod_geq)
    with False show ?thesis
      using n off by (auto simp: b bit_pos_def bit_or_iff bit_push_bit_iff bit_drop_bit_eq
          add.commute [of n off] dest: bit_imp_le_length)
  qed
  finally show "byte_bits right b ! n = take 8 (drop (8 * i + off) (bytes_bits right bs)) ! n"
    using n by simp
qed

section \<open>What the state machine maintains\<close>

text \<open>
  While a candidate is followed, the frame holds the aligned raw bytes from the opening flag to the
  cursor; only the byte right after the opening flag may be a flag.
\<close>

abbreviation phase_of :: "HDLC_SYNC_ACCUMULATOR_T \<Rightarrow> nat \<times> bool" where
  "phase_of acc \<equiv> (sa_bit_offset acc, sa_align_shift_right acc)"

definition follows ::
  "byte list \<Rightarrow> byte \<Rightarrow> nat \<times> bool \<Rightarrow> nat \<Rightarrow> nat \<Rightarrow> byte list \<Rightarrow> bool" where
  "follows bs flag phase start scan bytes \<longleftrightarrow>
     start < scan \<and> map Some bytes = map (aligned_at bs phase) [start..<scan]
     \<and> bytes ! 0 = flag \<and> flag \<notin> set (drop 2 bytes)"

definition locked :: "poll_state \<Rightarrow> bool" where
  "locked = (\<lambda>(acc, frame, scan).
     sa_state acc \<noteq> HDLC_SYNC_STATE_HUNTING \<longrightarrow>
       follows (raw acc) (sa_sync_byte acc) (phase_of acc) (sa_candidate_start acc) scan (frame_bytes frame)
       \<and> (sa_state acc = HDLC_SYNC_STATE_SYNCING \<longleftrightarrow> scan = sa_candidate_start acc + 1))"

definition poll_inv :: "poll_state \<Rightarrow> bool" where
  "poll_inv = (\<lambda>(acc, frame, scan).
     acc_ok acc \<and> frame_wf frame \<and> 0 < hf_capacity frame \<and> scan \<le> sa_position acc \<and> locked (acc, frame, scan))"

text \<open>The accumulator between two calls, with the frame the caller keeps for it.\<close>

definition sync_inv :: "HDLC_SYNC_ACCUMULATOR_T \<Rightarrow> HDLC_FRAME_T \<Rightarrow> bool" where
  "sync_inv acc frame \<longleftrightarrow> poll_inv (acc, frame, sa_processed acc)"

text \<open>A reported candidate.\<close>

definition candidate_ready :: "HDLC_SYNC_ACCUMULATOR_T \<Rightarrow> HDLC_FRAME_T \<Rightarrow> bool" where
  "candidate_ready acc frame \<longleftrightarrow>
     sa_candidate_valid acc \<and> sa_candidate_end acc \<le> sa_position acc \<and>
     (\<exists>phase. fst phase < 8 \<and> (\<exists>body. frame_bytes frame = body @ [sa_sync_byte acc] \<and> 2 \<le> length body
        \<and> follows (raw acc) (sa_sync_byte acc) phase (sa_candidate_start acc) (sa_candidate_end acc - 1) body
        \<and> aligned_at (raw acc) phase (sa_candidate_end acc - 1) = Some (sa_sync_byte acc)))"

lemma follows_length: "follows bs flag phase start scan bytes \<Longrightarrow> length bytes = scan - start"
  unfolding follows_def by (metis length_map length_upt)

lemma follows_append:
  assumes "follows bs flag phase start scan bytes"
  shows "follows (bs @ ys) flag phase start scan bytes"
proof -
  have "aligned_at (bs @ ys) phase i = aligned_at bs phase i" if "i \<in> set [start..<scan]" for i
  proof -
    have "aligned_at bs phase i \<in> set (map Some bytes)"
      using assms that by (simp add: follows_def)
    then show ?thesis
      using aligned_at_append by (metis (no_types, lifting) imageE list.set_map)
  qed
  then show ?thesis
    using assms unfolding follows_def by (metis (no_types, lifting) map_cong)
qed

lemma follows_snoc:
  assumes "follows bs flag phase start scan bytes" "aligned_at bs phase scan = Some b"
    and "scan = start + 1 \<or> b \<noteq> flag"
  shows "follows bs flag phase start (scan + 1) (bytes @ [b])"
proof -
  have "length bytes = scan - start" "start < scan"
    using assms(1) follows_length [OF assms(1)] by (simp_all add: follows_def)
  then have "(bytes @ [b]) ! 0 = bytes ! 0" "set (drop 2 (bytes @ [b])) \<subseteq> set (drop 2 bytes) \<union> (if scan = start + 1 then {} else {b})"
    by (auto simp: nth_append)
  then show ?thesis
    using assms by (auto simp: follows_def split: if_splits)
qed

lemma follows_opening:
  "aligned_at bs phase start = Some flag \<Longrightarrow> follows bs flag phase start (start + 1) [flag]"
  by (simp add: follows_def)

lemma raw_drop_prefix:
  assumes "acc_ok acc"
  shows "raw (hdlc_sync_drop_prefix acc n) = drop n (raw acc)"
  using assms
  by (auto simp: raw_def hdlc_sync_drop_prefix_def acc_ok_def Let_def drop_take)

lemma drop_prefix_fields [simp]:
  "sa_state (hdlc_sync_drop_prefix acc n) = sa_state acc"
  "sa_sync_byte (hdlc_sync_drop_prefix acc n) = sa_sync_byte acc"
  by (simp_all add: hdlc_sync_drop_prefix_def Let_def)

lemma acc_ok_dropped:
  assumes "acc_ok acc"
  shows "acc_ok ((hdlc_sync_drop_prefix acc n)\<lparr>sa_processed := 0\<rparr>)"
  using assms by (auto simp: acc_ok_def hdlc_sync_drop_prefix_def Let_def)

lemma raw_updates [simp]:
  "raw (acc\<lparr>sa_processed := p\<rparr>) = raw acc"
  "raw (acc\<lparr>sa_state := st\<rparr>) = raw acc"
  "raw (acc\<lparr>sa_bit_offset := off\<rparr>) = raw acc"
  "raw (acc\<lparr>sa_align_shift_right := rt\<rparr>) = raw acc"
  "raw (acc\<lparr>sa_candidate_start := cs\<rparr>) = raw acc"
  "raw (acc\<lparr>sa_candidate_end := ce\<rparr>) = raw acc"
  "raw (acc\<lparr>sa_candidate_valid := v\<rparr>) = raw acc"
  "raw (acc\<lparr>sa_frame_ready_count := frc\<rparr>) = raw acc"
  "raw (acc\<lparr>sa_consume_count := cc\<rparr>) = raw acc"
  "raw (acc\<lparr>sa_lookahead_wait_syncing := ls\<rparr>) = raw acc"
  "raw (acc\<lparr>sa_lookahead_wait_synced := ld\<rparr>) = raw acc"
  "raw (acc\<lparr>sa_hardcap_drop_events := he\<rparr>) = raw acc"
  "raw (acc\<lparr>sa_hardcap_drop_bytes := hb\<rparr>) = raw acc"
  "raw (hdlc_sync_reset_hunting_state acc) = raw acc"
  by (simp_all add: raw_def hdlc_sync_reset_hunting_state_def)

lemma reset_hunting_ok: "acc_ok ((acc)\<lparr>sa_processed := 0\<rparr>) \<Longrightarrow> acc_ok (hdlc_sync_reset_hunting_state acc)"
  by (simp add: acc_ok_def hdlc_sync_reset_hunting_state_def)

lemma reject_oversized:
  assumes "poll_inv s"
  shows "poll_inv (hdlc_sync_reject_oversized_candidate s)"
    and "suffix (raw (fst (hdlc_sync_reject_oversized_candidate s))) (raw (fst s))"
proof -
  obtain acc frame scan where s: "s = (acc, frame, scan)"
    by (cases s)
  have "acc_ok acc"
    using assms by (simp add: s poll_inv_def)
  then show "poll_inv (hdlc_sync_reject_oversized_candidate s)"
    using assms reset_hunting_ok [OF acc_ok_dropped [of acc]]
    by (simp add: s hdlc_sync_reject_oversized_candidate_def Let_def poll_inv_def locked_def frame_wf_def)
      (simp add: hdlc_sync_reset_hunting_state_def)
  show "suffix (raw (fst (hdlc_sync_reject_oversized_candidate s))) (raw (fst s))"
    using \<open>acc_ok acc\<close>
    by (simp add: s hdlc_sync_reject_oversized_candidate_def Let_def raw_drop_prefix suffix_drop)
qed

text \<open>Reading the next aligned byte of a followed candidate.\<close>

lemma sync_next_byte_cases:
  assumes inv: "poll_inv (acc, frame, scan)" and sync: "sa_state acc \<noteq> HDLC_SYNC_STATE_HUNTING"
  obtains (oversized) "sync_next_byte cw (acc, frame, scan) = Inl (HDLC_SYNC_POLL_STEP_PROGRESS, E2S_OK,
      hdlc_sync_reject_oversized_candidate (acc, frame, scan))"
  | (wait) "sync_next_byte cw (acc, frame, scan) = Inl (HDLC_SYNC_POLL_STEP_STOP, E2S_OK,
      (if sa_bit_offset acc \<noteq> 0 then cw acc else acc, frame, scan))"
  | (full) "sync_next_byte cw (acc, frame, scan) = Inl (HDLC_SYNC_POLL_STEP_ERROR,
      E2S_ERR_HDLC_DECODE_PAYLOAD_TOO_LONG,
      (acc\<lparr>sa_state := HDLC_SYNC_STATE_HUNTING, sa_bit_offset := 0\<rparr>, frame\<lparr>hf_length := 0\<rparr>, scan))"
  | (stored) b frame' where "sync_next_byte cw (acc, frame, scan) = Inr (b, (acc, frame', scan))"
      "aligned_at (raw acc) (phase_of acc) scan = Some b" "scan < sa_position acc"
      "frame_wf frame'" "hf_capacity frame' = hf_capacity frame" "frame_bytes frame' = frame_bytes frame @ [b]"
proof -
  have ok: "acc_ok acc" and wf: "frame_wf frame"
    using inv by (simp_all add: poll_inv_def)
  consider "hf_length frame \<ge> HDLC_SYNC_MAX_REASONABLE_FRAME_SIZE_BYTES"
    | "hf_length frame < HDLC_SYNC_MAX_REASONABLE_FRAME_SIZE_BYTES" "aligned_at (raw acc) (phase_of acc) scan = None"
    | b where "hf_length frame < HDLC_SYNC_MAX_REASONABLE_FRAME_SIZE_BYTES"
        "aligned_at (raw acc) (phase_of acc) scan = Some b" "hf_length frame \<ge> hf_capacity frame"
    | b where "hf_length frame < HDLC_SYNC_MAX_REASONABLE_FRAME_SIZE_BYTES"
        "aligned_at (raw acc) (phase_of acc) scan = Some b" "hf_length frame < hf_capacity frame"
    using not_less by blast
  then show thesis
  proof cases
    case 1
    then show thesis using oversized by (simp add: sync_next_byte_def)
  next
    case 2
    then show thesis using wait by (simp add: sync_next_byte_def hdlc_sync_get_aligned_byte_raw [OF ok])
  next
    case 3
    then show thesis using full by (simp add: sync_next_byte_def hdlc_sync_get_aligned_byte_raw [OF ok])
  next
    case (4 b)
    have "scan < length (raw acc)"
      using 4(2) by (auto simp: aligned_at_def split: if_splits)
    moreover have "hf_length frame < length (hf_payload frame)"
      using 4(3) wf by (simp add: frame_wf_def)
    ultimately show thesis
      using 4 ok wf
      by (intro stored [of b "frame\<lparr>hf_payload := (hf_payload frame)[hf_length frame := b],
            hf_length := hf_length frame + 1\<rparr>"])
        (simp_all add: sync_next_byte_def hdlc_sync_get_aligned_byte_raw frame_wf_def frame_bytes_def)
  qed
qed

text \<open>One step of the poll loop.\<close>

definition step_post :: "poll_state \<Rightarrow> HDLC_SYNC_POLL_STEP_RESULT_T \<times> e2s_error_t \<times> poll_state \<Rightarrow> bool" where
  "step_post s = (\<lambda>(r, e, s').
     poll_inv s' \<and> suffix (raw (fst s')) (raw (fst s)) \<and> hf_capacity (fst (snd s')) = hf_capacity (fst (snd s)) \<and>
     sa_sync_byte (fst s') = sa_sync_byte (fst s) \<and>
     (r = HDLC_SYNC_POLL_STEP_ERROR \<longrightarrow> e = E2S_ERR_HDLC_DECODE_PAYLOAD_TOO_LONG
        \<and> sa_state (fst s') = HDLC_SYNC_STATE_HUNTING) \<and>
     (r = HDLC_SYNC_POLL_STEP_FRAME_READY \<longrightarrow> sa_state (fst s') = HDLC_SYNC_STATE_HUNTING
        \<and> candidate_ready (fst s') (fst (snd s'))))"

lemma step_hunting_post:
  assumes inv: "poll_inv (acc, frame, scan)" and hunting: "sa_state acc = HDLC_SYNC_STATE_HUNTING"
  shows "step_post (acc, frame, scan) (let (r, s') = hdlc_sync_step_hunting (acc, frame, scan) in (r, E2S_OK, s'))"
  using hdlc_sync_step_hunting_cases [of acc frame scan]
proof cases
  case stop
  then show ?thesis
    using inv hunting by (simp add: step_post_def poll_inv_def locked_def)
next
  case (found start off right)
  have ok: "acc_ok acc" and "frame_wf frame" "0 < hf_capacity frame"
    using inv by (simp_all add: poll_inv_def)
  let ?frame = "frame\<lparr>hf_length := 1, hf_payload := (hf_payload frame)[0 := sa_sync_byte acc]\<rparr>"
  have frame: "frame_wf ?frame" "frame_bytes ?frame = [sa_sync_byte acc]"
    using \<open>frame_wf frame\<close> \<open>0 < hf_capacity frame\<close>
    by (cases "hf_payload frame"; auto simp: frame_wf_def frame_bytes_def)+
  have "follows (raw acc) (sa_sync_byte acc) (off, right) start (start + 1) [sa_sync_byte acc]"
    using found(5) follows_opening by (simp add: is_flag_at_raw [OF ok])
  moreover have "acc_ok (acc\<lparr>sa_state := HDLC_SYNC_STATE_SYNCING, sa_bit_offset := off,
      sa_align_shift_right := right, sa_candidate_start := start, sa_candidate_valid := False\<rparr>)"
    using ok found(4) by (simp add: acc_ok_def)
  ultimately show ?thesis
    using found(1-3) frame \<open>0 < hf_capacity frame\<close> by (simp add: step_post_def poll_inv_def locked_def)
qed

lemma step_Inl_post:
  assumes inv: "poll_inv (acc, frame, scan)" and sync: "sa_state acc \<noteq> HDLC_SYNC_STATE_HUNTING"
    and step: "sync_next_byte cw (acc, frame, scan) = Inl r"
    and cw: "\<And>a. raw (cw a) = raw a" "\<And>a. acc_ok (cw a) = acc_ok a" "\<And>a. phase_of (cw a) = phase_of a"
      "\<And>a. sa_state (cw a) = sa_state a" "\<And>a. sa_candidate_start (cw a) = sa_candidate_start a"
      "\<And>a. sa_sync_byte (cw a) = sa_sync_byte a" "\<And>a. sa_position (cw a) = sa_position a"
  shows "step_post (acc, frame, scan) r"
  using inv sync
proof (cases rule: sync_next_byte_cases [of acc frame scan cw])
  case oversized
  then show ?thesis
    using step reject_oversized [OF inv]
    by (auto simp: step_post_def hdlc_sync_reject_oversized_candidate_def hdlc_sync_reset_hunting_state_def
        hdlc_sync_drop_prefix_def Let_def)
next
  case wait
  then have "r = (HDLC_SYNC_POLL_STEP_STOP, E2S_OK, (if sa_bit_offset acc \<noteq> 0 then cw acc else acc, frame, scan))"
    using step by simp
  then show ?thesis
    using inv cw by (cases "sa_bit_offset acc = 0") (auto simp: step_post_def poll_inv_def locked_def)
next
  case full
  then show ?thesis
    using step inv by (auto simp: step_post_def poll_inv_def locked_def acc_ok_def frame_wf_def)
next
  case stored
  then show ?thesis
    using step by simp
qed

lemma step_syncing_post:
  assumes inv: "poll_inv (acc, frame, scan)" and sync: "sa_state acc = HDLC_SYNC_STATE_SYNCING"
  shows "step_post (acc, frame, scan) (hdlc_sync_step_syncing (acc, frame, scan))"
proof -
  let ?cw = "\<lambda>acc. acc\<lparr>sa_lookahead_wait_syncing := sa_lookahead_wait_syncing acc + 1\<rparr>"
  show ?thesis
  proof (cases "sync_next_byte ?cw (acc, frame, scan)")
    case (Inl r)
    then show ?thesis
      using step_Inl_post [OF inv _ Inl] sync by (simp add: hdlc_sync_step_syncing_def acc_ok_def)
  next
    case Inr
    have lock: "follows (raw acc) (sa_sync_byte acc) (phase_of acc) (sa_candidate_start acc) scan (frame_bytes frame)"
      "scan = sa_candidate_start acc + 1"
      using inv sync by (auto simp: poll_inv_def locked_def)
    have "sa_state acc \<noteq> HDLC_SYNC_STATE_HUNTING"
      using sync by simp
    with inv show ?thesis
    proof (cases rule: sync_next_byte_cases [of acc frame scan ?cw])
      case (stored b frame')
      then have "follows (raw acc) (sa_sync_byte acc) (phase_of acc) (sa_candidate_start acc) (scan + 1) (frame_bytes frame')"
        using follows_snoc [OF lock(1), of b] lock(2) by simp
      then show ?thesis
        using stored inv lock(2)
        by (simp add: hdlc_sync_step_syncing_def step_post_def poll_inv_def locked_def acc_ok_def)
    qed (use Inr sync in simp_all)
  qed
qed

lemma step_synced_post:
  assumes inv: "poll_inv (acc, frame, scan)" and sync: "sa_state acc = HDLC_SYNC_STATE_SYNCED"
  shows "step_post (acc, frame, scan) (hdlc_sync_step_synced (acc, frame, scan))"
proof -
  let ?cw = "\<lambda>acc. acc\<lparr>sa_lookahead_wait_synced := sa_lookahead_wait_synced acc + 1\<rparr>"
  show ?thesis
  proof (cases "sync_next_byte ?cw (acc, frame, scan)")
    case (Inl r)
    then show ?thesis
      using step_Inl_post [OF inv _ Inl] sync by (simp add: hdlc_sync_step_synced_def acc_ok_def)
  next
    case Inr
    have lock: "follows (raw acc) (sa_sync_byte acc) (phase_of acc) (sa_candidate_start acc) scan (frame_bytes frame)"
      "scan \<noteq> sa_candidate_start acc + 1"
      using inv sync by (simp_all add: poll_inv_def locked_def)
    have len: "2 \<le> length (frame_bytes frame)"
      using follows_length [OF lock(1)] lock by (auto simp: follows_def)
    have "sa_state acc \<noteq> HDLC_SYNC_STATE_HUNTING"
      using sync by simp
    with inv show ?thesis
    proof (cases rule: sync_next_byte_cases [of acc frame scan ?cw])
      case (stored b frame')
      show ?thesis
      proof (cases "b = sa_sync_byte acc")
        case False
        then have "follows (raw acc) (sa_sync_byte acc) (phase_of acc) (sa_candidate_start acc) (scan + 1) (frame_bytes frame')"
          using follows_snoc [OF lock(1) stored(2)] stored(6) by simp
        moreover have "sa_candidate_start acc < scan"
          using lock by (simp add: follows_def)
        ultimately show ?thesis
          using stored inv lock(2) False sync
          by (simp add: hdlc_sync_step_synced_def step_post_def poll_inv_def locked_def)
      next
        case True
        let ?acc = "acc\<lparr>sa_frame_ready_count := sa_frame_ready_count acc + 1,
            sa_state := HDLC_SYNC_STATE_HUNTING, sa_candidate_end := scan + 1, sa_candidate_valid := True,
            sa_bit_offset := (if sa_align_shift_right acc \<and> sa_bit_offset acc > 0
              then 8 - sa_bit_offset acc else sa_bit_offset acc)\<rparr>"
        have "fst (phase_of acc) < 8"
          using inv by (simp add: poll_inv_def acc_ok_def)
        then have "candidate_ready ?acc frame'"
          unfolding candidate_ready_def using stored lock(1) len True
          by (intro conjI exI [of _ "phase_of acc"] exI [of _ "frame_bytes frame"]) simp_all
        moreover have "acc_ok ?acc"
          using inv by (simp add: poll_inv_def acc_ok_def)
        ultimately show ?thesis
          using stored inv True
          by (simp add: hdlc_sync_step_synced_def step_post_def poll_inv_def locked_def)
      qed
    qed (use Inr sync in simp_all)
  qed
qed

lemma sync_step_post:
  assumes "poll_inv s"
  shows "step_post s (sync_step s)"
  using assms step_hunting_post step_syncing_post step_synced_post
  by (cases s; cases "sa_state (fst s)") (simp_all add: sync_step_def)

section \<open>The operations keep the invariant\<close>

definition loop_post :: "poll_state \<Rightarrow> e2s_error_t option \<times> poll_state \<Rightarrow> bool" where
  "loop_post s = (\<lambda>(r, s').
     poll_inv s' \<and> suffix (raw (fst s')) (raw (fst s)) \<and> hf_capacity (fst (snd s')) = hf_capacity (fst (snd s)) \<and>
     sa_sync_byte (fst s') = sa_sync_byte (fst s) \<and>
     (case r of None \<Rightarrow> True
      | Some e \<Rightarrow> sa_state (fst s') = HDLC_SYNC_STATE_HUNTING \<and>
          (e = E2S_ERR_HDLC_ACC_FRAME_READY \<and> candidate_ready (fst s') (fst (snd s'))
           \<or> e = E2S_ERR_HDLC_DECODE_PAYLOAD_TOO_LONG)))"

lemma candidate_ready_processed: "candidate_ready (acc\<lparr>sa_processed := p\<rparr>) frame = candidate_ready acc frame"
  by (simp add: candidate_ready_def)

lemma hdlc_sync_poll_loop_post: "poll_inv s \<Longrightarrow> loop_post s (hdlc_sync_poll_loop s)"
proof (induction s rule: hdlc_sync_poll_loop.induct)
  case (1 s)
  obtain acc frame scan where s: "s = (acc, frame, scan)"
    by (cases s)
  show ?case
  proof (cases "scan < sa_position acc")
    case False
    then show ?thesis
      using "1.prems" by (simp add: hdlc_sync_poll_loop.simps [of "(acc, frame, scan)"] s loop_post_def)
  next
    case True
    obtain r e s1 where step: "sync_step s = (r, e, s1)"
      by (metis prod_cases3)
    have post: "step_post s (r, e, s1)"
      using sync_step_post [OF "1.prems"] by (simp add: step)
    show ?thesis
    proof (cases r)
      case HDLC_SYNC_POLL_STEP_PROGRESS
      have "poll_inv s1"
        using post by (simp add: step_post_def)
      from "1.IH" [OF refl s [symmetric] refl True step [symmetric] HDLC_SYNC_POLL_STEP_PROGRESS refl this]
      have "loop_post s1 (hdlc_sync_poll_loop s1)" .
      moreover have "hdlc_sync_poll_loop s = hdlc_sync_poll_loop s1"
        using True step HDLC_SYNC_POLL_STEP_PROGRESS by (simp add: hdlc_sync_poll_loop.simps [of "(acc, frame, scan)"] s)
      ultimately show ?thesis
        using post by (auto simp: loop_post_def step_post_def split: prod.splits
            intro: suffix_order.trans)
    next
      case HDLC_SYNC_POLL_STEP_FRAME_READY
      obtain acc1 frame1 scan1 where "s1 = (acc1, frame1, scan1)"
        by (cases s1)
      moreover from this have "hdlc_sync_poll_loop s
          = (Some E2S_ERR_HDLC_ACC_FRAME_READY, (acc1\<lparr>sa_processed := 0\<rparr>, frame1, scan1))"
        using True step HDLC_SYNC_POLL_STEP_FRAME_READY by (simp add: hdlc_sync_poll_loop.simps [of "(acc, frame, scan)"] s)
      ultimately show ?thesis
        using post HDLC_SYNC_POLL_STEP_FRAME_READY
        by (simp add: loop_post_def step_post_def poll_inv_def locked_def acc_ok_def candidate_ready_processed)
    next
      case HDLC_SYNC_POLL_STEP_ERROR
      then show ?thesis
        using post True step by (auto simp: hdlc_sync_poll_loop.simps [of "(acc, frame, scan)"] s loop_post_def step_post_def)
    next
      case HDLC_SYNC_POLL_STEP_STOP
      then show ?thesis
        using post True step by (auto simp: hdlc_sync_poll_loop.simps [of "(acc, frame, scan)"] s loop_post_def step_post_def)
    qed
  qed
qed

lemma finalize_inv:
  assumes "poll_inv (acc, frame, scan)"
  shows "sync_inv (hdlc_sync_finalize_poll_no_frame acc scan) frame"
    and "suffix (raw (hdlc_sync_finalize_poll_no_frame acc scan)) (raw acc)"
proof -
  have ok: "acc_ok (acc\<lparr>sa_processed := scan\<rparr>)"
    using assms by (simp add: poll_inv_def acc_ok_def)
  show "sync_inv (hdlc_sync_finalize_poll_no_frame acc scan) frame"
    using assms ok acc_ok_dropped [OF ok]
    by (cases "sa_state acc = HDLC_SYNC_STATE_HUNTING")
      (simp_all add: hdlc_sync_finalize_poll_no_frame_def sync_inv_def poll_inv_def locked_def Let_def)
  show "suffix (raw (hdlc_sync_finalize_poll_no_frame acc scan)) (raw acc)"
    using ok by (simp add: hdlc_sync_finalize_poll_no_frame_def Let_def raw_drop_prefix suffix_drop)
qed

lemma hdlc_sync_acc_poll_post:
  assumes "sync_inv acc frame" "hdlc_sync_acc_poll acc frame = (e, acc', frame')"
  shows "sync_inv acc' frame'" "suffix (raw acc') (raw acc)"
    "e = E2S_OK \<or> e = E2S_ERR_HDLC_DECODE_PAYLOAD_TOO_LONG \<and> sa_state acc' = HDLC_SYNC_STATE_HUNTING
      \<or> e = E2S_ERR_HDLC_ACC_FRAME_READY \<and> candidate_ready acc' frame'"
proof -
  have inv: "poll_inv (acc, frame, sa_processed acc)"
    using assms(1) by (simp add: sync_inv_def)
  obtain r acc1 frame1 scan1 where loop: "hdlc_sync_poll_loop (acc, frame, sa_processed acc) = (r, (acc1, frame1, scan1))"
    by (metis prod_cases4)
  have post: "loop_post (acc, frame, sa_processed acc) (r, (acc1, frame1, scan1))"
    using hdlc_sync_poll_loop_post [OF inv] by (simp add: loop)
  consider "e = E2S_OK" "acc' = acc" "frame' = frame"
    | "r = None" "e = E2S_OK" "acc' = hdlc_sync_finalize_poll_no_frame acc1 scan1" "frame' = frame1"
    | "r = Some e" "acc' = acc1" "frame' = frame1"
    using assms(2) loop by (auto simp: hdlc_sync_acc_poll_def split: if_splits option.splits)
  then have "sync_inv acc' frame' \<and> suffix (raw acc') (raw acc) \<and>
      (e = E2S_OK \<or> e = E2S_ERR_HDLC_DECODE_PAYLOAD_TOO_LONG \<and> sa_state acc' = HDLC_SYNC_STATE_HUNTING
      \<or> e = E2S_ERR_HDLC_ACC_FRAME_READY \<and> candidate_ready acc' frame')"
  proof cases
    case 1
    then show ?thesis using assms(1) by simp
  next
    case 2
    then show ?thesis
      using post finalize_inv [of acc1 frame1 scan1] by (auto simp: loop_post_def intro: suffix_order.trans)
  next
    case 3
    then show ?thesis
      using post by (auto simp: loop_post_def sync_inv_def poll_inv_def locked_def acc_ok_def)
  qed
  then show "sync_inv acc' frame'" "suffix (raw acc') (raw acc)"
    "e = E2S_OK \<or> e = E2S_ERR_HDLC_DECODE_PAYLOAD_TOO_LONG \<and> sa_state acc' = HDLC_SYNC_STATE_HUNTING
      \<or> e = E2S_ERR_HDLC_ACC_FRAME_READY \<and> candidate_ready acc' frame'"
    by blast+
qed

lemma hdlc_sync_acc_init_inv:
  assumes "length buffer = RX_HDLC_SYNC_MAX_BUFFER_SIZE" "frame_wf frame" "0 < hf_capacity frame"
  shows "sync_inv (hdlc_sync_acc_init buffer flag) frame" "raw (hdlc_sync_acc_init buffer flag) = []"
  using assms by (simp_all add: sync_inv_def poll_inv_def locked_def acc_ok_def hdlc_sync_acc_init_def raw_def)

lemma process_byte_raw:
  assumes "acc_ok acc" "sa_position acc < RX_HDLC_SYNC_MAX_BUFFER_SIZE"
  shows "raw (snd (hdlc_sync_acc_process_byte acc b)) = raw acc @ [b]"
  using assms by (simp add: hdlc_sync_acc_process_byte_def raw_def acc_ok_def)

lemma process_byte_inv:
  assumes "sync_inv acc frame"
  shows "sync_inv (snd (hdlc_sync_acc_process_byte acc b)) frame"
proof (cases "sa_position acc < RX_HDLC_SYNC_MAX_BUFFER_SIZE")
  case False
  then show ?thesis
    using assms by (simp add: hdlc_sync_acc_process_byte_def)
next
  case True
  let ?acc = "snd (hdlc_sync_acc_process_byte acc b)"
  have ok: "acc_ok acc"
    using assms by (simp add: sync_inv_def poll_inv_def)
  have "acc_ok ?acc"
    using ok True by (simp add: acc_ok_def hdlc_sync_acc_process_byte_def)
  moreover have "raw ?acc = raw acc @ [b]"
    using process_byte_raw [OF ok True] .
  ultimately show ?thesis
    using assms True follows_append
    by (auto simp: sync_inv_def poll_inv_def locked_def) (auto simp: hdlc_sync_acc_process_byte_def)
qed

text \<open>Consuming a candidate cuts the raw stream, and cuts it to 16 bytes when it is nearly full.\<close>

lemma consume_candidate_raw:
  fixes accept :: bool
  assumes "acc_ok acc" "sa_candidate_valid acc"
  defines "rest \<equiv> drop (if accept then sa_candidate_end acc else sa_candidate_start acc + 1) (raw acc)"
  shows "raw (hdlc_sync_acc_consume_candidate acc accept) =
      (if length rest \<ge> RX_HDLC_SYNC_MAX_BUFFER_SIZE - 16 then drop (length rest - 16) rest else rest)"
    and "acc_ok (hdlc_sync_acc_consume_candidate acc accept)"
    and "sa_state (hdlc_sync_acc_consume_candidate acc accept) = HDLC_SYNC_STATE_HUNTING"
    and "\<not> sa_candidate_valid (hdlc_sync_acc_consume_candidate acc accept)"
    and "sa_processed (hdlc_sync_acc_consume_candidate acc accept) = 0"
    and "sa_sync_byte (hdlc_sync_acc_consume_candidate acc accept) = sa_sync_byte acc"
proof -
  define n where "n = (if accept then sa_candidate_end acc else sa_candidate_start acc + 1)"
  define m where "m = (if n > sa_position acc then sa_position acc else n)"
  define acc1 where "acc1 = (if m > 0
      then hdlc_sync_drop_prefix (acc\<lparr>sa_consume_count := sa_consume_count acc + 1\<rparr>) m else acc)"
  define acc2 where "acc2 = hdlc_sync_reset_hunting_state acc1"
  define acc3 where "acc3 = acc2\<lparr>sa_hardcap_drop_events := sa_hardcap_drop_events acc2 + 1,
      sa_hardcap_drop_bytes := sa_hardcap_drop_bytes acc2 + of_nat (sa_position acc2 - 16)\<rparr>"
  have run: "hdlc_sync_acc_consume_candidate acc accept =
      (if sa_position acc2 \<ge> RX_HDLC_SYNC_MAX_BUFFER_SIZE - 16
       then (hdlc_sync_drop_prefix acc3 (sa_position acc2 - 16))\<lparr>sa_processed := 0\<rparr> else acc2)"
    using assms(2)
    by (simp add: hdlc_sync_acc_consume_candidate_def Let_def n_def m_def acc1_def acc2_def acc3_def)
  have ok': "acc_ok (acc\<lparr>sa_consume_count := sa_consume_count acc + 1\<rparr>)"
    using assms(1) by (simp add: acc_ok_def)
  have "acc_ok (acc1\<lparr>sa_processed := 0\<rparr>)"
    using acc_ok_dropped [OF ok', of m] assms(1) by (simp add: acc1_def acc_ok_def)
  then have ok2: "acc_ok acc2"
    unfolding acc2_def by (rule reset_hunting_ok)
  then have ok3: "acc_ok acc3"
    by (simp add: acc3_def acc_ok_def)
  have "drop m (raw acc) = drop n (raw acc)"
    using assms(1) by (simp add: m_def)
  then have raw2: "raw acc2 = rest"
    using raw_drop_prefix [OF ok', of m] by (auto simp: acc2_def acc1_def rest_def n_def)
  then have len: "sa_position acc2 = length rest"
    using ok2 length_raw by metis
  have raw3: "raw acc3 = rest"
    using raw2 by (simp add: acc3_def)
  show "raw (hdlc_sync_acc_consume_candidate acc accept) =
      (if length rest \<ge> RX_HDLC_SYNC_MAX_BUFFER_SIZE - 16 then drop (length rest - 16) rest else rest)"
    using raw_drop_prefix [OF ok3] by (simp add: run raw2 raw3 len)
  show "acc_ok (hdlc_sync_acc_consume_candidate acc accept)"
    using ok2 acc_ok_dropped [OF ok3] by (simp add: run)
  have fields: "sa_state acc2 = HDLC_SYNC_STATE_HUNTING" "\<not> sa_candidate_valid acc2" "sa_processed acc2 = 0"
    "sa_sync_byte acc2 = sa_sync_byte acc"
    by (simp_all add: acc2_def acc1_def hdlc_sync_reset_hunting_state_def hdlc_sync_drop_prefix_def Let_def)
  then show "sa_state (hdlc_sync_acc_consume_candidate acc accept) = HDLC_SYNC_STATE_HUNTING"
    and "\<not> sa_candidate_valid (hdlc_sync_acc_consume_candidate acc accept)"
    and "sa_processed (hdlc_sync_acc_consume_candidate acc accept) = 0"
    and "sa_sync_byte (hdlc_sync_acc_consume_candidate acc accept) = sa_sync_byte acc"
    by (simp_all add: run acc3_def hdlc_sync_drop_prefix_def Let_def)
qed

lemma consume_candidate_inv:
  assumes "sync_inv acc frame"
  shows "sync_inv (hdlc_sync_acc_consume_candidate acc accept) frame"
proof (cases "sa_candidate_valid acc")
  case False
  then show ?thesis
    using assms by (simp add: hdlc_sync_acc_consume_candidate_def)
next
  case True
  then show ?thesis
    using assms consume_candidate_raw [OF _ True, of accept]
    by (auto simp: sync_inv_def poll_inv_def locked_def)
qed

section \<open>Properties\<close>

text \<open>
  C22.  The accumulator invariant.  After initialisation, and under every interleaving of appending
  raw bytes, polling and consuming candidates, the cursors stay inside the 8192 byte buffer and the
  frame under construction is the aligned raw bytes from the opening flag to the cursor.
\<close>

theorem hdlc_sync_invariant:
  assumes "length buffer = RX_HDLC_SYNC_MAX_BUFFER_SIZE" "frame_wf frame0" "0 < hf_capacity frame0"
    and "sync_inv acc frame"
  shows "sync_inv (hdlc_sync_acc_init buffer flag) frame0
    \<and> sync_inv (snd (hdlc_sync_acc_process_byte acc b)) frame
    \<and> (case hdlc_sync_acc_poll acc frame of (e, acc', frame') \<Rightarrow> sync_inv acc' frame')
    \<and> sync_inv (hdlc_sync_acc_consume_candidate acc accept) frame"
  using hdlc_sync_acc_init_inv(1) [OF assms(1-3)] process_byte_inv [OF assms(4)]
    hdlc_sync_acc_poll_post(1) [OF assms(4)] consume_candidate_inv [OF assms(4)]
  by (auto split: prod.splits)

theorem hdlc_sync_invariant_witness:
  "sync_inv (snd (hdlc_sync_acc_process_byte (hdlc_sync_acc_init (replicate 8192 0) 0x7E) 0x7E)) (empty_frame 2048)"
  using hdlc_sync_invariant [of "replicate 8192 0" "empty_frame 2048" "hdlc_sync_acc_init (replicate 8192 0) 0x7E"
      "empty_frame 2048" "0x7E" "0x7E" True]
    hdlc_sync_acc_init_inv(1) [of "replicate 8192 0" "empty_frame 2048" "0x7E"]
  by (simp add: RX_HDLC_SYNC_MAX_BUFFER_SIZE_def)

text \<open>
  C21.  What a poll reports.  It ends, with one of three codes: nothing yet, candidate ready, or the
  destination frame was too small.  A ready candidate is, at one of the sixteen alignments, exactly
  the raw bytes from an opening flag to the next closing flag, at least three bytes in all; polling
  only ever removes a prefix of the raw stream.
\<close>

theorem hdlc_sync_poll_reports:
  assumes "sync_inv acc frame" "hdlc_sync_acc_poll acc frame = (e, acc', frame')"
  shows "e \<in> {E2S_OK, E2S_ERR_HDLC_ACC_FRAME_READY, E2S_ERR_HDLC_DECODE_PAYLOAD_TOO_LONG}
    \<and> suffix (raw acc') (raw acc)
    \<and> (e = E2S_ERR_HDLC_ACC_FRAME_READY \<longrightarrow>
        (\<exists>off right. off < 8 \<and>
          map Some (frame_bytes frame')
            = map (aligned_at (raw acc') (off, right)) [sa_candidate_start acc'..<sa_candidate_end acc']
          \<and> sa_candidate_end acc' \<le> sa_position acc' \<and> 3 \<le> length (frame_bytes frame')
          \<and> hd (frame_bytes frame') = sa_sync_byte acc' \<and> last (frame_bytes frame') = sa_sync_byte acc'
          \<and> sa_sync_byte acc' \<notin> set (butlast (drop 2 (frame_bytes frame')))))"
proof (intro conjI impI)
  note post = hdlc_sync_acc_poll_post [OF assms]
  show "e \<in> {E2S_OK, E2S_ERR_HDLC_ACC_FRAME_READY, E2S_ERR_HDLC_DECODE_PAYLOAD_TOO_LONG}"
    using post(3) by auto
  show "suffix (raw acc') (raw acc)"
    by (rule post(2))
  assume "e = E2S_ERR_HDLC_ACC_FRAME_READY"
  with post(3) have "candidate_ready acc' frame'"
    by auto
  then obtain off right body where c: "off < 8" "sa_candidate_end acc' \<le> sa_position acc'"
    "frame_bytes frame' = body @ [sa_sync_byte acc']" "2 \<le> length body"
    "follows (raw acc') (sa_sync_byte acc') (off, right) (sa_candidate_start acc') (sa_candidate_end acc' - 1) body"
    "aligned_at (raw acc') (off, right) (sa_candidate_end acc' - 1) = Some (sa_sync_byte acc')"
    by (auto simp: candidate_ready_def)
  have lt: "sa_candidate_start acc' < sa_candidate_end acc' - 1"
    using c(5) by (simp add: follows_def)
  then have "[sa_candidate_start acc'..<sa_candidate_end acc']
      = [sa_candidate_start acc'..<sa_candidate_end acc' - 1] @ [sa_candidate_end acc' - 1]"
    by (cases "sa_candidate_end acc'") auto
  moreover have "body \<noteq> []"
    using c(4) by auto
  moreover from this have "hd body = sa_sync_byte acc'" "sa_sync_byte acc' \<notin> set (drop 2 body)"
    using c(5) by (simp_all add: follows_def hd_conv_nth)
  ultimately show "\<exists>off right. off < 8 \<and>
          map Some (frame_bytes frame')
            = map (aligned_at (raw acc') (off, right)) [sa_candidate_start acc'..<sa_candidate_end acc']
          \<and> sa_candidate_end acc' \<le> sa_position acc' \<and> 3 \<le> length (frame_bytes frame')
          \<and> hd (frame_bytes frame') = sa_sync_byte acc' \<and> last (frame_bytes frame') = sa_sync_byte acc'
          \<and> sa_sync_byte acc' \<notin> set (butlast (drop 2 (frame_bytes frame')))"
    using c by (intro exI [of _ off] exI [of _ right]) (auto simp: follows_def butlast_append)
qed

text \<open>A freshly initialised accumulator holding the raw bytes \<open>bs\<close>.\<close>

definition acc_with :: "byte list \<Rightarrow> HDLC_SYNC_ACCUMULATOR_T" where
  "acc_with bs = (hdlc_sync_acc_init (bs @ replicate (8192 - length bs) 0) HDLC_FLAG_BYTE)\<lparr>sa_position := length bs\<rparr>"

lemma acc_with_inv:
  assumes "length bs \<le> 8192" "frame_wf frame" "0 < hf_capacity frame"
  shows "sync_inv (acc_with bs) frame" "raw (acc_with bs) = bs"
  using assms
  by (simp_all add: acc_with_def sync_inv_def poll_inv_def locked_def acc_ok_def hdlc_sync_acc_init_def raw_def
      RX_HDLC_SYNC_MAX_BUFFER_SIZE_def)

lemma poll_example:
  "(case hdlc_sync_acc_poll ((hdlc_sync_acc_init ([0x7E, 1, 2, 0x7E] @ ys) 0x7E)
      \<lparr>sa_position := length [0x7E, 1, 2, 0x7E :: byte]\<rparr>) (empty_frame 8) of
      (e, acc, f) \<Rightarrow> (e, sa_candidate_start acc, sa_candidate_end acc, frame_bytes f))
    = (E2S_ERR_HDLC_ACC_FRAME_READY, 0, 4, [0x7E, 1, 2, 0x7E])"
  by code_simp

theorem hdlc_sync_poll_reports_witness:
  "\<exists>acc' frame'. hdlc_sync_acc_poll (acc_with [0x7E, 1, 2, 0x7E]) (empty_frame 8)
      = (E2S_ERR_HDLC_ACC_FRAME_READY, acc', frame')
    \<and> (\<exists>off right. off < 8 \<and> map Some [0x7E, 1, 2, 0x7E] = map (aligned_at (raw acc') (off, right)) [0..<4])"
proof -
  let ?acc = "acc_with [0x7E, 1, 2, 0x7E]"
  obtain e acc' frame' where run: "hdlc_sync_acc_poll ?acc (empty_frame 8) = (e, acc', frame')"
    by (metis prod_cases3)
  have res: "e = E2S_ERR_HDLC_ACC_FRAME_READY" "sa_candidate_start acc' = 0" "sa_candidate_end acc' = 4"
    "frame_bytes frame' = [0x7E, 1, 2, 0x7E]"
    using poll_example [of "replicate 8188 0"] run [unfolded acc_with_def HDLC_FLAG_BYTE_def] by simp_all
  have "sync_inv ?acc (empty_frame 8)"
    by (rule acc_with_inv) simp_all
  from hdlc_sync_poll_reports [OF this run]
  have "\<exists>off right. off < 8 \<and> map Some (frame_bytes frame')
      = map (aligned_at (raw acc') (off, right)) [sa_candidate_start acc'..<sa_candidate_end acc']"
    using res(1) by blast
  then show ?thesis
    using run unfolding res by blast
qed

text \<open>
  Alignment.  The byte read at offset \<open>off\<close> with a right shift is the window of eight bits that
  starts \<open>off\<close> bits into raw byte \<open>i\<close> of the least-significant-bit-first stream; with a left shift it
  is the window of the most-significant-bit-first stream.  No byte is delivered without its lookahead.
\<close>

lemma hdlc_sync_aligned_window:
  assumes "acc_ok acc" "off < 8"
  shows "(hdlc_sync_get_aligned_byte acc i off right = None \<longleftrightarrow> sa_position acc \<le> i + (if off = 0 then 0 else 1))
    \<and> (\<forall>b. hdlc_sync_get_aligned_byte acc i off right = Some b \<longrightarrow>
          byte_bits right b = take 8 (drop (8 * i + off) (bytes_bits right (raw acc))))"
proof (intro conjI allI impI)
  show "hdlc_sync_get_aligned_byte acc i off right = None \<longleftrightarrow> sa_position acc \<le> i + (if off = 0 then 0 else 1)"
    using assms(2) by (auto simp: hdlc_sync_get_aligned_byte_def)
  fix b assume "hdlc_sync_get_aligned_byte acc i off right = Some b"
  then have b: "aligned_at (raw acc) (off, right) i = Some b"
    using assms(1) by (simp add: hdlc_sync_get_aligned_byte_raw)
  show "byte_bits right b = take 8 (drop (8 * i + off) (bytes_bits right (raw acc)))"
  proof (cases "off = 0")
    case False
    then show ?thesis
      by (rule aligned_at_window [OF b])
  next
    case True
    then have "i < length (raw acc)" "b = raw acc ! i"
      using b by (auto simp: aligned_at_def split: if_splits)
    then show ?thesis
      using True by (intro nth_equalityI) (simp_all add: nth_bytes_bits)
  qed
qed

end
