(* ===== verification/Event_Queue.thy ===== *)
theory Event_Queue
  imports Fifo_Spec V24_Config Hdlc_Common
begin

text \<open>
  \<open>src/system/event_queue.c\<close> and \<open>event_queue.h\<close>: the events that connect the console, the command
  handlers and the dispatcher, and the queue they travel in.

  The file-static variables are one record.  The \<open>uint8_t\<close> indices are naturals below the capacity
  of 16, which the invariant keeps, so their casts change nothing; the drop counter is a 32 bit word
  and wraps.  A payload is either inline (the bytes of an \<open>event_queue_data_t\<close>, kept as that
  structure) or a pointer to an object that the sender owns (\<open>NULL\<close>, a slot of the line pool, a frame).

  Shown here: the queue implements \<open>bounded_fifo\<close> with room for 15 events; the high-water mark is
  the largest fill level ever reached and the drop counter counts the refused pushes.
\<close>

section \<open>Events\<close>

datatype event_type_t =
  EV_NONE | EV_CLI_LINE | EV_UDP_RX | EV_UDP_TX | EV_HDLC_DECODE | EV_SAVE_CONFIG | EV_STATUS | EV_MEM
| EV_WIPE_CONFIG | EV_SET_NET_SETTINGS | EV_GET_NET_SETTINGS | EV_SET_V24_SETTINGS
| EV_GET_V24_SETTINGS | EV_REBOOT

datatype event_queue_data_types_t =
  NET_IP_REMOTE | NET_IP_GATEWAY | NET_IP_LOCAL | NET_IP_MASK | NET_PORT_LOCAL | NET_PORT_REMOTE
| V24_BAUDRATE | V24_POLARITIES | V24_CLOCK_MODE | SYS_REBOOT

text \<open>The member of the union that was written; \<open>Val_none\<close> when only the identifier is set.\<close>

datatype event_value =
  Val_none | Val_ip "byte list" | Val_port u16 | Val_polarities V24_POLARITIES_T
| Val_baudrate V24_BAUDRATE_T | Val_clock_mode bool

record event_queue_data_t =
  eqd_id :: event_queue_data_types_t
  eqd_value :: event_value

text \<open>
  What the payload storage of an event holds or points to: a slot of the console's line pool, the
  transmit buffer of the application context, a frame.
\<close>

datatype event_data =
  Ptr_null | Ptr_line nat | Ptr_tx_frame_buffer | Ptr_hdlc_frame HDLC_FRAME_T
| Inline_data event_queue_data_t

record event_t =
  ev_type :: event_type_t
  ev_data_len :: nat
  ev_data :: event_data
  ev_is_inline :: bool

text \<open>
  The pointer handed out is the payload itself.  \<open>sizeof (event_queue_data_t)\<close> is 12: the identifier
  and a union whose largest member is the eight polarity flags.
\<close>

definition sizeof_event_queue_data :: nat where "sizeof_event_queue_data = 12"

definition event_get_payload_ptr :: "event_t \<Rightarrow> nat \<Rightarrow> event_data option" where
  "event_get_payload_ptr event required_size =
     (if required_size = 0 then None
      else if ev_is_inline event
      then (if ev_data_len event < required_size then None else Some (ev_data event))
      else if ev_data event = Ptr_null \<or> ev_data_len event < required_size then None
      else Some (ev_data event))"

section \<open>The queue\<close>

definition EVENT_QUEUE_CAPACITY :: nat where "EVENT_QUEUE_CAPACITY = 16"

record 'e event_queue_state =
  eq_slots :: "'e list"
  eq_write :: nat
  eq_read :: nat
  eq_high_water_mark :: nat
  eq_push_drops :: u32

definition event_queue_count_internal :: "'e event_queue_state \<Rightarrow> nat" where
  "event_queue_count_internal q =
     (if eq_write q \<ge> eq_read q then eq_write q - eq_read q
      else EVENT_QUEUE_CAPACITY - (eq_read q - eq_write q))"

text \<open>\<open>zero\<close> is the event of all-zero bytes.\<close>

definition event_queue_init :: "'e \<Rightarrow> 'e event_queue_state" where
  "event_queue_init zero =
     \<lparr>eq_slots = replicate EVENT_QUEUE_CAPACITY zero, eq_write = 0, eq_read = 0,
      eq_high_water_mark = 0, eq_push_drops = 0\<rparr>"

definition event_queue_push :: "'e \<Rightarrow> 'e event_queue_state \<Rightarrow> bool \<times> 'e event_queue_state" where
  "event_queue_push e q =
     (let next_write = (eq_write q + 1) mod EVENT_QUEUE_CAPACITY in
      if next_write = eq_read q then (False, q\<lparr>eq_push_drops := eq_push_drops q + 1\<rparr>)
      else
        let q1 = q\<lparr>eq_slots := (eq_slots q)[eq_write q := e], eq_write := next_write\<rparr>;
            current_count = event_queue_count_internal q1
        in (True, if current_count > eq_high_water_mark q1
                  then q1\<lparr>eq_high_water_mark := current_count\<rparr> else q1))"

definition event_queue_pop :: "'e event_queue_state \<Rightarrow> 'e option \<times> 'e event_queue_state" where
  "event_queue_pop q =
     (if eq_read q = eq_write q then (None, q)
      else (Some (eq_slots q ! eq_read q), q\<lparr>eq_read := (eq_read q + 1) mod EVENT_QUEUE_CAPACITY\<rparr>))"

definition event_queue_is_empty :: "'e event_queue_state \<Rightarrow> bool" where
  "event_queue_is_empty q \<longleftrightarrow> eq_read q = eq_write q"

definition event_queue_is_full :: "'e event_queue_state \<Rightarrow> bool" where
  "event_queue_is_full q \<longleftrightarrow> (eq_write q + 1) mod EVENT_QUEUE_CAPACITY = eq_read q"

definition event_queue_get_count :: "'e event_queue_state \<Rightarrow> nat" where
  "event_queue_get_count q = event_queue_count_internal q"

definition event_queue_get_high_water_mark :: "'e event_queue_state \<Rightarrow> nat" where
  "event_queue_get_high_water_mark q = eq_high_water_mark q"

definition event_queue_get_push_drop_count :: "'e event_queue_state \<Rightarrow> u32" where
  "event_queue_get_push_drop_count q = eq_push_drops q"

section \<open>Representation\<close>

definition eq_contents :: "'e event_queue_state \<Rightarrow> 'e list" where
  "eq_contents q = gap_contents EVENT_QUEUE_CAPACITY (eq_slots q) (eq_write q) (eq_read q)"

definition eq_inv :: "'e event_queue_state \<Rightarrow> bool" where
  "eq_inv q \<longleftrightarrow> length (eq_slots q) = EVENT_QUEUE_CAPACITY \<and> eq_write q < EVENT_QUEUE_CAPACITY
     \<and> eq_read q < EVENT_QUEUE_CAPACITY \<and> length (eq_contents q) \<le> eq_high_water_mark q
     \<and> eq_high_water_mark q < EVENT_QUEUE_CAPACITY"

lemma eq_contents_updates [simp]:
  "eq_contents (q\<lparr>eq_high_water_mark := h\<rparr>) = eq_contents q"
  "eq_contents (q\<lparr>eq_push_drops := d\<rparr>) = eq_contents q"
  by (simp_all add: eq_contents_def)

lemma event_queue_count_contents:
  assumes "eq_write q < EVENT_QUEUE_CAPACITY" "eq_read q < EVENT_QUEUE_CAPACITY"
  shows "event_queue_count_internal q = length (eq_contents q)"
  using assms by (auto simp: event_queue_count_internal_def eq_contents_def gap_count_eq)

lemma event_queue_init_inv: "eq_inv (event_queue_init zero)" "eq_contents (event_queue_init zero) = []"
  by (simp_all add: eq_inv_def eq_contents_def event_queue_init_def gap_contents_def gap_count_def
      EVENT_QUEUE_CAPACITY_def)

lemma event_queue_push_room:
  assumes "eq_inv q" "length (eq_contents q) < EVENT_QUEUE_CAPACITY - 1"
  shows "fst (event_queue_push e q)" "eq_contents (snd (event_queue_push e q)) = eq_contents q @ [e]"
    "eq_inv (snd (event_queue_push e q))"
    "eq_high_water_mark (snd (event_queue_push e q)) = max (eq_high_water_mark q) (length (eq_contents q) + 1)"
    "eq_push_drops (snd (event_queue_push e q)) = eq_push_drops q"
proof -
  have idx: "eq_write q < EVENT_QUEUE_CAPACITY" "eq_read q < EVENT_QUEUE_CAPACITY"
    "length (eq_slots q) = EVENT_QUEUE_CAPACITY"
    using assms(1) by (simp_all add: eq_inv_def)
  have nxt: "Suc (eq_write q) mod EVENT_QUEUE_CAPACITY \<noteq> eq_read q"
    using gap_full_iff [OF idx(1,2)] assms(2) by (simp add: eq_contents_def)
  define q1 where "q1 = q\<lparr>eq_slots := (eq_slots q)[eq_write q := e],
      eq_write := Suc (eq_write q) mod EVENT_QUEUE_CAPACITY\<rparr>"
  have w1: "eq_write q1 < EVENT_QUEUE_CAPACITY" "eq_read q1 < EVENT_QUEUE_CAPACITY"
    using idx(2) by (simp_all add: q1_def EVENT_QUEUE_CAPACITY_def)
  have c1: "eq_contents q1 = eq_contents q @ [e]"
    using gap_contents_push [OF idx(1,2) _ nxt, of "eq_slots q" e] idx(3) by (simp add: eq_contents_def q1_def)
  have n1: "event_queue_count_internal q1 = length (eq_contents q) + 1"
    using event_queue_count_contents [OF w1] c1 by simp
  have push: "event_queue_push e q = (True, if event_queue_count_internal q1 > eq_high_water_mark q1
      then q1\<lparr>eq_high_water_mark := event_queue_count_internal q1\<rparr> else q1)"
    using nxt by (simp add: event_queue_push_def q1_def Let_def)
  show "fst (event_queue_push e q)" "eq_contents (snd (event_queue_push e q)) = eq_contents q @ [e]"
    "eq_push_drops (snd (event_queue_push e q)) = eq_push_drops q"
    using c1 by (auto simp: push eq_contents_def) (simp add: q1_def)
  show "eq_high_water_mark (snd (event_queue_push e q)) = max (eq_high_water_mark q) (length (eq_contents q) + 1)"
    unfolding push n1 by (simp add: q1_def)
  have "length (eq_slots q1) = EVENT_QUEUE_CAPACITY" "eq_high_water_mark q1 = eq_high_water_mark q"
    using idx(3) by (simp_all add: q1_def)
  then show "eq_inv (snd (event_queue_push e q))"
    using assms w1 c1 unfolding push n1 by (auto simp: eq_inv_def)
qed

lemma event_queue_push_full:
  assumes "eq_inv q" "length (eq_contents q) = EVENT_QUEUE_CAPACITY - 1"
  shows "event_queue_push e q = (False, q\<lparr>eq_push_drops := eq_push_drops q + 1\<rparr>)"
  using assms gap_full_iff [of "eq_write q" EVENT_QUEUE_CAPACITY "eq_read q"]
  by (simp add: event_queue_push_def eq_inv_def eq_contents_def)

lemma event_queue_pop_run:
  assumes "eq_inv q"
  shows "event_queue_pop q = (case eq_contents q of [] \<Rightarrow> (None, q) | e # _ \<Rightarrow>
      (Some e, q\<lparr>eq_read := Suc (eq_read q) mod EVENT_QUEUE_CAPACITY\<rparr>))"
    and "eq_contents (snd (event_queue_pop q)) = tl (eq_contents q)" "eq_inv (snd (event_queue_pop q))"
proof -
  have idx: "eq_write q < EVENT_QUEUE_CAPACITY" "eq_read q < EVENT_QUEUE_CAPACITY"
    using assms by (simp_all add: eq_inv_def)
  show pop: "event_queue_pop q = (case eq_contents q of [] \<Rightarrow> (None, q) | e # _ \<Rightarrow>
      (Some e, q\<lparr>eq_read := Suc (eq_read q) mod EVENT_QUEUE_CAPACITY\<rparr>))"
    and tl: "eq_contents (snd (event_queue_pop q)) = tl (eq_contents q)"
    using gap_contents_pop [OF idx, of "eq_slots q"] gap_empty_iff [OF idx]
    by (cases "eq_write q = eq_read q";
        simp add: event_queue_pop_def eq_contents_def gap_contents_def)+
  have "eq_write (snd (event_queue_pop q)) = eq_write q" "eq_slots (snd (event_queue_pop q)) = eq_slots q"
    "eq_high_water_mark (snd (event_queue_pop q)) = eq_high_water_mark q"
    "eq_read (snd (event_queue_pop q)) < EVENT_QUEUE_CAPACITY"
    using idx by (auto simp: event_queue_pop_def EVENT_QUEUE_CAPACITY_def)
  then show "eq_inv (snd (event_queue_pop q))"
    using assms tl by (auto simp: eq_inv_def)
qed

interpretation eqq: bounded_fifo event_queue_push event_queue_pop eq_contents
  "\<lambda>_. EVENT_QUEUE_CAPACITY - 1" eq_inv
proof unfold_locales
  fix q :: "'e event_queue_state" and x y ys
  assume inv: "eq_inv q"
  show "length (eq_contents q) \<le> EVENT_QUEUE_CAPACITY - 1"
    using inv by (auto simp: eq_inv_def)
  show "fst (event_queue_push x q) \<and> eq_contents (snd (event_queue_push x q)) = eq_contents q @ [x]"
    if "length (eq_contents q) < EVENT_QUEUE_CAPACITY - 1"
    using event_queue_push_room [OF inv that] by simp
  show "\<not> fst (event_queue_push x q) \<and> eq_contents (snd (event_queue_push x q)) = eq_contents q"
    if "length (eq_contents q) = EVENT_QUEUE_CAPACITY - 1"
    using event_queue_push_full [OF inv that] by (simp add: eq_contents_def)
  show "fst (event_queue_pop q) = None \<and> eq_contents (snd (event_queue_pop q)) = []" if "eq_contents q = []"
    using event_queue_pop_run(1) [OF inv] that by simp
  show "fst (event_queue_pop q) = Some y \<and> eq_contents (snd (event_queue_pop q)) = ys"
    if "eq_contents q = y # ys"
    using event_queue_pop_run(1,2) [OF inv] that by simp
  show "eq_inv (snd (event_queue_push x q)) \<and> EVENT_QUEUE_CAPACITY - 1 = EVENT_QUEUE_CAPACITY - 1"
  proof (cases "length (eq_contents q) < EVENT_QUEUE_CAPACITY - 1")
    case True
    then show ?thesis
      using event_queue_push_room(3) [OF inv] by simp
  next
    case False
    then have "length (eq_contents q) = EVENT_QUEUE_CAPACITY - 1"
      using inv by (auto simp: eq_inv_def)
    from event_queue_push_full [OF inv this, of x] show ?thesis
      using inv by (simp add: eq_inv_def eq_contents_def)
  qed
  show "eq_inv (snd (event_queue_pop q)) \<and> EVENT_QUEUE_CAPACITY - 1 = EVENT_QUEUE_CAPACITY - 1"
    using event_queue_pop_run(3) [OF inv] by simp
qed

section \<open>Properties\<close>

text \<open>How full a queue gets over a run, and how many pushes it refuses.\<close>

fun peak :: "nat \<Rightarrow> 'e fifo_op list \<Rightarrow> nat \<Rightarrow> nat" where
  "peak cap [] n = n"
| "peak cap (Push x # ops) n = max n (peak cap ops (if n < cap then n + 1 else n))"
| "peak cap (Pop # ops) n = max n (peak cap ops (n - 1))"

fun refused :: "nat \<Rightarrow> 'e fifo_op list \<Rightarrow> nat \<Rightarrow> nat" where
  "refused cap [] n = 0"
| "refused cap (Push x # ops) n = (if n < cap then refused cap ops (n + 1) else Suc (refused cap ops n))"
| "refused cap (Pop # ops) n = refused cap ops (n - 1)"

lemma peak_ge: "n \<le> peak cap ops n"
  by (cases "(cap, ops, n)" rule: peak.cases) simp_all

lemma event_queue_run_counters:
  assumes "eq_inv q"
  shows "eq_high_water_mark (snd (fifo_run event_queue_push event_queue_pop ops q))
      = max (eq_high_water_mark q) (peak 15 ops (length (eq_contents q)))
    \<and> eq_push_drops (snd (fifo_run event_queue_push event_queue_pop ops q))
      = eq_push_drops q + of_nat (refused 15 ops (length (eq_contents q)))"
  using assms
proof (induction ops arbitrary: q)
  case Nil
  then show ?case
    by (simp add: eq_inv_def)
next
  case (Cons op ops)
  note inv = Cons.prems
  show ?case
  proof (cases op)
    case Pop
    have "eq_high_water_mark (snd (event_queue_pop q)) = eq_high_water_mark q"
      "eq_push_drops (snd (event_queue_pop q)) = eq_push_drops q"
      by (simp_all add: event_queue_pop_def)
    moreover have "length (eq_contents q) \<le> eq_high_water_mark q"
      using inv by (simp add: eq_inv_def)
    ultimately show ?thesis
      using Cons.IH [OF event_queue_pop_run(3) [OF inv]] event_queue_pop_run(2) [OF inv] Pop
      by (simp add: split_beta Let_def max.assoc [symmetric] max_absorb1)
  next
    case (Push x)
    show ?thesis
    proof (cases "length (eq_contents q) < 15")
      case True
      then have "length (eq_contents q) < EVENT_QUEUE_CAPACITY - 1"
        by (simp add: EVENT_QUEUE_CAPACITY_def)
      note room = event_queue_push_room [OF inv this, of x]
      show ?thesis
        using Cons.IH [OF room(3)] room(2,4,5) True Push peak_ge [of "length (eq_contents q) + 1" 15 ops]
        by (simp add: split_beta Let_def)
    next
      case False
      then have "length (eq_contents q) = EVENT_QUEUE_CAPACITY - 1"
        using inv by (auto simp: eq_inv_def EVENT_QUEUE_CAPACITY_def)
      note full = event_queue_push_full [OF inv this, of x]
      have "eq_inv (q\<lparr>eq_push_drops := eq_push_drops q + 1\<rparr>)"
        "eq_contents (q\<lparr>eq_push_drops := eq_push_drops q + 1\<rparr>) = eq_contents q"
        using inv by (simp_all add: eq_inv_def eq_contents_def)
      then show ?thesis
        using Cons.IH [of "q\<lparr>eq_push_drops := eq_push_drops q + 1\<rparr>"] full False Push
          peak_ge [of "length (eq_contents q)" 15 ops]
        by (simp add: split_beta Let_def)
    qed
  qed
qed

text \<open>
  C23.  The event queue is a first-in first-out queue of 15 events: over any sequence of pushes and
  pops it returns what a list of at most 15 elements returns, its high-water mark is the largest
  fill level reached and its drop counter the number of refused pushes (modulo \<open>2 ^ 32\<close>).
\<close>

theorem event_queue_refines:
  fixes zero :: 'e and ops :: "'e fifo_op list"
  defines "run \<equiv> fifo_run event_queue_push event_queue_pop ops (event_queue_init zero)"
  shows "fst run = fst (list_run 15 ops [])
    \<and> eq_contents (snd run) = snd (list_run 15 ops [])
    \<and> event_queue_get_count (snd run) = length (snd (list_run 15 ops []))
    \<and> event_queue_get_high_water_mark (snd run) = peak 15 ops 0
    \<and> event_queue_get_push_drop_count (snd run) = of_nat (refused 15 ops 0)"
proof -
  note init = event_queue_init_inv [of zero]
  have run: "fst run = fst (list_run 15 ops [])" "eq_contents (snd run) = snd (list_run 15 ops [])" "eq_inv (snd run)"
    using eqq.run_refines [OF init(1), of ops] init(2) by (simp_all add: run_def EVENT_QUEUE_CAPACITY_def)
  moreover have "event_queue_get_count (snd run) = length (eq_contents (snd run))"
    using run(3) event_queue_count_contents [of "snd run"] by (simp add: event_queue_get_count_def eq_inv_def)
  ultimately show ?thesis
    using event_queue_run_counters [OF init(1), of ops] init(2)
    by (simp add: run_def event_queue_get_high_water_mark_def event_queue_get_push_drop_count_def)
      (simp add: event_queue_init_def)
qed

end
