(* ===== verification/Cli_Input.thy ===== *)
theory Cli_Input
  imports V24_Driver Event_Queue
begin

text \<open>
  \<open>src/system/cli_usb_cdc.c\<close>: the console's line editor.  Characters are collected in a line buffer;
  a finished line is copied to a slot of a pool and an event that points to the slot is queued.  The
  static variables are one record; a pool slot holds the C string copied to it.  \<open>snprintf\<close> with
  \<open>%s\<close> does not fail, so its negative result has no branch.  The echo is log output.

  Shown here: no line is overwritten between the moment it is queued and the moment the dispatcher
  takes it, whatever other events are queued in between and even when the queue is full.
\<close>

section \<open>The line editor\<close>

definition CLI_BUFFER_SIZE :: nat where "CLI_BUFFER_SIZE = 128"
definition CLI_EVENT_POOL_SIZE :: nat where "CLI_EVENT_POOL_SIZE = EVENT_QUEUE_CAPACITY"
definition ASCII_BACKSPACE :: int where "ASCII_BACKSPACE = 0x08"
definition ASCII_DELETE :: int where "ASCII_DELETE = 0x7F"
definition ASCII_FIRST_PRINTABLE :: int where "ASCII_FIRST_PRINTABLE = 32"
definition ASCII_LAST_PRINTABLE :: int where "ASCII_LAST_PRINTABLE = 126"
definition CLI_MAX_CHARS_PER_POLL :: nat where "CLI_MAX_CHARS_PER_POLL = 16"

lemmas cli_consts = CLI_BUFFER_SIZE_def CLI_EVENT_POOL_SIZE_def EVENT_QUEUE_CAPACITY_def ASCII_BACKSPACE_def
  ASCII_DELETE_def ASCII_FIRST_PRINTABLE_def ASCII_LAST_PRINTABLE_def CLI_MAX_CHARS_PER_POLL_def

record cli_state =
  ci_line_buffer :: string
  ci_buffer_len :: nat
  ci_line_pool :: "string list"
  ci_pool_write :: nat

definition NUL :: char where "NUL = CHR 0x00"

definition c_string :: "string \<Rightarrow> string" where
  "c_string buf = takeWhile (\<lambda>c. c \<noteq> NUL) buf"

definition cli_line_event :: "nat \<Rightarrow> string \<Rightarrow> event_t" where
  "cli_line_event slot line =
     \<lparr>ev_type = EV_CLI_LINE, ev_data_len = length line + 1, ev_data = Ptr_line slot, ev_is_inline = False\<rparr>"

type_synonym console = "cli_state \<times> event_t event_queue_state"

definition cli_end_of_line :: "console \<Rightarrow> console" where
  "cli_end_of_line = (\<lambda>(s, q).
     let s1 = s\<lparr>ci_line_buffer := (ci_line_buffer s)[ci_buffer_len s := NUL]\<rparr>;
         line = c_string (ci_line_buffer s1);
         line_slot = ci_pool_write s1;
         s2 = s1\<lparr>ci_line_pool := (ci_line_pool s1)[line_slot := take (CLI_BUFFER_SIZE - 1) line]\<rparr>;
         written = length line
     in if written \<ge> CLI_BUFFER_SIZE then (s2\<lparr>ci_buffer_len := 0\<rparr>, q)
        else
          let (pushed, q1) = event_queue_push (cli_line_event line_slot (ci_line_pool s2 ! line_slot)) q;
              s3 = (if pushed then s2\<lparr>ci_pool_write := (ci_pool_write s2 + 1) mod CLI_EVENT_POOL_SIZE\<rparr> else s2)
          in (s3\<lparr>ci_buffer_len := 0\<rparr>, q1))"

definition cli_process_char :: "int \<Rightarrow> console \<Rightarrow> console" where
  "cli_process_char input_char = (\<lambda>(s, q).
     if input_char = 10 \<or> input_char = 13 then cli_end_of_line (s, q)
     else if input_char = ASCII_BACKSPACE \<or> input_char = ASCII_DELETE
     then (if ci_buffer_len s \<noteq> 0 then s\<lparr>ci_buffer_len := ci_buffer_len s - 1\<rparr> else s, q)
     else if input_char \<ge> ASCII_FIRST_PRINTABLE \<and> input_char \<le> ASCII_LAST_PRINTABLE
     then (if ci_buffer_len s < CLI_BUFFER_SIZE - 1
           then s\<lparr>ci_line_buffer := (ci_line_buffer s)[ci_buffer_len s := char_of (nat input_char)],
                  ci_buffer_len := ci_buffer_len s + 1\<rparr>
           else s, q)
     else (s, q))"

text \<open>\<open>n\<close> characters may still be taken.\<close>

fun cli_poll_loop :: "'h sdk \<Rightarrow> nat \<Rightarrow> console \<times> 'h v24_driver \<Rightarrow> console \<times> 'h v24_driver" where
  "cli_poll_loop k 0 (c, d) = (c, d)"
| "cli_poll_loop k (Suc n) (c, d) =
     (let (v, d1) = hw_ask k Getchar_timeout_us d in
      if sint v = PICO_ERROR_TIMEOUT k then (c, d1)
      else cli_poll_loop k n (cli_process_char (sint v) c, d1))"

definition cli_poll :: "'h sdk \<Rightarrow> console \<times> 'h v24_driver \<Rightarrow> console \<times> 'h v24_driver" where
  "cli_poll k st = cli_poll_loop k CLI_MAX_CHARS_PER_POLL st"

text \<open>Static storage starts zeroed.\<close>

definition cli_state_zero :: cli_state where
  "cli_state_zero = \<lparr>ci_line_buffer = replicate CLI_BUFFER_SIZE NUL, ci_buffer_len = 0,
     ci_line_pool = replicate CLI_EVENT_POOL_SIZE [], ci_pool_write = 0\<rparr>"

section \<open>What the editor promises\<close>

text \<open>
  The specification: the line being typed and a queue of at most 15 entries, lines or other events.
\<close>

type_synonym console_spec = "string \<times> (string + event_t) list"

definition spec_push :: "'x \<Rightarrow> 'x list \<Rightarrow> 'x list" where
  "spec_push x xs = (if length xs < 15 then xs @ [x] else xs)"

definition spec_key :: "int \<Rightarrow> console_spec \<Rightarrow> console_spec" where
  "spec_key c = (\<lambda>(line, xs).
     if c = 10 \<or> c = 13 then ([], spec_push (Inl line) xs)
     else if c = 8 \<or> c = 127 then (butlast line, xs)
     else if 32 \<le> c \<and> c \<le> 126 \<and> length line < 127 then (line @ [char_of (nat c)], xs)
     else (line, xs))"

text \<open>
  What happens at the console's queue: a key is pressed, a handler queues an event of its own, the
  dispatcher takes the next event.
\<close>

datatype console_op = Key int | Queue_event event_t | Take_event

definition no_line :: "event_t \<Rightarrow> bool" where
  "no_line e \<longleftrightarrow> (case ev_data e of Ptr_line _ \<Rightarrow> False | _ \<Rightarrow> True)"

text \<open>What the dispatcher sees of an event: the line in the slot it points to.\<close>

definition seen :: "cli_state \<Rightarrow> event_t \<Rightarrow> string + event_t" where
  "seen s e = (case event_get_payload_ptr e 1 of Some (Ptr_line slot) \<Rightarrow> Inl (ci_line_pool s ! slot) | _ \<Rightarrow> Inr e)"

fun console_run :: "console_op list \<Rightarrow> console \<Rightarrow> (string + event_t) list \<times> console" where
  "console_run [] c = ([], c)"
| "console_run (Key i # ops) c = console_run ops (cli_process_char i c)"
| "console_run (Queue_event e # ops) (s, q) = console_run ops (s, snd (event_queue_push e q))"
| "console_run (Take_event # ops) (s, q) =
     (let (e, q1) = event_queue_pop q; (out, c) = console_run ops (s, q1)
      in ((case e of None \<Rightarrow> [] | Some e \<Rightarrow> [seen s e]) @ out, c))"

fun spec_run :: "console_op list \<Rightarrow> console_spec \<Rightarrow> (string + event_t) list \<times> console_spec" where
  "spec_run [] a = ([], a)"
| "spec_run (Key i # ops) a = spec_run ops (spec_key i a)"
| "spec_run (Queue_event e # ops) (line, xs) = spec_run ops (line, spec_push (Inr e) xs)"
| "spec_run (Take_event # ops) (line, xs) =
     (let (out, a) = spec_run ops (line, tl xs) in (take 1 xs @ out, a))"

section \<open>Refinement\<close>

definition slot_of :: "event_t \<Rightarrow> nat option" where
  "slot_of e = (case ev_data e of Ptr_line slot \<Rightarrow> Some slot | _ \<Rightarrow> None)"

definition line_slots :: "event_t list \<Rightarrow> nat list" where
  "line_slots es = List.map_filter slot_of es"

lemma line_slots_simps [simp]:
  "line_slots [] = []" "line_slots (e # es) = (case slot_of e of None \<Rightarrow> [] | Some i \<Rightarrow> [i]) @ line_slots es"
  "line_slots (es @ fs) = line_slots es @ line_slots fs"
  by (auto simp: line_slots_def List.map_filter_def split: option.splits)

lemma length_line_slots: "length (line_slots es) \<le> length es"
  by (simp add: line_slots_def List.map_filter_def)

text \<open>The pending lines occupy consecutive slots that end just before the next one to be written.\<close>

definition slots_behind :: "nat \<Rightarrow> nat list \<Rightarrow> bool" where
  "slots_behind w slots \<longleftrightarrow>
     (\<exists>start. slots = map (\<lambda>i. (start + i) mod 16) [0..<length slots] \<and> w = (start + length slots) mod 16)"

definition console_inv :: "console \<Rightarrow> bool" where
  "console_inv = (\<lambda>(s, q). eq_inv q \<and> length (ci_line_buffer s) = 128 \<and> ci_buffer_len s \<le> 127
     \<and> NUL \<notin> set (take (ci_buffer_len s) (ci_line_buffer s)) \<and> length (ci_line_pool s) = 16
     \<and> slots_behind (ci_pool_write s) (line_slots (eq_contents q))
     \<and> (\<forall>e\<in>set (eq_contents q). slot_of e \<noteq> None \<longrightarrow> \<not> ev_is_inline e \<and> 1 \<le> ev_data_len e))"

definition console_abs :: "console \<Rightarrow> console_spec" where
  "console_abs = (\<lambda>(s, q). (take (ci_buffer_len s) (ci_line_buffer s), map (seen s) (eq_contents q)))"

lemma slots_behind_push:
  assumes "slots_behind w slots"
  shows "slots_behind (Suc w mod 16) (slots @ [w])"
proof -
  obtain start where "slots = map (\<lambda>i. (start + i) mod 16) [0..<length slots]" "w = (start + length slots) mod 16"
    using assms by (auto simp: slots_behind_def)
  then show ?thesis
    unfolding slots_behind_def by (intro exI [of _ start]) (simp add: mod_Suc_eq)
qed

lemma slots_behind_pop:
  assumes "slots_behind w (x # slots)"
  shows "slots_behind w slots"
proof -
  obtain start where s: "x # slots = map (\<lambda>i. (start + i) mod 16) [0..<Suc (length slots)]"
      "w = (start + Suc (length slots)) mod 16"
    using assms by (auto simp: slots_behind_def)
  have "slots = map (\<lambda>i. (start + i) mod 16) (map Suc [0..<length slots])"
    using s(1) by (simp add: upt_conv_Cons map_Suc_upt del: upt_Suc)
  with s(2) show ?thesis
    unfolding slots_behind_def by (intro exI [of _ "Suc start"]) (simp add: comp_def)
qed

lemma slots_behind_free:
  assumes "slots_behind w slots" "length slots < 16"
  shows "w \<notin> set slots" "w < 16"
proof -
  obtain start where s: "slots = map (\<lambda>i. (start + i) mod 16) [0..<length slots]" "w = (start + length slots) mod 16"
    using assms by (auto simp: slots_behind_def)
  have "x \<noteq> w" if "x \<in> set slots" for x
  proof -
    obtain i where "i < length slots" "x = (start + i) mod 16"
      using \<open>x \<in> set slots\<close> by (subst (asm) s(1)) auto
    then show ?thesis
      using ring_slot_neq [of i "length slots" 16 start] assms(2) s(2) by simp
  qed
  then show "w \<notin> set slots" "w < 16"
    using s(2) by auto
qed

lemma seen_line:
  assumes "slot_of e = Some i" "\<not> ev_is_inline e" "1 \<le> ev_data_len e"
  shows "seen s e = Inl (ci_line_pool s ! i)"
  using assms by (auto simp: seen_def event_get_payload_ptr_def slot_of_def split: event_data.splits)

lemma seen_other: "slot_of e = None \<Longrightarrow> seen s e = Inr e"
  by (auto simp: seen_def event_get_payload_ptr_def slot_of_def split: event_data.splits option.splits)

lemma slot_of_no_line: "slot_of e = None \<longleftrightarrow> no_line e"
  by (simp add: slot_of_def no_line_def split: event_data.splits)

lemma mem_line_slots: "e \<in> set es \<Longrightarrow> slot_of e = Some i \<Longrightarrow> i \<in> set (line_slots es)"
  by (force simp: line_slots_def List.map_filter_def)

text \<open>Writing the free slot changes no pending line.\<close>

lemma seen_update_free:
  assumes "console_inv (s, q)" "i = ci_pool_write s"
    and "s' = s\<lparr>ci_line_pool := (ci_line_pool s)[i := x], ci_pool_write := w, ci_buffer_len := n, ci_line_buffer := b\<rparr>"
  shows "map (seen s') (eq_contents q) = map (seen s) (eq_contents q)"
proof -
  have "length (eq_contents q) \<le> 15"
    using assms(1) by (auto simp: console_inv_def eq_inv_def EVENT_QUEUE_CAPACITY_def)
  then have free: "i \<notin> set (line_slots (eq_contents q))"
    using assms(1,2) slots_behind_free(1) [of i "line_slots (eq_contents q)"] length_line_slots [of "eq_contents q"]
    by (auto simp: console_inv_def)
  have "seen s' e = seen s e" if "e \<in> set (eq_contents q)" for e
  proof (cases "slot_of e")
    case None
    then show ?thesis by (simp add: seen_other)
  next
    case (Some j)
    then have "j \<noteq> i"
      using mem_line_slots [OF that] free by blast
    then show ?thesis
      using Some that assms(1,3) by (subst (1 2) seen_line) (auto simp: console_inv_def)
  qed
  then show ?thesis
    by simp
qed

lemma queue_push_cases:
  assumes "eq_inv q"
  shows "eq_inv (snd (event_queue_push e q))"
    "eq_contents (snd (event_queue_push e q)) = spec_push e (eq_contents q)"
    "fst (event_queue_push e q) \<longleftrightarrow> length (eq_contents q) < 15"
proof -
  have "length (eq_contents q) \<le> 15"
    using assms by (auto simp: eq_inv_def EVENT_QUEUE_CAPACITY_def)
  then consider "length (eq_contents q) < EVENT_QUEUE_CAPACITY - 1" | "length (eq_contents q) = EVENT_QUEUE_CAPACITY - 1"
    by (fastforce simp: EVENT_QUEUE_CAPACITY_def)
  then have "eq_inv (snd (event_queue_push e q)) \<and> eq_contents (snd (event_queue_push e q)) = spec_push e (eq_contents q)
    \<and> (fst (event_queue_push e q) \<longleftrightarrow> length (eq_contents q) < 15)"
  proof cases
    case 1
    then show ?thesis
      using event_queue_push_room(1-3) [OF assms 1] by (simp add: spec_push_def EVENT_QUEUE_CAPACITY_def)
  next
    case 2
    then show ?thesis
      using event_queue_push_full [OF assms 2, of e] assms
      by (simp add: spec_push_def EVENT_QUEUE_CAPACITY_def eq_inv_def)
  qed
  then show "eq_inv (snd (event_queue_push e q))"
    "eq_contents (snd (event_queue_push e q)) = spec_push e (eq_contents q)"
    "fst (event_queue_push e q) \<longleftrightarrow> length (eq_contents q) < 15"
    by simp_all
qed

lemma c_string_line:
  assumes "n < length buf" "NUL \<notin> set (take n buf)"
  shows "c_string (buf[n := NUL]) = take n buf"
proof -
  have split: "buf[n := NUL] = take n buf @ NUL # drop (Suc n) buf"
    by (rule upd_conv_take_nth_drop [OF assms(1)])
  have "takeWhile (\<lambda>c. c \<noteq> NUL) (take n buf @ NUL # drop (Suc n) buf)
      = take n buf @ takeWhile (\<lambda>c. c \<noteq> NUL) (NUL # drop (Suc n) buf)"
    by (rule takeWhile_append2) (use assms(2) in auto)
  then show ?thesis
    by (simp add: c_string_def split)
qed

lemma end_of_line_state:
  assumes "console_inv (s, q)"
  defines "line \<equiv> take (ci_buffer_len s) (ci_line_buffer s)"
  defines "e \<equiv> cli_line_event (ci_pool_write s) line"
  shows "cli_end_of_line (s, q) =
    (s\<lparr>ci_line_pool := (ci_line_pool s)[ci_pool_write s := line],
       ci_pool_write := (if length (eq_contents q) < 15 then Suc (ci_pool_write s) mod 16 else ci_pool_write s),
       ci_buffer_len := 0, ci_line_buffer := (ci_line_buffer s)[ci_buffer_len s := NUL]\<rparr>,
     snd (event_queue_push e q))"
proof -
  have inv: "eq_inv q" "length (ci_line_buffer s) = 128" "ci_buffer_len s \<le> 127"
      "NUL \<notin> set line" "length (ci_line_pool s) = 16"
      "slots_behind (ci_pool_write s) (line_slots (eq_contents q))"
    using assms(1) by (simp_all add: console_inv_def line_def)
  have str: "c_string ((ci_line_buffer s)[ci_buffer_len s := NUL]) = line" and len: "length line \<le> 127"
    using inv(2-4) by (simp_all add: c_string_line line_def)
  have "length (line_slots (eq_contents q)) < 16"
    using inv(1) length_line_slots [of "eq_contents q"] by (auto simp: eq_inv_def EVENT_QUEUE_CAPACITY_def)
  then have "ci_pool_write s < 16"
    by (rule slots_behind_free(2) [OF inv(6)])
  then show ?thesis
    using str len queue_push_cases(3) [OF inv(1), of e] inv(5)
    by (cases "event_queue_push e q")
      (simp add: cli_end_of_line_def e_def Let_def cli_consts)
qed

lemma end_of_line_refines:
  assumes "console_inv (s, q)"
  shows "console_inv (cli_end_of_line (s, q))"
    "console_abs (cli_end_of_line (s, q)) = spec_key 10 (console_abs (s, q))"
proof -
  define line where "line = take (ci_buffer_len s) (ci_line_buffer s)"
  define e where "e = cli_line_event (ci_pool_write s) line"
  define s' where "s' = fst (cli_end_of_line (s, q))"
  have inv: "eq_inv q" "length (ci_line_buffer s) = 128" "ci_buffer_len s \<le> 127"
      "NUL \<notin> set line" "length (ci_line_pool s) = 16"
      "slots_behind (ci_pool_write s) (line_slots (eq_contents q))"
      "\<forall>e\<in>set (eq_contents q). slot_of e \<noteq> None \<longrightarrow> \<not> ev_is_inline e \<and> 1 \<le> ev_data_len e"
    using assms(1) by (simp_all add: console_inv_def line_def)
  note eol = end_of_line_state [OF assms, folded line_def, folded e_def]
  have slot: "slot_of e = Some (ci_pool_write s)" "\<not> ev_is_inline e" "1 \<le> ev_data_len e"
    by (simp_all add: e_def cli_line_event_def slot_of_def)
  have s': "s' = s\<lparr>ci_line_pool := (ci_line_pool s)[ci_pool_write s := line],
       ci_pool_write := (if length (eq_contents q) < 15 then Suc (ci_pool_write s) mod 16 else ci_pool_write s),
       ci_buffer_len := 0, ci_line_buffer := (ci_line_buffer s)[ci_buffer_len s := NUL]\<rparr>"
    by (simp add: s'_def eol)
  have "slots_behind (ci_pool_write s') (line_slots (spec_push e (eq_contents q)))"
    using slots_behind_push [OF inv(6)] inv(6) slot(1) by (simp add: s' spec_push_def)
  then show "console_inv (cli_end_of_line (s, q))"
    using inv slot queue_push_cases(1,2) [OF inv(1), of e]
    by (auto simp: console_inv_def eol s' spec_push_def split: if_splits)
  have "ci_pool_write s < 16"
    using slots_behind_free(2) [OF inv(6)] length_line_slots [of "eq_contents q"] inv(1)
    by (auto simp: eq_inv_def EVENT_QUEUE_CAPACITY_def)
  then have "seen s' e = Inl line"
    using seen_line [OF slot, of s'] inv(5) by (simp add: s')
  then have "map (seen s') (spec_push e (eq_contents q)) = spec_push (Inl line) (map (seen s) (eq_contents q))"
    using seen_update_free [OF assms refl s'] by (simp add: spec_push_def)
  then show "console_abs (cli_end_of_line (s, q)) = spec_key 10 (console_abs (s, q))"
    using queue_push_cases(2) [OF inv(1), of e]
    by (simp add: console_abs_def spec_key_def eol line_def [symmetric] s' [symmetric]) (simp add: s')
qed

text \<open>Editing changes neither the pool nor the queue.\<close>

lemma console_edit:
  assumes "console_inv (s, q)" "length b = 128" "n \<le> 127" "NUL \<notin> set (take n b)"
  shows "console_inv (s\<lparr>ci_line_buffer := b, ci_buffer_len := n\<rparr>, q)"
    "console_abs (s\<lparr>ci_line_buffer := b, ci_buffer_len := n\<rparr>, q) = (take n b, snd (console_abs (s, q)))"
proof -
  show "console_inv (s\<lparr>ci_line_buffer := b, ci_buffer_len := n\<rparr>, q)"
    using assms by (simp add: console_inv_def)
  have "map (seen (s\<lparr>ci_line_buffer := b, ci_buffer_len := n\<rparr>)) (eq_contents q) = map (seen s) (eq_contents q)"
    by (simp add: seen_def split: option.splits event_data.splits)
  then show "console_abs (s\<lparr>ci_line_buffer := b, ci_buffer_len := n\<rparr>, q) = (take n b, snd (console_abs (s, q)))"
    by (simp add: console_abs_def)
qed

lemma printable_not_NUL: "32 \<le> c \<Longrightarrow> c \<le> 126 \<Longrightarrow> char_of (nat c) \<noteq> NUL"
  by (auto simp: NUL_def dest: arg_cong [of _ _ "of_char :: char \<Rightarrow> nat"])

lemma console_type:
  assumes inv: "console_inv (s, q)" and c: "32 \<le> c" "c \<le> 126" "ci_buffer_len s < 127"
  defines "s' \<equiv> s\<lparr>ci_line_buffer := (ci_line_buffer s)[ci_buffer_len s := char_of (nat c)],
                  ci_buffer_len := ci_buffer_len s + 1\<rparr>"
  shows "console_inv (s', q)" "console_abs (s', q) = spec_key c (console_abs (s, q))"
proof -
  have len: "length (ci_line_buffer s) = 128" "NUL \<notin> set (take (ci_buffer_len s) (ci_line_buffer s))"
    using inv by (simp_all add: console_inv_def)
  have tk: "take (ci_buffer_len s + 1) ((ci_line_buffer s)[ci_buffer_len s := char_of (nat c)])
      = take (ci_buffer_len s) (ci_line_buffer s) @ [char_of (nat c)]"
    using len(1) c(3) by simp
  show "console_inv (s', q)"
    unfolding s'_def by (rule console_edit(1) [OF inv]) (use len c tk printable_not_NUL [OF c(1,2)] in auto)
  have "console_abs (s', q) = (take (ci_buffer_len s) (ci_line_buffer s) @ [char_of (nat c)], snd (console_abs (s, q)))"
    unfolding s'_def tk [symmetric]
    by (rule console_edit(2) [OF inv]) (use len c tk printable_not_NUL [OF c(1,2)] in auto)
  then show "console_abs (s', q) = spec_key c (console_abs (s, q))"
    using c len(1) by (simp add: console_abs_def spec_key_def)
qed

lemma console_backspace:
  assumes inv: "console_inv (s, q)"
  shows "console_inv (s\<lparr>ci_buffer_len := ci_buffer_len s - 1\<rparr>, q)"
    "console_abs (s\<lparr>ci_buffer_len := ci_buffer_len s - 1\<rparr>, q) = (butlast (fst (console_abs (s, q))), snd (console_abs (s, q)))"
proof -
  have len: "length (ci_line_buffer s) = 128" "ci_buffer_len s \<le> 127"
      "NUL \<notin> set (take (ci_buffer_len s) (ci_line_buffer s))"
    using inv by (simp_all add: console_inv_def)
  have "take (ci_buffer_len s - 1) (ci_line_buffer s) = butlast (take (ci_buffer_len s) (ci_line_buffer s))"
    using len by (simp add: butlast_take)
  moreover from this have "NUL \<notin> set (take (ci_buffer_len s - 1) (ci_line_buffer s))"
    using len(3) by (metis in_set_butlastD)
  ultimately show "console_inv (s\<lparr>ci_buffer_len := ci_buffer_len s - 1\<rparr>, q)"
    "console_abs (s\<lparr>ci_buffer_len := ci_buffer_len s - 1\<rparr>, q) = (butlast (fst (console_abs (s, q))), snd (console_abs (s, q)))"
    using console_edit [OF inv len(1), of "ci_buffer_len s - 1"] len(2) by (simp_all add: console_abs_def)
qed

lemma key_refines:
  assumes "console_inv c"
  shows "console_inv (cli_process_char i c)" "console_abs (cli_process_char i c) = spec_key i (console_abs c)"
proof -
  obtain s q where c: "c = (s, q)"
    by (cases c)
  have inv: "console_inv (s, q)"
    using assms c by simp
  have len: "length (ci_line_buffer s) = 128" "ci_buffer_len s \<le> 127"
    using inv by (simp_all add: console_inv_def)
  have same: "s\<lparr>ci_buffer_len := ci_buffer_len s\<rparr> = s"
    by simp
  consider "i = 10 \<or> i = 13" | "i = 8 \<or> i = 127" | "32 \<le> i" "i \<le> 126" "ci_buffer_len s < 127"
    | "i \<noteq> 10" "i \<noteq> 13" "i \<noteq> 8" "i \<noteq> 127" "\<not> (32 \<le> i \<and> i \<le> 126 \<and> ci_buffer_len s < 127)"
    by blast
  then show "console_inv (cli_process_char i c)" "console_abs (cli_process_char i c) = spec_key i (console_abs c)"
  proof (atomize (full), cases)
    case 1
    then show "console_inv (cli_process_char i c) \<and> console_abs (cli_process_char i c) = spec_key i (console_abs c)"
      using end_of_line_refines [OF inv] by (auto simp: c cli_process_char_def spec_key_def split_beta)
  next
    case 2
    then show "console_inv (cli_process_char i c) \<and> console_abs (cli_process_char i c) = spec_key i (console_abs c)"
      using console_backspace [OF inv] inv
      by (cases "ci_buffer_len s = 0") (auto simp: console_abs_def c cli_process_char_def spec_key_def cli_consts split_beta)
  next
    case 3
    then show "console_inv (cli_process_char i c) \<and> console_abs (cli_process_char i c) = spec_key i (console_abs c)"
      using console_type [OF inv 3] by (simp add: c cli_process_char_def cli_consts)
  next
    case 4
    then show "console_inv (cli_process_char i c) \<and> console_abs (cli_process_char i c) = spec_key i (console_abs c)"
      using inv len by (auto simp: c cli_process_char_def spec_key_def cli_consts console_abs_def split_beta)
  qed
qed


section \<open>Properties\<close>

lemma take_event_refines:
  assumes "console_inv (s, q)"
  shows "console_inv (s, snd (event_queue_pop q))"
    "map (seen s) (eq_contents (snd (event_queue_pop q))) = tl (map (seen s) (eq_contents q))"
    "(case fst (event_queue_pop q) of None \<Rightarrow> [] | Some e \<Rightarrow> [seen s e]) = take 1 (map (seen s) (eq_contents q))"
proof -
  have eq: "eq_inv q"
    using assms by (simp add: console_inv_def)
  note pop = event_queue_pop_run [OF eq]
  show "map (seen s) (eq_contents (snd (event_queue_pop q))) = tl (map (seen s) (eq_contents q))"
    by (simp add: pop(2) map_tl)
  show "(case fst (event_queue_pop q) of None \<Rightarrow> [] | Some e \<Rightarrow> [seen s e]) = take 1 (map (seen s) (eq_contents q))"
    by (simp add: pop(1) split: list.splits)
  show "console_inv (s, snd (event_queue_pop q))"
  proof (cases "eq_contents q")
    case Nil
    then show ?thesis
      using assms by (simp add: pop(1))
  next
    case (Cons e es)
    then have "slots_behind (ci_pool_write s) (line_slots es)"
      using assms by (auto simp: console_inv_def split: option.splits dest: slots_behind_pop)
    with Cons show ?thesis
      using assms pop(2,3) by (simp add: console_inv_def)
  qed
qed

lemma queue_event_refines:
  assumes "console_inv (s, q)" "no_line e"
  shows "console_inv (s, snd (event_queue_push e q))"
    "map (seen s) (eq_contents (snd (event_queue_push e q))) = spec_push (Inr e) (map (seen s) (eq_contents q))"
proof -
  have eq: "eq_inv q" and none: "slot_of e = None"
    using assms by (simp_all add: console_inv_def slot_of_no_line)
  note push = queue_push_cases(1,2) [OF eq, of e]
  show "console_inv (s, snd (event_queue_push e q))"
    using assms(1) push none by (auto simp: console_inv_def spec_push_def)
  show "map (seen s) (eq_contents (snd (event_queue_push e q))) = spec_push (Inr e) (map (seen s) (eq_contents q))"
    using push(2) none by (simp add: spec_push_def seen_other)
qed

lemma console_run_refines:
  assumes "console_inv c" "\<forall>e. Queue_event e \<in> set ops \<longrightarrow> no_line e"
  shows "fst (console_run ops c) = fst (spec_run ops (console_abs c))
    \<and> console_abs (snd (console_run ops c)) = snd (spec_run ops (console_abs c)) \<and> console_inv (snd (console_run ops c))"
  using assms
proof (induction ops arbitrary: c)
  case Nil
  then show ?case by simp
next
  case (Cons op ops)
  obtain s q where c: "c = (s, q)"
    by (cases c)
  note inv = Cons.prems(1) [unfolded c]
  have later: "\<forall>e. Queue_event e \<in> set ops \<longrightarrow> no_line e"
    using Cons.prems(2) by simp
  show ?case
  proof (cases op)
    case (Key i)
    then show ?thesis
      using Cons.IH [OF key_refines(1) [OF Cons.prems(1)] later] key_refines(2) [OF Cons.prems(1)] by simp
  next
    case (Queue_event e)
    then have "no_line e"
      using Cons.prems(2) by simp
    note push = queue_event_refines [OF inv this]
    show ?thesis
      using Cons.IH [OF push(1) later] push(2) Queue_event by (simp add: c console_abs_def)
  next
    case Take_event
    note pop = take_event_refines [OF inv]
    show ?thesis
      using Cons.IH [OF pop(1) later] pop(2,3) Take_event
      by (simp add: c console_abs_def split_beta Let_def)
  qed
qed

lemma console_start: "console_inv (cli_state_zero, event_queue_init z)"
    "console_abs (cli_state_zero, event_queue_init z) = ([], [])"
  using event_queue_init_inv [of z]
  by (auto simp: console_inv_def console_abs_def cli_state_zero_def cli_consts slots_behind_def
      intro!: exI [of _ 0])

text \<open>
  C31.  The console hands every line to the dispatcher as it was typed.  Whatever keys are pressed,
  whatever other events the handlers queue in between and whenever the dispatcher takes an event, it
  gets what a queue of at most 15 typed lines and events would give it: the slots of the line pool
  are never rewritten while their line is waiting, also not when the queue is full and a line is
  dropped.
\<close>

theorem console_lines_intact:
  assumes "\<forall>e. Queue_event e \<in> set ops \<longrightarrow> no_line e"
  shows "fst (console_run ops (cli_state_zero, event_queue_init z)) = fst (spec_run ops ([], []))"
  using console_run_refines [OF console_start(1) assms] console_start(2) by simp

theorem console_lines_intact_witness:
  "\<exists>e. no_line e \<and> fst (console_run [Key 104, Key 105, Key 8, Key 13, Queue_event e, Key 111, Take_event, Take_event, Key 10, Take_event]
      (cli_state_zero, event_queue_init e)) = [Inl ''h'', Inr e, Inl ''o'']"
proof -
  let ?e = "\<lparr>ev_type = EV_STATUS, ev_data_len = 0, ev_data = Ptr_null, ev_is_inline = False\<rparr>"
  let ?ops = "[Key 104, Key 105, Key 8, Key 13, Queue_event ?e, Key 111, Take_event, Take_event, Key 10, Take_event]"
  have "no_line ?e"
    by (simp add: no_line_def)
  then have "fst (console_run ?ops (cli_state_zero, event_queue_init ?e)) = fst (spec_run ?ops ([], []))"
    by (intro console_lines_intact) simp
  also have "\<dots> = [Inl ''h'', Inr ?e, Inl ''o'']"
    by (simp add: spec_key_def spec_push_def char_of_def bit_iff_odd)
  finally show ?thesis
    using \<open>no_line ?e\<close> by blast
qed

end
