(* ===== verification/Float32.thy ===== *)
theory Float32
  imports Main "HOL-Library.Log_Nat"
begin

text \<open>
  The C type \<open>float\<close>: an IEEE 754 binary32 value is the rational number it stands for, and an operation
  is the exact operation followed by rounding to 24 significant bits, to nearest, ties to even.  The
  exponent is not bounded here; a theory that uses these values shows that they stay in the range of
  the normal numbers.
\<close>

section \<open>Rounding\<close>

definition round_even :: "rat \<Rightarrow> int" where
  "round_even x =
     (let f = \<lfloor>x\<rfloor>; d = x - of_int f
      in if d < 1/2 then f else if d > 1/2 then f + 1 else if even f then f else f + 1)"

text \<open>The exponent of a positive number: \<open>2 ^ e \<le> x < 2 ^ (e + 1)\<close>.\<close>

definition exponent :: "rat \<Rightarrow> int" where
  "exponent x =
     (let (p, q) = quotient_of x; e = bitlen p - bitlen q
      in if 2 powi e \<le> x then e else e - 1)"

definition f32_pos :: "rat \<Rightarrow> rat" where
  "f32_pos x = (let s = 2 powi (23 - exponent x) in of_int (round_even (x * s)) / s)"

definition f32 :: "rat \<Rightarrow> rat" where
  "f32 x = (if x = 0 then 0 else if x > 0 then f32_pos x else - f32_pos (- x))"

section \<open>How far rounding goes\<close>

lemma round_even_error: "\<bar>of_int (round_even x) - x\<bar> \<le> 1/2"
  unfolding round_even_def Let_def by (auto simp: abs_if) linarith+

lemma exponent_lower:
  assumes "0 < x"
  shows "2 powi (exponent x) \<le> x"
proof -
  obtain p q where x: "quotient_of x = (p, q)"
    by fastforce
  have q: "0 < q" and xpq: "x = of_int p / of_int q"
    using x quotient_of_denom_pos quotient_of_div by auto
  have p: "0 < p"
    using assms q by (simp add: xpq zero_less_divide_iff)
  have "2 powi (bitlen p - 1) \<le> (of_int p :: rat)"
  proof -
    have "2 ^ nat (bitlen p - 1) \<le> p"
      using bitlen_bounds [OF p] by simp
    then have "(2 :: rat) ^ nat (bitlen p - 1) \<le> of_int p"
      by (metis of_int_le_iff of_int_numeral of_int_power)
    moreover have "0 \<le> bitlen p - 1"
      using p bitlen_ge_iff_power [of 1 p] by simp
    ultimately show ?thesis
      by (simp add: power_int_def)
  qed
  moreover have "(of_int q :: rat) \<le> 2 powi (bitlen q)"
  proof -
    have "q < 2 ^ nat (bitlen q)"
      using bitlen_bounds [OF q] by simp
    then have "(of_int q :: rat) < 2 ^ nat (bitlen q)"
      by (metis of_int_less_iff of_int_numeral of_int_power)
    then show ?thesis
      using bitlen_nonneg [of q] by (simp add: power_int_def)
  qed
  ultimately have "2 powi (bitlen p - 1) / 2 powi (bitlen q) \<le> x"
    unfolding xpq using p q by (intro frac_le) simp_all
  moreover have "(2 :: rat) powi (bitlen p - 1) / 2 powi (bitlen q) = 2 powi (bitlen p - bitlen q - 1)"
    by (simp add: power_int_diff [symmetric] algebra_simps)
  ultimately show ?thesis
    by (simp add: exponent_def x Let_def)
qed

lemma f32_pos_error:
  assumes "0 < x"
  shows "\<bar>f32_pos x - x\<bar> \<le> x / 2 ^ 24"
proof -
  define s :: rat where "s = 2 powi (23 - exponent x)"
  have s: "0 < s"
    by (simp add: s_def)
  have "2 ^ 23 = s * 2 powi (exponent x)"
    by (simp add: s_def power_int_add [symmetric])
  also have "\<dots> \<le> s * x"
    using exponent_lower [OF assms] s by simp
  finally have m: "2 ^ 23 \<le> x * s"
    by (simp add: mult.commute)
  have "f32_pos x - x = (of_int (round_even (x * s)) - x * s) / s"
    using s by (simp add: f32_pos_def s_def [symmetric] Let_def field_simps)
  then have "\<bar>f32_pos x - x\<bar> = \<bar>of_int (round_even (x * s)) - x * s\<bar> / s"
    using s by simp
  also have "\<dots> \<le> (1/2) / s"
    using round_even_error s by (intro divide_right_mono) simp_all
  also have "\<dots> \<le> x / 2 ^ 24"
    using m s by (simp add: field_simps)
  finally show ?thesis .
qed

lemma f32_error: "0 \<le> x \<Longrightarrow> \<bar>f32 x - x\<bar> \<le> x / 2 ^ 24"
  using f32_pos_error by (simp add: f32_def)

lemma f32_0 [simp]: "f32 0 = 0"
  by (simp add: f32_def)

end
