(* ===== verification/Baudrate_Monitor.thy ===== *)
theory Baudrate_Monitor
  imports V24_Driver Float32
begin

text \<open>
  \<open>src/system/baudrate_monitor.c\<close>: the estimator of the line's clock frequencies.  An interrupt on every
  rising edge of a monitored pin counts the edges of the current window and keeps the times of the
  first and the last; a timer turns each window into a sample and smooths the samples.

  The static arrays are one record.  The edge interrupt and the timer callback have the same priority
  and do not preempt each other, so each is one step.  \<open>None\<close> is an access outside the arrays.

  Shown here: the arrays are never left for the pins \<open>main\<close> monitors, and on a steady clock the estimate
  is within two parts in a million of the true frequency, although every operation rounds.
\<close>

section \<open>State\<close>

definition PIN_COUNT :: nat where "PIN_COUNT = 25"
definition BAUD_STALE_US :: u64 where "BAUD_STALE_US = 50000"
definition BAUD_TIMER_MS :: nat where "BAUD_TIMER_MS = 20"
definition BAUD_EMA_ALPHA :: rat where "BAUD_EMA_ALPHA = f32 (1/5)"

record baud_monitor =
  bm_edge_count :: "u32 list"
  bm_baud_ready :: "bool list"
  bm_baud_hz :: "rat list"
  bm_current_pin_count :: nat
  bm_monitored_pin :: "byte list"
  bm_first_edge_time_us :: "u64 list"
  bm_last_edge_time_us :: "u64 list"
  bm_initialized :: bool

definition baud_monitor_zero :: baud_monitor where
  "baud_monitor_zero =
     \<lparr>bm_edge_count = replicate PIN_COUNT 0, bm_baud_ready = replicate PIN_COUNT False,
      bm_baud_hz = replicate PIN_COUNT 0, bm_current_pin_count = 0, bm_monitored_pin = replicate PIN_COUNT 0,
      bm_first_edge_time_us = replicate PIN_COUNT 0, bm_last_edge_time_us = replicate PIN_COUNT 0,
      bm_initialized = False\<rparr>"

section \<open>Operations\<close>

definition rxc_edge_isr :: "nat \<Rightarrow> u64 \<Rightarrow> baud_monitor \<Rightarrow> baud_monitor option" where
  "rxc_edge_isr gpio now_us m =
     (if gpio \<ge> PIN_COUNT then None
      else
        let m1 = (if bm_edge_count m ! gpio = 0
                  then m\<lparr>bm_first_edge_time_us := (bm_first_edge_time_us m)[gpio := now_us]\<rparr> else m)
        in Some (m1\<lparr>bm_last_edge_time_us := (bm_last_edge_time_us m1)[gpio := now_us],
                    bm_edge_count := (bm_edge_count m1)[gpio := bm_edge_count m1 ! gpio + 1]\<rparr>))"

definition baudrate_estimator_get_current_estimation :: "nat \<Rightarrow> baud_monitor \<Rightarrow> (rat \<times> baud_monitor) option" where
  "baudrate_estimator_get_current_estimation pin m =
     (if pin \<ge> PIN_COUNT then None
      else Some (bm_baud_hz m ! pin, m\<lparr>bm_baud_ready := (bm_baud_ready m)[pin := False]\<rparr>))"

definition f32_of_u32 :: "u32 \<Rightarrow> rat" where "f32_of_u32 x = f32 (of_int (uint x))"
definition f32_of_u64 :: "u64 \<Rightarrow> rat" where "f32_of_u64 x = f32 (of_int (uint x))"

definition inst_hz :: "u32 \<Rightarrow> u64 \<Rightarrow> rat" where
  "inst_hz edges elapsed_us =
     f32 (f32 (f32_of_u32 (edges - 1) * f32_of_u32 US_PER_SECOND) / f32_of_u64 elapsed_us)"

definition smoothed_hz :: "rat \<Rightarrow> rat \<Rightarrow> rat" where
  "smoothed_hz hz inst =
     (if hz \<le> 0 then inst
      else f32 (f32 (BAUD_EMA_ALPHA * inst) + f32 (f32 (1 - BAUD_EMA_ALPHA) * hz)))"

text \<open>One monitored pin in the timer callback: its window is taken and turned into a sample.\<close>

definition baud_timer_pin :: "u64 \<Rightarrow> nat \<Rightarrow> baud_monitor \<Rightarrow> baud_monitor option" where
  "baud_timer_pin now_us pin m =
     (if pin \<ge> PIN_COUNT then None
      else
        let edges = bm_edge_count m ! pin;
            m1 = m\<lparr>bm_edge_count := (bm_edge_count m)[pin := 0]\<rparr>;
            first_us = bm_first_edge_time_us m ! pin; last_us = bm_last_edge_time_us m ! pin
        in Some
             (if edges > 1
              then if last_us > first_us
                   then m1\<lparr>bm_baud_hz := (bm_baud_hz m)[pin :=
                             smoothed_hz (bm_baud_hz m ! pin) (inst_hz edges (last_us - first_us))],
                           bm_baud_ready := (bm_baud_ready m)[pin := True]\<rparr>
                   else m1
              else if now_us - last_us > BAUD_STALE_US
                   then m1\<lparr>bm_baud_ready := (bm_baud_ready m)[pin := False]\<rparr> else m1))"

fun baud_timer_pins :: "u64 \<Rightarrow> nat list \<Rightarrow> baud_monitor \<Rightarrow> baud_monitor option" where
  "baud_timer_pins now_us [] m = Some m"
| "baud_timer_pins now_us (pin # pins) m =
     (case baud_timer_pin now_us pin m of None \<Rightarrow> None | Some m1 \<Rightarrow> baud_timer_pins now_us pins m1)"

definition monitored :: "baud_monitor \<Rightarrow> nat list" where
  "monitored m = map unat (take (bm_current_pin_count m) (bm_monitored_pin m))"

definition baud_timer_cb :: "u64 \<Rightarrow> baud_monitor \<Rightarrow> baud_monitor option" where
  "baud_timer_cb now_us m = baud_timer_pins now_us (monitored m) m"

text \<open>The commands are the interrupt and timer set-up.\<close>

definition baudrate_estimator_init :: "nat \<Rightarrow> baud_monitor \<Rightarrow> hw_cmd list \<times> baud_monitor" where
  "baudrate_estimator_init pin m =
     (let (cmds, m1) = (if \<not> bm_initialized m
                        then ([Gpio_set_irq_enabled_with_callback pin, Add_repeating_timer_ms BAUD_TIMER_MS],
                              m\<lparr>bm_initialized := True\<rparr>)
                        else ([Gpio_set_irq_enabled_rise pin], m))
      in (cmds,
          if bm_current_pin_count m1 < PIN_COUNT
          then m1\<lparr>bm_monitored_pin := (bm_monitored_pin m1)[bm_current_pin_count m1 := of_nat pin],
                  bm_current_pin_count := bm_current_pin_count m1 + 1\<rparr>
          else m1))"

section \<open>Well-formedness\<close>

definition monitor_wf :: "baud_monitor \<Rightarrow> bool" where
  "monitor_wf m \<longleftrightarrow> length (bm_edge_count m) = PIN_COUNT \<and> length (bm_baud_ready m) = PIN_COUNT
     \<and> length (bm_baud_hz m) = PIN_COUNT \<and> length (bm_monitored_pin m) = PIN_COUNT
     \<and> length (bm_first_edge_time_us m) = PIN_COUNT \<and> length (bm_last_edge_time_us m) = PIN_COUNT
     \<and> bm_current_pin_count m \<le> PIN_COUNT \<and> (\<forall>pin\<in>set (monitored m). pin < PIN_COUNT)"

lemma isr_wf:
  assumes "monitor_wf m" "gpio < PIN_COUNT"
  shows "\<exists>m'. rxc_edge_isr gpio now_us m = Some m' \<and> monitor_wf m' \<and> monitored m' = monitored m"
  using assms by (auto simp: rxc_edge_isr_def monitor_wf_def monitored_def Let_def)

lemma timer_pin_wf:
  assumes "monitor_wf m" "pin < PIN_COUNT"
  shows "\<exists>m'. baud_timer_pin now_us pin m = Some m' \<and> monitor_wf m' \<and> monitored m' = monitored m"
  using assms by (auto simp: baud_timer_pin_def monitor_wf_def monitored_def Let_def)

lemma timer_pins_wf:
  assumes "monitor_wf m" "\<forall>pin\<in>set pins. pin < PIN_COUNT"
  shows "\<exists>m'. baud_timer_pins now_us pins m = Some m' \<and> monitor_wf m' \<and> monitored m' = monitored m"
  using assms
proof (induction pins arbitrary: m)
  case (Cons pin pins)
  obtain m1 where "baud_timer_pin now_us pin m = Some m1" "monitor_wf m1" "monitored m1 = monitored m"
    using timer_pin_wf [of m pin now_us] Cons.prems by auto
  then show ?case
    using Cons.IH [of m1] Cons.prems(2) by auto
qed simp

lemma init_wf:
  assumes "monitor_wf m" "pin < PIN_COUNT"
  shows "monitor_wf (snd (baudrate_estimator_init pin m))"
    and "bm_current_pin_count m < PIN_COUNT \<Longrightarrow> monitored (snd (baudrate_estimator_init pin m)) = monitored m @ [pin]"
proof -
  have pin: "unat (of_nat pin :: byte) = pin"
    using assms(2) by (simp add: PIN_COUNT_def unat_of_nat)
  show app: "monitored (snd (baudrate_estimator_init pin m)) = monitored m @ [pin]" if "bm_current_pin_count m < PIN_COUNT"
    using that assms pin by (simp add: baudrate_estimator_init_def monitored_def monitor_wf_def Let_def)
  show "monitor_wf (snd (baudrate_estimator_init pin m))"
  proof (cases "bm_current_pin_count m < PIN_COUNT")
    case True
    then show ?thesis
      using assms app [OF True] by (auto simp: monitor_wf_def) (auto simp: baudrate_estimator_init_def Let_def)
  next
    case False
    then show ?thesis
      using assms by (auto simp: monitor_wf_def monitored_def baudrate_estimator_init_def Let_def)
  qed
qed

section \<open>Accuracy\<close>

lemma f32_bounds:
  assumes "0 \<le> x"
  shows "x * (16777215 / 16777216) \<le> f32 x" "f32 x \<le> x * (16777217 / 16777216)"
  using f32_error [OF assms] by (auto simp: abs_if split: if_splits)

lemma f32_nonneg [simp]: "0 \<le> x \<Longrightarrow> 0 \<le> f32 x"
  using f32_bounds(1) [of x] by (rule order_trans [rotated]) simp_all

lemma f32_consts:
  "f32_of_u32 US_PER_SECOND = 1000000" "BAUD_EMA_ALPHA = 13421773 / 67108864" "f32 (1 - 13421773 / 67108864) = 13421773 / 16777216"
  by code_simp+

text \<open>One sample over \<open>n\<close> periods of \<open>P\<close> microseconds.\<close>

lemma inst_hz_steady:
  assumes "uint edges = n + 1" "uint elapsed = n * P" "0 < n" "0 < P"
  defines "R \<equiv> 1000000 / of_int P"
  shows "R * (1 - 5 / 16777216) \<le> inst_hz edges elapsed" "inst_hz edges elapsed \<le> R * (1 + 5 / 16777216)"
proof -
  let ?a = "f32 (rat_of_int n)" and ?e = "f32 (rat_of_int (n * P))"
  let ?c = "f32 (?a * 1000000)"
  have n: "0 < rat_of_int n" "0 < rat_of_int P" "0 < rat_of_int (n * P)"
    using assms(3,4) by simp_all
  have "uint (edges - 1) = n"
    using assms(1,3) uint_lt2p [of edges] by (simp add: uint_word_ariths)
  then have "f32_of_u32 (edges - 1) = ?a" "f32_of_u64 elapsed = ?e"
    by (simp_all add: f32_of_u32_def f32_of_u64_def assms(2))
  then have inst: "inst_hz edges elapsed = f32 (?c / ?e)"
    by (simp only: inst_hz_def f32_consts(1))
  have e: "rat_of_int (n * P) * (16777215 / 16777216) \<le> ?e" "?e \<le> rat_of_int (n * P) * (16777217 / 16777216)"
    using f32_bounds [of "rat_of_int (n * P)"] n by simp_all
  then have epos: "0 < ?e"
    using n(3) by (intro less_le_trans [OF _ e(1)]) (simp del: of_int_mult)
  have c: "rat_of_int n * 1000000 * (16777215 / 16777216) ^ 2 \<le> ?c" "?c \<le> rat_of_int n * 1000000 * (16777217 / 16777216) ^ 2"
    using f32_bounds [of "rat_of_int n"] f32_bounds [of "?a * 1000000"] n by (simp_all add: power2_eq_square)
  have q: "R * ((16777215 / 16777216) ^ 2 / (16777217 / 16777216)) \<le> ?c / ?e"
    "?c / ?e \<le> R * ((16777217 / 16777216) ^ 2 / (16777215 / 16777216))"
    using frac_le [OF _ c(1) epos e(2)] frac_le [OF _ c(2) _ e(1)] n epos
    by (simp_all add: R_def power2_eq_square)
  have "0 \<le> ?c / ?e" "0 < R"
    using n by (simp_all add: R_def)
  then show "R * (1 - 5 / 16777216) \<le> inst_hz edges elapsed" "inst_hz edges elapsed \<le> R * (1 + 5 / 16777216)"
    using f32_bounds [of "?c / ?e"] q unfolding inst by (simp_all add: power2_eq_square)
qed

definition near_hz :: "rat \<Rightarrow> rat \<Rightarrow> bool" where
  "near_hz R hz \<longleftrightarrow> \<bar>hz - R\<bar> \<le> R / 2 ^ 19"

lemma smoothed_hz_near:
  assumes "0 < R" "near_hz R hz \<or> hz = 0"
    and "R * (1 - 5 / 16777216) \<le> inst" "inst \<le> R * (1 + 5 / 16777216)"
  shows "near_hz R (smoothed_hz hz inst)"
proof (cases "hz \<le> 0")
  case True
  then show ?thesis
    using assms by (auto simp: smoothed_hz_def near_hz_def abs_if split: if_splits)
next
  case False
  then have hz: "R * (1 - 1 / 524288) \<le> hz" "hz \<le> R * (1 + 1 / 524288)"
    using assms(2) by (auto simp: near_hz_def abs_if split: if_splits)
  let ?x = "f32 (13421773 / 67108864 * inst)" and ?y = "f32 (13421773 / 16777216 * hz)"
  have pos: "0 \<le> 13421773 / 67108864 * inst" "0 \<le> 13421773 / 16777216 * hz"
    using assms(1,3) False by simp_all
  then have "0 \<le> ?x + ?y"
    by simp
  have "R * (1 - 1 / 524288) \<le> f32 (?x + ?y) \<and> f32 (?x + ?y) \<le> R * (1 + 1 / 524288)"
    using f32_bounds [OF pos(1)] f32_bounds [OF pos(2)] f32_bounds [OF \<open>0 \<le> ?x + ?y\<close>] hz assms(1,3,4) by simp
  moreover have "smoothed_hz hz inst = f32 (?x + ?y)"
    using False by (simp only: smoothed_hz_def f32_consts if_False)
  ultimately show ?thesis
    by (auto simp: near_hz_def abs_if)
qed

text \<open>
  All values are far inside the range of the normal numbers, from \<open>2 ^ -126\<close> to \<open>2 ^ 128\<close>: a sample and
  the smoothed frequency lie between \<open>2 ^ -45\<close> and \<open>2 ^ 53\<close>.
\<close>

definition hz_range :: "rat \<Rightarrow> bool" where
  "hz_range x \<longleftrightarrow> 1 / 2 ^ 45 \<le> x \<and> x \<le> 2 ^ 53"

lemma inst_hz_range:
  assumes "1 < edges" "0 < elapsed"
  shows "1 / 2 ^ 44 * (15 / 16) \<le> inst_hz edges elapsed" "inst_hz edges elapsed \<le> 2 ^ 52"
proof -
  let ?n = "rat_of_int (uint (edges - 1))" and ?t = "rat_of_int (uint elapsed)"
  let ?a = "f32 ?n" and ?e = "f32 ?t"
  let ?c = "f32 (?a * 1000000)"
  have "edges - 1 \<noteq> 0"
    using assms(1) by auto
  then have "uint (edges - 1) \<noteq> 0" "uint elapsed \<noteq> 0"
    using assms(2) by (simp_all add: uint_0_iff word_neq_0_conv)
  then have "1 \<le> uint (edges - 1)" "1 \<le> uint elapsed"
    using uint_ge_0 [of "edges - 1"] uint_ge_0 [of elapsed] by (linarith, linarith)
  moreover have "uint (edges - 1) \<le> 2 ^ 32" "uint elapsed \<le> 2 ^ 64"
    using uint_lt2p [of "edges - 1"] uint_lt2p [of elapsed] by simp_all
  ultimately have "rat_of_int 1 \<le> ?n" "rat_of_int 1 \<le> ?t" "?n \<le> rat_of_int (2 ^ 32)" "?t \<le> rat_of_int (2 ^ 64)"
    by (simp_all only: of_int_le_iff)
  then have n: "1 \<le> ?n" "1 \<le> ?t" "?n \<le> 2 ^ 32" "?t \<le> 2 ^ 64"
    by simp_all
  have a: "?n * (16777215 / 16777216) \<le> ?a" "?a \<le> ?n * (16777217 / 16777216)"
    and e: "?t * (16777215 / 16777216) \<le> ?e" "?e \<le> ?t * (16777217 / 16777216)"
    using f32_bounds [of ?n] f32_bounds [of ?t] n by simp_all
  have c: "999999 \<le> ?c" "?c \<le> 2 ^ 32 * 1000001"
    using f32_bounds [of "?a * 1000000"] a n by simp_all
  have epos: "16777215 / 16777216 \<le> ?e" "?e \<le> 2 ^ 64 * (16777217 / 16777216)"
    using e n by simp_all
  have q: "999999 / (2 ^ 64 * (16777217 / 16777216)) \<le> ?c / ?e" "?c / ?e \<le> 2 ^ 32 * 1000001 / (16777215 / 16777216)"
    using frac_le [OF _ c(1) _ epos(2)] frac_le [OF _ c(2) _ epos(1)] c(1) epos(1) by simp_all
  have inst: "inst_hz edges elapsed = f32 (?c / ?e)"
    by (simp only: inst_hz_def f32_consts(1)) (simp only: f32_of_u32_def f32_of_u64_def)
  have "0 \<le> ?c / ?e"
    using c(1) epos(1) by simp
  then show "1 / 2 ^ 44 * (15 / 16) \<le> inst_hz edges elapsed" "inst_hz edges elapsed \<le> 2 ^ 52"
    using f32_bounds [of "?c / ?e"] q unfolding inst by simp_all
qed

lemma smoothed_hz_range:
  assumes "hz_range hz \<or> hz = 0" "1 < edges" "0 < elapsed"
  shows "hz_range (smoothed_hz hz (inst_hz edges elapsed))"
proof (cases "hz \<le> 0")
  case True
  then show ?thesis
    using inst_hz_range [OF assms(2,3)] by (simp add: smoothed_hz_def hz_range_def)
next
  case False
  then have hz: "1 / 2 ^ 45 \<le> hz" "hz \<le> 2 ^ 53"
    using assms(1) by (auto simp: hz_range_def)
  let ?i = "inst_hz edges elapsed"
  let ?x = "f32 (13421773 / 67108864 * ?i)" and ?y = "f32 (13421773 / 16777216 * hz)"
  note i = inst_hz_range [OF assms(2,3)]
  have pos: "0 \<le> 13421773 / 67108864 * ?i" "0 \<le> 13421773 / 16777216 * hz"
    using i(1) False by simp_all
  then have "0 \<le> ?x + ?y"
    by simp
  have "1 / 2 ^ 45 \<le> f32 (?x + ?y) \<and> f32 (?x + ?y) \<le> 2 ^ 53"
    using f32_bounds [OF pos(1)] f32_bounds [OF pos(2)] f32_bounds [OF \<open>0 \<le> ?x + ?y\<close>] hz i by simp
  moreover have "smoothed_hz hz ?i = f32 (?x + ?y)"
    using False by (simp only: smoothed_hz_def f32_consts if_False)
  ultimately show ?thesis
    by (simp add: hz_range_def)
qed

section \<open>Windows\<close>

text \<open>The edges of one window, each with its pin and time, and the timer at its end.\<close>

fun edges_at :: "(nat \<times> u64) list \<Rightarrow> baud_monitor \<Rightarrow> baud_monitor option" where
  "edges_at [] m = Some m"
| "edges_at ((gpio, now_us) # es) m = Option.bind (rxc_edge_isr gpio now_us m) (edges_at es)"

fun run_windows :: "((nat \<times> u64) list \<times> u64) list \<Rightarrow> baud_monitor \<Rightarrow> baud_monitor option" where
  "run_windows [] m = Some m"
| "run_windows ((es, now_us) # ws) m = Option.bind (Option.bind (edges_at es m) (baud_timer_cb now_us)) (run_windows ws)"

definition pin_view :: "nat \<Rightarrow> baud_monitor \<Rightarrow> u32 \<times> u64 \<times> u64 \<times> rat \<times> bool" where
  "pin_view p m = (bm_edge_count m ! p, bm_first_edge_time_us m ! p, bm_last_edge_time_us m ! p, bm_baud_hz m ! p, bm_baud_ready m ! p)"

lemma isr_view:
  assumes "monitor_wf m" "rxc_edge_isr gpio t m = Some m'" "pin_view p m = (c, t1, t2, hz, ready)"
  shows "pin_view p m' = (if gpio = p then (c + 1, if c = 0 then t else t1, t, hz, ready) else pin_view p m)"
  using assms by (auto simp: pin_view_def rxc_edge_isr_def monitor_wf_def Let_def split: if_splits)

text \<open>Counting starts at zero and does not wrap.\<close>

lemma edges_view:
  assumes "monitor_wf m" "\<forall>e\<in>set es. fst e < PIN_COUNT" "pin_view p m = (of_nat (length ts), t1, t2, hz, ready)"
    and "length ts + length (filter (\<lambda>e. fst e = p) es) < 2 ^ 32" "ts \<noteq> [] \<longrightarrow> t1 = hd ts \<and> t2 = last ts"
  defines "ts' \<equiv> ts @ map snd (filter (\<lambda>e. fst e = p) es)"
  shows "\<exists>m' t1' t2'. edges_at es m = Some m' \<and> monitor_wf m' \<and> monitored m' = monitored m
    \<and> pin_view p m' = (of_nat (length ts'), t1', t2', hz, ready) \<and> (ts' \<noteq> [] \<longrightarrow> t1' = hd ts' \<and> t2' = last ts')"
  using assms(1-5) unfolding ts'_def
proof (induction es arbitrary: m ts t1 t2)
  case Nil
  then show ?case by simp
next
  case (Cons e es)
  obtain gpio t where e: "e = (gpio, t)"
    by fastforce
  obtain m1 where m1: "rxc_edge_isr gpio t m = Some m1" "monitor_wf m1" "monitored m1 = monitored m"
    using isr_wf [OF Cons.prems(1), of gpio t] Cons.prems(2) e by auto
  note view = isr_view [OF Cons.prems(1) m1(1) Cons.prems(3)]
  show ?case
  proof (cases "gpio = p")
    case False
    then show ?thesis
      using Cons.IH [OF m1(2), of ts t1 t2] Cons.prems view m1(1,3) by (auto simp: e)
  next
    case True
    have zero: "(of_nat (length ts) :: u32) = 0 \<longleftrightarrow> ts = []"
      using Cons.prems(4) by (auto simp: word_of_nat_eq_0_iff e True dest: dvd_imp_le)
    have "pin_view p m1 = (of_nat (length (ts @ [t])), hd (ts @ [t]), last (ts @ [t]), hz, ready)"
      using view True zero Cons.prems(5) by (cases ts) (auto simp: add.commute)
    then show ?thesis
      using Cons.IH [OF m1(2), of "ts @ [t]"] Cons.prems(2,4) m1(1,3) True by (auto simp: e)
  qed
qed

lemma timer_pin_view:
  assumes "monitor_wf m" "baud_timer_pin now_us pin m = Some m'" "pin_view p m = (c, t1, t2, hz, ready)"
  shows "pin \<noteq> p \<Longrightarrow> pin_view p m' = pin_view p m"
    and "pin = p \<Longrightarrow> 1 < c \<Longrightarrow> t1 < t2 \<Longrightarrow> pin_view p m' = (0, t1, t2, smoothed_hz hz (inst_hz c (t2 - t1)), True)"
  using assms by (auto simp: pin_view_def baud_timer_pin_def monitor_wf_def Let_def split: if_splits)

lemma timer_pins_skip:
  assumes "monitor_wf m" "baud_timer_pins now_us pins m = Some m'" "\<forall>pin\<in>set pins. pin < PIN_COUNT" "p \<notin> set pins"
  shows "pin_view p m' = pin_view p m"
  using assms
proof (induction pins arbitrary: m)
  case (Cons pin pins)
  obtain m1 where m1: "baud_timer_pin now_us pin m = Some m1" "monitor_wf m1"
    using timer_pin_wf [of m pin now_us] Cons.prems by auto
  obtain c t1 t2 hz ready where "pin_view p m = (c, t1, t2, hz, ready)"
    by (simp add: pin_view_def)
  then have "pin_view p m1 = pin_view p m"
    using timer_pin_view(1) [OF Cons.prems(1) m1(1)] Cons.prems(4) by auto
  then show ?case
    using Cons.IH [OF m1(2)] Cons.prems m1(1) by simp
qed simp

lemma timer_pins_sample:
  assumes "monitor_wf m" "\<forall>pin\<in>set pins. pin < PIN_COUNT" "distinct pins" "p \<in> set pins"
    and "pin_view p m = (c, t1, t2, hz, ready)" "1 < c" "t1 < t2"
  shows "\<exists>m'. baud_timer_pins now_us pins m = Some m' \<and> monitor_wf m' \<and> monitored m' = monitored m
    \<and> pin_view p m' = (0, t1, t2, smoothed_hz hz (inst_hz c (t2 - t1)), True)"
  using assms(1-5)
proof (induction pins arbitrary: m)
  case (Cons pin pins)
  obtain m1 where m1: "baud_timer_pin now_us pin m = Some m1" "monitor_wf m1" "monitored m1 = monitored m"
    using timer_pin_wf [of m pin now_us] Cons.prems by auto
  note view = timer_pin_view [OF Cons.prems(1) m1(1) Cons.prems(5)]
  show ?case
  proof (cases "pin = p")
    case True
    obtain m' where "baud_timer_pins now_us pins m1 = Some m'" "monitor_wf m'" "monitored m' = monitored m1"
      using timer_pins_wf [OF m1(2), of pins now_us] Cons.prems(2) by auto
    then show ?thesis
      using timer_pins_skip [OF m1(2), of now_us pins m' p] view(2) assms(6,7) Cons.prems(2,3) True m1(1,3) by simp
  next
    case False
    then show ?thesis
      using Cons.IH [OF m1(2)] Cons.prems(2-5) view(1) m1(1,3) by simp
  qed
qed simp

text \<open>A clock of period \<open>P\<close>: at least two edges, at equal distances, before the 64 bit time runs out.\<close>

definition steady :: "nat \<Rightarrow> u64 list \<Rightarrow> bool" where
  "steady P ts \<longleftrightarrow> (\<exists>t0 n. ts = map (\<lambda>i. of_nat (t0 + i * P)) [0..<n + 1] \<and> 0 < n \<and> n + 1 < 2 ^ 32 \<and> t0 + n * P < 2 ^ 64)"

lemma steady_window:
  assumes "steady P ts" "0 < P"
  obtains n where "0 < n" "length ts = n + 1" "length ts < 2 ^ 32" "1 < (of_nat (length ts) :: u32)" "hd ts < last ts"
    "uint (of_nat (length ts) :: u32) = int n + 1" "uint (last ts - hd ts) = int n * int P"
proof -
  obtain t0 n where ts: "ts = map (\<lambda>i. of_nat (t0 + i * P)) [0..<n + 1]" and n: "0 < n" "n + 1 < 2 ^ 32" "t0 + n * P < 2 ^ 64"
    using assms(1) by (auto simp: steady_def)
  have u: "unat (of_nat (n + 1) :: u32) = n + 1" "unat (of_nat t0 :: u64) = t0" "unat (of_nat (t0 + n * P) :: u64) = t0 + n * P"
    using n by (simp_all add: unat_of_nat del: of_nat_add of_nat_Suc)
  have ends: "hd ts = of_nat t0" "last ts = of_nat (t0 + n * P)" "length ts = n + 1"
    using nth_map_upt [of _ "n + 1" 0 "\<lambda>i. of_nat (t0 + i * P) :: u64"]
    by (simp_all add: ts hd_conv_nth last_conv_nth del: upt_Suc)
  have "of_nat t0 < (of_nat (t0 + n * P) :: u64)"
    unfolding word_less_nat_alt u using n(1) assms(2) by simp
  moreover have "1 < (of_nat (n + 1) :: u32)"
    unfolding word_less_nat_alt u using n(1) by simp
  moreover have "uint (of_nat (t0 + n * P) - of_nat t0 :: u64) = int n * int P"
  proof -
    have "(of_nat (t0 + n * P) - of_nat t0 :: u64) = of_nat (n * P)"
      by simp
    moreover have "unat (of_nat (n * P) :: u64) = n * P"
      using n(3) by (simp add: unat_of_nat del: of_nat_mult)
    ultimately show ?thesis
      by (metis of_nat_mult uint_nat)
  qed
  moreover have "uint (of_nat (n + 1) :: u32) = int n + 1"
    using u(1) by (metis of_nat_1 of_nat_add uint_nat)
  ultimately show thesis
    using that [of n] n ends by simp
qed

lemma window_sample:
  assumes "monitor_wf m" "p \<in> set (monitored m)" "distinct (monitored m)" "pin_view p m = (0, t1, t2, hz, ready)"
    and "0 < P" "near_hz (1000000 / of_nat P) hz \<or> hz = 0"
    and "\<forall>e\<in>set es. fst e < PIN_COUNT" "steady P (map snd (filter (\<lambda>e. fst e = p) es))"
  shows "\<exists>m' t1' t2' hz'. Option.bind (edges_at es m) (baud_timer_cb now_us) = Some m' \<and> monitor_wf m'
    \<and> monitored m' = monitored m \<and> pin_view p m' = (0, t1', t2', hz', True) \<and> near_hz (1000000 / of_nat P) hz'"
proof -
  let ?ts = "map snd (filter (\<lambda>e. fst e = p) es)"
  obtain n where n: "0 < n" "length ?ts = n + 1" "length ?ts < 2 ^ 32" "1 < (of_nat (length ?ts) :: u32)" "hd ?ts < last ?ts"
    "uint (of_nat (length ?ts) :: u32) = int n + 1" "uint (last ?ts - hd ?ts) = int n * int P"
    using steady_window [OF assms(8,5)] by blast
  then have "?ts \<noteq> []"
    by (metis add_is_0 list.size(3) one_neq_zero)
  then obtain m1 where m1: "edges_at es m = Some m1" "monitor_wf m1" "monitored m1 = monitored m"
    "pin_view p m1 = (of_nat (length ?ts), hd ?ts, last ?ts, hz, ready)"
    using edges_view [OF assms(1,7), of p "[]" t1 t2 hz ready] assms(4) n(3) by auto
  have "\<forall>pin\<in>set (monitored m1). pin < PIN_COUNT"
    using m1(2) by (simp add: monitor_wf_def)
  then obtain m2 where m2: "baud_timer_cb now_us m1 = Some m2" "monitor_wf m2" "monitored m2 = monitored m"
    "pin_view p m2 = (0, hd ?ts, last ?ts, smoothed_hz hz (inst_hz (of_nat (length ?ts)) (last ?ts - hd ?ts)), True)"
    using timer_pins_sample [OF m1(2) _ _ _ m1(4) n(4,5)] assms(2,3) m1(3) unfolding baud_timer_cb_def by metis
  have "near_hz (1000000 / of_nat P) (smoothed_hz hz (inst_hz (of_nat (length ?ts)) (last ?ts - hd ?ts)))"
    using inst_hz_steady [OF n(6,7)] n(1) assms(5,6) by (intro smoothed_hz_near) simp_all
  then show ?thesis
    using m1(1) m2 by simp
qed

section \<open>Properties\<close>


definition rxc_monitor :: baud_monitor where
  "rxc_monitor = snd (baudrate_estimator_init V24_RXC baud_monitor_zero)"

lemma rxc_monitor_facts:
  "monitor_wf rxc_monitor" "monitored rxc_monitor = [V24_RXC]" "bm_edge_count rxc_monitor ! V24_RXC = 0" "bm_baud_hz rxc_monitor ! V24_RXC = 0"
proof -
  have zero: "monitor_wf baud_monitor_zero" "monitored baud_monitor_zero = []" "V24_RXC < PIN_COUNT"
    by (simp_all add: monitor_wf_def baud_monitor_zero_def monitored_def V24_RXC_def PIN_COUNT_def)
  then show "monitor_wf rxc_monitor" "monitored rxc_monitor = [V24_RXC]"
    using init_wf [OF zero(1,3)] by (simp_all add: rxc_monitor_def baud_monitor_zero_def PIN_COUNT_def)
  show "bm_edge_count rxc_monitor ! V24_RXC = 0" "bm_baud_hz rxc_monitor ! V24_RXC = 0"
    using zero(3) by (simp_all add: rxc_monitor_def baudrate_estimator_init_def baud_monitor_zero_def Let_def)
qed


section \<open>The arrays are not left\<close>

text \<open>What happens to the estimator after \<open>main\<close> has set it up: edges on monitored pins, the timer, and the status report.\<close>

inductive baud_step :: "baud_monitor \<Rightarrow> baud_monitor \<Rightarrow> bool" where
  edge: "gpio \<in> set (monitored m) \<Longrightarrow> rxc_edge_isr gpio now_us m = Some m' \<Longrightarrow> baud_step m m'"
| timer: "baud_timer_cb now_us m = Some m' \<Longrightarrow> baud_step m m'"
| report: "pin \<in> set (monitored m) \<Longrightarrow> baudrate_estimator_get_current_estimation pin m = Some (hz, m') \<Longrightarrow> baud_step m m'"

definition baud_start :: "baud_monitor \<Rightarrow> bool" where
  "baud_start m \<longleftrightarrow> m = rxc_monitor \<or> m = snd (baudrate_estimator_init V24_TXC_DCE rxc_monitor)"

definition baud_inv :: "baud_monitor \<Rightarrow> bool" where
  "baud_inv m \<longleftrightarrow> monitor_wf m \<and> monitored m \<in> {[V24_RXC], [V24_RXC, V24_TXC_DCE]}"

lemma get_wf:
  assumes "monitor_wf m" "pin < PIN_COUNT"
  shows "\<exists>hz m'. baudrate_estimator_get_current_estimation pin m = Some (hz, m') \<and> monitor_wf m' \<and> monitored m' = monitored m"
  using assms by (auto simp: baudrate_estimator_get_current_estimation_def monitor_wf_def monitored_def)

lemma baud_inv_ops:
  assumes "baud_inv m" "pin \<in> set (monitored m)"
  shows "\<exists>m'. rxc_edge_isr pin now_us m = Some m' \<and> baud_inv m'"
    "\<exists>hz m'. baudrate_estimator_get_current_estimation pin m = Some (hz, m') \<and> baud_inv m'"
proof -
  have wf: "monitor_wf m" "pin < PIN_COUNT" and pins: "monitored m \<in> {[V24_RXC], [V24_RXC, V24_TXC_DCE]}"
    using assms by (simp_all add: baud_inv_def monitor_wf_def)
  show "\<exists>m'. rxc_edge_isr pin now_us m = Some m' \<and> baud_inv m'"
    using isr_wf [OF wf, of now_us] pins unfolding baud_inv_def by metis
  show "\<exists>hz m'. baudrate_estimator_get_current_estimation pin m = Some (hz, m') \<and> baud_inv m'"
    using get_wf [OF wf] pins unfolding baud_inv_def by metis
qed

lemma baud_inv_timer: "baud_inv m \<Longrightarrow> \<exists>m'. baud_timer_cb now_us m = Some m' \<and> baud_inv m'"
  using timer_pins_wf [of m "monitored m" now_us] unfolding baud_inv_def baud_timer_cb_def monitor_wf_def by metis

interpretation estimator: safe_system baud_start baud_step baud_inv
proof unfold_locales
  fix m assume "baud_start m"
  moreover have "bm_current_pin_count rxc_monitor < PIN_COUNT" "V24_TXC_DCE < PIN_COUNT"
    by (simp_all add: rxc_monitor_def baudrate_estimator_init_def baud_monitor_zero_def PIN_COUNT_def V24_TXC_DCE_def Let_def)
  ultimately show "baud_inv m"
    using init_wf [OF rxc_monitor_facts(1), of V24_TXC_DCE] rxc_monitor_facts(1,2)
    by (auto simp: baud_start_def baud_inv_def)
next
  fix m m' assume "baud_inv m" "baud_step m m'"
  from this(2,1) show "baud_inv m'"
  proof cases
    case (edge gpio now_us)
    then show ?thesis
      using baud_inv_ops(1) [OF \<open>baud_inv m\<close>, of gpio now_us] by auto
  next
    case (timer now_us)
    then show ?thesis
      using baud_inv_timer [OF \<open>baud_inv m\<close>, of now_us] by auto
  next
    case (report pin hz)
    then show ?thesis
      using baud_inv_ops(2) [OF \<open>baud_inv m\<close>, of pin] by auto
  qed
qed



end
