(* ===== verification/App_Context.thy ===== *)
theory App_Context
  imports Persistent_Config Tx_Queue Hdlc_Decoder Hdlc_Sync Cli_Input Baudrate_Monitor
begin

text \<open>
  \<open>src/system/app_context.h\<close> and \<open>app_init.c\<close>: the application context, its initialisation from the
  stored configuration or from the defaults, and the start-up sequence of \<open>src/main.c\<close>.

  A frame descriptor of the context and the storage it points to are one object.  The whole firmware
  is one record: the context and the state of every module it calls.  What the start-up does not
  touch here: the second core, the watchdog and the welcome message.  The
  firmware's own log lines are not put into the log queue, so the statistics and the prompt that
  depend on them are those of a silent run.
\<close>

section \<open>Data\<close>

record payload_statistics_t =
  st_udp_rx_frames :: u64
  st_hdlc_tx_frames :: u64
  st_serial_rx_bytes :: u64
  st_hdlc_frame_ready :: u64
  st_hdlc_decode_ok :: u64
  st_hdlc_decode_fail :: u64
  st_udp_tx_frames :: u64
  st_udp_rx_throttle_enter :: u64
  st_udp_rx_throttle_skips :: u64
  st_udp_rx_buffer_full_counts :: u64
  st_udp_tx_buffer_full_counts :: u64
  st_sync_lookahead_wait_syncing :: u64
  st_sync_lookahead_wait_synced :: u64
  st_sync_candidate_consume :: u64
  st_sync_hardcap_drop_events :: u64
  st_sync_hardcap_drop_bytes :: u64
  st_decode_fail_invalid_frame :: u64
  st_decode_fail_too_short :: u64
  st_decode_fail_payload_too_long :: u64
  st_decode_fail_unstuff_error :: u64
  st_decode_fail_crc_mismatch :: u64
  st_resync_idle_timeout_count :: u64
  st_resync_hard_fail_count :: u64
  st_resync_no_progress_count :: u64
  st_tx_queue_used_max :: u64
  st_tx_queue_drop_frames :: u64
  st_event_queue_used_max :: u64
  st_event_queue_drop_events :: u64
  st_log_drop_lines :: u64
  st_log_queue_used_max :: u64
  st_accumulator_pos_max :: u64
  st_rx_fifo_stall_events :: u64
  st_serial_rx_drop_acc_full :: u64
  st_hunt_idle_drop_bytes :: u64
  st_last_report_ms :: u32

definition stats_zero :: payload_statistics_t where
  "stats_zero = \<lparr>st_udp_rx_frames = 0,
     st_hdlc_tx_frames = 0, st_serial_rx_bytes = 0, st_hdlc_frame_ready = 0, st_hdlc_decode_ok = 0,
     st_hdlc_decode_fail = 0, st_udp_tx_frames = 0, st_udp_rx_throttle_enter = 0,
     st_udp_rx_throttle_skips = 0, st_udp_rx_buffer_full_counts = 0, st_udp_tx_buffer_full_counts =
     0, st_sync_lookahead_wait_syncing = 0, st_sync_lookahead_wait_synced = 0,
     st_sync_candidate_consume = 0, st_sync_hardcap_drop_events = 0, st_sync_hardcap_drop_bytes = 0,
     st_decode_fail_invalid_frame = 0, st_decode_fail_too_short = 0, st_decode_fail_payload_too_long
     = 0, st_decode_fail_unstuff_error = 0, st_decode_fail_crc_mismatch = 0,
     st_resync_idle_timeout_count = 0, st_resync_hard_fail_count = 0, st_resync_no_progress_count =
     0, st_tx_queue_used_max = 0, st_tx_queue_drop_frames = 0, st_event_queue_used_max = 0,
     st_event_queue_drop_events = 0, st_log_drop_lines = 0, st_log_queue_used_max = 0,
     st_accumulator_pos_max = 0, st_rx_fifo_stall_events = 0, st_serial_rx_drop_acc_full = 0,
     st_hunt_idle_drop_bytes = 0, st_last_report_ms = 0\<rparr>"

record app_ctx_t =
  ac_persistent_config :: config_t
  ac_config_valid :: bool
  ac_need_prompt :: bool
  ac_local_config :: UDP_CONFIG_T
  ac_destination_config :: UDP_CONFIG_T
  ac_sender_config :: UDP_CONFIG_T
  ac_net_config :: NETWORK_CONFIG_T
  ac_v24_config :: V24_CONFIG_T
  ac_rx_frame_buffer :: UDP_FRAME_T
  ac_tx_frame_buffer :: UDP_FRAME_T
  ac_reconstructed_frame :: HDLC_FRAME_T
  ac_accumulator :: HDLC_SYNC_ACCUMULATOR_T
  ac_tx_queue :: TX_QUEUE_T
  ac_stats :: payload_statistics_t

text \<open>The counters \<open>ev_status\<close> keeps between two reports.\<close>

record status_baseline =
  sb_udp_rx_frames :: u64
  sb_hdlc_frame_ready :: u64
  sb_udp_tx_frames :: u64
  sb_hdlc_decode_fail :: u64
  sb_serial_rx_bytes :: u64

record ('h, 'w) firmware =
  fw_app :: app_ctx_t
  fw_driver :: "'h v24_driver"
  fw_net :: "'w w5500"
  fw_events :: "event_t event_queue_state"
  fw_log :: global_log_state_t
  fw_flash :: config_t
  fw_decode_stats :: hdlc_decode_stats_t
  fw_cli :: cli_state
  fw_status :: status_baseline
  fw_baud :: baud_monitor

definition upd_app :: "(app_ctx_t \<Rightarrow> app_ctx_t) \<Rightarrow> ('h, 'w) firmware \<Rightarrow> ('h, 'w) firmware" where
  "upd_app f fw = fw\<lparr>fw_app := f (fw_app fw)\<rparr>"

definition upd_stats :: "(payload_statistics_t \<Rightarrow> payload_statistics_t) \<Rightarrow> app_ctx_t \<Rightarrow> app_ctx_t" where
  "upd_stats f app = app\<lparr>ac_stats := f (ac_stats app)\<rparr>"

lemma upd_app_simps [simp]:
  "fw_app (upd_app f fw) = f (fw_app fw)" "fw_driver (upd_app f fw) = fw_driver fw"
  "fw_net (upd_app f fw) = fw_net fw" "fw_events (upd_app f fw) = fw_events fw"
  "fw_log (upd_app f fw) = fw_log fw" "fw_flash (upd_app f fw) = fw_flash fw"
  "fw_decode_stats (upd_app f fw) = fw_decode_stats fw" "fw_cli (upd_app f fw) = fw_cli fw"
  "fw_status (upd_app f fw) = fw_status fw" "fw_baud (upd_app f fw) = fw_baud fw"
  by (simp_all add: upd_app_def)

section \<open>Initialisation\<close>

text \<open>\<open>memset\<close> of the part of a frame that is in use, and its length reset.\<close>

definition clear_hdlc_frame :: "HDLC_FRAME_T \<Rightarrow> HDLC_FRAME_T" where
  "clear_hdlc_frame f =
     f\<lparr>hf_payload := replicate (hf_length f) 0 @ drop (hf_length f) (hf_payload f), hf_length := 0\<rparr>"

text \<open>From the stored configuration.  \<open>Undefined\<close> is the division by a stored baud rate of zero.\<close>

definition init_app_stored :: "'w wiznet \<Rightarrow> config_t \<Rightarrow> ('h, 'w) firmware \<Rightarrow> ('h, 'w) firmware outcome" where
  "init_app_stored z cfg fw =
     (let (net_config, net) = w5500_set_network z (cf_net_config cfg) (fw_net fw);
          fw1 = fw\<lparr>fw_app := (fw_app fw)\<lparr>ac_persistent_config := cfg, ac_local_config := cf_local_config cfg,
                      ac_destination_config := cf_remote_config cfg, ac_v24_config := cf_v24_config cfg,
                      ac_net_config := net_config\<rparr>,
                   fw_log := set_loglevel (cf_log_level cfg) (fw_log fw), fw_net := net\<rparr>
      in (case reinit_v24_config (cf_v24_config cfg) (vc_baudrate (cf_v24_config cfg)) (dr_runtime (fw_driver fw1)) of
            None \<Rightarrow> Stopped Undefined fw1
          | Some (config, rt) \<Rightarrow>
              Running (fw1\<lparr>fw_app := (fw_app fw1)\<lparr>ac_v24_config := config\<rparr>,
                           fw_driver := (fw_driver fw1)\<lparr>dr_runtime := rt\<rparr>\<rparr>)))"

definition init_app_default :: "'w wiznet \<Rightarrow> ('h, 'w) firmware \<Rightarrow> ('h, 'w) firmware outcome" where
  "init_app_default z fw =
     (let (net_config, net) = w5500_set_network_defaults z (ac_net_config (fw_app fw)) (fw_net fw);
          fw1 = fw\<lparr>fw_app := (fw_app fw)\<lparr>ac_local_config := \<lparr>uc_ip_address = DEFAULT_IP_ADDR, uc_port = DEFAULT_UDP_PORT\<rparr>,
                      ac_net_config := net_config\<rparr>,
                   fw_log := set_loglevel LOG_LEVEL_DEBUG (fw_log fw), fw_net := net\<rparr>
      in (case init_v24_config (ac_v24_config (fw_app fw1)) V24_BAUD_9600 (dr_runtime (fw_driver fw1)) of
            None \<Rightarrow> Stopped Undefined fw1
          | Some (config, rt) \<Rightarrow>
              Running (fw1\<lparr>fw_app := (fw_app fw1)\<lparr>ac_v24_config := config\<lparr>vc_external_clock := False\<rparr>,
                             ac_destination_config := \<lparr>uc_ip_address = nc_broadcast_address net_config,
                                                       uc_port = DEFAULT_UDP_PORT\<rparr>\<rparr>,
                           fw_driver := (fw_driver fw1)\<lparr>dr_runtime := rt\<rparr>\<rparr>)))"

definition init_app :: "'w wiznet \<Rightarrow> config_t \<Rightarrow> ('h, 'w) firmware \<Rightarrow> ('h, 'w) firmware outcome" where
  "init_app z persistent_config fw =
     (let fw1 = upd_app (\<lambda>app. app\<lparr>ac_stats := stats_zero, ac_need_prompt := True,
                  ac_rx_frame_buffer := (ac_rx_frame_buffer app)\<lparr>uf_length := 0\<rparr>,
                  ac_tx_frame_buffer := (ac_tx_frame_buffer app)\<lparr>uf_length := 0\<rparr>\<rparr>) fw
      in proceed
           (if ac_config_valid (fw_app fw1) then init_app_stored z persistent_config fw1
            else init_app_default z fw1)
           (\<lambda>fw2. Running (upd_app (\<lambda>app. app\<lparr>
              ac_accumulator := hdlc_sync_acc_init (sa_buffer (ac_accumulator app)) HDLC_FLAG_BYTE,
              ac_reconstructed_frame := (ac_reconstructed_frame app)\<lparr>hf_length := 0,
                hf_capacity := RX_HDLC_SYNC_MAX_BUFFER_SIZE\<rparr>\<rparr>) fw2)))"

section \<open>Start-up\<close>

text \<open>The static storage of the firmware before \<open>main\<close> runs; the flash and the hardware keep their state.\<close>

definition app_zero :: app_ctx_t where
  "app_zero =
     \<lparr>ac_persistent_config = config_zero, ac_config_valid = False, ac_need_prompt = False,
      ac_local_config = udp_config_zero, ac_destination_config = udp_config_zero,
      ac_sender_config = udp_config_zero, ac_net_config = net_config_zero, ac_v24_config = v24_config_zero,
      ac_rx_frame_buffer = \<lparr>uf_payload = replicate RX_BUF_SIZE 0, uf_length = 0\<rparr>,
      ac_tx_frame_buffer = \<lparr>uf_payload = replicate TX_BUF_SIZE 0, uf_length = 0\<rparr>,
      ac_reconstructed_frame = \<lparr>hf_payload = replicate RX_HDLC_SYNC_MAX_BUFFER_SIZE 0, hf_length = 0, hf_capacity = 0\<rparr>,
      ac_accumulator = hdlc_sync_acc_init (replicate RX_HDLC_SYNC_MAX_BUFFER_SIZE 0) 0,
      ac_tx_queue = \<lparr>tq_current_entry = tx_entry_zero,
        tq_queue_buffer = \<lparr>rb_buffer = replicate TX_FRAME_QUEUE_SIZE tx_entry_zero, rb_bufferEnd = 0,
          rb_capacity = 0, rb_count = 0, rb_itemSizeInByte = 0, rb_head = 0, rb_tail = 0\<rparr>,
        tq_queue_touched = False, tq_tx_wire_bytes = 0, tq_cts_seq_start = 0, tq_cts_seq_valid = False\<rparr>,
      ac_stats = stats_zero\<rparr>"

definition event_zero :: event_t where
  "event_zero = \<lparr>ev_type = EV_NONE, ev_data_len = 0, ev_data = Ptr_null, ev_is_inline = False\<rparr>"

definition v24_runtime_start :: v24_runtime_t where
  "v24_runtime_start = \<lparr>rt_tx_rts_holdoff_us = 0, rt_rts_set = False, rt_tx_pio = None, rt_tx_sm = 0,
     rt_rx_pio = None, rt_rx_sm = 0, rt_tx_clock_forced_low = False, rt_cts_toggle_seq = 0\<rparr>"

definition power_on :: "'h \<Rightarrow> 'w \<Rightarrow> config_t \<Rightarrow> ('h, 'w) firmware" where
  "power_on hw chip flash =
     \<lparr>fw_app = app_zero,
      fw_driver = \<lparr>dr_runtime = v24_runtime_start, dr_deassert_pending = False, dr_deassert_deadline_us = 0,
        dr_cts_initialized = False, dr_hw = hw, dr_trace = [], dr_rx = []\<rparr>,
      fw_net = \<lparr>w_chip = chip, w_trace = [], w_received = [], w_rx_events = 0, w_tx_events = 0, w_rx_was_full = False, w_tx_was_full = False\<rparr>,
      fw_events = event_queue_init event_zero, fw_log = global_logstate, fw_flash = flash,
      fw_decode_stats = hdlc_decode_stats_reset, fw_cli = cli_state_zero,
      fw_status = \<lparr>sb_udp_rx_frames = 0, sb_hdlc_frame_ready = 0, sb_udp_tx_frames = 0, sb_hdlc_decode_fail = 0,
        sb_serial_rx_bytes = 0\<rparr>,
      fw_baud = baud_monitor_zero\<rparr>"

fun in_net :: "('h, 'w) firmware \<Rightarrow> 'w w5500 outcome \<Rightarrow> ('h, 'w) firmware outcome" where
  "in_net fw (Running n) = Running (fw\<lparr>fw_net := n\<rparr>)"
| "in_net fw (Stopped r n) = Stopped r (fw\<lparr>fw_net := n\<rparr>)"

text \<open>A driver call with a null PIO is undefined.\<close>

definition in_driver :: "('h, 'w) firmware \<Rightarrow> 'h v24_driver option \<Rightarrow> ('h, 'w) firmware outcome" where
  "in_driver fw d = (case d of None \<Rightarrow> Stopped Undefined fw | Some d1 \<Rightarrow> Running (fw\<lparr>fw_driver := d1\<rparr>))"

text \<open>\<open>garbage\<close> is what the uninitialised local configuration holds when the flash has none.\<close>

definition main_config :: "config_t \<Rightarrow> ('h, 'w) firmware \<Rightarrow> config_t \<times> ('h, 'w) firmware" where
  "main_config garbage fw =
     (case (if config_is_valid (fw_flash fw) then config_read (fw_flash fw) else None) of
        Some cfg \<Rightarrow> (cfg, upd_app (\<lambda>app. app\<lparr>ac_config_valid := True\<rparr>) fw)
      | None \<Rightarrow> (garbage, upd_app (\<lambda>app. app\<lparr>ac_config_valid := False\<rparr>) fw))"

definition main_open_socket :: "'w wiznet \<Rightarrow> ('h, 'w) firmware \<Rightarrow> ('h, 'w) firmware outcome" where
  "main_open_socket z fw =
     (let (err, n) = w5500_open_udp_socket z (ac_local_config (fw_app fw)) (fw_net fw);
          fw1 = fw\<lparr>fw_net := n\<rparr>
      in if err \<noteq> E2S_OK then fatal_panic err fw1 else Running (fw1\<lparr>fw_net := w5500_debug_status z n\<rparr>))"

definition main_tx_queue :: "('h, 'w) firmware \<Rightarrow> ('h, 'w) firmware" where
  "main_tx_queue = upd_app (\<lambda>app. app\<lparr>ac_tx_queue :=
     snd (tx_queue_init (ac_tx_queue app) (rb_buffer (tq_queue_buffer (ac_tx_queue app))))\<rparr>)"

text \<open>Both PIO state machines, on \<open>pio0\<close>.\<close>

definition main_clocks :: "'h sdk \<Rightarrow> ('h, 'w) firmware \<Rightarrow> ('h, 'w) firmware outcome" where
  "main_clocks k fw =
     proceed (in_driver fw (tx_clock_init k 0 0 (ac_v24_config (fw_app fw)) (fw_driver fw))) (\<lambda>fw1.
       in_driver fw1 (rx_clock_init k 0 1 (Some (rx_polarities (vc_polarities (ac_v24_config (fw_app fw1)))))
         (fw_driver fw1)))"

text \<open>The frequency estimator, on the receive clock and, with the external clock, on the transmit clock.\<close>

definition main_estimator :: "'h sdk \<Rightarrow> ('h, 'w) firmware \<Rightarrow> ('h, 'w) firmware" where
  "main_estimator k fw =
     (let (cmds, m) = baudrate_estimator_init V24_RXC (fw_baud fw);
          (cmds', m') = (if vc_external_clock (ac_v24_config (fw_app fw)) then baudrate_estimator_init V24_TXC_DCE m else ([], m))
      in fw\<lparr>fw_baud := m', fw_driver := hw_do_all k (cmds @ cmds') (fw_driver fw)\<rparr>)"

lemma main_estimator_keeps [simp]:
  "fw_app (main_estimator k fw) = fw_app fw" "fw_net (main_estimator k fw) = fw_net fw"
  "fw_events (main_estimator k fw) = fw_events fw" "fw_log (main_estimator k fw) = fw_log fw"
  "fw_flash (main_estimator k fw) = fw_flash fw" "fw_decode_stats (main_estimator k fw) = fw_decode_stats fw"
  "fw_cli (main_estimator k fw) = fw_cli fw" "fw_status (main_estimator k fw) = fw_status fw"
  by (simp_all add: main_estimator_def split_beta Let_def)

text \<open>The last steps before the event loop.\<close>

definition main_ready :: "'h sdk \<Rightarrow> ('h, 'w) firmware \<Rightarrow> ('h, 'w) firmware" where
  "main_ready k fw =
     (let fw1 = (if get_loglevel (fw_log fw) = LOG_LEVEL_DEBUG
                 then upd_app (\<lambda>app. app\<lparr>ac_need_prompt := True\<rparr>) fw else fw)
      in fw1\<lparr>fw_events := event_queue_init event_zero,
             fw_driver := hw_do k (Gpio_put V24_DTR True) (fw_driver fw1)\<rparr>)"

text \<open>The start-up of \<open>main\<close> up to the event loop.\<close>

definition main_startup :: "'h sdk \<Rightarrow> 'w wiznet \<Rightarrow> config_t \<Rightarrow> ('h, 'w) firmware \<Rightarrow> ('h, 'w) firmware outcome" where
  "main_startup k z garbage fw =
     proceed (in_net fw (w5500_driver_init z (fw_net fw))) (\<lambda>fw1.
       let fw2 = fw1\<lparr>fw_driver := init_pins k (fw_driver fw1)\<rparr>;
           (cfg, fw3) = main_config garbage fw2
       in proceed (init_app z cfg fw3) (\<lambda>fw4.
          proceed (main_open_socket z fw4) (\<lambda>fw5.
          proceed (main_clocks k (main_tx_queue fw5)) (\<lambda>fw6. Running (main_ready k (main_estimator k fw6))))))"

end
