(* ===== verification/C_String.thy ===== *)
theory C_String
  imports E2S_Prelude
begin

text \<open>
  The functions of the C standard library that the command parser calls, on strings without their
  terminating zero: classification of characters, \<open>strtoul\<close> and \<open>strtol\<close> with base ten (with their
  \<open>ERANGE\<close> outcome and the end pointer as the rest of the string), the tokeniser \<open>strtok\<close>, and decimal
  printing as \<open>printf\<close> does it.  \<open>unsigned long\<close> has 32 bits on the target.

  Shown here: printing and reading a number are inverse, for every following text that does not start
  with a digit.
\<close>

section \<open>Characters\<close>

definition c_isspace :: "char \<Rightarrow> bool" where
  "c_isspace c \<longleftrightarrow> (let n = of_char c :: nat in n = 32 \<or> (9 \<le> n \<and> n \<le> 13))"

definition c_isdigit :: "char \<Rightarrow> bool" where
  "c_isdigit c \<longleftrightarrow> (let n = of_char c :: nat in 48 \<le> n \<and> n \<le> 57)"

definition digit_value :: "char \<Rightarrow> nat" where
  "digit_value c = of_char c - 48"

definition digit_char :: "nat \<Rightarrow> char" where
  "digit_char n = char_of (48 + n)"

lemma digit_char [simp]:
  assumes "n < 10"
  shows "c_isdigit (digit_char n)" "digit_value (digit_char n) = n"
proof -
  have "n \<in> {0, 1, 2, 3, 4, 5, 6, 7, 8, 9}"
    using assms by auto
  then show "c_isdigit (digit_char n)" "digit_value (digit_char n) = n"
    by (auto simp: digit_char_def digit_value_def c_isdigit_def)
qed

section \<open>Numbers\<close>

definition ULONG_MAX :: nat where "ULONG_MAX = 2 ^ 32 - 1"

fun dec_value :: "nat \<Rightarrow> string \<Rightarrow> nat" where
  "dec_value acc [] = acc"
| "dec_value acc (c # cs) = dec_value (10 * acc + digit_value c) cs"

fun c_sign :: "string \<Rightarrow> bool \<times> string" where
  "c_sign (c # cs) = (if c = CHR ''-'' then (True, cs) else if c = CHR ''+'' then (False, cs) else (False, c # cs))"
| "c_sign [] = (False, [])"

text \<open>
  \<open>None\<close>: nothing was converted (the end pointer is the start).  Otherwise the value, the rest of the
  string and whether \<open>errno\<close> was set to \<open>ERANGE\<close>.  A minus sign negates in unsigned arithmetic.
\<close>

definition strtoul :: "string \<Rightarrow> (nat \<times> string \<times> bool) option" where
  "strtoul s =
     (let (neg, t) = c_sign (dropWhile c_isspace s);
          ds = takeWhile c_isdigit t; rest = dropWhile c_isdigit t; n = dec_value 0 ds
      in if ds = [] then None
         else if n > ULONG_MAX then Some (ULONG_MAX, rest, True)
         else Some (if neg then (2 ^ 32 - n) mod 2 ^ 32 else n, rest, False))"

definition LONG_MAX :: int where "LONG_MAX = 2 ^ 31 - 1"
definition LONG_MIN :: int where "LONG_MIN = - (2 ^ 31)"

definition strtol :: "string \<Rightarrow> (int \<times> string \<times> bool) option" where
  "strtol s =
     (let (neg, t) = c_sign (dropWhile c_isspace s);
          ds = takeWhile c_isdigit t; rest = dropWhile c_isdigit t;
          n = (if neg then - int (dec_value 0 ds) else int (dec_value 0 ds))
      in if ds = [] then None
         else if n > LONG_MAX then Some (LONG_MAX, rest, True)
         else if n < LONG_MIN then Some (LONG_MIN, rest, True)
         else Some (n, rest, False))"

text \<open>Decimal digits, as the conversion \<open>%u\<close> prints them.\<close>

fun dec :: "nat \<Rightarrow> string" where
  "dec n = (if n < 10 then [digit_char n] else dec (n div 10) @ [digit_char (n mod 10)])"

declare dec.simps [simp del]

lemma dec_value_append: "dec_value acc (xs @ ys) = dec_value (dec_value acc xs) ys"
  by (induction xs arbitrary: acc) simp_all

lemma dec_digits: "\<forall>c\<in>set (dec n). c_isdigit c"
proof (induction n rule: dec.induct)
  case (1 n)
  then show ?case
    by (subst dec.simps) auto
qed

lemma dec_nonempty [simp]: "dec n \<noteq> []"
  by (subst dec.simps) simp

lemma dec_value_dec [simp]: "dec_value 0 (dec n) = n"
proof (induction n rule: dec.induct)
  case (1 n)
  then show ?case
    by (subst dec.simps) (simp add: dec_value_append)
qed

lemma dec_hd:
  obtains d ds where "dec n = d # ds" "c_isdigit d" "\<not> c_isspace d" "d \<noteq> CHR ''-''" "d \<noteq> CHR ''+''"
proof -
  obtain d ds where d: "dec n = d # ds"
    by (cases "dec n") auto
  then have "c_isdigit d"
    using dec_digits [of n] by simp
  moreover from this have "\<not> c_isspace d" "d \<noteq> CHR ''-''" "d \<noteq> CHR ''+''"
    by (auto simp: c_isdigit_def c_isspace_def Let_def)
  ultimately show ?thesis
    using that d by blast
qed

text \<open>The text after a number does not continue it.\<close>

definition no_digit :: "string \<Rightarrow> bool" where
  "no_digit t \<longleftrightarrow> (case t of [] \<Rightarrow> True | c # _ \<Rightarrow> \<not> c_isdigit c)"

lemma takeWhile_dec: "no_digit t \<Longrightarrow> takeWhile c_isdigit (dec n @ t) = dec n \<and> dropWhile c_isdigit (dec n @ t) = t"
  using dec_digits [of n] by (cases t) (simp_all add: takeWhile_append2 dropWhile_append2 takeWhile_append dropWhile_append no_digit_def)

lemma c_sign_dec: "c_sign (dropWhile c_isspace (dec n @ t)) = (False, dec n @ t)"
  by (rule dec_hd [of n]) simp

lemma strtoul_dec:
  assumes "no_digit t"
  shows "strtoul (dec n @ t) = Some (if n > ULONG_MAX then ULONG_MAX else n, t, n > ULONG_MAX)"
  using takeWhile_dec [OF assms, of n] by (simp add: strtoul_def c_sign_dec Let_def)

lemma strtol_dec:
  assumes "no_digit t" "int n \<le> LONG_MAX"
  shows "strtol (dec n @ t) = Some (int n, t, False)"
  using takeWhile_dec [OF assms(1), of n] assms(2) by (simp add: strtol_def c_sign_dec Let_def LONG_MIN_def)

section \<open>Tokens\<close>

text \<open>One call of \<open>strtok\<close> with a single delimiter: the token and the text left for the next call.\<close>

definition strtok :: "char \<Rightarrow> string \<Rightarrow> (string \<times> string) option" where
  "strtok delim s =
     (let t = dropWhile (\<lambda>c. c = delim) s in
      if t = [] then None
      else Some (takeWhile (\<lambda>c. c \<noteq> delim) t, drop 1 (dropWhile (\<lambda>c. c \<noteq> delim) t)))"

lemma strtok_shorter: "strtok delim s = Some (t, rest) \<Longrightarrow> length rest < length s"
proof -
  assume a: "strtok delim s = Some (t, rest)"
  let ?u = "dropWhile (\<lambda>c. c = delim) s"
  have ne: "?u \<noteq> []" and rest: "rest = drop 1 (dropWhile (\<lambda>c. c \<noteq> delim) ?u)"
    using a by (auto simp: strtok_def Let_def split: if_splits)
  obtain a as where u: "?u = a # as"
    using ne by (cases ?u) auto
  then have "a \<noteq> delim"
    using hd_dropWhile [OF ne] by simp
  then have "length (dropWhile (\<lambda>c. c \<noteq> delim) ?u) < length ?u"
    unfolding u using length_dropWhile_le [of "\<lambda>c. c \<noteq> delim" as] by simp
  then show ?thesis
    using rest length_dropWhile_le [of "\<lambda>c. c = delim" s] by simp
qed

text \<open>Trimming the spaces at both ends, as the parser does with its pointers.\<close>

definition skip_spaces :: "string \<Rightarrow> string" where
  "skip_spaces s = dropWhile (\<lambda>c. c = CHR '' '') s"

definition trim_end :: "string \<Rightarrow> string" where
  "trim_end s = rev (dropWhile (\<lambda>c. c = CHR '' '') (rev s))"

end
