(* ===== verification/Cli_Parser.thy ===== *)
theory Cli_Parser
  imports C_String Error_Codes V24_Driver
begin

text \<open>
  \<open>src/system/cli_parser.c\<close>: splitting of console lines and parsing of command arguments.  Strings
  are lists of characters without the terminating zero; a \<open>NULL\<close> string is \<open>None\<close> where the source
  tests for it.  Output arguments that a failing call may already have written to (the four octets of
  an address, the polarity flags, the pin name) are returned updated; those written only on success are
  part of the result.

  Shown here: what \<open>cli_parse\<close> splits and when it refuses; printed addresses, ports, rates and
  polarity lists are read back exactly; the subnet mask is right for prefixes up to 32; only known
  rates are accepted; and a flaw: prefixes above 255 are taken modulo 256.
\<close>

section \<open>Pins\<close>

record pin_info_t =
  pin_name :: string
  pin_gpio_num :: nat
  pin_is_output :: bool

definition mk_pin :: "string \<Rightarrow> nat \<Rightarrow> bool \<Rightarrow> pin_info_t" where
  "mk_pin n g out = \<lparr>pin_name = n, pin_gpio_num = g, pin_is_output = out\<rparr>"

definition pin_table :: "pin_info_t list" where
  "pin_table =
     [mk_pin ''txd'' V24_TXD True, mk_pin ''rxd'' V24_RXD False,
      mk_pin ''rts'' V24_RTS True, mk_pin ''cts'' V24_CTS False,
      mk_pin ''dtr'' V24_DTR True, mk_pin ''dsr'' V24_DSR False,
      mk_pin ''dcd'' V24_DCD False, mk_pin ''tx_active'' V24_TX_ACTIVE True,
      mk_pin ''tck'' V24_TXC_DTE True, mk_pin ''rck'' V24_RXC False,
      mk_pin ''led'' V24_STATUS_LED True]"

definition get_num_pins :: nat where "get_num_pins = length pin_table"

text \<open>The loop over the table: the first entry of that name.\<close>

definition find_pin :: "string \<Rightarrow> pin_info_t option" where
  "find_pin name = List.find (\<lambda>p. name = pin_name p) pin_table"

section \<open>Numbers and addresses\<close>

definition prefix_to_mask :: "byte \<Rightarrow> byte list \<Rightarrow> bool \<times> byte list" where
  "prefix_to_mask prefix netmask =
     (if prefix > 32 then (False, netmask)
      else
        let mask_word = (if prefix = 0 then 0 else push_bit (32 - unat prefix) (- 1)) :: u32
        in (True, [ucast (drop_bit 24 mask_word AND 0xFF), ucast (drop_bit 16 mask_word AND 0xFF),
                   ucast (drop_bit 8 mask_word AND 0xFF), ucast (drop_bit 0 mask_word AND 0xFF)]))"

definition parse_u32_strict :: "string \<Rightarrow> u32 option" where
  "parse_u32_strict s =
     (if s = [] then None
      else case strtoul s of
        None \<Rightarrow> None
      | Some (v, rest, erange) \<Rightarrow>
          if erange \<or> rest \<noteq> [] \<or> v > 2 ^ 32 - 1 then None else Some (of_nat v))"

definition parse_i32_strict :: "string \<Rightarrow> int option" where
  "parse_i32_strict s =
     (if s = [] then None
      else case strtol s of
        None \<Rightarrow> None
      | Some (v, rest, erange) \<Rightarrow>
          if erange \<or> rest \<noteq> [] \<or> v < - (2 ^ 31) \<or> v > 2 ^ 31 - 1 then None else Some v)"

text \<open>The octet loop with \<open>n\<close> octets to go: the octet index is \<open>4 - n\<close>.\<close>

fun ipv4_loop :: "nat \<Rightarrow> string \<Rightarrow> byte list \<Rightarrow> bool \<times> byte list" where
  "ipv4_loop 0 cursor ip_addr = (True, ip_addr)"
| "ipv4_loop (Suc n) cursor ip_addr =
     (if cursor = [] then (False, ip_addr)
      else case strtoul cursor of
        None \<Rightarrow> (False, ip_addr)
      | Some (octet, rest, erange) \<Rightarrow>
          if erange \<or> octet > 255 then (False, ip_addr)
          else if n > 0 then
            (case rest of
               [] \<Rightarrow> (False, ip_addr)
             | c # cs \<Rightarrow> if c \<noteq> CHR ''.'' then (False, ip_addr)
                         else ipv4_loop n cs (ip_addr[3 - n := of_nat octet]))
          else if rest \<noteq> [] then (False, ip_addr)
          else ipv4_loop n rest (ip_addr[3 - n := of_nat octet]))"

definition parse_ipv4_strict :: "string \<Rightarrow> byte list \<Rightarrow> bool \<times> byte list" where
  "parse_ipv4_strict s ip_addr = ipv4_loop 4 s ip_addr"

text \<open>\<open>strncmp (s, p, strlen p) == 0\<close> followed by a space: the text behind it, else the text itself.\<close>

definition skip_prefix :: "string \<Rightarrow> string \<Rightarrow> string" where
  "skip_prefix p s =
     (if take (length p) s = p \<and> (case drop (length p) s of [] \<Rightarrow> False | c # _ \<Rightarrow> c = CHR '' '')
      then drop (length p + 1) s else s)"

definition parse_ipv4_with_optional_prefix ::
  "string \<Rightarrow> string option \<Rightarrow> byte list \<Rightarrow> e2s_error_t \<times> byte list" where
  "parse_ipv4_with_optional_prefix args prefix ip_addr =
     (let input = (case prefix of None \<Rightarrow> args | Some p \<Rightarrow> skip_prefix p args);
          (ok, ip) = parse_ipv4_strict input ip_addr
      in (if ok then E2S_OK else E2S_ERR_CLI_USAGE_SET, ip))"

definition parse_u16_with_optional_prefix :: "string \<Rightarrow> string option \<Rightarrow> e2s_error_t + u16" where
  "parse_u16_with_optional_prefix args prefix =
     (let input = (case prefix of None \<Rightarrow> args | Some p \<Rightarrow> skip_prefix p args) in
      case parse_u32_strict input of
        None \<Rightarrow> Inl E2S_ERR_CLI_USAGE_SET
      | Some v \<Rightarrow> if v > 0xFFFF then Inl E2S_ERR_CLI_USAGE_SET else Inr (ucast v))"

section \<open>Network arguments\<close>

text \<open>The addresses come back as error code, octets and mask.\<close>

definition parse_set_ip_args ::
  "string option \<Rightarrow> byte list \<Rightarrow> byte list \<Rightarrow> e2s_error_t \<times> byte list \<times> byte list" where
  "parse_set_ip_args args ip_addr netmask =
     (case args of
        None \<Rightarrow> (E2S_ERR_CLI_USAGE_SET, ip_addr, netmask)
      | Some s \<Rightarrow>
          let input = (if take 3 s = ''ip '' then drop 3 s else s) in
          if length input \<ge> 32 then (E2S_ERR_CLI_USAGE_SET, ip_addr, netmask)
          else if CHR ''/'' \<notin> set input then (E2S_ERR_CLI_USAGE_SET, ip_addr, netmask)
          else
            let address = takeWhile (\<lambda>c. c \<noteq> CHR ''/'') input;
                prefix_text = drop 1 (dropWhile (\<lambda>c. c \<noteq> CHR ''/'') input)
            in case parse_u32_strict prefix_text of
                 None \<Rightarrow> (E2S_ERR_CLI_USAGE_SET, ip_addr, netmask)
               | Some prefix \<Rightarrow>
                   let (ok, ip) = parse_ipv4_strict address ip_addr in
                   if \<not> ok then (E2S_ERR_CLI_USAGE_SET, ip, netmask)
                   else let (ok', mask) = prefix_to_mask (ucast prefix) netmask in
                        if \<not> ok' then (E2S_ERR_CLI_USAGE_SET, ip, mask) else (E2S_OK, ip, mask))"

definition parse_set_net_ip_args ::
  "string \<Rightarrow> byte list \<Rightarrow> byte list \<Rightarrow> e2s_error_t \<times> byte list \<times> byte list" where
  "parse_set_net_ip_args args ip_addr netmask =
     (if take 4 args \<noteq> ''net '' then (E2S_ERR_CLI_USAGE_SET, ip_addr, netmask)
      else parse_set_ip_args (Some (drop 4 args)) ip_addr netmask)"

definition parse_set_ip_remote_args :: "string \<Rightarrow> byte list \<Rightarrow> e2s_error_t \<times> byte list" where
  "parse_set_ip_remote_args args ip_addr = parse_ipv4_with_optional_prefix args (Some ''ip'') ip_addr"

definition parse_set_gateway_args :: "string \<Rightarrow> byte list \<Rightarrow> e2s_error_t \<times> byte list" where
  "parse_set_gateway_args args ip_addr = parse_ipv4_with_optional_prefix args (Some ''gateway'') ip_addr"

definition parse_set_udp_port_local_args :: "string \<Rightarrow> e2s_error_t + u16" where
  "parse_set_udp_port_local_args args = parse_u16_with_optional_prefix args (Some ''port'')"

definition parse_set_udp_port_remote_args :: "string \<Rightarrow> e2s_error_t + u16" where
  "parse_set_udp_port_remote_args args = parse_u16_with_optional_prefix args (Some ''port'')"

section \<open>Pins and line settings\<close>

text \<open>
  \<open>pin_name\<close> is the caller's 16 byte buffer; the value and the pin are given for success only (what
  the caller's variables hold after an error is not used).
\<close>

definition parse_set_gpio_args :: "string option \<Rightarrow> string \<Rightarrow> (e2s_error_t + int \<times> pin_info_t) \<times> string" where
  "parse_set_gpio_args args name_buf =
     (case args of
        None \<Rightarrow> (Inl E2S_ERR_CLI_USAGE_SET, name_buf)
      | Some s \<Rightarrow>
          if length s \<ge> 64 then (Inl E2S_ERR_CLI_USAGE_SET, name_buf)
          else case strtok (CHR '' '') s of
            None \<Rightarrow> (Inl E2S_ERR_CLI_USAGE_SET, name_buf)
          | Some (tok_pin, rest) \<Rightarrow>
             (case strtok (CHR '' '') rest of
                None \<Rightarrow> (Inl E2S_ERR_CLI_USAGE_SET, name_buf)
              | Some (tok_val, rest2) \<Rightarrow>
                  if strtok (CHR '' '') rest2 \<noteq> None then (Inl E2S_ERR_CLI_USAGE_SET, name_buf)
                  else if length tok_pin \<ge> 16 then (Inl E2S_ERR_CLI_USAGE_SET, name_buf)
                  else case parse_i32_strict tok_val of
                    None \<Rightarrow> (Inl E2S_ERR_CLI_USAGE_SET, tok_pin)
                  | Some v \<Rightarrow>
                      if v \<noteq> 0 \<and> v \<noteq> 1 then (Inl E2S_ERR_CLI_USAGE_SET, tok_pin)
                      else case find_pin tok_pin of
                        None \<Rightarrow> (Inl E2S_ERR_CLI_UNKNOWN_PIN, tok_pin)
                      | Some pin \<Rightarrow>
                          if \<not> pin_is_output pin then (Inl E2S_ERR_CLI_PIN_INPUT_ONLY, tok_pin)
                          else (Inr (v, pin), tok_pin)))"

text \<open>Setting the flag that a token names; \<open>None\<close> for a pin that has no polarity.\<close>

definition set_polarity :: "string \<Rightarrow> V24_POLARITIES_T \<Rightarrow> V24_POLARITIES_T option" where
  "set_polarity token p =
     (let tx = tx_polarities p; rx = rx_polarities p in
      if token = ''txd'' then Some (p\<lparr>tx_polarities := tx\<lparr>txd_inverted := True\<rparr>\<rparr>)
      else if token = ''rts'' then Some (p\<lparr>tx_polarities := tx\<lparr>rts_inverted := True\<rparr>\<rparr>)
      else if token = ''cts'' then Some (p\<lparr>tx_polarities := tx\<lparr>cts_inverted := True\<rparr>\<rparr>)
      else if token = ''dtr'' then Some (p\<lparr>tx_polarities := tx\<lparr>dtr_inverted := True\<rparr>\<rparr>)
      else if token = ''rxd'' then Some (p\<lparr>rx_polarities := rx\<lparr>rxd_inverted := True\<rparr>\<rparr>)
      else if token = ''dcd'' then Some (p\<lparr>rx_polarities := rx\<lparr>dcd_inverted := True\<rparr>\<rparr>)
      else if token = ''tck'' then Some (p\<lparr>tx_polarities := tx\<lparr>txc_inverted := True\<rparr>\<rparr>)
      else if token = ''rck'' then Some (p\<lparr>rx_polarities := rx\<lparr>rxc_inverted := True\<rparr>\<rparr>)
      else None)"

function polarity_loop :: "string \<Rightarrow> V24_POLARITIES_T \<Rightarrow> e2s_error_t \<times> V24_POLARITIES_T" where
  "polarity_loop buf p =
     (case strtok (CHR '','') buf of
        None \<Rightarrow> (E2S_OK, p)
      | Some (token, rest) \<Rightarrow>
          let t = trim_end (skip_spaces token) in
          if t = [] then (E2S_ERR_CLI_USAGE_SET, p)
          else if find_pin t = None then (E2S_ERR_CLI_USAGE_SET, p)
          else case set_polarity t p of
            None \<Rightarrow> (E2S_ERR_CLI_USAGE_SET, p)
          | Some p' \<Rightarrow> polarity_loop rest p')"
  by pat_completeness auto
termination
  by (relation "measure (\<lambda>(buf, p). length buf)") (auto dest: strtok_shorter)

definition parse_set_v24_polarities :: "string option \<Rightarrow> e2s_error_t \<times> V24_POLARITIES_T" where
  "parse_set_v24_polarities args =
     (case args of
        None \<Rightarrow> (E2S_OK, no_polarities)
      | Some s0 \<Rightarrow>
          let s = skip_spaces s0 in
          if s = [] then (E2S_OK, no_polarities)
          else
            let token_list = (if take 7 s = ''invert '' then drop 7 s else s) in
            if length token_list \<ge> 64 then (E2S_ERR_CLI_USAGE_SET, no_polarities)
            else polarity_loop token_list no_polarities)"

definition parse_set_v24_baudrate :: "string option \<Rightarrow> e2s_error_t + V24_BAUDRATE_T" where
  "parse_set_v24_baudrate args =
     (case args of
        None \<Rightarrow> Inl E2S_ERR_CLI_USAGE_SET
      | Some s0 \<Rightarrow>
          let s = skip_spaces s0 in
          if s = [] then Inl E2S_ERR_CLI_USAGE_SET
          else case parse_u32_strict s of
            None \<Rightarrow> Inl E2S_ERR_CLI_USAGE_SET
          | Some v \<Rightarrow> if v \<in> set v24_baudrates then Inr v else Inl E2S_ERR_CLI_USAGE_SET)"

definition parse_set_v24_clockmode :: "string option \<Rightarrow> e2s_error_t + bool" where
  "parse_set_v24_clockmode args =
     (case args of
        None \<Rightarrow> Inl E2S_ERR_CLI_USAGE_SET
      | Some s0 \<Rightarrow>
          let s = skip_spaces s0 in
          if s = [] then Inl E2S_ERR_CLI_USAGE_SET
          else case parse_u32_strict s of
            None \<Rightarrow> Inl E2S_ERR_CLI_USAGE_SET
          | Some v \<Rightarrow> if v > 1 then Inl E2S_ERR_CLI_USAGE_SET else Inr (v = 1))"

text \<open>\<open>sscanf (args, "%15s", pin_name)\<close>: white space is skipped, at most 15 characters are taken.\<close>

definition parse_get_args :: "string \<Rightarrow> string \<Rightarrow> (e2s_error_t + pin_info_t) \<times> string" where
  "parse_get_args args name_buf =
     (let t = take 15 (takeWhile (\<lambda>c. \<not> c_isspace c) (dropWhile c_isspace args)) in
      if t = [] then (Inl E2S_ERR_CLI_USAGE_GET, name_buf)
      else (case find_pin t of None \<Rightarrow> Inl E2S_ERR_CLI_UNKNOWN_PIN | Some p \<Rightarrow> Inr p, t))"

section \<open>Lines\<close>

text \<open>
  The two output buffers are the strings they hold (\<open>None\<close> for \<open>NULL\<close>) and their capacities.  The
  conversion \<open>%s\<close> cannot fail, so the branch of \<open>E2S_ERR_CLI_LINE_FORMAT\<close> is not reached.
\<close>

definition cli_parse ::
  "string option \<Rightarrow> string option \<Rightarrow> nat \<Rightarrow> string option \<Rightarrow> nat \<Rightarrow> e2s_error_t \<times> string option \<times> string option" where
  "cli_parse line cmd cmd_cap args args_cap =
     (if line = None \<or> cmd = None \<or> args = None \<or> cmd_cap = 0 \<or> args_cap = 0
      then (E2S_ERR_CLI_USAGE_SET, cmd, args)
      else if the line = [] then (E2S_ERR_CLI_EMPTY_LINE, Some [], Some [])
      else
        let s = skip_spaces (the line) in
        if s = [] then (E2S_ERR_CLI_EMPTY_LINE, Some [], Some [])
        else
          let word = takeWhile (\<lambda>c. c \<noteq> CHR '' '') s in
          if length word + 1 > cmd_cap then (E2S_ERR_CLI_LINE_TRUNCATED, cmd, args)
          else
            let arg_start = skip_spaces (dropWhile (\<lambda>c. c \<noteq> CHR '' '') s) in
            (if length arg_start \<ge> args_cap then E2S_ERR_CLI_LINE_TRUNCATED else E2S_OK,
             Some word, Some (take (args_cap - 1) arg_start)))"

section \<open>Printed arguments\<close>

definition print_ip :: "byte list \<Rightarrow> string" where
  "print_ip ip = dec (unat (ip ! 0)) @ CHR ''.'' # dec (unat (ip ! 1)) @ CHR ''.'' # dec (unat (ip ! 2))
     @ CHR ''.'' # dec (unat (ip ! 3))"

lemma no_digit_simps [simp]: "no_digit []" "no_digit (CHR ''.'' # t)" "no_digit (CHR ''/'' # t)"
  by (simp_all add: no_digit_def c_isdigit_def)

lemma strtoul_octet:
  "no_digit t \<Longrightarrow> strtoul (dec (unat (b :: byte)) @ t) = Some (unat b, t, False)"
  using unsigned_less [of b, where 'a = nat] by (simp add: strtoul_dec ULONG_MAX_def)

lemma unat_byte_le [simp]: "unat (b :: byte) \<le> 255"
  using unsigned_less [of b, where 'a = nat] by simp

lemma list4: "length xs = 4 \<Longrightarrow> xs = [xs ! 0, xs ! 1, xs ! 2, xs ! 3]"
  by (auto simp: length_Suc_conv numeral_eq_Suc)

lemma ipv4_step:
  "0 < n \<Longrightarrow> ipv4_loop (Suc n) (dec (unat (b :: byte)) @ CHR ''.'' # t) ip = ipv4_loop n t (ip[3 - n := b])"
  using unat_byte_le [of b] by (simp add: strtoul_octet del: unat_byte_le)

lemma ipv4_last: "ipv4_loop (Suc 0) (dec (unat (b :: byte))) ip = (True, ip[3 := b])"
  using unat_byte_le [of b] strtoul_octet [of "[]" b] by (simp del: unat_byte_le)

lemma parse_ipv4_print:
  assumes "length ip = 4" "length old = 4"
  shows "parse_ipv4_strict (print_ip ip) old = (True, ip)"
proof -
  obtain a b c d where old: "old = [a, b, c, d]"
    using list4 [OF assms(2)] by blast
  have four: "ipv4_loop 4 = ipv4_loop (Suc (Suc (Suc (Suc 0))))"
    by (simp add: numeral_eq_Suc)
  have "parse_ipv4_strict (print_ip ip) old = (True, [ip ! 0, ip ! 1, ip ! 2, ip ! 3])"
    unfolding parse_ipv4_strict_def print_ip_def old four
    by (simp add: ipv4_step ipv4_last del: ipv4_loop.simps)
  then show ?thesis
    using list4 [OF assms(1)] by simp
qed

lemma parse_u32_dec: "n < 2 ^ 32 \<Longrightarrow> parse_u32_strict (dec n) = Some (of_nat n)"
  using strtoul_dec [of "[]" n] by (simp add: parse_u32_strict_def ULONG_MAX_def)

lemma parse_u32_dec_big: "2 ^ 32 \<le> n \<Longrightarrow> parse_u32_strict (dec n) = None"
  using strtoul_dec [of "[]" n] by (simp add: parse_u32_strict_def ULONG_MAX_def)

lemma length_dec: "n < 10 ^ k \<Longrightarrow> 0 < k \<Longrightarrow> length (dec n) \<le> k"
proof (induction k arbitrary: n)
  case (Suc k)
  show ?case
  proof (cases "n < 10")
    case False
    then have "n div 10 < 10 ^ k" "0 < k"
      using Suc.prems by (auto simp: less_mult_imp_div_less mult.commute intro: gr0I)
    then show ?thesis
      using Suc.IH [of "n div 10"] False by (subst dec.simps) simp
  qed (subst dec.simps, simp)
qed simp

lemma length_print_ip: "length (print_ip ip) \<le> 15"
proof -
  have "length (dec (unat (b :: byte))) \<le> 3" for b
    using length_dec [of "unat b" 3] unat_byte_le [of b] by simp
  from this [of "ip ! 0"] this [of "ip ! 1"] this [of "ip ! 2"] this [of "ip ! 3"] show ?thesis
    by (simp add: print_ip_def)
qed

lemma slash_print_ip: "CHR ''/'' \<notin> set (print_ip ip)"
proof -
  have "CHR ''/'' \<notin> set (dec n)" for n
    using dec_digits [of n] by (auto simp: c_isdigit_def)
  then show ?thesis
    by (simp add: print_ip_def)
qed

section \<open>Masks\<close>

lemma prefix_mask_bits:
  "\<forall>p\<in>set [0..<33]. fst (prefix_to_mask (of_nat p) []) \<and>
     bytes_bits False (snd (prefix_to_mask (of_nat p) [])) = replicate p True @ replicate (32 - p) False"
  by code_simp

lemma prefix_to_mask_small:
  assumes "p \<le> 32"
  shows "fst (prefix_to_mask (of_nat p) m)"
    "bytes_bits False (snd (prefix_to_mask (of_nat p) m)) = replicate p True @ replicate (32 - p) False"
proof -
  have "prefix_to_mask (of_nat p) m = prefix_to_mask (of_nat p) []" if "fst (prefix_to_mask (of_nat p) [])"
    using that by (auto simp: prefix_to_mask_def Let_def split: if_splits)
  then show "fst (prefix_to_mask (of_nat p) m)"
    "bytes_bits False (snd (prefix_to_mask (of_nat p) m)) = replicate p True @ replicate (32 - p) False"
    using prefix_mask_bits assms by (simp_all add: less_Suc_eq_le)
qed

lemma byte_of_u32: "(ucast (of_nat n :: u32) :: byte) = of_nat (n mod 256)"
proof -
  have "unat (ucast (of_nat n :: u32) :: byte) = unat (of_nat (n mod 256) :: byte)"
    by (simp add: unsigned_ucast_eq unsigned_of_nat take_bit_eq_mod mod_mod_cancel)
  then show ?thesis
    by (rule unsigned_word_eqI)
qed

section \<open>Polarity lists\<close>

definition polarity_names :: "string list" where
  "polarity_names = [''txd'', ''rts'', ''cts'', ''dtr'', ''rxd'', ''dcd'', ''tck'', ''rck'']"

definition polarity_flag :: "V24_POLARITIES_T \<Rightarrow> string \<Rightarrow> bool" where
  "polarity_flag p name =
     (if name = ''txd'' then txd_inverted (tx_polarities p)
      else if name = ''rts'' then rts_inverted (tx_polarities p)
      else if name = ''cts'' then cts_inverted (tx_polarities p)
      else if name = ''dtr'' then dtr_inverted (tx_polarities p)
      else if name = ''rxd'' then rxd_inverted (rx_polarities p)
      else if name = ''dcd'' then dcd_inverted (rx_polarities p)
      else if name = ''tck'' then txc_inverted (tx_polarities p)
      else name = ''rck'' \<and> rxc_inverted (rx_polarities p))"

fun commas :: "string list \<Rightarrow> string" where
  "commas [] = []"
| "commas [x] = x"
| "commas (x # y # zs) = x @ CHR '','' # commas (y # zs)"

lemma set_polarity_flag:
  assumes "n \<in> set polarity_names"
  shows "\<exists>p'. set_polarity n p = Some p' \<and> (\<forall>m\<in>set polarity_names. polarity_flag p' m \<longleftrightarrow> m = n \<or> polarity_flag p m)"
  using assms by (auto simp: polarity_names_def set_polarity_def polarity_flag_def Let_def)

lemma polarity_name_facts:
  assumes "n \<in> set polarity_names"
  shows "CHR '','' \<notin> set n" "n \<noteq> []" "trim_end (skip_spaces n) = n" "find_pin n \<noteq> None" "length n = 3"
    "skip_spaces n = n"
  using assms by (auto simp: polarity_names_def trim_end_def skip_spaces_def find_pin_def pin_table_def mk_pin_def)

lemma strtok_word:
  assumes "n \<noteq> []" "d \<notin> set n"
  shows "strtok d n = Some (n, [])" "strtok d (n @ d # t) = Some (n, t)"
proof -
  obtain a as where n: "n = a # as" "a \<noteq> d"
    using assms by (cases n) auto
  have all: "\<And>x. x \<in> set n \<Longrightarrow> x \<noteq> d"
    using assms(2) by auto
  then have tw: "takeWhile (\<lambda>c. c \<noteq> d) n = n" and dd: "dropWhile (\<lambda>c. c \<noteq> d) n = []"
    by simp_all
  have e: "dropWhile (\<lambda>c. c = d) n = n" "dropWhile (\<lambda>c. c = d) (n @ d # t) = n @ d # t"
    using n by simp_all
  show "strtok d n = Some (n, [])"
    using assms(1) by (simp only: strtok_def Let_def e tw dd) simp
  show "strtok d (n @ d # t) = Some (n, t)"
    unfolding strtok_def Let_def e by (simp add: takeWhile_append2 dropWhile_append2 all)
qed

lemma polarity_loop_commas:
  assumes "set ns \<subseteq> set polarity_names"
  shows "\<exists>p'. polarity_loop (commas ns) p = (E2S_OK, p')
    \<and> (\<forall>m\<in>set polarity_names. polarity_flag p' m \<longleftrightarrow> m \<in> set ns \<or> polarity_flag p m)"
  using assms
proof (induction ns arbitrary: p rule: commas.induct)
  case 1
  show ?case
    by (subst polarity_loop.simps) (simp add: strtok_def)
next
  case (2 n)
  then have n: "n \<in> set polarity_names"
    by simp
  obtain p' where p': "set_polarity n p = Some p'" "\<forall>m\<in>set polarity_names. polarity_flag p' m \<longleftrightarrow> m = n \<or> polarity_flag p m"
    using set_polarity_flag [OF n] by blast
  have "polarity_loop [] p' = (E2S_OK, p')"
    by (subst polarity_loop.simps) (simp add: strtok_def)
  then have "polarity_loop n p = (E2S_OK, p')"
    using polarity_name_facts [OF n] p'(1) strtok_word(1) [of n "CHR '',''"]
    by (subst polarity_loop.simps) (auto simp del: polarity_loop.simps)
  then show ?case
    using p'(2) by auto
next
  case (3 n k ks)
  then have n: "n \<in> set polarity_names"
    by simp
  obtain p' where p': "set_polarity n p = Some p'" "\<forall>m\<in>set polarity_names. polarity_flag p' m \<longleftrightarrow> m = n \<or> polarity_flag p m"
    using set_polarity_flag [OF n] by blast
  obtain p'' where p'': "polarity_loop (commas (k # ks)) p' = (E2S_OK, p'')"
    "\<forall>m\<in>set polarity_names. polarity_flag p'' m \<longleftrightarrow> m \<in> set (k # ks) \<or> polarity_flag p' m"
    using "3.IH" [of p'] "3.prems" by auto
  have "polarity_loop (commas (n # k # ks)) p = polarity_loop (commas (k # ks)) p'"
    using polarity_name_facts [OF n] p'(1) strtok_word(2) [of n "CHR '',''" "commas (k # ks)"]
    by (subst polarity_loop.simps) (auto simp del: polarity_loop.simps)
  then show ?case
    using p' p'' by auto
qed

section \<open>Splitting a line\<close>

abbreviation spaces :: "nat \<Rightarrow> string" where
  "spaces n \<equiv> replicate n (CHR '' '')"

lemma skip_spaces_split: "s = spaces (length s - length (skip_spaces s)) @ skip_spaces s"
  by (induction s) (auto simp: skip_spaces_def Suc_diff_le length_dropWhile_le)

lemma skip_spaces_hd: "skip_spaces s = [] \<or> hd (skip_spaces s) \<noteq> CHR '' ''"
  by (induction s) (auto simp: skip_spaces_def)

lemma skip_spaces_append:
  assumes "t = [] \<or> hd t \<noteq> CHR '' ''"
  shows "skip_spaces (spaces n @ t) = t"
  using assms by (induction n) (cases t, auto simp: skip_spaces_def)

lemma split_word:
  assumes "w \<noteq> []" "CHR '' '' \<notin> set w" "t = [] \<or> hd t = CHR '' ''"
  shows "takeWhile (\<lambda>c. c \<noteq> CHR '' '') (w @ t) = w" "dropWhile (\<lambda>c. c \<noteq> CHR '' '') (w @ t) = t"
proof -
  have "\<And>x. x \<in> set w \<Longrightarrow> x \<noteq> CHR '' ''"
    using assms(2) by auto
  then show "takeWhile (\<lambda>c. c \<noteq> CHR '' '') (w @ t) = w" "dropWhile (\<lambda>c. c \<noteq> CHR '' '') (w @ t) = t"
    using assms(3) by (cases t; simp add: takeWhile_append2 dropWhile_append2)+
qed

lemma cli_parse_of_words:
  assumes "w \<noteq> []" "CHR '' '' \<notin> set w" "r = [] \<or> hd r \<noteq> CHR '' ''" "r \<noteq> [] \<longrightarrow> 0 < j" "0 < cc" "0 < ac"
  shows "cli_parse (Some (spaces i @ w @ spaces j @ r)) (Some c) cc (Some a) ac =
    (if length w \<ge> cc then (E2S_ERR_CLI_LINE_TRUNCATED, Some c, Some a)
     else (if length r \<ge> ac then E2S_ERR_CLI_LINE_TRUNCATED else E2S_OK, Some w, Some (take (ac - 1) r)))"
proof -
  have "hd w \<noteq> CHR '' ''"
    using assms(1,2) by (cases w) auto
  then have skip: "skip_spaces (spaces i @ w @ spaces j @ r) = w @ spaces j @ r"
    using assms(1) by (intro skip_spaces_append) simp
  have "spaces j @ r = [] \<or> hd (spaces j @ r) = CHR '' ''"
    using assms(4) by (cases j) auto
  note sp = split_word [OF assms(1,2) this]
  show ?thesis
    using assms(1,5,6) skip_spaces_append [OF assms(3), of j]
    by (simp add: cli_parse_def Let_def skip sp Suc_le_eq)
qed

section \<open>Properties\<close>

text \<open>
  \<open>cli_parse\<close> succeeds exactly on the lines that consist of optional spaces, a command word that
  fits its buffer, and, after at least one more space, arguments that fit theirs; it then returns
  that word and those arguments, nothing cut off.
\<close>

lemma cli_parse_splits:
  assumes "0 < cmd_cap" "0 < args_cap"
  shows "cli_parse (Some line) (Some c) cmd_cap (Some a) args_cap = (E2S_OK, Some cmd, Some args) \<longleftrightarrow>
    (\<exists>i j. line = replicate i (CHR '' '') @ cmd @ replicate j (CHR '' '') @ args
       \<and> cmd \<noteq> [] \<and> CHR '' '' \<notin> set cmd \<and> (args = [] \<or> 0 < j \<and> hd args \<noteq> CHR '' '')
       \<and> length cmd < cmd_cap \<and> length args < args_cap)"
proof
  assume ok: "cli_parse (Some line) (Some c) cmd_cap (Some a) args_cap = (E2S_OK, Some cmd, Some args)"
  let ?s = "skip_spaces line"
  let ?w = "takeWhile (\<lambda>c. c \<noteq> CHR '' '') ?s" and ?t = "dropWhile (\<lambda>c. c \<noteq> CHR '' '') ?s"
  let ?r = "skip_spaces ?t"
  have s: "?s \<noteq> []"
    using ok by (auto simp: cli_parse_def Let_def split: if_splits)
  then have "hd ?s \<noteq> CHR '' ''"
    using skip_spaces_hd by blast
  then have w: "?w \<noteq> []" "CHR '' '' \<notin> set ?w"
    using s by (cases ?s; auto dest: set_takeWhileD)+
  define i where "i = length line - length ?s"
  define j where "j = length ?t - length ?r"
  have line: "line = spaces i @ ?w @ spaces j @ ?r"
    using skip_spaces_split [of line] skip_spaces_split [of ?t] by (simp add: i_def j_def)
  have r: "?r = [] \<or> hd ?r \<noteq> CHR '' ''"
    by (rule skip_spaces_hd)
  have t: "?t = [] \<or> hd ?t = CHR '' ''"
    using hd_dropWhile [of "\<lambda>c. c \<noteq> CHR '' ''" ?s] by auto
  have "0 < j" if "?r \<noteq> []"
  proof (rule ccontr)
    assume "\<not> 0 < j"
    then have "?t = ?r"
      using skip_spaces_split [of ?t] by (simp add: j_def)
    then show False
      using that t r by auto
  qed
  then have run: "cli_parse (Some line) (Some c) cmd_cap (Some a) args_cap =
      (if length ?w \<ge> cmd_cap then (E2S_ERR_CLI_LINE_TRUNCATED, Some c, Some a)
       else (if length ?r \<ge> args_cap then E2S_ERR_CLI_LINE_TRUNCATED else E2S_OK, Some ?w, Some (take (args_cap - 1) ?r)))"
    using cli_parse_of_words [OF w r _ assms, of j i c a] line by auto
  then have "cmd = ?w" "args = ?r" "length ?w < cmd_cap" "length ?r < args_cap"
    using ok by (auto split: if_splits)
  then show "\<exists>i j. line = spaces i @ cmd @ spaces j @ args \<and> cmd \<noteq> [] \<and> CHR '' '' \<notin> set cmd
      \<and> (args = [] \<or> 0 < j \<and> hd args \<noteq> CHR '' '') \<and> length cmd < cmd_cap \<and> length args < args_cap"
    using line w r \<open>?r \<noteq> [] \<Longrightarrow> 0 < j\<close> by (intro exI [of _ i] exI [of _ j]) auto
next
  assume "\<exists>i j. line = spaces i @ cmd @ spaces j @ args \<and> cmd \<noteq> [] \<and> CHR '' '' \<notin> set cmd
      \<and> (args = [] \<or> 0 < j \<and> hd args \<noteq> CHR '' '') \<and> length cmd < cmd_cap \<and> length args < args_cap"
  then obtain i j where ij: "line = spaces i @ cmd @ spaces j @ args" "cmd \<noteq> []" "CHR '' '' \<notin> set cmd"
    "args = [] \<or> 0 < j \<and> hd args \<noteq> CHR '' ''" "length cmd < cmd_cap" "length args < args_cap"
    by blast
  have "args = [] \<or> hd args \<noteq> CHR '' ''" "args \<noteq> [] \<longrightarrow> 0 < j"
    using ij(4) by auto
  from cli_parse_of_words [OF ij(2,3) this assms, of i c a] show
    "cli_parse (Some line) (Some c) cmd_cap (Some a) args_cap = (E2S_OK, Some cmd, Some args)"
    using ij by simp
qed

lemma parse_u32_dec_iff: "parse_u32_strict (dec n) = (if n < 2 ^ 32 then Some (of_nat n) else None)"
  using parse_u32_dec parse_u32_dec_big by simp

lemma dec_first: "dec n \<noteq> [] \<and> hd (dec n) \<noteq> CHR ''p'' \<and> hd (dec n) \<noteq> CHR ''i'' \<and> hd (dec n) \<noteq> CHR '' ''"
  by (rule dec_hd [of n]) (auto simp: c_isdigit_def)

lemma skip_prefix_other: "s = [] \<or> hd s \<noteq> c \<Longrightarrow> skip_prefix (c # p) s = s"
  by (cases s) (auto simp: skip_prefix_def)

lemma skip_prefix_word [simp]: "skip_prefix p (p @ CHR '' '' # s) = s"
  by (simp add: skip_prefix_def)

lemma skip_spaces_dec [simp]: "skip_spaces (dec n) = dec n"
  using dec_first [of n] by (cases "dec n") (simp_all add: skip_spaces_def)

lemma port_of_u32:
  "(case parse_u32_strict (dec n) of None \<Rightarrow> Inl E2S_ERR_CLI_USAGE_SET
    | Some v \<Rightarrow> if v > 0xFFFF then Inl E2S_ERR_CLI_USAGE_SET else Inr (ucast v))
    = (if n < 2 ^ 16 then Inr (of_nat n :: u16) else Inl E2S_ERR_CLI_USAGE_SET)"
proof (cases "n < 2 ^ 32")
  case True
  then have un: "unat (of_nat n :: u32) = n"
    by (simp add: unsigned_of_nat take_bit_eq_mod)
  then have "(of_nat n :: u32) > 0xFFFF \<longleftrightarrow> \<not> n < 2 ^ 16"
    by (auto simp: word_less_nat_alt)
  moreover have "(ucast (of_nat n :: u32) :: u16) = of_nat n"
    by (rule unsigned_word_eqI [where 'a = nat])
      (simp add: unsigned_ucast_eq unsigned_of_nat take_bit_eq_mod mod_mod_cancel)
  ultimately show ?thesis
    using True by (simp add: parse_u32_dec_iff)
qed (simp add: parse_u32_dec_iff)

lemma parse_port_dec:
  assumes "args = dec n \<or> args = ''port '' @ dec n"
  shows "parse_u16_with_optional_prefix args (Some ''port'')
    = (if n < 2 ^ 16 then Inr (of_nat n) else Inl E2S_ERR_CLI_USAGE_SET)"
proof -
  have "skip_prefix ''port'' args = dec n"
    using assms dec_first [of n] skip_prefix_other [of "dec n"] skip_prefix_word [of "''port''" "dec n"] by auto
  then show ?thesis
    by (simp add: parse_u16_with_optional_prefix_def port_of_u32 del: skip_prefix_word)
qed

lemma parse_rate_dec: "parse_set_v24_baudrate (Some (dec n)) = Inr (of_nat n) \<longleftrightarrow> n \<in> unat ` set v24_baudrates"
proof -
  have "(of_nat n :: u32) \<in> set v24_baudrates \<longleftrightarrow> n \<in> unat ` set v24_baudrates" if "n < 2 ^ 32"
  proof
    have "unat (of_nat n :: u32) = n"
      using that by (simp add: unsigned_of_nat take_bit_eq_mod)
    then show "(of_nat n :: u32) \<in> set v24_baudrates \<Longrightarrow> n \<in> unat ` set v24_baudrates"
      by (metis imageI)
  qed auto
  moreover have "n < 2 ^ 32" if "n \<in> unat ` set v24_baudrates"
    using that by (auto simp: v24_baudrates_def)
  ultimately show ?thesis
    by (auto simp: parse_set_v24_baudrate_def Let_def parse_u32_dec_iff)
qed

text \<open>A printed address with a printed prefix: the prefix is narrowed to eight bits.\<close>

lemma parse_set_ip_args_text:
  assumes "length ip = 4" "length old_ip = 4" "n < 2 ^ 32"
    and "args = print_ip ip @ ''/'' @ dec n \<or> args = ''ip '' @ print_ip ip @ ''/'' @ dec n"
  shows "parse_set_ip_args (Some args) old_ip old_mask =
    (let (ok', m) = prefix_to_mask (of_nat (n mod 256)) old_mask
     in if \<not> ok' then (E2S_ERR_CLI_USAGE_SET, ip, m) else (E2S_OK, ip, m))"
proof -
  let ?t = "print_ip ip @ CHR ''/'' # dec n"
  have "hd (print_ip ip) \<noteq> CHR ''i''" "print_ip ip \<noteq> []"
    using dec_first [of "unat (ip ! 0)"] by (auto simp: print_ip_def)
  then have input: "(if take 3 args = ''ip '' then drop 3 args else args) = ?t"
    using assms(4) by (cases "print_ip ip") (auto simp: numeral_eq_Suc)
  have "length (dec n) \<le> 10"
    using assms(3) by (intro length_dec) simp_all
  then have len: "\<not> 32 \<le> length ?t"
    using length_print_ip [of ip] by simp
  have ns: "\<And>x. x \<in> set (print_ip ip) \<Longrightarrow> x \<noteq> CHR ''/''"
    using slash_print_ip by auto
  have parts: "takeWhile (\<lambda>c. c \<noteq> CHR ''/'') ?t = print_ip ip"
    "drop 1 (dropWhile (\<lambda>c. c \<noteq> CHR ''/'') ?t) = dec n"
    using ns by (simp_all add: takeWhile_append2 dropWhile_append2)
  have mem: "CHR ''/'' \<in> set ?t"
    by simp
  show ?thesis
    unfolding parse_set_ip_args_def option.case Let_def input parts
    using len mem parse_u32_dec [OF assms(3)] parse_ipv4_print [OF assms(1,2)]
    by (simp add: byte_of_u32 del: length_append)
qed

text \<open>
  A printed address is read back: for every address and every decimal prefix of at most ten
  digits, \<open>parse_set_ip_args\<close> accepts \<open>a.b.c.d/n\<close> (with or without \<open>ip\<close> in front) exactly when
  \<open>n mod 256\<close> is at most 32, and then returns the address and a mask of \<open>n mod 256\<close> ones.  For
  \<open>n \<le> 32\<close> this is the right mask; a prefix such as \<open>/256\<close> or \<open>/280\<close> is accepted as well, because
  the prefix is narrowed to eight bits before it is compared with 32.
\<close>

lemma parse_set_ip_args_prefix:
  fixes old_mask :: "byte list"
  assumes "length ip = 4" "length old_ip = 4" "n < 2 ^ 32"
    and "args = print_ip ip @ ''/'' @ dec n \<or> args = ''ip '' @ print_ip ip @ ''/'' @ dec n"
  defines "r \<equiv> parse_set_ip_args (Some args) old_ip old_mask"
  shows "(fst r = E2S_OK \<longleftrightarrow> n mod 256 \<le> 32)
    \<and> (n mod 256 \<le> 32 \<longrightarrow> fst (snd r) = ip
        \<and> bytes_bits False (snd (snd r)) = replicate (n mod 256) True @ replicate (32 - n mod 256) False)"
proof -
  have "unat (of_nat (n mod 256) :: byte) = n mod 256"
    by (simp add: unsigned_of_nat take_bit_eq_mod)
  then have "fst (prefix_to_mask (of_nat (n mod 256)) old_mask) \<longleftrightarrow> n mod 256 \<le> 32"
    by (auto simp: prefix_to_mask_def Let_def word_less_nat_alt)
  then show ?thesis
    using parse_set_ip_args_text [OF assms(1-4), of old_mask] prefix_to_mask_small [of "n mod 256" old_mask]
    by (auto simp: r_def split_beta Let_def)
qed

text \<open>
  Unsigned numbers.  A printed number is read back exactly when it fits 32 bits.  Ports are read
  back exactly when they fit 16 bits, with or without the word \<open>port\<close> in front; rates exactly when they
  are one of the nine the hardware settings know, and no other text is ever accepted as a rate.
\<close>

lemma parse_numbers:
  shows "parse_u32_strict (dec n) = (if n < 2 ^ 32 then Some (of_nat n) else None)
    \<and> parse_set_udp_port_local_args (dec n) = (if n < 2 ^ 16 then Inr (of_nat n) else Inl E2S_ERR_CLI_USAGE_SET)
    \<and> parse_set_udp_port_remote_args (''port '' @ dec n) = (if n < 2 ^ 16 then Inr (of_nat n) else Inl E2S_ERR_CLI_USAGE_SET)
    \<and> (parse_set_v24_baudrate (Some (dec n)) = Inr (of_nat n) \<longleftrightarrow> n \<in> unat ` set v24_baudrates)
    \<and> (parse_set_v24_baudrate text = Inr rate \<longrightarrow> rate \<in> set v24_baudrates)"
proof (intro conjI)
  show "parse_u32_strict (dec n) = (if n < 2 ^ 32 then Some (of_nat n) else None)"
    by (rule parse_u32_dec_iff)
  show "parse_set_udp_port_local_args (dec n) = (if n < 2 ^ 16 then Inr (of_nat n) else Inl E2S_ERR_CLI_USAGE_SET)"
    "parse_set_udp_port_remote_args (''port '' @ dec n) = (if n < 2 ^ 16 then Inr (of_nat n) else Inl E2S_ERR_CLI_USAGE_SET)"
    using parse_port_dec [of "dec n" n] parse_port_dec [of "''port '' @ dec n" n]
    by (simp_all add: parse_set_udp_port_local_args_def parse_set_udp_port_remote_args_def)
  show "parse_set_v24_baudrate (Some (dec n)) = Inr (of_nat n) \<longleftrightarrow> n \<in> unat ` set v24_baudrates"
    by (rule parse_rate_dec)
  show "parse_set_v24_baudrate text = Inr rate \<longrightarrow> rate \<in> set v24_baudrates"
    by (auto simp: parse_set_v24_baudrate_def Let_def split: option.splits if_splits)
qed

text \<open>
  A printed list of polarity names is read back: for any sequence of the eight names, separated by
  commas and shorter than 64 characters, exactly the named signals are inverted, with or without the
  word \<open>invert\<close> in front; no argument clears all of them.
\<close>

lemma parse_polarities_round_trip:
  assumes "set names \<subseteq> set polarity_names" "length (commas names) < 64"
    and "args = commas names \<or> args = ''invert '' @ commas names"
  shows "\<exists>p. parse_set_v24_polarities (Some args) = (E2S_OK, p)
    \<and> (\<forall>m\<in>set polarity_names. polarity_flag p m \<longleftrightarrow> m \<in> set names)"
proof -
  have none: "\<not> polarity_flag no_polarities m" for m
    by (simp add: polarity_flag_def no_polarities_def)
  obtain p where p: "polarity_loop (commas names) no_polarities = (E2S_OK, p)"
    "\<forall>m\<in>set polarity_names. polarity_flag p m \<longleftrightarrow> m \<in> set names"
    using polarity_loop_commas [OF assms(1), of no_polarities] none by auto
  show ?thesis
  proof (cases names)
    case Nil
    have "skip_spaces ''invert '' = ''invert ''" "skip_spaces [] = []"
      by (simp_all add: skip_spaces_def)
    moreover have "polarity_loop [] no_polarities = (E2S_OK, no_polarities)"
      by (subst polarity_loop.simps) (simp add: strtok_def)
    ultimately have "parse_set_v24_polarities (Some args) = (E2S_OK, no_polarities)"
      using assms(3) Nil by (auto simp: parse_set_v24_polarities_def Let_def simp del: polarity_loop.simps)
    then show ?thesis
      using Nil none by auto
  next
    case (Cons n ns)
    then have n: "n \<in> set polarity_names"
      using assms(1) by simp
    obtain t where t: "commas names = n @ t"
      using Cons by (cases ns) auto
    obtain a as where a: "n = a # as" "a \<noteq> CHR '' ''" "a \<noteq> CHR ''i''"
      using n by (auto simp: polarity_names_def)
    have "skip_spaces (commas names) = commas names" "take 7 (commas names) \<noteq> ''invert ''" "commas names \<noteq> []"
      using t a by (auto simp: skip_spaces_def numeral_eq_Suc)
    moreover have "skip_spaces (''invert '' @ commas names) = ''invert '' @ commas names"
      by (simp add: skip_spaces_def)
    ultimately have "parse_set_v24_polarities (Some args) = polarity_loop (commas names) no_polarities"
      using assms(2,3) by (auto simp: parse_set_v24_polarities_def Let_def simp del: polarity_loop.simps)
    then show ?thesis
      using p by simp
  qed
qed

end
