(* ===== verification/Cli_Commands.thy ===== *)
theory Cli_Commands
  imports App_Context Cli_Parser
begin

text \<open>
  \<open>src/system/cli_commands.c\<close>: the command tables and handlers of the console.  A handler takes its
  argument text and the firmware; what it prints is log output and left out, so a handler that only
  prints does nothing here except the register and pin reads it makes on the way.

  Shown here: a setting typed in its printed form is queued as one event that carries exactly this
  value, and a command line changes nothing but the event queue, the log level and the pins that
  \<open>set gpio\<close> and \<open>get gpio\<close> name.
\<close>

section \<open>Events\<close>

definition MAX_CMD_BUFFER_LEN :: nat where "MAX_CMD_BUFFER_LEN = 16"
definition MAX_ARG_BUFFER_LEN :: nat where "MAX_ARG_BUFFER_LEN = 64"

type_synonym ('h, 'w) handler = "'h sdk \<Rightarrow> 'w wiznet \<Rightarrow> string \<Rightarrow> ('h, 'w) firmware \<Rightarrow> ('h, 'w) firmware"

definition push_event :: "event_t \<Rightarrow> ('h, 'w) firmware \<Rightarrow> ('h, 'w) firmware" where
  "push_event e fw = fw\<lparr>fw_events := snd (event_queue_push e (fw_events fw))\<rparr>"

definition bare_event :: "event_type_t \<Rightarrow> event_t" where
  "bare_event t = \<lparr>ev_type = t, ev_data_len = 0, ev_data = Ptr_null, ev_is_inline = False\<rparr>"

definition data_event :: "event_type_t \<Rightarrow> event_queue_data_types_t \<Rightarrow> event_value \<Rightarrow> event_t" where
  "data_event t item v = \<lparr>ev_type = t, ev_data_len = sizeof_event_queue_data,
     ev_data = Inline_data \<lparr>eqd_id = item, eqd_value = v\<rparr>, ev_is_inline = True\<rparr>"

section \<open>V.24 settings\<close>

definition dispatch_v24_polarities :: "V24_POLARITIES_T \<Rightarrow> ('h, 'w) firmware \<Rightarrow> ('h, 'w) firmware" where
  "dispatch_v24_polarities polarities =
     push_event (data_event EV_SET_V24_SETTINGS V24_POLARITIES (Val_polarities polarities))"

definition dispatch_get_request ::
  "event_queue_data_types_t \<Rightarrow> event_type_t \<Rightarrow> ('h, 'w) firmware \<Rightarrow> ('h, 'w) firmware" where
  "dispatch_get_request type event_type = push_event (data_event event_type type Val_none)"

definition subcmd_set_v24_inverted :: "('h, 'w) handler" where
  "subcmd_set_v24_inverted k z args fw =
     (case parse_set_v24_polarities (Some args) of
        (err, polarities) \<Rightarrow> if err \<noteq> E2S_OK then fw else dispatch_v24_polarities polarities fw)"

definition subcmd_get_v24_inverted :: "('h, 'w) handler" where
  "subcmd_get_v24_inverted k z args fw = dispatch_get_request V24_POLARITIES EV_GET_V24_SETTINGS fw"

definition dispatch_v24_baudrate :: "V24_BAUDRATE_T \<Rightarrow> ('h, 'w) firmware \<Rightarrow> ('h, 'w) firmware" where
  "dispatch_v24_baudrate baudrate =
     push_event (data_event EV_SET_V24_SETTINGS V24_BAUDRATE (Val_baudrate baudrate))"

definition subcmd_set_v24_clockmode :: "('h, 'w) handler" where
  "subcmd_set_v24_clockmode k z args fw =
     (case parse_set_v24_clockmode (Some args) of
        Inl _ \<Rightarrow> fw
      | Inr clockmode \<Rightarrow> push_event (data_event EV_SET_V24_SETTINGS V24_CLOCK_MODE (Val_clock_mode clockmode)) fw)"

definition subcmd_set_v24_baudrate :: "('h, 'w) handler" where
  "subcmd_set_v24_baudrate k z args fw =
     (case parse_set_v24_baudrate (Some args) of
        Inl _ \<Rightarrow> fw
      | Inr baudrate \<Rightarrow> dispatch_v24_baudrate baudrate fw)"

definition subcmd_get_v24_clockmode :: "('h, 'w) handler" where
  "subcmd_get_v24_clockmode k z args fw = dispatch_get_request V24_CLOCK_MODE EV_GET_V24_SETTINGS fw"

definition subcmd_get_v24_baudrate :: "('h, 'w) handler" where
  "subcmd_get_v24_baudrate k z args fw = dispatch_get_request V24_BAUDRATE EV_GET_V24_SETTINGS fw"

text \<open>
  The loops over the tables: the first entry whose name starts the text and is followed by a space,
  or by the end of the text where \<open>at_end\<close> allows it, with the text behind the space.
\<close>

definition name_matches :: "bool \<Rightarrow> string \<Rightarrow> string \<Rightarrow> bool" where
  "name_matches at_end name args \<longleftrightarrow>
     take (length name) args = name \<and>
     (case drop (length name) args of [] \<Rightarrow> at_end | c # _ \<Rightarrow> c = CHR '' '')"

fun table_lookup :: "bool \<Rightarrow> (string \<times> 'a) list \<Rightarrow> string \<Rightarrow> ('a \<times> string) option" where
  "table_lookup at_end [] args = None"
| "table_lookup at_end ((name, x) # entries) args =
     (if name_matches at_end name args then Some (x, drop (length name + 1) args)
      else table_lookup at_end entries args)"

definition run_table :: "bool \<Rightarrow> (string \<times> ('h, 'w) handler) list \<Rightarrow> ('h, 'w) handler" where
  "run_table at_end entries k z args fw =
     (if args = [] then fw
      else case table_lookup at_end entries args of
        None \<Rightarrow> fw
      | Some (handler, rest) \<Rightarrow> handler k z rest fw)"

text \<open>\<open>v24_subcmds\<close> by its two handler columns.\<close>

definition v24_subcmds_set :: "(string \<times> ('h, 'w) handler) list" where
  "v24_subcmds_set = [(''invert'', subcmd_set_v24_inverted), (''baudrate'', subcmd_set_v24_baudrate),
     (''txclock'', subcmd_set_v24_clockmode)]"

definition v24_subcmds_get :: "(string \<times> ('h, 'w) handler) list" where
  "v24_subcmds_get = [(''invert'', subcmd_get_v24_inverted), (''baudrate'', subcmd_get_v24_baudrate),
     (''txclock'', subcmd_get_v24_clockmode)]"

definition cat_v24_set :: "('h, 'w) handler" where
  "cat_v24_set k z args fw = run_table True v24_subcmds_set k z args fw"

definition cat_v24_get :: "('h, 'w) handler" where
  "cat_v24_get k z args fw = run_table True v24_subcmds_get k z args fw"

section \<open>Log level\<close>

definition loglevels :: "(string \<times> log_level_t) list" where
  "loglevels = [(''error'', LOG_LEVEL_ERROR), (''info'', LOG_LEVEL_INFO), (''debug'', LOG_LEVEL_DEBUG),
     (''trace'', LOG_LEVEL_TRACE), (''tracea'', LOG_LEVEL_TRACE)]"

text \<open>\<open>sscanf (args, "%15s", \<dots>)\<close>; an empty word is a conversion that failed.\<close>

definition scan_word :: "string \<Rightarrow> string" where
  "scan_word args = take 15 (takeWhile (\<lambda>c. \<not> c_isspace c) (dropWhile c_isspace args))"

definition cat_loglevel_set :: "('h, 'w) handler" where
  "cat_loglevel_set k z args fw =
     (if args = [] then fw
      else
        let level_name = scan_word args in
        if level_name = [] then fw
        else case map_of loglevels level_name of
          None \<Rightarrow> fw
        | Some level \<Rightarrow> fw\<lparr>fw_log := set_loglevel level (fw_log fw)\<rparr>)"

definition cat_loglevel_get :: "('h, 'w) handler" where
  "cat_loglevel_get k z args fw = fw"

section \<open>Network settings\<close>

definition cmd_reboot :: "('h, 'w) handler" where
  "cmd_reboot k z args fw = push_event (bare_event EV_REBOOT) fw"

definition dispatch_ip :: "byte list \<Rightarrow> event_queue_data_types_t \<Rightarrow> ('h, 'w) firmware \<Rightarrow> ('h, 'w) firmware" where
  "dispatch_ip ip_addr type = push_event (data_event EV_SET_NET_SETTINGS type (Val_ip ip_addr))"

definition subcmd_get_ip_local :: "('h, 'w) handler" where
  "subcmd_get_ip_local k z args fw = (if args \<noteq> [] then fw else dispatch_get_request NET_IP_LOCAL EV_GET_NET_SETTINGS fw)"

text \<open>The local arrays are uninitialised; a successful parse writes all of them.\<close>

definition subcmd_set_ip_local :: "('h, 'w) handler" where
  "subcmd_set_ip_local k z args fw =
     (case parse_set_ip_args (Some args) (replicate 4 0) (replicate 4 0) of
        (err, ip_addr, net_mask) \<Rightarrow>
          if err \<noteq> E2S_OK then fw
          else dispatch_ip net_mask NET_IP_MASK (dispatch_ip ip_addr NET_IP_LOCAL fw))"

definition subcmd_get_ip_remote :: "('h, 'w) handler" where
  "subcmd_get_ip_remote k z args fw = (if args \<noteq> [] then fw else dispatch_get_request NET_IP_REMOTE EV_GET_NET_SETTINGS fw)"

definition subcmd_set_ip_remote :: "('h, 'w) handler" where
  "subcmd_set_ip_remote k z args fw =
     (case parse_set_ip_remote_args args (replicate 4 0) of
        (err, ip_addr) \<Rightarrow> if err \<noteq> E2S_OK then fw else dispatch_ip ip_addr NET_IP_REMOTE fw)"

definition subcmd_get_ip_gateway :: "('h, 'w) handler" where
  "subcmd_get_ip_gateway k z args fw = (if args \<noteq> [] then fw else dispatch_get_request NET_IP_GATEWAY EV_GET_NET_SETTINGS fw)"

definition subcmd_set_ip_gateway :: "('h, 'w) handler" where
  "subcmd_set_ip_gateway k z args fw =
     (case parse_set_ip_remote_args args (replicate 4 0) of
        (err, ip_addr) \<Rightarrow> if err \<noteq> E2S_OK then fw else dispatch_ip ip_addr NET_IP_GATEWAY fw)"

definition dispatch_get_udp_port :: "event_queue_data_types_t \<Rightarrow> ('h, 'w) firmware \<Rightarrow> ('h, 'w) firmware" where
  "dispatch_get_udp_port type = push_event (data_event EV_GET_NET_SETTINGS type Val_none)"

definition dispatch_set_udp_port :: "event_queue_data_types_t \<Rightarrow> u16 \<Rightarrow> ('h, 'w) firmware \<Rightarrow> ('h, 'w) firmware" where
  "dispatch_set_udp_port type port = push_event (data_event EV_SET_NET_SETTINGS type (Val_port port))"

definition subcmd_get_udp_port_local :: "('h, 'w) handler" where
  "subcmd_get_udp_port_local k z args fw = (if args \<noteq> [] then fw else dispatch_get_udp_port NET_PORT_LOCAL fw)"

definition subcmd_set_udp_port_local :: "('h, 'w) handler" where
  "subcmd_set_udp_port_local k z args fw =
     (case parse_set_udp_port_local_args args of Inl _ \<Rightarrow> fw | Inr port \<Rightarrow> dispatch_set_udp_port NET_PORT_LOCAL port fw)"

definition subcmd_get_udp_port_remote :: "('h, 'w) handler" where
  "subcmd_get_udp_port_remote k z args fw = (if args \<noteq> [] then fw else dispatch_get_udp_port NET_PORT_REMOTE fw)"

definition subcmd_set_udp_port_remote :: "('h, 'w) handler" where
  "subcmd_set_udp_port_remote k z args fw =
     (case parse_set_udp_port_remote_args args of Inl _ \<Rightarrow> fw | Inr port \<Rightarrow> dispatch_set_udp_port NET_PORT_REMOTE port fw)"

text \<open>\<open>net_subcmds\<close> by its two handler columns.\<close>

definition net_subcmds_set :: "(string \<times> ('h, 'w) handler) list" where
  "net_subcmds_set = [(''ip.local'', subcmd_set_ip_local), (''ip.remote'', subcmd_set_ip_remote),
     (''ip.gateway'', subcmd_set_ip_gateway), (''udp.port.local'', subcmd_set_udp_port_local),
     (''udp.port.remote'', subcmd_set_udp_port_remote)]"

definition net_subcmds_get :: "(string \<times> ('h, 'w) handler) list" where
  "net_subcmds_get = [(''ip.local'', subcmd_get_ip_local), (''ip.remote'', subcmd_get_ip_remote),
     (''ip.gateway'', subcmd_get_ip_gateway), (''udp.port.local'', subcmd_get_udp_port_local),
     (''udp.port.remote'', subcmd_get_udp_port_remote)]"

definition cat_net_get :: "('h, 'w) handler" where
  "cat_net_get k z args fw = run_table True net_subcmds_get k z args fw"

definition cat_net_set :: "('h, 'w) handler" where
  "cat_net_set k z args fw = run_table True net_subcmds_set k z args fw"

section \<open>Pins\<close>

definition cat_gpio_set :: "('h, 'w) handler" where
  "cat_gpio_set k z args fw =
     (case parse_set_gpio_args (Some args) [] of
        (Inl _, _) \<Rightarrow> fw
      | (Inr (value, pin), _) \<Rightarrow>
          fw\<lparr>fw_driver := hw_do_all k [Gpio_init (pin_gpio_num pin), Gpio_set_dir (pin_gpio_num pin) True,
                            Gpio_put (pin_gpio_num pin) (value \<noteq> 0)] (fw_driver fw)\<rparr>)"

definition cat_gpio_get :: "('h, 'w) handler" where
  "cat_gpio_get k z args fw =
     (case parse_get_args args [] of
        (Inl _, _) \<Rightarrow> fw
      | (Inr pin, _) \<Rightarrow>
          let gpio = pin_gpio_num pin;
              (func, d1) = hw_ask k (Gpio_get_function gpio) (fw_driver fw);
              d2 = (if func \<noteq> GPIO_FUNC_SIO k then hw_do_all k [Gpio_init gpio, Gpio_set_dir gpio False] d1
                    else snd (hw_ask k (Gpio_is_dir_out gpio) d1));
              (_, d3) = hw_ask k (Gpio_get gpio) d2;
              (_, d4) = hw_ask k (Gpio_is_dir_out gpio) d3
          in fw\<lparr>fw_driver := d4\<rparr>)"

section \<open>Commands\<close>

definition categories_set :: "(string \<times> ('h, 'w) handler) list" where
  "categories_set = [(''gpio'', cat_gpio_set), (''net'', cat_net_set), (''v24'', cat_v24_set),
     (''loglevel'', cat_loglevel_set)]"

definition categories_get :: "(string \<times> ('h, 'w) handler) list" where
  "categories_get = [(''gpio'', cat_gpio_get), (''net'', cat_net_get), (''v24'', cat_v24_get),
     (''loglevel'', cat_loglevel_get)]"

definition cmd_set :: "('h, 'w) handler" where
  "cmd_set k z args fw = run_table False categories_set k z args fw"

definition cmd_get :: "('h, 'w) handler" where
  "cmd_get k z args fw = run_table True categories_get k z args fw"

definition cmd_wipe :: "('h, 'w) handler" where
  "cmd_wipe k z args fw = push_event (bare_event EV_WIPE_CONFIG) fw"

definition cmd_save :: "('h, 'w) handler" where
  "cmd_save k z args fw = push_event (bare_event EV_SAVE_CONFIG) fw"

text \<open>Only prints.\<close>

definition cmd_help :: "('h, 'w) handler" where
  "cmd_help k z args fw = fw"

definition cmd_status :: "('h, 'w) handler" where
  "cmd_status k z args fw = push_event (bare_event EV_STATUS) fw"

definition cmd_mem :: "('h, 'w) handler" where
  "cmd_mem k z args fw = (if args \<noteq> [] then fw else push_event (bare_event EV_MEM) fw)"

definition cmd_net :: "('h, 'w) handler" where
  "cmd_net k z args fw = (if args \<noteq> [] then fw else fw\<lparr>fw_net := snd (chip_getnetinfo z (fw_net fw))\<rparr>)"

definition cmd_pininfo :: "('h, 'w) handler" where
  "cmd_pininfo k z args fw =
     (let name = scan_word args in
      if name = [] then fw
      else case find_pin name of
        None \<Rightarrow> fw
      | Some pin \<Rightarrow>
          let (_, d1) = hw_ask k (Gpio_is_dir_out (pin_gpio_num pin)) (fw_driver fw);
              (_, d2) = hw_ask k (Gpio_get (pin_gpio_num pin)) d1;
              (_, d3) = hw_ask k (Gpio_get_function (pin_gpio_num pin)) d2
          in fw\<lparr>fw_driver := d3\<rparr>)"

definition commands :: "(string \<times> ('h, 'w) handler) list" where
  "commands = [(''help'', cmd_help), (''status'', cmd_status), (''mem'', cmd_mem), (''save'', cmd_save),
     (''wipe'', cmd_wipe), (''net'', cmd_net), (''set'', cmd_set), (''get'', cmd_get),
     (''pininfo'', cmd_pininfo), (''reboot'', cmd_reboot)]"

definition handle_cli_line :: "('h, 'w) handler" where
  "handle_cli_line k z line fw =
     (case cli_parse (Some line) (Some []) MAX_CMD_BUFFER_LEN (Some []) MAX_ARG_BUFFER_LEN of
        (err, cmd, args) \<Rightarrow>
          if err \<noteq> E2S_OK then fw
          else case map_of commands (the cmd) of
            None \<Rightarrow> fw
          | Some handler \<Rightarrow> handler k z (the args) fw)"

section \<open>Typed settings\<close>

lemma handle_cli_line_words:
  assumes "map_of commands w = Some h" "w \<noteq> []" "CHR '' '' \<notin> set w" "length w < 16"
    and "r \<noteq> []" "hd r \<noteq> CHR '' ''" "length r < 64"
  shows "handle_cli_line k z (w @ CHR '' '' # r) fw = h k z r fw"
proof -
  have "cli_parse (Some (w @ CHR '' '' # r)) (Some []) 16 (Some []) 64 = (E2S_OK, Some w, Some r)"
    using cli_parse_of_words [OF assms(2,3), of r 1 16 64 0 "[]" "[]"] assms(4-7) by simp
  then show ?thesis
    using assms(1) by (simp add: handle_cli_line_def MAX_CMD_BUFFER_LEN_def MAX_ARG_BUFFER_LEN_def)
qed

lemmas table_defs = run_table_def categories_set_def categories_get_def net_subcmds_set_def v24_subcmds_set_def
  name_matches_def numeral_eq_Suc

lemma handle_set:
  assumes "length r < 60"
  shows "handle_cli_line k z (''set net '' @ r) fw = cat_net_set k z r fw"
    "handle_cli_line k z (''set v24 '' @ r) fw = cat_v24_set k z r fw"
proof -
  have set: "handle_cli_line k z (''set '' @ cat @ r) fw = cmd_set k z (cat @ r) fw"
    if "cat = ''net '' \<or> cat = ''v24 ''" for cat
  proof -
    have "handle_cli_line k z (''set'' @ CHR '' '' # (cat @ r)) fw = cmd_set k z (cat @ r) fw"
      by (rule handle_cli_line_words) (use that assms in \<open>auto simp: commands_def\<close>)
    then show ?thesis
      by simp
  qed
  show "handle_cli_line k z (''set net '' @ r) fw = cat_net_set k z r fw"
    using set [of "''net ''"] by (simp add: cmd_set_def table_defs)
  show "handle_cli_line k z (''set v24 '' @ r) fw = cat_v24_set k z r fw"
    using set [of "''v24 ''"] by (simp add: cmd_set_def table_defs)
qed

lemma length_dec5: "n < 2 ^ 16 \<Longrightarrow> length (dec n) \<le> 5"
  by (rule length_dec) simp_all

lemma length_dec_rate: "n \<in> unat ` set v24_baudrates \<Longrightarrow> length (dec n) \<le> 6"
  by (rule length_dec) (auto simp: v24_baudrates_def)

lemma parse_remote_print:
  assumes "length ip = 4"
  shows "parse_set_ip_remote_args (print_ip ip) (replicate 4 0) = (E2S_OK, ip)"
proof -
  have "skip_prefix ''ip'' (print_ip ip) = print_ip ip"
    by (rule skip_prefix_other) (use dec_first [of "unat (ip ! 0)"] in \<open>auto simp: print_ip_def\<close>)
  then show ?thesis
    using assms by (simp add: parse_set_ip_remote_args_def parse_ipv4_with_optional_prefix_def parse_ipv4_print)
qed

lemma typed_address:
  assumes "length ip = 4"
  shows "handle_cli_line k z (''set net ip.remote '' @ print_ip ip) fw = dispatch_ip ip NET_IP_REMOTE fw"
    "handle_cli_line k z (''set net ip.gateway '' @ print_ip ip) fw = dispatch_ip ip NET_IP_GATEWAY fw"
  using handle_set(1) [of "''ip.remote '' @ print_ip ip" k z fw] handle_set(1) [of "''ip.gateway '' @ print_ip ip" k z fw]
    length_print_ip [of ip] parse_remote_print [OF assms]
  by (simp_all add: cat_net_set_def subcmd_set_ip_remote_def subcmd_set_ip_gateway_def table_defs)

lemma typed_port:
  assumes "n < 2 ^ 16"
  shows "handle_cli_line k z (''set net udp.port.local '' @ dec n) fw = dispatch_set_udp_port NET_PORT_LOCAL (of_nat n) fw"
    "handle_cli_line k z (''set net udp.port.remote '' @ dec n) fw = dispatch_set_udp_port NET_PORT_REMOTE (of_nat n) fw"
  using handle_set(1) [of "''udp.port.local '' @ dec n" k z fw] handle_set(1) [of "''udp.port.remote '' @ dec n" k z fw]
    length_dec5 [OF assms] parse_port_dec [of "dec n" n] assms
  by (simp_all add: cat_net_set_def subcmd_set_udp_port_local_def subcmd_set_udp_port_remote_def
      parse_set_udp_port_local_args_def parse_set_udp_port_remote_args_def table_defs del: power_Suc)

lemma typed_rate:
  assumes "n \<in> unat ` set v24_baudrates"
  shows "handle_cli_line k z (''set v24 baudrate '' @ dec n) fw = dispatch_v24_baudrate (of_nat n) fw"
  using handle_set(2) [of "''baudrate '' @ dec n" k z fw] length_dec_rate [OF assms] parse_rate_dec [of n] assms
  by (simp add: cat_v24_set_def subcmd_set_v24_baudrate_def table_defs)

lemma typed_clock:
  "handle_cli_line k z (''set v24 txclock '' @ dec (if ext then 1 else 0)) fw
    = push_event (data_event EV_SET_V24_SETTINGS V24_CLOCK_MODE (Val_clock_mode ext)) fw"
proof -
  let ?n = "if ext then 1 else 0 :: nat"
  have "length (dec ?n) \<le> 5"
    by (rule length_dec5) simp
  moreover have "parse_set_v24_clockmode (Some (dec ?n)) = Inr ext"
    using parse_u32_dec_iff [of ?n] by (auto simp: parse_set_v24_clockmode_def Let_def)
  ultimately show ?thesis
    using handle_set(2) [of "''txclock '' @ dec ?n" k z fw]
    by (simp add: cat_v24_set_def subcmd_set_v24_clockmode_def table_defs split: if_splits)
qed

lemma typed_local_address:
  assumes "length ip = 4" "n \<le> 32"
  shows "handle_cli_line k z (''set net ip.local '' @ print_ip ip @ ''/'' @ dec n) fw
    = dispatch_ip (snd (prefix_to_mask (of_nat n) (replicate 4 0))) NET_IP_MASK (dispatch_ip ip NET_IP_LOCAL fw)"
proof -
  have "length (dec n) \<le> 5"
    by (rule length_dec5) (use assms(2) in simp)
  moreover have "parse_set_ip_args (Some (print_ip ip @ ''/'' @ dec n)) (replicate 4 0) (replicate 4 0)
      = (E2S_OK, ip, snd (prefix_to_mask (of_nat n) (replicate 4 0)))"
    using parse_set_ip_args_text [OF assms(1), of "replicate 4 0" n "print_ip ip @ ''/'' @ dec n" "replicate 4 0"]
      prefix_to_mask_small [OF assms(2), of "replicate 4 0"] assms(2)
    by (simp add: split_beta Let_def del: replicate.simps)
  ultimately show ?thesis
    using handle_set(1) [of "''ip.local '' @ print_ip ip @ ''/'' @ dec n" k z fw] length_print_ip [of ip]
    by (simp add: cat_net_set_def subcmd_set_ip_local_def table_defs del: replicate.simps)
qed

section \<open>What a command can change\<close>

text \<open>
  The events commands queue: each setting with the member of the union that belongs to it, and rates
  only from the list of known ones.
\<close>

inductive command_event :: "event_t \<Rightarrow> bool" where
  bare: "t \<in> {EV_REBOOT, EV_STATUS, EV_MEM, EV_SAVE_CONFIG, EV_WIPE_CONFIG} \<Longrightarrow> command_event (bare_event t)"
| get: "t \<in> {EV_GET_NET_SETTINGS, EV_GET_V24_SETTINGS} \<Longrightarrow> command_event (data_event t i v)"
| ip: "i \<in> {NET_IP_REMOTE, NET_IP_LOCAL, NET_IP_MASK, NET_IP_GATEWAY}
    \<Longrightarrow> command_event (data_event EV_SET_NET_SETTINGS i (Val_ip ip))"
| port: "i \<in> {NET_PORT_LOCAL, NET_PORT_REMOTE} \<Longrightarrow> command_event (data_event EV_SET_NET_SETTINGS i (Val_port p))"
| rate: "b \<in> set v24_baudrates \<Longrightarrow> command_event (data_event EV_SET_V24_SETTINGS V24_BAUDRATE (Val_baudrate b))"
| pol: "command_event (data_event EV_SET_V24_SETTINGS V24_POLARITIES (Val_polarities pl))"
| clock: "command_event (data_event EV_SET_V24_SETTINGS V24_CLOCK_MODE (Val_clock_mode c))"

lemma command_event_no_line: "command_event e \<Longrightarrow> no_line e"
  by (auto simp: no_line_def bare_event_def data_event_def elim!: command_event.cases)

declare command_event.intros [simp]

lemma parse_rate_known: "parse_set_v24_baudrate text = Inr rate \<Longrightarrow> rate \<in> set v24_baudrates"
  by (auto simp: parse_set_v24_baudrate_def Let_def split: option.splits if_splits)

text \<open>
  The effect of one command line: at most two such events, and pin commands that hand no byte to the
  transmitter.
\<close>

definition push_all :: "'e list \<Rightarrow> 'e event_queue_state \<Rightarrow> 'e event_queue_state" where
  "push_all es q = fold (\<lambda>e q. snd (event_queue_push e q)) es q"

definition cli_effect :: "('h, 'w) firmware \<Rightarrow> ('h, 'w) firmware \<Rightarrow> bool" where
  "cli_effect fw fw' \<longleftrightarrow>
     fw_app fw' = fw_app fw \<and> fw_flash fw' = fw_flash fw \<and> fw_cli fw' = fw_cli fw
     \<and> fw_decode_stats fw' = fw_decode_stats fw \<and> w_trace (fw_net fw') = w_trace (fw_net fw)
     \<and> w_received (fw_net fw') = w_received (fw_net fw)
     \<and> dr_runtime (fw_driver fw') = dr_runtime (fw_driver fw) \<and> dr_rx (fw_driver fw') = dr_rx (fw_driver fw)
     \<and> bytes_put (dr_trace (fw_driver fw')) = bytes_put (dr_trace (fw_driver fw))
     \<and> (\<exists>es. length es \<le> 2 \<and> (\<forall>e\<in>set es. command_event e) \<and> fw_events fw' = push_all es (fw_events fw))"

lemma cli_effect_refl [simp]: "cli_effect fw fw"
  by (auto simp: cli_effect_def push_all_def intro!: exI [of _ "[]"])

lemma cli_effect_log [simp]: "cli_effect fw (fw\<lparr>fw_log := l\<rparr>)"
  by (auto simp: cli_effect_def push_all_def intro!: exI [of _ "[]"])

lemma cli_effect_net [simp]: "w_trace n = w_trace (fw_net fw) \<Longrightarrow> w_received n = w_received (fw_net fw) \<Longrightarrow> cli_effect fw (fw\<lparr>fw_net := n\<rparr>)"
  by (auto simp: cli_effect_def push_all_def intro!: exI [of _ "[]"])

lemma cli_effect_driver [simp]:
  assumes "dr_runtime d = dr_runtime (fw_driver fw)" "dr_rx d = dr_rx (fw_driver fw)" "bytes_put (dr_trace d) = bytes_put (dr_trace (fw_driver fw))"
  shows "cli_effect fw (fw\<lparr>fw_driver := d\<rparr>)"
  using assms by (auto simp: cli_effect_def push_all_def intro!: exI [of _ "[]"])

lemma cli_effect_push [simp]: "command_event e \<Longrightarrow> cli_effect fw (push_event e fw)"
  by (auto simp: cli_effect_def push_event_def push_all_def intro!: exI [of _ "[e]"])

lemma cli_effect_push2 [simp]: "command_event e \<Longrightarrow> command_event e' \<Longrightarrow> cli_effect fw (push_event e' (push_event e fw))"
  by (auto simp: cli_effect_def push_event_def push_all_def intro!: exI [of _ "[e, e']"])

lemmas dispatch_defs = dispatch_v24_polarities_def dispatch_get_request_def dispatch_v24_baudrate_def
  dispatch_ip_def dispatch_get_udp_port_def dispatch_set_udp_port_def

lemma cli_effect_v24 [simp]:
  "cli_effect fw (subcmd_set_v24_inverted k z args fw)" "cli_effect fw (subcmd_get_v24_inverted k z args fw)"
  "cli_effect fw (subcmd_set_v24_clockmode k z args fw)" "cli_effect fw (subcmd_get_v24_clockmode k z args fw)"
  "cli_effect fw (subcmd_set_v24_baudrate k z args fw)" "cli_effect fw (subcmd_get_v24_baudrate k z args fw)"
  by (simp_all add: subcmd_set_v24_inverted_def subcmd_get_v24_inverted_def subcmd_set_v24_clockmode_def
      subcmd_get_v24_clockmode_def subcmd_set_v24_baudrate_def subcmd_get_v24_baudrate_def dispatch_defs parse_rate_known
      split: prod.split sum.split)

lemma cli_effect_net_subcmds [simp]:
  "cli_effect fw (subcmd_set_ip_local k z args fw)" "cli_effect fw (subcmd_get_ip_local k z args fw)"
  "cli_effect fw (subcmd_set_ip_remote k z args fw)" "cli_effect fw (subcmd_get_ip_remote k z args fw)"
  "cli_effect fw (subcmd_set_ip_gateway k z args fw)" "cli_effect fw (subcmd_get_ip_gateway k z args fw)"
  "cli_effect fw (subcmd_set_udp_port_local k z args fw)" "cli_effect fw (subcmd_get_udp_port_local k z args fw)"
  "cli_effect fw (subcmd_set_udp_port_remote k z args fw)" "cli_effect fw (subcmd_get_udp_port_remote k z args fw)"
  by (simp_all add: subcmd_set_ip_local_def subcmd_get_ip_local_def subcmd_set_ip_remote_def subcmd_get_ip_remote_def
      subcmd_set_ip_gateway_def subcmd_get_ip_gateway_def subcmd_set_udp_port_local_def subcmd_get_udp_port_local_def
      subcmd_set_udp_port_remote_def subcmd_get_udp_port_remote_def dispatch_defs
      split: prod.split sum.split)

lemma cli_effect_pins [simp]:
  "cli_effect fw (cat_gpio_set k z args fw)" "cli_effect fw (cat_gpio_get k z args fw)"
  "cli_effect fw (cmd_pininfo k z args fw)"
  by (auto simp: cat_gpio_set_def cat_gpio_get_def cmd_pininfo_def Let_def split_beta
      split: prod.split sum.split option.split)

lemma table_lookup_mem: "table_lookup at_end entries args = Some (h, r) \<Longrightarrow> \<exists>name. (name, h) \<in> set entries"
  by (induction at_end entries args rule: table_lookup.induct) (auto split: if_splits)

lemma cli_effect_table:
  assumes "\<And>name h args. (name, h) \<in> set entries \<Longrightarrow> cli_effect fw (h k z args fw)"
  shows "cli_effect fw (run_table at_end entries k z args fw)"
  using assms by (auto simp: run_table_def split: option.split dest: table_lookup_mem)

lemma cli_effect_categories [simp]:
  "cli_effect fw (cat_v24_set k z args fw)" "cli_effect fw (cat_v24_get k z args fw)"
  "cli_effect fw (cat_net_set k z args fw)" "cli_effect fw (cat_net_get k z args fw)"
  unfolding cat_v24_set_def cat_v24_get_def cat_net_set_def cat_net_get_def
  by (rule cli_effect_table;
      auto simp: v24_subcmds_set_def v24_subcmds_get_def net_subcmds_set_def net_subcmds_get_def)+

lemma cli_effect_set_get [simp]: "cli_effect fw (cmd_set k z args fw)" "cli_effect fw (cmd_get k z args fw)"
  unfolding cmd_set_def cmd_get_def
  by (rule cli_effect_table;
      auto simp: categories_set_def categories_get_def cat_loglevel_set_def cat_loglevel_get_def Let_def split: option.split)+

lemma cli_effect_command:
  "(name, h) \<in> set commands \<Longrightarrow> cli_effect fw (h k z args fw)"
  by (auto simp: commands_def cmd_help_def cmd_status_def cmd_mem_def cmd_save_def cmd_wipe_def cmd_net_def cmd_reboot_def)

lemma handle_cli_line_effect: "cli_effect fw (handle_cli_line k z line fw)"
  by (auto simp: handle_cli_line_def split: prod.split option.split dest!: map_of_SomeD intro: cli_effect_command)

text \<open>
  A command line never changes the configuration directly: whatever is typed, the application
  context, the flash, the decoder counters, the transmitter's state and the bytes handed to it stay
  as they are and the Ethernet chip is only read.  The line queues at most two events, each with the
  payload its handler expects; a rate among them is one the hardware knows.
\<close>

lemma cli_line_only_queues:
  "let fw' = handle_cli_line k z line fw in
     fw_app fw' = fw_app fw \<and> fw_flash fw' = fw_flash fw \<and> w_trace (fw_net fw') = w_trace (fw_net fw)
     \<and> w_received (fw_net fw') = w_received (fw_net fw)
     \<and> dr_runtime (fw_driver fw') = dr_runtime (fw_driver fw)
     \<and> bytes_put (dr_trace (fw_driver fw')) = bytes_put (dr_trace (fw_driver fw))
     \<and> (\<exists>es. length es \<le> 2 \<and> list_all command_event es \<and> fw_events fw' = push_all es (fw_events fw))"
  using handle_cli_line_effect [of fw k z line] by (simp add: cli_effect_def Let_def list_all_iff)

end
