(* ===== verification/Event_Dispatch.thy ===== *)
theory Event_Dispatch
  imports Cli_Commands
begin

text \<open>
  \<open>src/system/event_dispatch.c\<close>: what each event does to the firmware.  Of the print
  functions the hardware reads are here and the text is in \<open>Reports\<close>.

  The payload's union is the member that was written; reading another one is \<open>Undefined\<close> (the
  firmware never queues such an event).  \<open>EV_UDP_RX\<close>, \<open>EV_UDP_TX\<close> and \<open>EV_HDLC_DECODE\<close> are handled but
  nothing queues the first and the last of them; the frame that \<open>EV_HDLC_DECODE\<close> points to belongs to
  the sender, so the \<open>memset\<close> of its storage has no counterpart.

  The theories \<open>Loop_Invariant\<close> and \<open>Settings\<close> show what the handlers keep and what becomes of a
  changed setting.
\<close>

section \<open>Handlers\<close>

fun returning :: "('r \<times> 's) outcome \<Rightarrow> ('r \<Rightarrow> 's \<Rightarrow> 's outcome) \<Rightarrow> 's outcome" where
  "returning (Running (r, s)) f = f r s"
| "returning (Stopped why (_, s)) f = Stopped why s"

definition request_save_config :: "('h, 'w) firmware \<Rightarrow> ('h, 'w) firmware" where
  "request_save_config fw = push_event (bare_event EV_SAVE_CONFIG) fw"

text \<open>Replacing one address of the chip's network settings when it differs.\<close>

definition change_netinfo ::
  "'w wiznet \<Rightarrow> (wiz_NetInfo \<Rightarrow> byte list) \<Rightarrow> (byte list \<Rightarrow> wiz_NetInfo \<Rightarrow> wiz_NetInfo) \<Rightarrow> byte list
   \<Rightarrow> ('h, 'w) firmware \<Rightarrow> bool \<times> ('h, 'w) firmware" where
  "change_netinfo z get put ip fw =
     (let (net_info, n1) = chip_getnetinfo z (fw_net fw)
      in if get net_info \<noteq> ip
         then (True, fw\<lparr>fw_net := snd (chip_do z (Wiz_setnetinfo (put ip net_info)) n1)\<rparr>)
         else (False, fw\<lparr>fw_net := n1\<rparr>))"

text \<open>Reopening the UDP socket with a changed port.\<close>

definition reopen_socket ::
  "'w wiznet \<Rightarrow> UDP_CONFIG_T \<Rightarrow> ('h, 'w) firmware \<Rightarrow> (bool \<times> ('h, 'w) firmware) outcome" where
  "reopen_socket z config fw =
     (let (err, n) = w5500_reconfigure_udp_socket z config (fw_net fw); fw1 = fw\<lparr>fw_net := n\<rparr>
      in if err \<noteq> E2S_OK then fatal_panic err (False, fw1) else Running (True, fw1))"

definition ev_set_net_ip ::
  "'w wiznet \<Rightarrow> event_queue_data_types_t \<Rightarrow> byte list \<Rightarrow> ('h, 'w) firmware \<Rightarrow> bool \<times> ('h, 'w) firmware" where
  "ev_set_net_ip z item ip fw =
     (case item of
        NET_IP_REMOTE \<Rightarrow>
          if uc_ip_address (ac_destination_config (fw_app fw)) \<noteq> ip
          then (True, upd_app (\<lambda>app. app\<lparr>ac_destination_config := (ac_destination_config app)\<lparr>uc_ip_address := ip\<rparr>\<rparr>) fw)
          else (False, fw)
      | NET_IP_LOCAL \<Rightarrow>
          let (changed, fw1) = change_netinfo z ni_ip (\<lambda>ip i. i\<lparr>ni_ip := ip\<rparr>) ip fw
          in (changed, if changed
                       then upd_app (\<lambda>app. app\<lparr>ac_local_config := (ac_local_config app)\<lparr>uc_ip_address := ip\<rparr>\<rparr>) fw1
                       else fw1)
      | NET_IP_MASK \<Rightarrow> change_netinfo z ni_sn (\<lambda>ip i. i\<lparr>ni_sn := ip\<rparr>) ip fw
      | NET_IP_GATEWAY \<Rightarrow> change_netinfo z ni_gw (\<lambda>ip i. i\<lparr>ni_gw := ip\<rparr>) ip fw
      | _ \<Rightarrow> (False, fw))"

definition ev_set_net_port ::
  "'w wiznet \<Rightarrow> event_queue_data_types_t \<Rightarrow> u16 \<Rightarrow> ('h, 'w) firmware \<Rightarrow> (bool \<times> ('h, 'w) firmware) outcome" where
  "ev_set_net_port z item port fw =
     (case item of
        NET_PORT_LOCAL \<Rightarrow>
          if uc_port (ac_local_config (fw_app fw)) \<noteq> port
          then let fw1 = upd_app (\<lambda>app. app\<lparr>ac_local_config := (ac_local_config app)\<lparr>uc_port := port\<rparr>\<rparr>) fw
               in reopen_socket z (ac_local_config (fw_app fw1)) fw1
          else Running (False, fw)
      | NET_PORT_REMOTE \<Rightarrow>
          if uc_port (ac_destination_config (fw_app fw)) \<noteq> port
          then let fw1 = upd_app (\<lambda>app. app\<lparr>ac_destination_config := (ac_destination_config app)\<lparr>uc_port := port\<rparr>\<rparr>) fw
               in reopen_socket z (ac_destination_config (fw_app fw1)) fw1
          else Running (False, fw)
      | _ \<Rightarrow> Running (False, fw))"

text \<open>Which member of the union an identifier reads.\<close>

definition is_ip_item :: "event_queue_data_types_t \<Rightarrow> bool" where
  "is_ip_item item \<longleftrightarrow> item \<in> {NET_IP_REMOTE, NET_IP_LOCAL, NET_IP_MASK, NET_IP_GATEWAY}"

definition is_port_item :: "event_queue_data_types_t \<Rightarrow> bool" where
  "is_port_item item \<longleftrightarrow> item \<in> {NET_PORT_LOCAL, NET_PORT_REMOTE}"

definition ev_set_net_settings ::
  "'w wiznet \<Rightarrow> event_queue_data_t \<Rightarrow> ('h, 'w) firmware \<Rightarrow> (bool \<times> ('h, 'w) firmware) outcome" where
  "ev_set_net_settings z payload fw =
     (let prompt = (\<lambda>(changed, fw1). Running (changed, upd_app (\<lambda>app. app\<lparr>ac_need_prompt := True\<rparr>) fw1)) in
      if is_ip_item (eqd_id payload) then
        (case eqd_value payload of
           Val_ip ip \<Rightarrow> prompt (ev_set_net_ip z (eqd_id payload) ip fw)
         | _ \<Rightarrow> Stopped Undefined (False, fw))
      else if is_port_item (eqd_id payload) then
        (case eqd_value payload of
           Val_port port \<Rightarrow> proceed (ev_set_net_port z (eqd_id payload) port fw) prompt
         | _ \<Rightarrow> Stopped Undefined (False, fw))
      else prompt (False, fw))"

text \<open>Only reads and prints.\<close>

definition ev_get_net_settings :: "'w wiznet \<Rightarrow> event_queue_data_t \<Rightarrow> ('h, 'w) firmware \<Rightarrow> ('h, 'w) firmware" where
  "ev_get_net_settings z payload fw =
     (if eqd_id payload \<in> {NET_IP_LOCAL, NET_IP_MASK, NET_IP_GATEWAY}
      then fw\<lparr>fw_net := snd (chip_getnetinfo z (fw_net fw))\<rparr> else fw)"

record apply_result_t =
  ar_changed :: bool
  ar_reboot_required :: bool

definition no_change :: apply_result_t where
  "no_change = \<lparr>ar_changed = False, ar_reboot_required = False\<rparr>"

definition prompt_app :: "('h, 'w) firmware \<Rightarrow> ('h, 'w) firmware" where
  "prompt_app = upd_app (\<lambda>app. app\<lparr>ac_need_prompt := True\<rparr>)"

definition ev_set_v24_baudrate ::
  "'h sdk \<Rightarrow> V24_BAUDRATE_T \<Rightarrow> ('h, 'w) firmware \<Rightarrow> (apply_result_t \<times> ('h, 'w) firmware) outcome" where
  "ev_set_v24_baudrate k baudrate fw =
     (if vc_baudrate (ac_v24_config (fw_app fw)) = baudrate then Running (no_change, prompt_app fw)
      else case reinit_v24_config (ac_v24_config (fw_app fw)) baudrate (dr_runtime (fw_driver fw)) of
        None \<Rightarrow> Stopped Undefined (no_change, fw)
      | Some (config, rt) \<Rightarrow>
          let fw1 = (upd_app (\<lambda>app. app\<lparr>ac_v24_config := config\<rparr>) fw)\<lparr>fw_driver := (fw_driver fw)\<lparr>dr_runtime := rt\<rparr>\<rparr>
          in (case tx_clock_update_settings k config (fw_driver fw1) of
                None \<Rightarrow> Stopped Undefined (no_change, fw1)
              | Some d \<Rightarrow> Running (no_change\<lparr>ar_changed := True\<rparr>, prompt_app (fw1\<lparr>fw_driver := d\<rparr>))))"

definition ev_set_v24_polarities ::
  "'h sdk \<Rightarrow> V24_POLARITIES_T \<Rightarrow> ('h, 'w) firmware \<Rightarrow> (apply_result_t \<times> ('h, 'w) firmware) outcome" where
  "ev_set_v24_polarities k polarities fw =
     (if vc_polarities (ac_v24_config (fw_app fw)) = polarities then Running (no_change, prompt_app fw)
      else
        let config = (ac_v24_config (fw_app fw))\<lparr>vc_polarities := polarities\<rparr>;
            fw1 = upd_app (\<lambda>app. app\<lparr>ac_v24_config := config\<rparr>) fw
        in (case tx_clock_update_settings k config (fw_driver fw1) of
              None \<Rightarrow> Stopped Undefined (no_change, fw1)
            | Some d \<Rightarrow>
                (case rx_clock_update_settings k (Some (rx_polarities polarities)) d of
                   None \<Rightarrow> Stopped Undefined (no_change, fw1\<lparr>fw_driver := d\<rparr>)
                 | Some d1 \<Rightarrow> Running (no_change\<lparr>ar_changed := True\<rparr>, prompt_app (fw1\<lparr>fw_driver := d1\<rparr>)))))"

text \<open>Refused while frames are waiting or being sent.\<close>

definition ev_set_v24_clock_mode ::
  "bool \<Rightarrow> ('h, 'w) firmware \<Rightarrow> apply_result_t \<times> ('h, 'w) firmware" where
  "ev_set_v24_clock_mode external_clock fw =
     (if vc_external_clock (ac_v24_config (fw_app fw)) \<noteq> external_clock then
        if \<not> tx_queue_is_empty (ac_tx_queue (fw_app fw)) then (no_change, fw)
        else (\<lparr>ar_changed = True, ar_reboot_required = True\<rparr>,
              prompt_app (upd_app (\<lambda>app. app\<lparr>ac_v24_config := (ac_v24_config app)\<lparr>vc_external_clock := external_clock\<rparr>\<rparr>) fw))
      else (no_change, fw))"

definition ev_set_v24_settings ::
  "'h sdk \<Rightarrow> event_queue_data_t \<Rightarrow> ('h, 'w) firmware \<Rightarrow> (apply_result_t \<times> ('h, 'w) firmware) outcome" where
  "ev_set_v24_settings k payload fw =
     (case eqd_id payload of
        V24_BAUDRATE \<Rightarrow>
          (case eqd_value payload of Val_baudrate b \<Rightarrow> ev_set_v24_baudrate k b fw | _ \<Rightarrow> Stopped Undefined (no_change, fw))
      | V24_POLARITIES \<Rightarrow>
          (case eqd_value payload of Val_polarities p \<Rightarrow> ev_set_v24_polarities k p fw | _ \<Rightarrow> Stopped Undefined (no_change, fw))
      | V24_CLOCK_MODE \<Rightarrow>
          (case eqd_value payload of Val_clock_mode ext \<Rightarrow> Running (ev_set_v24_clock_mode ext fw)
           | _ \<Rightarrow> Stopped Undefined (no_change, fw))
      | _ \<Rightarrow> Running (no_change, fw))"

definition ev_get_v24_settings :: "event_queue_data_t \<Rightarrow> ('h, 'w) firmware \<Rightarrow> ('h, 'w) firmware" where
  "ev_get_v24_settings payload fw =
     (if eqd_id payload \<in> {V24_BAUDRATE, V24_POLARITIES, V24_CLOCK_MODE} then prompt_app fw else fw)"

section \<open>The status report\<close>

record ev_status_stats_t =
  es_frame_gap :: u64
  es_tx_gap :: u64
  es_udp_rx_rate_fps :: u64
  es_hdlc_rx_rate_fps :: u64
  es_udp_tx_rate_fps :: u64
  es_decode_fail_rate :: u64
  es_serial_rx_rate_bps :: u64

definition gap_of :: "u64 \<Rightarrow> u64 \<Rightarrow> u64" where
  "gap_of a b = (if a > b then a - b else 0)"

definition rate_of :: "u64 \<Rightarrow> u64 \<Rightarrow> u32 \<Rightarrow> u64" where
  "rate_of now prev elapsed_ms = ((now - prev) * 1000) div ucast elapsed_ms"

definition ev_status ::
  "'h sdk \<Rightarrow> ('h, 'w) firmware \<Rightarrow> ev_status_stats_t \<times> ('h, 'w) firmware" where
  "ev_status k fw =
     (let st = ac_stats (fw_app fw); prev = fw_status fw;
          (now, d) = hw_ask k To_ms_since_boot (fw_driver fw);
          report_now_ms = ucast now :: u32;
          elapsed = (if st_last_report_ms st \<noteq> 0 then report_now_ms - st_last_report_ms st else 0);
          elapsed_ms = (if elapsed = 0 then 1 else elapsed)
      in (\<lparr>es_frame_gap = gap_of (st_hdlc_tx_frames st) (st_hdlc_frame_ready st),
           es_tx_gap = gap_of (st_hdlc_frame_ready st) (st_udp_tx_frames st),
           es_udp_rx_rate_fps = rate_of (st_udp_rx_frames st) (sb_udp_rx_frames prev) elapsed_ms,
           es_hdlc_rx_rate_fps = rate_of (st_hdlc_frame_ready st) (sb_hdlc_frame_ready prev) elapsed_ms,
           es_udp_tx_rate_fps = rate_of (st_udp_tx_frames st) (sb_udp_tx_frames prev) elapsed_ms,
           es_decode_fail_rate = rate_of (st_hdlc_decode_fail st) (sb_hdlc_decode_fail prev) elapsed_ms,
           es_serial_rx_rate_bps = rate_of (st_serial_rx_bytes st) (sb_serial_rx_bytes prev) elapsed_ms\<rparr>,
          fw\<lparr>fw_driver := d,
             fw_status := \<lparr>sb_udp_rx_frames = st_udp_rx_frames st, sb_hdlc_frame_ready = st_hdlc_frame_ready st,
               sb_udp_tx_frames = st_udp_tx_frames st, sb_hdlc_decode_fail = st_hdlc_decode_fail st,
               sb_serial_rx_bytes = st_serial_rx_bytes st\<rparr>,
             fw_app := upd_stats (\<lambda>s. s\<lparr>st_last_report_ms := report_now_ms\<rparr>) (fw_app fw)\<rparr>))"

text \<open>
  The report reads the estimates, which clears their ready flags, and the stall flag from a register;
  both pins are inside the estimator's arrays.
\<close>

definition take_estimate :: "nat \<Rightarrow> baud_monitor \<Rightarrow> baud_monitor" where
  "take_estimate pin m = (case baudrate_estimator_get_current_estimation pin m of None \<Rightarrow> m | Some (_, m') \<Rightarrow> m')"

definition print_status_event :: "'h sdk \<Rightarrow> ('h, 'w) firmware \<Rightarrow> ('h, 'w) firmware" where
  "print_status_event k fw =
     (let m = take_estimate V24_RXC (fw_baud fw);
          fw1 = fw\<lparr>fw_baud := (if vc_external_clock (ac_v24_config (fw_app fw)) then take_estimate V24_TXC_DCE m else m)\<rparr>
      in case rt_tx_pio (dr_runtime (fw_driver fw1)) of
           None \<Rightarrow> fw1
         | Some pio \<Rightarrow> fw1\<lparr>fw_driver := snd (hw_ask k (Pio_fdebug pio) (fw_driver fw1))\<rparr>)"

section \<open>Dispatch\<close>

definition sizeof_udp_frame :: nat where "sizeof_udp_frame = 8"
definition sizeof_hdlc_frame :: nat where "sizeof_hdlc_frame = 12"

definition ev_save_config :: "'w wiznet \<Rightarrow> ('h, 'w) firmware \<Rightarrow> ('h, 'w) firmware" where
  "ev_save_config z fw =
     (let (net_info, n) = chip_getnetinfo z (fw_net fw);
          app = fw_app fw;
          net_config = (ac_net_config app)\<lparr>nc_net_info := net_info\<rparr>;
          cfg = (ac_persistent_config app)\<lparr>cf_log_level := get_loglevel (fw_log fw), cf_v24_config := ac_v24_config app,
                  cf_net_config := net_config, cf_local_config := ac_local_config app,
                  cf_remote_config := ac_destination_config app\<rparr>;
          (flash, cfg_mut) = config_write cfg (fw_flash fw)
      in fw\<lparr>fw_net := n, fw_flash := flash,
            fw_app := app\<lparr>ac_net_config := net_config, ac_persistent_config := cfg_mut, ac_need_prompt := True\<rparr>\<rparr>)"

definition ev_udp_rx :: "('h, 'w) firmware \<Rightarrow> ('h, 'w) firmware" where
  "ev_udp_rx = upd_app (\<lambda>app. app\<lparr>ac_tx_queue := snd (tx_queue_enqueue_udp_frame (ac_tx_queue app) (ac_rx_frame_buffer app)),
     ac_rx_frame_buffer := wipe_frame (ac_rx_frame_buffer app), ac_need_prompt := True\<rparr>)"

definition ev_hdlc_decode :: "HDLC_FRAME_T \<Rightarrow> ('h, 'w) firmware \<Rightarrow> ('h, 'w) firmware" where
  "ev_hdlc_decode frame fw =
     (let app = fw_app fw;
          (ok, buf, len, stats) = hdlc_decode (Some frame) (Some (uf_payload (ac_tx_frame_buffer app))) TX_BUF_SIZE (Some 0)
                                    True (fw_decode_stats fw);
          fw1 = fw\<lparr>fw_decode_stats := stats,
                   fw_app := app\<lparr>ac_tx_frame_buffer := \<lparr>uf_payload = the buf, uf_length = the len\<rparr>,
                     ac_accumulator := hdlc_sync_acc_init (sa_buffer (ac_accumulator app)) HDLC_FLAG_BYTE\<rparr>\<rparr>
      in if ok then push_event \<lparr>ev_type = EV_UDP_TX, ev_data_len = sizeof_udp_frame, ev_data = Ptr_tx_frame_buffer,
                                ev_is_inline = False\<rparr> fw1
         else fw1)"

definition inline_payload :: "event_t \<Rightarrow> event_queue_data_t option" where
  "inline_payload event =
     (case event_get_payload_ptr event sizeof_event_queue_data of
        Some (Inline_data payload) \<Rightarrow> Some payload
      | _ \<Rightarrow> None)"

definition event_dispatch :: "'h sdk \<Rightarrow> 'w wiznet \<Rightarrow> event_t \<Rightarrow> ('h, 'w) firmware \<Rightarrow> ('h, 'w) firmware outcome" where
  "event_dispatch k z event fw =
     (case ev_type event of
        EV_REBOOT \<Rightarrow> reboot fw
      | EV_STATUS \<Rightarrow> Running (prompt_app (print_status_event k (snd (ev_status k fw))))
      | EV_MEM \<Rightarrow> Running (prompt_app fw)
      | EV_CLI_LINE \<Rightarrow>
          (case event_get_payload_ptr event 1 of
             None \<Rightarrow> Running (prompt_app fw)
           | Some (Ptr_line slot) \<Rightarrow> Running (prompt_app (handle_cli_line k z (ci_line_pool (fw_cli fw) ! slot) fw))
           | Some _ \<Rightarrow> Stopped Undefined fw)
      | EV_UDP_RX \<Rightarrow> Running (ev_udp_rx fw)
      | EV_UDP_TX \<Rightarrow>
          (case event_get_payload_ptr event sizeof_udp_frame of
             None \<Rightarrow> Running (prompt_app fw)
           | Some Ptr_tx_frame_buffer \<Rightarrow>
               Running (prompt_app (fw\<lparr>fw_net := w5500_udp_tx z (ac_destination_config (fw_app fw))
                                                  (ac_tx_frame_buffer (fw_app fw)) (fw_net fw)\<rparr>))
           | Some _ \<Rightarrow> Stopped Undefined fw)
      | EV_HDLC_DECODE \<Rightarrow>
          (case event_get_payload_ptr event sizeof_hdlc_frame of
             None \<Rightarrow> Running fw
           | Some (Ptr_hdlc_frame frame) \<Rightarrow> Running (ev_hdlc_decode frame fw)
           | Some _ \<Rightarrow> Stopped Undefined fw)
      | EV_SAVE_CONFIG \<Rightarrow> Running (ev_save_config z fw)
      | EV_WIPE_CONFIG \<Rightarrow> Running (prompt_app (fw\<lparr>fw_flash := config_wipe (fw_flash fw)\<rparr>))
      | EV_SET_NET_SETTINGS \<Rightarrow>
          (case inline_payload event of
             None \<Rightarrow> Running fw
           | Some payload \<Rightarrow>
               returning (ev_set_net_settings z payload fw)
                 (\<lambda>changed fw1. Running (if changed then request_save_config fw1 else fw1)))
      | EV_GET_NET_SETTINGS \<Rightarrow>
          (case inline_payload event of None \<Rightarrow> Running fw | Some payload \<Rightarrow> Running (ev_get_net_settings z payload fw))
      | EV_SET_V24_SETTINGS \<Rightarrow>
          (case inline_payload event of
             None \<Rightarrow> Running fw
           | Some payload \<Rightarrow>
               returning (ev_set_v24_settings k payload fw)
                 (\<lambda>set_result fw1.
                    let fw2 = (if ar_changed set_result then request_save_config fw1 else fw1)
                    in Running (if ar_reboot_required set_result then push_event (bare_event EV_REBOOT) fw2 else fw2)))
      | EV_GET_V24_SETTINGS \<Rightarrow>
          (case inline_payload event of None \<Rightarrow> Running fw | Some payload \<Rightarrow> Running (ev_get_v24_settings payload fw))
      | EV_NONE \<Rightarrow> Running fw)"

end
