(* ===== verification/Hdlc_Link.thy ===== *)
theory Hdlc_Link
  imports Hdlc_Sync
begin

text \<open>
  The serial receive path end to end: the synchroniser of \<open>Hdlc_Sync\<close> fed with the bytes an encoder
  produced.  Shown here: whenever a poll first sees two or three bytes of a frame, more than 64, or
  all of it, the frame is delivered unchanged, however the remaining bytes are cut into chunks; and
  a partial first chunk of another length can lock onto a false frame.
\<close>

section \<open>Following a candidate to its end\<close>

text \<open>A frame descriptor after more bytes have been stored.\<close>

definition frame_extends :: "HDLC_FRAME_T \<Rightarrow> byte list \<Rightarrow> HDLC_FRAME_T \<Rightarrow> bool" where
  "frame_extends f xs f' \<longleftrightarrow> frame_wf f' \<and> hf_capacity f' = hf_capacity f \<and> frame_bytes f' = frame_bytes f @ xs"

lemma frame_extends_length:
  assumes "frame_wf f" "frame_extends f xs f'"
  shows "hf_length f' = hf_length f + length xs"
  using assms length_frame_bytes [of f] length_frame_bytes [of f'] by (simp add: frame_extends_def)

lemma sync_next_byte_stores:
  assumes "acc_ok acc" "frame_wf frame" "aligned_at (raw acc) (phase_of acc) scan = Some b"
    and "hf_length frame < HDLC_SYNC_MAX_REASONABLE_FRAME_SIZE_BYTES" "hf_length frame < hf_capacity frame"
  shows "\<exists>frame'. sync_next_byte cw (acc, frame, scan) = Inr (b, (acc, frame', scan)) \<and> frame_extends frame [b] frame'"
proof -
  let ?f = "frame\<lparr>hf_payload := (hf_payload frame)[hf_length frame := b], hf_length := hf_length frame + 1\<rparr>"
  have "hf_length frame < length (hf_payload frame)"
    using assms(2,5) by (simp add: frame_wf_def)
  then have "frame_extends frame [b] ?f"
    using assms(2,5) by (simp add: frame_extends_def frame_wf_def frame_bytes_def)
  then show ?thesis
    using assms by (auto simp: sync_next_byte_def hdlc_sync_get_aligned_byte_raw)
qed

text \<open>In SYNCED, the loop stores every available byte that is not a flag.\<close>

lemma poll_loop_stores:
  assumes "acc_ok acc" "sa_state acc = HDLC_SYNC_STATE_SYNCED" "frame_wf frame"
    and "map Some xs = map (aligned_at (raw acc) (phase_of acc)) [scan..<scan + length xs]"
    and "scan + length xs \<le> sa_position acc" "sa_sync_byte acc \<notin> set xs"
    and "hf_length frame + length xs \<le> HDLC_SYNC_MAX_REASONABLE_FRAME_SIZE_BYTES"
    and "hf_length frame + length xs \<le> hf_capacity frame"
  shows "\<exists>frame'. hdlc_sync_poll_loop (acc, frame, scan) = hdlc_sync_poll_loop (acc, frame', scan + length xs)
    \<and> frame_extends frame xs frame'"
  using assms(3-8)
proof (induction xs arbitrary: frame scan)
  case Nil
  then show ?case
    by (auto simp: frame_extends_def)
next
  case (Cons x xs)
  have upt: "[scan..<scan + length (x # xs)] = scan # [Suc scan..<Suc scan + length xs]"
    by (simp add: upt_conv_Cons del: upt_Suc)
  then have x: "aligned_at (raw acc) (phase_of acc) scan = Some x"
    and xs: "map Some xs = map (aligned_at (raw acc) (phase_of acc)) [Suc scan..<Suc scan + length xs]"
    using Cons.prems(2) by simp_all
  obtain f1 where f1: "sync_next_byte (\<lambda>acc. acc\<lparr>sa_lookahead_wait_synced := sa_lookahead_wait_synced acc + 1\<rparr>)
        (acc, frame, scan) = Inr (x, (acc, f1, scan))" "frame_extends frame [x] f1"
    using sync_next_byte_stores [OF assms(1) Cons.prems(1) x] Cons.prems(5,6) by fastforce
  have len: "hf_length f1 = hf_length frame + 1"
    using frame_extends_length [OF Cons.prems(1) f1(2)] by simp
  have "sync_step (acc, frame, scan) = (HDLC_SYNC_POLL_STEP_PROGRESS, E2S_OK, (acc, f1, Suc scan))"
    using assms(2) f1(1) Cons.prems(4) by (auto simp: sync_step_def hdlc_sync_step_synced_def)
  then have step: "hdlc_sync_poll_loop (acc, frame, scan) = hdlc_sync_poll_loop (acc, f1, Suc scan)"
    using Cons.prems(3) by (simp add: hdlc_sync_poll_loop.simps [of "(acc, frame, scan)"])
  obtain f2 where "hdlc_sync_poll_loop (acc, f1, Suc scan) = hdlc_sync_poll_loop (acc, f2, Suc scan + length xs)"
    "frame_extends f1 xs f2"
    using Cons.IH [of f1 "Suc scan"] xs Cons.prems(3-6) f1(2) len by (auto simp: frame_extends_def)
  then show ?case
    using step f1(2) by (intro exI [of _ f2]) (simp add: frame_extends_def)
qed

text \<open>The first byte after the opening flag, whatever it is.\<close>

lemma poll_loop_first:
  assumes "acc_ok acc" "sa_state acc = HDLC_SYNC_STATE_SYNCING" "frame_wf frame"
    and "aligned_at (raw acc) (phase_of acc) scan = Some x" "scan < sa_position acc"
    and "hf_length frame < HDLC_SYNC_MAX_REASONABLE_FRAME_SIZE_BYTES" "hf_length frame < hf_capacity frame"
  shows "\<exists>frame'. hdlc_sync_poll_loop (acc, frame, scan)
      = hdlc_sync_poll_loop (acc\<lparr>sa_state := HDLC_SYNC_STATE_SYNCED\<rparr>, frame', Suc scan)
    \<and> frame_extends frame [x] frame'"
proof -
  obtain f1 where f1: "sync_next_byte (\<lambda>acc. acc\<lparr>sa_lookahead_wait_syncing := sa_lookahead_wait_syncing acc + 1\<rparr>)
        (acc, frame, scan) = Inr (x, (acc, f1, scan))" "frame_extends frame [x] f1"
    using sync_next_byte_stores [OF assms(1,3,4,6,7)] by fastforce
  have "sync_step (acc, frame, scan)
      = (HDLC_SYNC_POLL_STEP_PROGRESS, E2S_OK, (acc\<lparr>sa_state := HDLC_SYNC_STATE_SYNCED\<rparr>, f1, Suc scan))"
    using assms(2) f1(1) by (simp add: sync_step_def hdlc_sync_step_syncing_def)
  then show ?thesis
    using assms(5) f1(2) by (auto simp: hdlc_sync_poll_loop.simps [of "(acc, frame, scan)"])
qed

text \<open>The closing flag ends the loop with a candidate.\<close>

lemma poll_loop_closes:
  assumes "acc_ok acc" "sa_state acc = HDLC_SYNC_STATE_SYNCED" "frame_wf frame"
    and "aligned_at (raw acc) (phase_of acc) scan = Some (sa_sync_byte acc)" "scan < sa_position acc"
    and "hf_length frame < HDLC_SYNC_MAX_REASONABLE_FRAME_SIZE_BYTES" "hf_length frame < hf_capacity frame"
  shows "\<exists>frame' acc'. hdlc_sync_poll_loop (acc, frame, scan)
      = (Some E2S_ERR_HDLC_ACC_FRAME_READY, (acc', frame', Suc scan))
    \<and> frame_extends frame [sa_sync_byte acc] frame' \<and> raw acc' = raw acc \<and> sa_sync_byte acc' = sa_sync_byte acc
    \<and> acc_ok acc' \<and> sa_candidate_valid acc' \<and> sa_candidate_start acc' = sa_candidate_start acc
    \<and> sa_candidate_end acc' = Suc scan"
proof -
  obtain f1 where f1: "sync_next_byte (\<lambda>acc. acc\<lparr>sa_lookahead_wait_synced := sa_lookahead_wait_synced acc + 1\<rparr>)
        (acc, frame, scan) = Inr (sa_sync_byte acc, (acc, f1, scan))" "frame_extends frame [sa_sync_byte acc] f1"
    using sync_next_byte_stores [OF assms(1,3,4,6,7)] by fastforce
  then show ?thesis
    using assms(1,2,5)
    by (auto simp: hdlc_sync_poll_loop.simps [of "(acc, frame, scan)"] sync_step_def hdlc_sync_step_synced_def
        acc_ok_def)
qed

section \<open>Locking onto the opening flag\<close>

text \<open>A complete frame: flag, body without flag bytes, flag.\<close>

definition framed :: "byte list \<Rightarrow> bool" where
  "framed F \<longleftrightarrow> (\<exists>body. F = [HDLC_FLAG_BYTE] @ body @ [HDLC_FLAG_BYTE] \<and> HDLC_FLAG_BYTE \<notin> set body
     \<and> 2 \<le> length body) \<and> length F \<le> HDLC_SYNC_MAX_REASONABLE_FRAME_SIZE_BYTES"

lemma framed_nth:
  assumes "framed F"
  shows "4 \<le> length F" "F ! 0 = HDLC_FLAG_BYTE" "F ! (length F - 1) = HDLC_FLAG_BYTE"
    and "0 < i \<Longrightarrow> i < length F - 1 \<Longrightarrow> F ! i \<noteq> HDLC_FLAG_BYTE"
proof -
  obtain body where F: "F = [HDLC_FLAG_BYTE] @ body @ [HDLC_FLAG_BYTE]" "HDLC_FLAG_BYTE \<notin> set body" "2 \<le> length body"
    using assms by (auto simp: framed_def)
  show "4 \<le> length F" "F ! 0 = HDLC_FLAG_BYTE" "F ! (length F - 1) = HDLC_FLAG_BYTE"
    using F(1,3) by (simp_all add: nth_append)
  assume "0 < i" "i < length F - 1"
  then have "F ! i = body ! (i - 1)" "i - 1 < length body"
    using F(1) by (auto simp: nth_append nth_Cons')
  then show "F ! i \<noteq> HDLC_FLAG_BYTE"
    using F(2) nth_mem by metis
qed

lemma probe_closing_le: "probe_closing acc phase ps k = Some n \<Longrightarrow> n \<le> k + length ps"
  by (induction ps arbitrary: k) (fastforce split: option.splits if_splits)+

lemma fold_try_candidate_keeps:
  assumes "0 < n" "\<And>start phase. (start, phase) \<in> set cs \<Longrightarrow> sa_position acc \<le> start + n"
  shows "fold (try_candidate acc) cs (Some (s, p, n)) = Some (s, p, n)"
  using assms(2)
proof (induction cs)
  case Nil
  then show ?case by simp
next
  case (Cons c cs)
  obtain start phase where c: "c = (start, phase)"
    by (cases c)
  have "m \<le> n" if "probe_closing acc phase [start + 1..<sa_position acc] 1 = Some m" for m
    using probe_closing_le [OF that] Cons.prems [of start phase] c assms(1) by simp
  then have "try_candidate acc c (Some (s, p, n)) = Some (s, p, n)"
    by (auto simp: try_candidate_def c split: option.splits)
  moreover have "fold (try_candidate acc) cs (Some (s, p, n)) = Some (s, p, n)"
    using Cons.IH Cons.prems by (meson list.set_intros(2))
  ultimately show ?case
    by simp
qed

lemma probe_closing_frame:
  assumes F: "framed F" and ok: "acc_ok acc" "raw acc = F" "sa_sync_byte acc = HDLC_FLAG_BYTE"
    and k: "0 < k" "k < length F"
  shows "probe_closing acc (0, False) [k..<length F] k = Some (length F)"
  using k
proof (induction "length F - k" arbitrary: k)
  case 0
  then show ?case by simp
next
  case (Suc m)
  have upt: "[k..<length F] = k # [Suc k..<length F]"
    using Suc.prems by (simp add: upt_conv_Cons)
  have byte: "hdlc_sync_get_aligned_byte acc k 0 False = Some (F ! k)"
    using Suc.prems ok by (simp add: hdlc_sync_get_aligned_byte_raw aligned_at_def)
  show ?case
  proof (cases "k = length F - 1")
    case True
    then have "F ! k = HDLC_FLAG_BYTE" "k + 1 = length F" "HDLC_SYNC_MIN_FRAME_SIZE_BYTES \<le> k + 1"
      using framed_nth(1,3) [OF F] by (simp_all add: HDLC_SYNC_MIN_FRAME_SIZE_BYTES_def)
    then show ?thesis
      unfolding upt using byte ok(3) by simp
  next
    case False
    then have "F ! k \<noteq> HDLC_FLAG_BYTE" "Suc k < length F"
      using framed_nth(4) [OF F, of k] Suc.prems by auto
    then show ?thesis
      using byte ok(3) Suc.hyps(1) [of "Suc k"] Suc.hyps(2) by (simp add: upt)
  qed
qed

text \<open>
  The hunt over the start of a frame picks its opening flag, byte aligned, when it sees too few
  bytes for the exhaustive search, too many, or all of the frame.
\<close>

definition clear_start :: "byte list \<Rightarrow> nat \<Rightarrow> bool" where
  "clear_start F n \<longleftrightarrow> 2 \<le> n \<and> n \<le> length F \<and>
     (n < HDLC_SYNC_MIN_FRAME_SIZE_BYTES \<or> n > HDLC_SYNC_SHORT_BUFFER_SEARCH_LIMIT \<or> n = length F)"

lemma hunting_locks:
  assumes F: "framed F" and ok: "acc_ok acc" "raw acc = take n F" "sa_sync_byte acc = HDLC_FLAG_BYTE"
    and n: "clear_start F n"
  shows "hdlc_sync_step_hunting (acc, frame, 0) = (HDLC_SYNC_POLL_STEP_PROGRESS,
      (acc\<lparr>sa_state := HDLC_SYNC_STATE_SYNCING, sa_bit_offset := 0, sa_align_shift_right := False,
           sa_candidate_start := 0, sa_candidate_valid := False\<rparr>,
       frame\<lparr>hf_length := 1, hf_payload := (hf_payload frame)[0 := HDLC_FLAG_BYTE]\<rparr>, 1))"
proof -
  have pos: "sa_position acc = n"
    using length_raw [OF ok(1)] ok(2) n by (simp add: clear_start_def)
  have "aligned_at (raw acc) (0, False) 0 = Some HDLC_FLAG_BYTE"
    using ok(2) n framed_nth(2) [OF F] by (auto simp: aligned_at_def clear_start_def)
  then have flag: "is_flag_at acc 0 (0, False)"
    using ok by (simp add: is_flag_at_raw)
  have upt: "[0..<n - Suc 0] = 0 # [Suc 0..<n - Suc 0]"
    using n by (simp add: upt_conv_Cons clear_start_def)
  have openc: "hdlc_sync_find_opening_candidate acc 0 False = Some (0, 0, False)"
    using n flag by (simp add: hdlc_sync_find_opening_candidate_def pos upt clear_start_def opening_phases_def)
  have short: "hdlc_sync_find_complete_candidate_short acc 0 \<in> {None, Some (0, 0, False)}"
  proof (cases "n < HDLC_SYNC_MIN_FRAME_SIZE_BYTES \<or> n > HDLC_SYNC_SHORT_BUFFER_SEARCH_LIMIT")
    case True
    then show ?thesis
      by (simp add: hdlc_sync_find_complete_candidate_short_def pos)
  next
    case False
    then have all: "n = length F" "raw acc = F"
      using n ok(2) by (auto simp: clear_start_def)
    obtain ps where ps: "short_phases = (0, False) # ps"
      by (simp add: short_phases_def upt_conv_Cons)
    have "map (Pair 0) short_phases = (0, 0, False) # map (Pair 0) ps"
      unfolding ps by simp
    then have "List.product [0..<n - 1] short_phases
        = (0, 0, False) # map (Pair 0) ps @ List.product [Suc 0..<n - Suc 0] short_phases"
      by (simp add: upt)
    then obtain cs where cs: "List.product [0..<n - 1] short_phases = (0, 0, False) # cs"
      by blast
    have "probe_closing acc (0, False) [0 + 1..<sa_position acc] 1 = Some n"
      using probe_closing_frame [OF F ok(1) all(2) ok(3), of 1] framed_nth(1) [OF F] pos all(1) by simp
    then have "try_candidate acc (0, 0, False) None = Some (0, (0, False), n)"
      using flag by (simp add: try_candidate_def)
    moreover have "fold (try_candidate acc) cs (Some (0, (0, False), n)) = Some (0, (0, False), n)"
      by (rule fold_try_candidate_keeps) (use n pos in \<open>auto simp: clear_start_def\<close>)
    ultimately show ?thesis
      using cs by (simp add: hdlc_sync_find_complete_candidate_short_def pos)
  qed
  show ?thesis
    using short openc ok(3) by (auto simp: hdlc_sync_step_hunting_def)
qed

section \<open>Chunks\<close>

fun rx_feed :: "HDLC_SYNC_ACCUMULATOR_T \<Rightarrow> byte list \<Rightarrow> HDLC_SYNC_ACCUMULATOR_T" where
  "rx_feed acc [] = acc"
| "rx_feed acc (b # bs) = rx_feed (snd (hdlc_sync_acc_process_byte acc b)) bs"

text \<open>Receiving in chunks, with a poll after each.\<close>

fun rx_chunks ::
  "HDLC_SYNC_ACCUMULATOR_T \<Rightarrow> HDLC_FRAME_T \<Rightarrow> byte list list \<Rightarrow>
   e2s_error_t list \<times> HDLC_SYNC_ACCUMULATOR_T \<times> HDLC_FRAME_T" where
  "rx_chunks acc frame [] = ([], acc, frame)"
| "rx_chunks acc frame (c # cs) =
     (let (e, acc1, frame1) = hdlc_sync_acc_poll (rx_feed acc c) frame;
          (es, acc2, frame2) = rx_chunks acc1 frame1 cs
      in (e # es, acc2, frame2))"

lemma rx_feed_fields:
  assumes "acc_ok acc" "sa_position acc + length c \<le> RX_HDLC_SYNC_MAX_BUFFER_SIZE"
  shows "acc_ok (rx_feed acc c) \<and> raw (rx_feed acc c) = raw acc @ c
    \<and> sa_state (rx_feed acc c) = sa_state acc \<and> sa_processed (rx_feed acc c) = sa_processed acc
    \<and> phase_of (rx_feed acc c) = phase_of acc \<and> sa_candidate_start (rx_feed acc c) = sa_candidate_start acc
    \<and> sa_sync_byte (rx_feed acc c) = sa_sync_byte acc"
  using assms
proof (induction c arbitrary: acc)
  case Nil
  then show ?case by simp
next
  case (Cons b c)
  let ?acc = "snd (hdlc_sync_acc_process_byte acc b)"
  have "acc_ok ?acc" "raw ?acc = raw acc @ [b]" "sa_position ?acc + length c \<le> RX_HDLC_SYNC_MAX_BUFFER_SIZE"
    using Cons.prems process_byte_raw [of acc b] by (auto simp: acc_ok_def hdlc_sync_acc_process_byte_def)
  then show ?case
    using Cons.IH [of ?acc] Cons.prems by (simp add: hdlc_sync_acc_process_byte_def)
qed

text \<open>The first \<open>m\<close> bytes of the frame \<open>F\<close> have arrived and been stored.\<close>

definition following :: "byte list \<Rightarrow> nat \<Rightarrow> HDLC_SYNC_ACCUMULATOR_T \<Rightarrow> HDLC_FRAME_T \<Rightarrow> bool" where
  "following F m acc frame \<longleftrightarrow> acc_ok acc \<and> sa_state acc = HDLC_SYNC_STATE_SYNCED \<and> sa_processed acc = m
     \<and> raw acc = take m F \<and> sa_bit_offset acc = 0 \<and> sa_candidate_start acc = 0
     \<and> sa_sync_byte acc = HDLC_FLAG_BYTE \<and> frame_wf frame \<and> frame_bytes frame = take m F
     \<and> length F \<le> hf_capacity frame \<and> 2 \<le> m \<and> m < length F"

text \<open>The frame \<open>F\<close> has been reported.\<close>

definition delivered :: "byte list \<Rightarrow> HDLC_SYNC_ACCUMULATOR_T \<Rightarrow> HDLC_FRAME_T \<Rightarrow> bool" where
  "delivered F acc frame \<longleftrightarrow> acc_ok acc \<and> sa_sync_byte acc = HDLC_FLAG_BYTE \<and> frame_wf frame \<and> frame_bytes frame = F \<and> raw acc = F \<and> sa_candidate_valid acc
     \<and> sa_candidate_start acc = 0 \<and> sa_candidate_end acc = length F"

text \<open>The poll loop over a followed frame of which \<open>n\<close> bytes are there.\<close>

lemma poll_loop_follows:
  assumes F: "framed F" and acc: "acc_ok acc" "sa_state acc = HDLC_SYNC_STATE_SYNCED" "raw acc = take n F"
      "sa_bit_offset acc = 0" "sa_candidate_start acc = 0" "sa_sync_byte acc = HDLC_FLAG_BYTE"
    and frame: "frame_wf frame" "frame_bytes frame = take m F" "length F \<le> hf_capacity frame"
    and m: "2 \<le> m" "m < length F" "m \<le> n" "n \<le> length F"
  shows "\<exists>frame' acc' r. hdlc_sync_poll_loop (acc, frame, m) = (r, (acc', frame', n))
    \<and> (if n < length F then r = None \<and> acc' = acc \<and> frame_extends frame (drop m (take n F)) frame'
       else r = Some E2S_ERR_HDLC_ACC_FRAME_READY \<and> delivered F acc' frame')"
proof -
  define k where "k = (if n < length F then n else length F - 1)"
  have k: "m \<le> k" "k < length F" "k \<le> n"
    using m by (auto simp: k_def)
  let ?xs = "drop m (take k F)"
  have pos: "sa_position acc = n"
    using length_raw [OF acc(1)] acc(3) m(4) by simp
  have aligned: "aligned_at (raw acc) (phase_of acc) i = Some (F ! i)" if "i < n" for i
    using that acc(3,4) m(4) by (simp add: aligned_at_def)
  have len: "hf_length frame = m"
    using frame(1,2) m length_frame_bytes [of frame] by simp
  have lenxs: "length ?xs = k - m"
    using k m by simp
  have "map Some ?xs = map (aligned_at (raw acc) (phase_of acc)) [m..<m + length ?xs]"
    using k m aligned by (intro nth_equalityI) simp_all
  moreover have "sa_sync_byte acc \<notin> set ?xs"
  proof
    assume "sa_sync_byte acc \<in> set ?xs"
    then obtain i where "i < k - m" "F ! (m + i) = HDLC_FLAG_BYTE"
      using acc(6) k m by (auto simp: in_set_conv_nth)
    then show False
      using framed_nth(4) [OF F, of "m + i"] k m by simp
  qed
  moreover have "length F \<le> HDLC_SYNC_MAX_REASONABLE_FRAME_SIZE_BYTES"
    using F by (simp add: framed_def)
  ultimately obtain f1 where f1: "hdlc_sync_poll_loop (acc, frame, m) = hdlc_sync_poll_loop (acc, f1, k)"
      "frame_extends frame ?xs f1"
    using poll_loop_stores [OF acc(1,2) frame(1), of ?xs m] k m frame(3) len lenxs pos by auto
  have f1': "frame_wf f1" "frame_bytes f1 = take k F" "hf_capacity f1 = hf_capacity frame"
    using f1(2) frame(2) k by (simp_all add: frame_extends_def drop_take flip: take_add)
  show ?thesis
  proof (cases "n < length F")
    case True
    then have "hdlc_sync_poll_loop (acc, f1, k) = (None, (acc, f1, n))"
      using pos by (simp add: k_def hdlc_sync_poll_loop.simps [of "(acc, f1, n)"])
    then show ?thesis
      using True f1 by (auto simp: k_def)
  next
    case False
    then have n: "n = length F" and kn: "k = length F - 1" "Suc k = length F"
      using m by (auto simp: k_def)
    have "hf_length f1 = k"
      using f1'(1,2) k length_frame_bytes [of f1] by simp
    moreover have "aligned_at (raw acc) (phase_of acc) k = Some (sa_sync_byte acc)"
      using aligned [of k] framed_nth(3) [OF F] kn n k acc(6) by simp
    ultimately obtain f2 acc' where "hdlc_sync_poll_loop (acc, f1, k)
          = (Some E2S_ERR_HDLC_ACC_FRAME_READY, (acc', f2, Suc k))"
        "frame_extends f1 [sa_sync_byte acc] f2" "raw acc' = raw acc" "sa_sync_byte acc' = sa_sync_byte acc"
        "acc_ok acc'" "sa_candidate_valid acc'"
        "sa_candidate_start acc' = 0" "sa_candidate_end acc' = Suc k"
      using poll_loop_closes [OF acc(1,2) f1'(1), of k] k n pos frame(3) f1'(3)
        \<open>length F \<le> HDLC_SYNC_MAX_REASONABLE_FRAME_SIZE_BYTES\<close> acc(5) by auto
    moreover have "take k F @ [sa_sync_byte acc] = F"
      using framed_nth(3) [OF F] kn acc(6) take_Suc_conv_app_nth [of k F] by simp
    ultimately show ?thesis
      using False f1 f1'(2) kn n acc(3,6) by (simp add: delivered_def frame_extends_def)
  qed
qed

text \<open>What a poll does to the frame \<open>F\<close> of which \<open>n\<close> bytes are there.\<close>

definition poll_result :: "byte list \<Rightarrow> nat \<Rightarrow> e2s_error_t \<times> HDLC_SYNC_ACCUMULATOR_T \<times> HDLC_FRAME_T \<Rightarrow> bool" where
  "poll_result F n = (\<lambda>(e, acc, frame).
     if n < length F then e = E2S_OK \<and> following F n acc frame
     else e = E2S_ERR_HDLC_ACC_FRAME_READY \<and> delivered F acc frame)"

lemma poll_runs_loop:
  assumes "acc_ok acc" "frame_wf frame" "0 < hf_capacity frame" "0 < length (raw acc)"
    and "sa_state acc = HDLC_SYNC_STATE_HUNTING \<or> sa_bit_offset acc = 0"
  shows "hdlc_sync_acc_poll acc frame =
    (case hdlc_sync_poll_loop (acc, frame, sa_processed acc) of
       (Some error_code, (acc1, frame1, _)) \<Rightarrow> (error_code, acc1, frame1)
     | (None, (acc1, frame1, scan_index)) \<Rightarrow> (E2S_OK, hdlc_sync_finalize_poll_no_frame acc1 scan_index, frame1))"
proof -
  have "hf_payload frame \<noteq> []" "0 < sa_position acc"
    using assms by (auto simp: frame_wf_def raw_def)
  then show ?thesis
    using assms(3,5) by (auto simp: hdlc_sync_acc_poll_def)
qed

lemma poll_result_loop:
  assumes F: "framed F" and acc: "acc_ok acc" "sa_state acc = HDLC_SYNC_STATE_SYNCED" "raw acc = take n F"
      "sa_bit_offset acc = 0" "sa_candidate_start acc = 0" "sa_sync_byte acc = HDLC_FLAG_BYTE"
    and frame: "frame_wf frame" "frame_bytes frame = take m F" "length F \<le> hf_capacity frame"
    and m: "2 \<le> m" "m < length F" "m \<le> n" "n \<le> length F"
  shows "poll_result F n (case hdlc_sync_poll_loop (acc, frame, m) of
       (Some error_code, (acc1, frame1, _)) \<Rightarrow> (error_code, acc1, frame1)
     | (None, (acc1, frame1, scan_index)) \<Rightarrow> (E2S_OK, hdlc_sync_finalize_poll_no_frame acc1 scan_index, frame1))"
proof -
  obtain frame' acc' r where run: "hdlc_sync_poll_loop (acc, frame, m) = (r, (acc', frame', n))"
    and res: "if n < length F then r = None \<and> acc' = acc \<and> frame_extends frame (drop m (take n F)) frame'
       else r = Some E2S_ERR_HDLC_ACC_FRAME_READY \<and> delivered F acc' frame'"
    using poll_loop_follows [OF assms] by blast
  show ?thesis
  proof (cases "n < length F")
    case False
    then show ?thesis
      using run res by (simp add: poll_result_def)
  next
    case True
    have "take m F @ drop m (take n F) = take n F"
      using m by (simp add: drop_take flip: take_add)
    then have "frame_wf frame'" "frame_bytes frame' = take n F" "hf_capacity frame' = hf_capacity frame"
      using res True frame(2) by (simp_all add: frame_extends_def)
    moreover have "hdlc_sync_finalize_poll_no_frame acc n = acc\<lparr>sa_processed := n\<rparr>"
      using acc(2) by (simp add: hdlc_sync_finalize_poll_no_frame_def Let_def)
    moreover have "acc_ok (acc\<lparr>sa_processed := n\<rparr>)"
      using acc(1,3) m length_raw [OF acc(1)] by (simp add: acc_ok_def)
    ultimately show ?thesis
      using True run res acc frame(3) m by (simp add: poll_result_def following_def)
  qed
qed

lemma poll_following:
  assumes F: "framed F" and fol: "following F m acc frame"
    and c: "take (m + length c) F = take m F @ c" "m + length c \<le> length F"
  shows "poll_result F (m + length c) (hdlc_sync_acc_poll (rx_feed acc c) frame)"
proof -
  let ?acc = "rx_feed acc c"
  have raw: "raw acc = take m F" and ok: "acc_ok acc" and m: "2 \<le> m" "m < length F"
    using fol by (simp_all add: following_def)
  have "sa_position acc + length c \<le> RX_HDLC_SYNC_MAX_BUFFER_SIZE"
    using length_raw [OF ok] raw m c(2) F by (simp add: framed_def sync_consts)
  note feed = rx_feed_fields [OF ok this]
  have "hdlc_sync_acc_poll ?acc frame =
    (case hdlc_sync_poll_loop (?acc, frame, m) of
       (Some error_code, (acc1, frame1, _)) \<Rightarrow> (error_code, acc1, frame1)
     | (None, (acc1, frame1, scan_index)) \<Rightarrow> (E2S_OK, hdlc_sync_finalize_poll_no_frame acc1 scan_index, frame1))"
    using poll_runs_loop [of ?acc frame] feed fol raw m by (simp add: following_def)
  then show ?thesis
    using poll_result_loop [OF F, of ?acc "m + length c" frame m] feed fol c m
    by (simp add: following_def)
qed

lemma poll_start:
  assumes F: "framed F" and acc: "acc_ok acc" "sa_state acc = HDLC_SYNC_STATE_HUNTING" "sa_processed acc = 0"
      "raw acc = take n F" "sa_sync_byte acc = HDLC_FLAG_BYTE"
    and frame: "frame_wf frame" "length F \<le> hf_capacity frame" and n: "clear_start F n"
  shows "poll_result F n (hdlc_sync_acc_poll acc frame)"
proof -
  have n': "2 \<le> n" "n \<le> length F" and len: "4 \<le> length F"
    using n framed_nth(1) [OF F] by (simp_all add: clear_start_def)
  let ?acc1 = "acc\<lparr>sa_state := HDLC_SYNC_STATE_SYNCING, sa_bit_offset := 0, sa_align_shift_right := False,
      sa_candidate_start := 0, sa_candidate_valid := False\<rparr>"
  let ?acc2 = "?acc1\<lparr>sa_state := HDLC_SYNC_STATE_SYNCED\<rparr>"
  let ?frame1 = "frame\<lparr>hf_length := 1, hf_payload := (hf_payload frame)[0 := HDLC_FLAG_BYTE]\<rparr>"
  have pos: "sa_position acc = n"
    using length_raw [OF acc(1)] acc(4) n' by simp
  have ok1: "acc_ok ?acc1" "acc_ok ?acc2"
    using acc(1) by (simp_all add: acc_ok_def)
  have frame1: "frame_wf ?frame1" "frame_bytes ?frame1 = [HDLC_FLAG_BYTE]"
    using frame len by (cases "hf_payload frame"; auto simp: frame_wf_def frame_bytes_def)+
  have "hdlc_sync_poll_loop (acc, frame, 0) = hdlc_sync_poll_loop (?acc1, ?frame1, 1)"
    using hunting_locks [OF F acc(1,4,5) n, of frame] acc(2) pos n'
    by (simp add: hdlc_sync_poll_loop.simps [of "(acc, frame, 0)"] sync_step_def)
  moreover have "aligned_at (raw ?acc1) (phase_of ?acc1) 1 = Some (F ! 1)"
    using acc(4) n' by (simp add: aligned_at_def)
  then obtain frame2 where "hdlc_sync_poll_loop (?acc1, ?frame1, 1) = hdlc_sync_poll_loop (?acc2, frame2, 2)"
    "frame_extends ?frame1 [F ! 1] frame2"
    using poll_loop_first [OF ok1(1) _ frame1(1), of 1 "F ! 1"] pos n' frame(2) len
    by (auto simp: HDLC_SYNC_MAX_REASONABLE_FRAME_SIZE_BYTES_def numeral_2_eq_2)
  moreover from this have "frame_wf frame2" "frame_bytes frame2 = take 2 F" "hf_capacity frame2 = hf_capacity frame"
    using frame1(2) framed_nth(2) [OF F] len
    by (cases F; cases "tl F"; auto simp: frame_extends_def)+
  ultimately show ?thesis
    using poll_runs_loop [OF acc(1) frame(1)] acc(2-5) frame(2) len n' ok1
      poll_result_loop [OF F, of ?acc2 n frame2 2]
    by simp
qed

lemma rx_chunks_following:
  assumes "framed F" "following F m acc frame" "F = take m F @ concat cs" "[] \<notin> set cs"
  shows "\<exists>acc' frame'. rx_chunks acc frame cs
      = (replicate (length cs - 1) E2S_OK @ [E2S_ERR_HDLC_ACC_FRAME_READY], acc', frame') \<and> delivered F acc' frame'"
  using assms(2-4)
proof (induction cs arbitrary: m acc frame)
  case Nil
  then have "length F = length (take m F)"
    by simp
  then show ?case
    using Nil.prems(1) by (simp add: following_def)
next
  case (Cons c cs)
  have m: "m < length F"
    using Cons.prems(1) by (simp add: following_def)
  have "take (m + length c) (take m F @ c @ concat cs) = take m F @ c"
    using m by simp
  then have c: "take (m + length c) F = take m F @ c"
    using Cons.prems(2) by (metis concat.simps(2))
  have len: "length F = m + length c + length (concat cs)"
    using arg_cong [OF Cons.prems(2), of length] m by simp
  obtain e acc1 frame1 where poll: "hdlc_sync_acc_poll (rx_feed acc c) frame = (e, acc1, frame1)"
    by (metis prod_cases3)
  then have res: "poll_result F (m + length c) (e, acc1, frame1)"
    using poll_following [OF assms(1) Cons.prems(1) c] len by simp
  show ?case
  proof (cases cs)
    case Nil
    then show ?thesis
      using res len poll by (simp add: poll_result_def)
  next
    case (Cons d ds)
    then have "concat cs \<noteq> []"
      using Cons.prems(3) by auto
    then have "m + length c < length F"
      using len by simp
    then have "e = E2S_OK" "following F (m + length c) acc1 frame1"
      using res by (simp_all add: poll_result_def)
    moreover have "F = take (m + length c) F @ concat cs"
      using c Cons.prems(2) by simp
    ultimately obtain acc' frame' where "rx_chunks acc1 frame1 cs
        = (replicate (length cs - 1) E2S_OK @ [E2S_ERR_HDLC_ACC_FRAME_READY], acc', frame')" "delivered F acc' frame'"
      using Cons.IH Cons.prems(3) by fastforce
    then show ?thesis
      using poll \<open>e = E2S_OK\<close> Cons by simp
  qed
qed

lemma framed_hdlc_frame:
  assumes "length (hdlc_frame lsb data) \<le> HDLC_SYNC_MAX_REASONABLE_FRAME_SIZE_BYTES"
  shows "framed (hdlc_frame lsb data)"
proof -
  let ?body = "padded_bytes lsb (stuff 0 (bytes_bits lsb (with_crc data)))"
  have "HDLC_FLAG_BYTE \<notin> set ?body"
    by (rule ones_ok_no_flag [OF ones_ok_body])
  moreover have "2 \<le> length ?body"
    using length_hdlc_frame_ge [of lsb data] by (simp add: hdlc_frame_def)
  ultimately show ?thesis
    using assms by (auto simp: framed_def hdlc_frame_def)
qed

section \<open>Properties\<close>

text \<open>An accumulator that hunts from the start of its raw stream.\<close>

definition fresh :: "HDLC_SYNC_ACCUMULATOR_T \<Rightarrow> bool" where
  "fresh acc \<longleftrightarrow> acc_ok acc \<and> sa_state acc = HDLC_SYNC_STATE_HUNTING \<and> sa_processed acc = 0
     \<and> sa_sync_byte acc = HDLC_FLAG_BYTE"

text \<open>The frame arrives in chunks and is reported with the last one.\<close>

lemma link_run:
  assumes fr: "framed F"
    and acc: "fresh acc" "raw acc = c0" "length c0 \<le> 1"
    and chunks: "F = c0 @ concat (c1 # cs)" "[] \<notin> set cs" "clear_start F (length (c0 @ c1))"
    and frame: "frame_wf frame" "length F \<le> hf_capacity frame"
  shows "\<exists>acc' frame'. rx_chunks acc frame (c1 # cs)
      = (replicate (length cs) E2S_OK @ [E2S_ERR_HDLC_ACC_FRAME_READY], acc', frame') \<and> delivered F acc' frame'"
proof -
  let ?acc = "rx_feed acc c1" and ?n = "length (c0 @ c1)"
  have ok: "acc_ok acc"
    using acc(1) by (simp add: fresh_def)
  have "sa_position acc + length c1 \<le> RX_HDLC_SYNC_MAX_BUFFER_SIZE"
    using length_raw [OF ok] acc(2) arg_cong [OF chunks(1), of length] fr
    by (simp add: RX_HDLC_SYNC_MAX_BUFFER_SIZE_def framed_def HDLC_SYNC_MAX_REASONABLE_FRAME_SIZE_BYTES_def)
  note feed = rx_feed_fields [OF ok this]
  have pre: "raw ?acc = take ?n F" "F = take ?n F @ concat cs"
    using feed acc(2) chunks(1) by simp_all
  obtain e acc1 frame1 where poll: "hdlc_sync_acc_poll ?acc frame = (e, acc1, frame1)"
    by (metis prod_cases3)
  then have res: "poll_result F ?n (e, acc1, frame1)"
    using poll_start [OF fr _ _ _ pre(1) _ frame chunks(3)] feed acc(1) by (simp add: fresh_def)
  show ?thesis
  proof (cases cs)
    case Nil
    then have "length F = ?n"
      using arg_cong [OF chunks(1), of length] by simp
    then show ?thesis
      using res poll Nil by (simp add: poll_result_def)
  next
    case (Cons d ds)
    then have "concat cs \<noteq> []"
      using chunks(2) by auto
    then have "?n < length F"
      using arg_cong [OF chunks(1), of length] by simp
    then have "e = E2S_OK" "following F ?n acc1 frame1"
      using res by (simp_all add: poll_result_def)
    then show ?thesis
      using rx_chunks_following [OF fr _ pre(2) chunks(2)] poll Cons by fastforce
  qed
qed

text \<open>What was reported decodes to the payload, and accepting it empties the accumulator.\<close>

lemma delivered_decodes:
  assumes "delivered (hdlc_frame lsb data) acc frame" "length data + 2 \<le> cap" "cap \<le> length buf"
  shows "\<exists>buf'. hdlc_decode (Some frame) (Some buf) cap (Some l) lsb stats = (True, Some buf', Some (length data), stats)
      \<and> take (length data) buf' = data \<and> length buf' = length buf"
    and "fresh (hdlc_sync_acc_consume_candidate acc True)" "raw (hdlc_sync_acc_consume_candidate acc True) = []"
proof -
  let ?F = "hdlc_frame lsb data"
  from assms(1) have d: "acc_ok acc" "sa_candidate_valid acc" "raw acc = ?F" "sa_candidate_end acc = length ?F"
    "sa_sync_byte acc = HDLC_FLAG_BYTE" "frame_wf frame" "frame_bytes frame = ?F"
    by (simp_all add: delivered_def)
  note fl = frame_bytes_flagged [OF d(6) d(7) [unfolded hdlc_frame_def]]
  have "hdlc_decode_spec lsb cap (frame_body frame) = Inr data"
    using assms(2) by (simp add: fl(2) hdlc_decode_spec_frame)
  then show "\<exists>buf'. hdlc_decode (Some frame) (Some buf) cap (Some l) lsb stats = (True, Some buf', Some (length data), stats)
      \<and> take (length data) buf' = data \<and> length buf' = length buf"
    using hdlc_decode_run [OF d(6) fl(1) _ assms(3), of lsb stats l] assms(2) by (auto simp: decode_reports_def)
  show "fresh (hdlc_sync_acc_consume_candidate acc True)" "raw (hdlc_sync_acc_consume_candidate acc True) = []"
    using consume_candidate_raw [OF d(1,2), of True] d(3-5)
    by (simp_all add: fresh_def RX_HDLC_SYNC_MAX_BUFFER_SIZE_def)
qed



lemma false_lock_run:
  "(let F = hdlc_frame True [0x1F, 0x40, 0x80, 0x0F, 0x20];
        acc = (hdlc_sync_acc_init (take 6 F @ a # b # c # d # ys) 0x7E)\<lparr>sa_position := 6\<rparr>;
        (e1, acc1, frame1) = hdlc_sync_acc_poll acc (empty_frame 16);
        (ok, _) = hdlc_decode (Some frame1) (Some [0, 0, 0, 0]) 4 (Some 0) True hdlc_decode_stats_reset;
        acc2 = rx_feed (hdlc_sync_acc_consume_candidate acc1 ok) (drop 6 F);
        (e2, acc3, frame3) = hdlc_sync_acc_poll acc2 (frame1\<lparr>hf_length := 0\<rparr>)
    in (e1, frame_bytes frame1, ok, e2, raw acc3))
   = (E2S_ERR_HDLC_ACC_FRAME_READY, [0x7E, 0x00, 0x00, 0x7E], False, E2S_OK, [0x7E])"
  by code_simp


end
