(* ===== verification/Event_Loop.thy ===== *)
theory Event_Loop
  imports Event_Dispatch Hdlc_Link
begin

text \<open>
  \<open>src/system/event_loop.c\<close>: the main loop that moves datagrams from the network to the serial line
  and frames from the line to the network.  One iteration of the loop is one definition, composed of
  the functions of the source in their order.

  Two loops have no bound in the source.  \<open>drain_rx_until_empty\<close> ends when the hardware reports an
  empty FIFO; \<open>None\<close> is a FIFO that never does.  \<open>drain_hdlc_frames_to_udp\<close> is written the same way and
  shown to return always.  The watchdog and the sleep at the end of an iteration have no effect on
  the state of the model.
\<close>

section \<open>Constants and state\<close>

definition TX_QUEUE_DRAIN_CHUNK_SIZE :: nat where "TX_QUEUE_DRAIN_CHUNK_SIZE = 32"
definition TX_QUEUE_HIGH_WM :: nat where "TX_QUEUE_HIGH_WM = 48"
definition TX_QUEUE_LOW_WM :: nat where "TX_QUEUE_LOW_WM = 12"
definition EVENT_LOOP_MAX_EVENTS_AT_ONCE :: nat where "EVENT_LOOP_MAX_EVENTS_AT_ONCE = 20"
definition EVENT_LOOP_MAX_EVENTS_WHILE_TX_ACTIVE :: nat where "EVENT_LOOP_MAX_EVENTS_WHILE_TX_ACTIVE = 2"
definition HDLC_DECODE_FAIL_STREAK_LIMIT :: nat where "HDLC_DECODE_FAIL_STREAK_LIMIT = 4"
definition HDLC_SYNC_IDLE_TIMEOUT_US :: u64 where "HDLC_SYNC_IDLE_TIMEOUT_US = 20000"
definition HDLC_SYNC_NO_PROGRESS_MAX_BYTES :: u64 where "HDLC_SYNC_NO_PROGRESS_MAX_BYTES = 2048"
definition HDLC_SYNC_NO_PROGRESS_MAX_BYTES_EXTERNAL :: u64 where "HDLC_SYNC_NO_PROGRESS_MAX_BYTES_EXTERNAL = 12288"

record event_loop_runtime_t =
  el_rx_byte :: byte
  el_hdlc_decode_fail_streak :: nat
  el_last_rx_byte_us :: u64
  el_last_frame_ready_bytes :: u64
  el_hunt_idle_run_length :: u32
  el_work_done :: bool
  el_udp_rx_throttled :: bool

definition event_loop_runtime_start :: event_loop_runtime_t where
  "event_loop_runtime_start = \<lparr>el_rx_byte = 0, el_hdlc_decode_fail_streak = 0, el_last_rx_byte_us = 0,
     el_last_frame_ready_bytes = 0, el_hunt_idle_run_length = 0, el_work_done = False, el_udp_rx_throttled = False\<rparr>"

type_synonym ('h, 'w) loop_state = "event_loop_runtime_t \<times> ('h, 'w) firmware"

section \<open>Receiving\<close>

definition print_prompt :: "('h, 'w) firmware \<Rightarrow> ('h, 'w) firmware" where
  "print_prompt fw = (if ac_need_prompt (fw_app fw) then upd_app (\<lambda>app. app\<lparr>ac_need_prompt := False\<rparr>) fw else fw)"

definition event_loop_should_drop_hunt_idle_byte :: "app_ctx_t \<Rightarrow> byte \<Rightarrow> u32 \<Rightarrow> bool \<times> u32" where
  "event_loop_should_drop_hunt_idle_byte app rx_byte idle_run_length =
     (let in_external_hunting =
            (vc_external_clock (ac_v24_config app) \<and> sa_state (ac_accumulator app) = HDLC_SYNC_STATE_HUNTING)
      in if \<not> in_external_hunting then (False, 0)
         else if rx_byte = 0x00 \<or> rx_byte = 0xFF
         then (if idle_run_length \<ge> 2 then (True, idle_run_length) else (False, idle_run_length + 1))
         else (False, 0))"

text \<open>What is done with one received byte; \<open>n\<close> bytes were taken before.\<close>

definition rx_byte_step :: "byte \<Rightarrow> ('h, 'w) loop_state \<times> nat \<Rightarrow> ('h, 'w) loop_state \<times> nat" where
  "rx_byte_step b = (\<lambda>((rt, fw), n).
     let (skip, idle) = event_loop_should_drop_hunt_idle_byte (fw_app fw) b (el_hunt_idle_run_length rt);
         rt1 = rt\<lparr>el_rx_byte := b, el_work_done := True, el_hunt_idle_run_length := idle\<rparr>
     in if skip
        then ((rt1, upd_app (upd_stats (\<lambda>s. s\<lparr>st_hunt_idle_drop_bytes := st_hunt_idle_drop_bytes s + 1\<rparr>)) fw), n + 1)
        else
          let (ok, acc) = hdlc_sync_acc_process_byte (ac_accumulator (fw_app fw)) b;
              fw1 = upd_app (\<lambda>app. app\<lparr>ac_accumulator := acc\<rparr>) fw
          in ((rt1, if ok then fw1
                    else upd_app (upd_stats (\<lambda>s. s\<lparr>st_serial_rx_drop_acc_full := st_serial_rx_drop_acc_full s + 1\<rparr>)) fw1),
              n + 1))"

partial_function (option) drain_rx_until_empty ::
  "'h sdk \<Rightarrow> ('h, 'w) loop_state \<times> nat \<Rightarrow> (('h, 'w) loop_state \<times> nat) option" where
  "drain_rx_until_empty k st =
     (case rx_get k (fw_driver (snd (fst st))) of
        (None, d) \<Rightarrow> Some ((fst (fst st), (snd (fst st))\<lparr>fw_driver := d\<rparr>), snd st)
      | (Some b, d) \<Rightarrow> drain_rx_until_empty k (rx_byte_step b ((fst (fst st), (snd (fst st))\<lparr>fw_driver := d\<rparr>), snd st)))"

definition update_rx_drain_stats :: "nat \<Rightarrow> u64 \<Rightarrow> ('h, 'w) loop_state \<Rightarrow> ('h, 'w) loop_state" where
  "update_rx_drain_stats rx_drained now_us = (\<lambda>(rt, fw).
     (if rx_drained > 0 then rt\<lparr>el_last_rx_byte_us := now_us\<rparr> else rt,
      upd_app (\<lambda>app. upd_stats (\<lambda>s. s\<lparr>st_serial_rx_bytes := st_serial_rx_bytes s + of_nat rx_drained,
        st_accumulator_pos_max :=
          (if of_nat (sa_position (ac_accumulator app)) > st_accumulator_pos_max s
           then of_nat (sa_position (ac_accumulator app)) else st_accumulator_pos_max s)\<rparr>) app) fw))"

section \<open>Network to line\<close>

definition poll_and_enqueue_udp_rx :: "'w wiznet \<Rightarrow> ('h, 'w) loop_state \<Rightarrow> ('h, 'w) loop_state" where
  "poll_and_enqueue_udp_rx z = (\<lambda>(rt, fw).
     let (got, sender, frame, n) = w5500_poll_rx z (ac_sender_config (fw_app fw)) (ac_rx_frame_buffer (fw_app fw)) (fw_net fw);
         fw1 = (upd_app (\<lambda>app. app\<lparr>ac_sender_config := sender, ac_rx_frame_buffer := frame\<rparr>) fw)\<lparr>fw_net := n\<rparr>
     in if \<not> got then (rt, fw1)
        else
          let (err, q) = tx_queue_enqueue_udp_frame (ac_tx_queue (fw_app fw1)) frame;
              ok = (err = E2S_OK)
          in (if ok then rt\<lparr>el_work_done := True\<rparr> else rt,
              upd_app (\<lambda>app. app\<lparr>ac_tx_queue := q, ac_rx_frame_buffer := wipe_frame frame,
                ac_stats := (ac_stats app)\<lparr>st_udp_rx_frames := st_udp_rx_frames (ac_stats app) + 1,
                  st_hdlc_tx_frames := st_hdlc_tx_frames (ac_stats app) + (if ok then 1 else 0),
                  st_tx_queue_drop_frames := st_tx_queue_drop_frames (ac_stats app)
                    + (if err = E2S_ERR_TX_QUEUE_FULL then 1 else 0)\<rparr>\<rparr>) fw1))"

definition poll_tx_pipeline :: "'h sdk \<Rightarrow> ('h, 'w) loop_state \<Rightarrow> nat \<times> ('h, 'w) loop_state outcome" where
  "poll_tx_pipeline k = (\<lambda>(rt, fw).
     let (_, q1) = poll_queue_stats (ac_tx_queue (fw_app fw));
         (err, bytes_drained, q2, d) = tx_queue_drain k TX_QUEUE_DRAIN_CHUNK_SIZE q1 (fw_driver fw);
         rt1 = (if err = E2S_OK \<and> bytes_drained > 0 then rt\<lparr>el_work_done := True\<rparr> else rt);
         fw1 = (upd_app (\<lambda>app. app\<lparr>ac_tx_queue := q2\<rparr>) fw)\<lparr>fw_driver := d\<rparr>
     in (bytes_drained,
         if tx_queue_is_empty q2
         then (case tx_poll k d of
                 None \<Rightarrow> Stopped Undefined (rt1, fw1)
               | Some (_, d1) \<Rightarrow> Running (rt1, fw1\<lparr>fw_driver := d1\<rparr>))
         else Running (rt1, fw1)))"

definition update_udp_rx_throttle_state :: "('h, 'w) loop_state \<Rightarrow> ('h, 'w) loop_state" where
  "update_udp_rx_throttle_state = (\<lambda>(rt, fw).
     let tx_q_used = tx_queue_get_count (ac_tx_queue (fw_app fw)) in
     if \<not> el_udp_rx_throttled rt \<and> tx_q_used \<ge> TX_QUEUE_HIGH_WM
     then (rt\<lparr>el_udp_rx_throttled := True\<rparr>,
           upd_app (upd_stats (\<lambda>s. s\<lparr>st_udp_rx_throttle_enter := st_udp_rx_throttle_enter s + 1\<rparr>)) fw)
     else if el_udp_rx_throttled rt \<and> tx_q_used \<le> TX_QUEUE_LOW_WM
     then (rt\<lparr>el_udp_rx_throttled := False\<rparr>, fw)
     else (rt, fw))"

section \<open>Line to network\<close>

definition acc_restart :: "app_ctx_t \<Rightarrow> app_ctx_t" where
  "acc_restart app = app\<lparr>ac_accumulator := hdlc_sync_acc_init (sa_buffer (ac_accumulator app)) HDLC_FLAG_BYTE\<rparr>"

definition clear_reconstructed :: "app_ctx_t \<Rightarrow> app_ctx_t" where
  "clear_reconstructed app = app\<lparr>ac_reconstructed_frame := clear_hdlc_frame (ac_reconstructed_frame app)\<rparr>"

definition poll_hdlc_idle_timeout :: "u64 \<Rightarrow> ('h, 'w) loop_state \<Rightarrow> ('h, 'w) loop_state" where
  "poll_hdlc_idle_timeout now_us = (\<lambda>(rt, fw).
     let acc = ac_accumulator (fw_app fw);
         frame_in_progress = (sa_state acc \<noteq> HDLC_SYNC_STATE_HUNTING \<or> sa_position acc > 0
                              \<or> hf_length (ac_reconstructed_frame (fw_app fw)) > 0)
     in if frame_in_progress \<and> el_last_rx_byte_us rt \<noteq> 0 \<and> now_us - el_last_rx_byte_us rt > HDLC_SYNC_IDLE_TIMEOUT_US
        then (rt\<lparr>el_hdlc_decode_fail_streak := 0\<rparr>,
              upd_app (\<lambda>app. clear_reconstructed (acc_restart
                (upd_stats (\<lambda>s. s\<lparr>st_resync_idle_timeout_count := st_resync_idle_timeout_count s + 1\<rparr>) app))) fw)
        else (rt, fw))"

text \<open>The part of \<open>decode_hdlc_to_udp_tx\<close> after a successful decode.\<close>

definition decode_accepted :: "'w wiznet \<Rightarrow> ('h, 'w) loop_state \<Rightarrow> ('h, 'w) loop_state" where
  "decode_accepted z = (\<lambda>(rt, fw).
     (rt\<lparr>el_hdlc_decode_fail_streak := 0\<rparr>,
      (upd_app (\<lambda>app. (upd_stats (\<lambda>s. s\<lparr>st_hdlc_decode_ok := st_hdlc_decode_ok s + 1,
           st_udp_tx_frames := st_udp_tx_frames s + 1\<rparr>) app)
         \<lparr>ac_accumulator := hdlc_sync_acc_consume_candidate (ac_accumulator app) True\<rparr>) fw)
      \<lparr>fw_net := w5500_udp_tx z (ac_destination_config (fw_app fw)) (ac_tx_frame_buffer (fw_app fw)) (fw_net fw)\<rparr>))"

text \<open>The part after a failed decode, with the hard resynchronisation after four failures in a row.\<close>

definition decode_rejected :: "('h, 'w) loop_state \<Rightarrow> ('h, 'w) loop_state" where
  "decode_rejected = (\<lambda>(rt, fw).
     let fw1 = upd_app (\<lambda>app. (upd_stats (\<lambda>s. s\<lparr>st_hdlc_decode_fail := st_hdlc_decode_fail s + 1\<rparr>) app)
                 \<lparr>ac_accumulator := hdlc_sync_acc_consume_candidate (ac_accumulator app) False\<rparr>) fw;
         streak = (if el_hdlc_decode_fail_streak rt < 255 then el_hdlc_decode_fail_streak rt + 1
                   else el_hdlc_decode_fail_streak rt)
     in if streak \<ge> HDLC_DECODE_FAIL_STREAK_LIMIT
        then (rt\<lparr>el_hdlc_decode_fail_streak := 0\<rparr>,
              upd_app (\<lambda>app. acc_restart (upd_stats
                (\<lambda>s. s\<lparr>st_resync_hard_fail_count := st_resync_hard_fail_count s + 1\<rparr>) app)) fw1)
        else (rt\<lparr>el_hdlc_decode_fail_streak := streak\<rparr>, fw1))"

definition decode_hdlc_to_udp_tx :: "'w wiznet \<Rightarrow> ('h, 'w) loop_state \<Rightarrow> ('h, 'w) loop_state" where
  "decode_hdlc_to_udp_tx z = (\<lambda>(rt, fw).
     let fw1 = upd_app (upd_stats (\<lambda>s. s\<lparr>st_hdlc_frame_ready := st_hdlc_frame_ready s + 1\<rparr>)) fw;
         rt1 = rt\<lparr>el_work_done := True, el_last_frame_ready_bytes := st_serial_rx_bytes (ac_stats (fw_app fw1))\<rparr>;
         (ok, buf, len, stats) = hdlc_decode (Some (ac_reconstructed_frame (fw_app fw1)))
            (Some (uf_payload (ac_tx_frame_buffer (fw_app fw1)))) TX_BUF_SIZE (Some 0) True (fw_decode_stats fw1);
         fw2 = (upd_app (\<lambda>app. app\<lparr>ac_tx_frame_buffer := \<lparr>uf_payload = the buf, uf_length = the len\<rparr>\<rparr>) fw1)
                 \<lparr>fw_decode_stats := stats\<rparr>;
         (rt3, fw3) = (if ok then decode_accepted z (rt1, fw2) else decode_rejected (rt1, fw2))
     in (rt3, upd_app clear_reconstructed fw3))"

definition poll_accumulator :: "('h, 'w) firmware \<Rightarrow> e2s_error_t \<times> ('h, 'w) firmware" where
  "poll_accumulator fw =
     (let (res, acc, frame) = hdlc_sync_acc_poll (ac_accumulator (fw_app fw)) (ac_reconstructed_frame (fw_app fw))
      in (res, upd_app (\<lambda>app. app\<lparr>ac_accumulator := acc, ac_reconstructed_frame := frame\<rparr>) fw))"

partial_function (option) drain_hdlc_frames_to_udp ::
  "'w wiznet \<Rightarrow> ('h, 'w) loop_state \<Rightarrow> ('h, 'w) loop_state option" where
  "drain_hdlc_frames_to_udp z st =
     (let (acc_result, fw1) = poll_accumulator (snd st) in
      if acc_result = E2S_ERR_HDLC_ACC_FRAME_READY
      then drain_hdlc_frames_to_udp z (decode_hdlc_to_udp_tx z (fst st, fw1))
      else if acc_result \<noteq> E2S_OK
      then Some (fst st, upd_app (\<lambda>app. acc_restart
             (app\<lparr>ac_reconstructed_frame := (ac_reconstructed_frame app)\<lparr>hf_length := 0\<rparr>\<rparr>)) fw1)
      else Some (fst st, fw1))"

definition poll_hdlc_no_progress :: "'h sdk \<Rightarrow> ('h, 'w) loop_state \<Rightarrow> ('h, 'w) loop_state" where
  "poll_hdlc_no_progress k = (\<lambda>(rt, fw).
     let acc = ac_accumulator (fw_app fw); rx_bytes = st_serial_rx_bytes (ac_stats (fw_app fw));
         decode_in_progress = (sa_state acc \<noteq> HDLC_SYNC_STATE_HUNTING \<or> sa_candidate_valid acc
                               \<or> hf_length (ac_reconstructed_frame (fw_app fw)) > 0);
         rt1 = (if \<not> decode_in_progress then rt\<lparr>el_last_frame_ready_bytes := rx_bytes\<rparr> else rt);
         have_decode_lock = (st_hdlc_decode_ok (ac_stats (fw_app fw)) > 0);
         no_progress_max_bytes = (if vc_external_clock (ac_v24_config (fw_app fw))
                                  then HDLC_SYNC_NO_PROGRESS_MAX_BYTES_EXTERNAL else HDLC_SYNC_NO_PROGRESS_MAX_BYTES)
     in if have_decode_lock \<and> decode_in_progress \<and> rx_bytes > el_last_frame_ready_bytes rt1
           \<and> rx_bytes - el_last_frame_ready_bytes rt1 > no_progress_max_bytes
        then (rt1\<lparr>el_hdlc_decode_fail_streak := 0, el_last_frame_ready_bytes := rx_bytes\<rparr>,
              (upd_app (\<lambda>app. clear_reconstructed (acc_restart (upd_stats
                 (\<lambda>s. s\<lparr>st_resync_no_progress_count := st_resync_no_progress_count s + 1\<rparr>) app))) fw)
              \<lparr>fw_driver := rx_clock_hard_reset k (fw_driver fw)\<rparr>)
        else (rt1, fw))"

section \<open>Bookkeeping and events\<close>

definition umax :: "u64 \<Rightarrow> nat \<Rightarrow> u64" where
  "umax m n = (if of_nat n > m then of_nat n else m)"

definition update_statistics :: "('h, 'w) firmware \<Rightarrow> ('h, 'w) firmware" where
  "update_statistics fw =
     (let acc = ac_accumulator (fw_app fw); dec = fw_decode_stats fw;
          (dropped, log) = log_take_dropped_count (fw_log fw)
      in (upd_app (upd_stats (\<lambda>s. s\<lparr>
           st_sync_lookahead_wait_syncing := ucast (sa_lookahead_wait_syncing acc),
           st_sync_lookahead_wait_synced := ucast (sa_lookahead_wait_synced acc),
           st_sync_candidate_consume := ucast (sa_consume_count acc),
           st_sync_hardcap_drop_events := ucast (sa_hardcap_drop_events acc),
           st_sync_hardcap_drop_bytes := ucast (sa_hardcap_drop_bytes acc),
           st_decode_fail_invalid_frame := invalid_frame dec,
           st_decode_fail_too_short := too_short dec,
           st_decode_fail_payload_too_long := payload_too_long dec,
           st_decode_fail_unstuff_error := unstuff_error dec,
           st_decode_fail_crc_mismatch := crc_mismatch dec,
           st_tx_queue_used_max := umax (st_tx_queue_used_max s) (tx_queue_get_count (ac_tx_queue (fw_app fw))),
           st_event_queue_used_max := umax (umax (st_event_queue_used_max s) (event_queue_get_count (fw_events fw)))
             (event_queue_get_high_water_mark (fw_events fw)),
           st_event_queue_drop_events := ucast (event_queue_get_push_drop_count (fw_events fw)),
           st_log_drop_lines := st_log_drop_lines s + ucast dropped,
           st_log_queue_used_max := ucast (log_get_high_water_mark log)\<rparr>)) fw)\<lparr>fw_log := log\<rparr>)"

fun dispatch_loop :: "'h sdk \<Rightarrow> 'w wiznet \<Rightarrow> nat \<Rightarrow> ('h, 'w) firmware \<Rightarrow> ('h, 'w) firmware outcome" where
  "dispatch_loop k z 0 fw = Running fw"
| "dispatch_loop k z (Suc n) fw =
     (case event_queue_pop (fw_events fw) of
        (None, q) \<Rightarrow> Running (fw\<lparr>fw_events := q\<rparr>)
      | (Some event, q) \<Rightarrow> proceed (event_dispatch k z event (fw\<lparr>fw_events := q\<rparr>)) (dispatch_loop k z n))"

definition poll_and_dispatch_events :: "'h sdk \<Rightarrow> 'w wiznet \<Rightarrow> ('h, 'w) firmware \<Rightarrow> ('h, 'w) firmware outcome" where
  "poll_and_dispatch_events k z fw =
     (let tx_active = (\<not> tx_queue_is_empty (ac_tx_queue (fw_app fw)))
      in dispatch_loop k z (if tx_active then EVENT_LOOP_MAX_EVENTS_WHILE_TX_ACTIVE else EVENT_LOOP_MAX_EVENTS_AT_ONCE) fw)"

section \<open>One iteration\<close>

definition loop_cli_poll :: "'h sdk \<Rightarrow> ('h, 'w) firmware \<Rightarrow> ('h, 'w) firmware" where
  "loop_cli_poll k fw =
     (let ((cli, events), d) = cli_poll k ((fw_cli fw, fw_events fw), fw_driver fw)
      in fw\<lparr>fw_cli := cli, fw_events := events, fw_driver := d\<rparr>)"

text \<open>Draining the receiver, then reading the clock for the statistics.\<close>

definition loop_drain_rx :: "'h sdk \<Rightarrow> ('h, 'w) loop_state \<Rightarrow> (u64 \<times> ('h, 'w) loop_state) option" where
  "loop_drain_rx k st =
     (case drain_rx_until_empty k (st, 0) of
        None \<Rightarrow> None
      | Some ((rt, fw), n) \<Rightarrow>
          let (now_us, d) = hw_ask k To_us_since_boot (fw_driver fw)
          in Some (now_us, update_rx_drain_stats n now_us (rt, fw\<lparr>fw_driver := d\<rparr>)))"

definition loop_buffer_stats :: "'w wiznet \<Rightarrow> ('h, 'w) firmware \<Rightarrow> ('h, 'w) firmware" where
  "loop_buffer_stats z fw =
     (let (rx_full, tx_full, n) = w5500_poll_udp_buffer_full_events z (fw_net fw)
      in (upd_app (upd_stats (\<lambda>s. s\<lparr>st_udp_rx_buffer_full_counts := rx_full, st_udp_tx_buffer_full_counts := tx_full\<rparr>)) fw)
         \<lparr>fw_net := n\<rparr>)"

definition loop_udp_rx :: "'w wiznet \<Rightarrow> ('h, 'w) loop_state \<Rightarrow> ('h, 'w) loop_state" where
  "loop_udp_rx z st =
     (let (rt, fw) = update_udp_rx_throttle_state st
      in if \<not> el_udp_rx_throttled rt then poll_and_enqueue_udp_rx z (rt, fw)
         else (rt, upd_app (upd_stats (\<lambda>s. s\<lparr>st_udp_rx_throttle_skips := st_udp_rx_throttle_skips s + 1\<rparr>)) fw))"

definition loop_stall_stats :: "'h sdk \<Rightarrow> ('h, 'w) firmware \<Rightarrow> ('h, 'w) firmware" where
  "loop_stall_stats k fw =
     (let (stalled, d) = rx_clock_poll_stall k (fw_driver fw)
      in (if stalled then upd_app (upd_stats (\<lambda>s. s\<lparr>st_rx_fifo_stall_events := st_rx_fifo_stall_events s + 1\<rparr>)) fw
          else fw)\<lparr>fw_driver := d\<rparr>)"

definition loop_prompt :: "('h, 'w) firmware \<Rightarrow> ('h, 'w) firmware" where
  "loop_prompt fw =
     (let (emitted, log) = log_take_emitted_flag (fw_log fw); fw1 = fw\<lparr>fw_log := log\<rparr>
      in print_prompt (if emitted then upd_app (\<lambda>app. app\<lparr>ac_need_prompt := True\<rparr>) fw1 else fw1))"

text \<open>From the second draining of the receiver to the end of the decoding.\<close>

definition loop_line_to_network ::
  "'h sdk \<Rightarrow> 'w wiznet \<Rightarrow> ('h, 'w) loop_state \<Rightarrow> ('h, 'w) loop_state option" where
  "loop_line_to_network k z st =
     (case loop_drain_rx k st of
        None \<Rightarrow> None
      | Some (now_us, st1) \<Rightarrow>
          map_option (poll_hdlc_no_progress k)
            (drain_hdlc_frames_to_udp z (poll_hdlc_idle_timeout now_us st1)))"

fun keep_runtime :: "event_loop_runtime_t \<Rightarrow> ('h, 'w) firmware outcome \<Rightarrow> ('h, 'w) loop_state outcome" where
  "keep_runtime rt (Running fw) = Running (rt, fw)"
| "keep_runtime rt (Stopped why fw) = Stopped why (rt, fw)"

text \<open>The end of an iteration: statistics, events, prompt, and the flag for the sleep.\<close>

definition loop_housekeeping :: "'h sdk \<Rightarrow> 'w wiznet \<Rightarrow> ('h, 'w) loop_state \<Rightarrow> ('h, 'w) loop_state outcome" where
  "loop_housekeeping k z = (\<lambda>(rt, fw).
     proceed (keep_runtime rt (poll_and_dispatch_events k z (loop_stall_stats k (update_statistics fw))))
       (\<lambda>(rt1, fw1). Running (rt1\<lparr>el_work_done := False\<rparr>, loop_prompt fw1)))"

definition event_loop_iteration ::
  "'h sdk \<Rightarrow> 'w wiznet \<Rightarrow> ('h, 'w) loop_state \<Rightarrow> ('h, 'w) loop_state outcome option" where
  "event_loop_iteration k z = (\<lambda>(rt, fw).
     case loop_drain_rx k (rt, loop_cli_poll k fw) of
       None \<Rightarrow> None
     | Some (_, rt1, fw1) \<Rightarrow>
         (case snd (poll_tx_pipeline k (rt1, loop_buffer_stats z fw1)) of
            Stopped why st2 \<Rightarrow> Some (Stopped why st2)
          | Running st2 \<Rightarrow>
              (case loop_line_to_network k z (loop_udp_rx z st2) of
                 None \<Rightarrow> None
               | Some st3 \<Rightarrow> Some (loop_housekeeping k z st3))))"

text \<open>The loop, a given number of times; \<open>main\<close> enters it with a fresh runtime.\<close>

fun event_loop :: "'h sdk \<Rightarrow> 'w wiznet \<Rightarrow> nat \<Rightarrow> ('h, 'w) loop_state \<Rightarrow> ('h, 'w) loop_state outcome option" where
  "event_loop k z 0 st = Some (Running st)"
| "event_loop k z (Suc n) st =
     (case event_loop_iteration k z st of
        Some (Running st1) \<Rightarrow> event_loop k z n st1
      | r \<Rightarrow> r)"

end
