(* ===== verification/Unbounded_Loops.thy ===== *)
theory Unbounded_Loops
  imports Event_Loop
begin

text \<open>
  The two loops of \<open>event_loop.c\<close> that have no bound, as steps that go on or end.  What a step keeps, the loop keeps; what a step
  commutes with, the loop commutes with.
\<close>

section \<open>Loops as steps\<close>

text \<open>A loop as a step that goes on (\<open>Inl\<close>) or ends with a result (\<open>Inr\<close>), and the results it can end with.\<close>

inductive settles :: "('s \<Rightarrow> 's + 'r) \<Rightarrow> 's \<Rightarrow> 'r \<Rightarrow> bool" for step where
  settles_stop: "step s = Inr r \<Longrightarrow> settles step s r"
| settles_go: "step s = Inl s' \<Longrightarrow> settles step s' r \<Longrightarrow> settles step s r"

inductive_cases settlesE: "settles step s r"

lemma settles_map:
  assumes "\<And>s. step (f s) = map_sum f g (step s)"
  shows "settles step (f s) r' \<longleftrightarrow> (\<exists>r. settles step s r \<and> r' = g r)"
proof
  have "settles step t r' \<Longrightarrow> t = f s \<Longrightarrow> \<exists>r. settles step s r \<and> r' = g r" for t s
  proof (induction arbitrary: s rule: settles.induct)
    case (settles_stop t r)
    then show ?case
      using assms [of s] by (cases "step s") (auto intro!: exI settles.settles_stop)
  next
    case (settles_go t t' r)
    then show ?case
      using assms [of s] settles.settles_go by (cases "step s") fastforce+
  qed
  then show "settles step (f s) r' \<Longrightarrow> \<exists>r. settles step s r \<and> r' = g r"
    by blast
next
  have "settles step s r \<Longrightarrow> settles step (f s) (g r)" for r
    by (induction rule: settles.induct) (use assms in \<open>auto intro: settles.intros\<close>)
  then show "\<exists>r. settles step s r \<and> r' = g r \<Longrightarrow> settles step (f s) r'"
    by blast
qed

lemma settles_option:
  assumes "\<And>s r. loop s = Some r \<longleftrightarrow> settles step s r" "\<And>s. step (f s) = map_sum f g (step s)"
  shows "loop (f s) = map_option g (loop s)"
proof (cases "loop s")
  case None
  then have "\<not> settles step (f s) r" for r
    using assms(1) [of s] settles_map [of step f g s r, OF assms(2)] by simp
  then show ?thesis
    using None assms(1) [of "f s"] by (cases "loop (f s)") auto
next
  case (Some r)
  then show ?thesis
    using assms(1) settles_map [of step f g, OF assms(2)] by fastforce
qed

text \<open>What holds between the ends of every step holds between the ends of the loop.\<close>

lemma settles_invar:
  assumes "settles step s r" "\<And>s r. step s = Inr r \<Longrightarrow> R s r" "\<And>s s' r. step s = Inl s' \<Longrightarrow> R s' r \<Longrightarrow> R s r"
  shows "R s r"
  using assms(1) by (induction rule: settles.induct) (use assms(2,3) in blast)+

section \<open>Emptying the receiver\<close>

definition drain_rx_step :: "'h sdk \<Rightarrow> ('h, 'w) loop_state \<times> nat \<Rightarrow> (('h, 'w) loop_state \<times> nat) + (('h, 'w) loop_state \<times> nat)" where
  "drain_rx_step k s =
     (case rx_get k (fw_driver (snd (fst s))) of
        (None, d) \<Rightarrow> Inr ((fst (fst s), (snd (fst s))\<lparr>fw_driver := d\<rparr>), snd s)
      | (Some b, d) \<Rightarrow> Inl (rx_byte_step b ((fst (fst s), (snd (fst s))\<lparr>fw_driver := d\<rparr>), snd s)))"

lemma drain_rx_settles: "drain_rx_until_empty k s = Some t \<longleftrightarrow> settles (drain_rx_step k) s t"
proof
  assume "drain_rx_until_empty k s = Some t"
  then show "settles (drain_rx_step k) s t"
  proof (rule drain_rx_until_empty.raw_induct [rotated])
    fix f and k :: "'a sdk" and s t :: "('a, 'b) loop_state \<times> nat"
    assume IH: "\<And>k s t. f k s = Some t \<Longrightarrow> settles (drain_rx_step k) s t"
      and body: "(case rx_get k (fw_driver (snd (fst s))) of
        (None, d) \<Rightarrow> Some ((fst (fst s), (snd (fst s))\<lparr>fw_driver := d\<rparr>), snd s)
      | (Some b, d) \<Rightarrow> f k (rx_byte_step b ((fst (fst s), (snd (fst s))\<lparr>fw_driver := d\<rparr>), snd s))) = Some t"
    obtain got d where get: "rx_get k (fw_driver (snd (fst s))) = (got, d)"
      by fastforce
    show "settles (drain_rx_step k) s t"
    proof (cases got)
      case None
      then show ?thesis
        using body get by (intro settles_stop) (simp add: drain_rx_step_def)
    next
      case (Some b)
      then have "drain_rx_step k s = Inl (rx_byte_step b ((fst (fst s), (snd (fst s))\<lparr>fw_driver := d\<rparr>), snd s))"
        using get by (simp add: drain_rx_step_def)
      then show ?thesis
        using body get Some IH by (intro settles_go [of "drain_rx_step k" s]) simp_all
    qed
  qed
next
  assume "settles (drain_rx_step k) s t"
  then show "drain_rx_until_empty k s = Some t"
    by (induction rule: settles.induct)
      (subst drain_rx_until_empty.simps, auto simp: drain_rx_step_def split: prod.splits option.splits)+
qed

lemma drain_rx_invar:
  assumes "drain_rx_until_empty k st = Some st'"
    and stop: "\<And>rt fw n d. rx_get k (fw_driver fw) = (None, d) \<Longrightarrow> R ((rt, fw), n) ((rt, fw\<lparr>fw_driver := d\<rparr>), n)"
    and go: "\<And>rt fw n b d r. rx_get k (fw_driver fw) = (Some b, d) \<Longrightarrow> R (rx_byte_step b ((rt, fw\<lparr>fw_driver := d\<rparr>), n)) r \<Longrightarrow> R ((rt, fw), n) r"
  shows "R st st'"
proof (rule settles_invar [OF drain_rx_settles [THEN iffD1, OF assms(1)]])
  show "R s r" if "drain_rx_step k s = Inr r" for s r
    using that stop by (cases s; cases "fst s") (auto simp: drain_rx_step_def split: prod.splits option.splits)
  show "R s r" if "drain_rx_step k s = Inl s'" "R s' r" for s s' r
    using that go by (cases s; cases "fst s") (auto simp: drain_rx_step_def split: prod.splits option.splits)
qed

section \<open>Extracting frames\<close>

definition drain_frames_step :: "'w wiznet \<Rightarrow> ('h, 'w) loop_state \<Rightarrow> ('h, 'w) loop_state + ('h, 'w) loop_state" where
  "drain_frames_step z st =
     (let (acc_result, fw1) = poll_accumulator (snd st) in
      if acc_result = E2S_ERR_HDLC_ACC_FRAME_READY then Inl (decode_hdlc_to_udp_tx z (fst st, fw1))
      else if acc_result \<noteq> E2S_OK
      then Inr (fst st, upd_app (\<lambda>app. acc_restart
             (app\<lparr>ac_reconstructed_frame := (ac_reconstructed_frame app)\<lparr>hf_length := 0\<rparr>\<rparr>)) fw1)
      else Inr (fst st, fw1))"

lemma drain_frames_settles: "drain_hdlc_frames_to_udp z s = Some t \<longleftrightarrow> settles (drain_frames_step z) s t"
proof
  assume "drain_hdlc_frames_to_udp z s = Some t"
  then show "settles (drain_frames_step z) s t"
  proof (rule drain_hdlc_frames_to_udp.raw_induct [rotated])
    fix f and z :: "'b wiznet" and s t :: "('a, 'b) loop_state"
    assume IH: "\<And>z s t. f z s = Some t \<Longrightarrow> settles (drain_frames_step z) s t"
      and body: "(let (acc_result, fw1) = poll_accumulator (snd s) in
        if acc_result = E2S_ERR_HDLC_ACC_FRAME_READY then f z (decode_hdlc_to_udp_tx z (fst s, fw1))
        else if acc_result \<noteq> E2S_OK
        then Some (fst s, upd_app (\<lambda>app. acc_restart
               (app\<lparr>ac_reconstructed_frame := (ac_reconstructed_frame app)\<lparr>hf_length := 0\<rparr>\<rparr>)) fw1)
        else Some (fst s, fw1)) = Some t"
    obtain e fw1 where poll: "poll_accumulator (snd s) = (e, fw1)"
      by fastforce
    show "settles (drain_frames_step z) s t"
    proof (cases "e = E2S_ERR_HDLC_ACC_FRAME_READY")
      case True
      then have "drain_frames_step z s = Inl (decode_hdlc_to_udp_tx z (fst s, fw1))"
        using poll by (simp add: drain_frames_step_def)
      then show ?thesis
        using body poll True IH by (intro settles_go [of "drain_frames_step z" s]) simp_all
    next
      case False
      then show ?thesis
        using body poll by (intro settles_stop) (auto simp: drain_frames_step_def split: if_splits)
    qed
  qed
next
  assume "settles (drain_frames_step z) s t"
  then show "drain_hdlc_frames_to_udp z s = Some t"
    by (induction rule: settles.induct)
      (subst drain_hdlc_frames_to_udp.simps, auto simp: drain_frames_step_def split: prod.splits if_splits)+
qed

lemma drain_frames_invar:
  assumes "drain_hdlc_frames_to_udp z st = Some st'"
    and stop: "\<And>rt fw e fw1. poll_accumulator fw = (e, fw1) \<Longrightarrow> e \<noteq> E2S_ERR_HDLC_ACC_FRAME_READY \<Longrightarrow>
      R (rt, fw) (rt, if e \<noteq> E2S_OK then upd_app (\<lambda>app. acc_restart
        (app\<lparr>ac_reconstructed_frame := (ac_reconstructed_frame app)\<lparr>hf_length := 0\<rparr>\<rparr>)) fw1 else fw1)"
    and go: "\<And>rt fw fw1 r. poll_accumulator fw = (E2S_ERR_HDLC_ACC_FRAME_READY, fw1) \<Longrightarrow> R (decode_hdlc_to_udp_tx z (rt, fw1)) r \<Longrightarrow> R (rt, fw) r"
  shows "R st st'"
proof (rule settles_invar [OF drain_frames_settles [THEN iffD1, OF assms(1)]])
  show "R s r" if "drain_frames_step z s = Inr r" for s r
    using that stop [of "snd s" _ _ "fst s"] by (auto simp: drain_frames_step_def split: prod.splits if_splits)
  show "R s r" if "drain_frames_step z s = Inl s'" "R s' r" for s s' r
    using that go [of "snd s" _ "fst s"] by (auto simp: drain_frames_step_def split: prod.splits if_splits)
qed

end
