(* ===== verification/Log_Independence.thy ===== *)
theory Log_Independence
  imports Unbounded_Loops
begin

text \<open>
  Log output does not interfere.  The models of the handlers leave out what they log.  This theory shows that nothing
  depends on it: the lines written from any place, and the second core that takes them out, change the log state,
  two counters of the statistics and the prompt, and nothing else.  The functions of \<open>cli_commands.c\<close>, \<open>event_dispatch.c\<close> and
  \<open>event_loop.c\<close> commute with forgetting the log, except the two that read it: \<open>update_statistics\<close> and the prompt.
\<close>

section \<open>Forgetting the log\<close>

text \<open>Everything of the log state but the level, and the two counters copied from it.\<close>

definition unlogged_app :: "app_ctx_t \<Rightarrow> app_ctx_t" where
  "unlogged_app = upd_stats (\<lambda>s. s\<lparr>st_log_drop_lines := 0, st_log_queue_used_max := 0\<rparr>)"

definition unlogged :: "('h, 'w) firmware \<Rightarrow> ('h, 'w) firmware" where
  "unlogged fw = fw\<lparr>fw_app := unlogged_app (fw_app fw), fw_log := set_loglevel (get_loglevel (fw_log fw)) global_logstate\<rparr>"

named_theorems hush

lemma unlogged_idem [simp]: "unlogged (unlogged fw) = unlogged fw"
  by (simp add: unlogged_def unlogged_app_def upd_stats_def set_loglevel_def get_loglevel_def)

lemma unlogged_select [simp]:
  "fw_driver (unlogged fw) = fw_driver fw" "fw_net (unlogged fw) = fw_net fw" "fw_events (unlogged fw) = fw_events fw"
  "fw_flash (unlogged fw) = fw_flash fw" "fw_decode_stats (unlogged fw) = fw_decode_stats fw" "fw_cli (unlogged fw) = fw_cli fw"
  "fw_status (unlogged fw) = fw_status fw" "fw_baud (unlogged fw) = fw_baud fw"
  "fw_app (unlogged fw) = unlogged_app (fw_app fw)" "get_loglevel (fw_log (unlogged fw)) = get_loglevel (fw_log fw)"
  by (simp_all add: unlogged_def get_loglevel_def set_loglevel_def)

lemma unlogged_app_select [simp]:
  "ac_persistent_config (unlogged_app app) = ac_persistent_config app" "ac_config_valid (unlogged_app app) = ac_config_valid app"
  "ac_need_prompt (unlogged_app app) = ac_need_prompt app" "ac_local_config (unlogged_app app) = ac_local_config app"
  "ac_destination_config (unlogged_app app) = ac_destination_config app" "ac_sender_config (unlogged_app app) = ac_sender_config app"
  "ac_net_config (unlogged_app app) = ac_net_config app" "ac_v24_config (unlogged_app app) = ac_v24_config app"
  "ac_rx_frame_buffer (unlogged_app app) = ac_rx_frame_buffer app" "ac_tx_frame_buffer (unlogged_app app) = ac_tx_frame_buffer app"
  "ac_reconstructed_frame (unlogged_app app) = ac_reconstructed_frame app" "ac_accumulator (unlogged_app app) = ac_accumulator app"
  "ac_tx_queue (unlogged_app app) = ac_tx_queue app"
  by (simp_all add: unlogged_app_def upd_stats_def)

lemma unlogged_update [hush]:
  "(unlogged fw)\<lparr>fw_driver := d\<rparr> = unlogged (fw\<lparr>fw_driver := d\<rparr>)" "(unlogged fw)\<lparr>fw_net := n\<rparr> = unlogged (fw\<lparr>fw_net := n\<rparr>)"
  "(unlogged fw)\<lparr>fw_events := q\<rparr> = unlogged (fw\<lparr>fw_events := q\<rparr>)" "(unlogged fw)\<lparr>fw_flash := fl\<rparr> = unlogged (fw\<lparr>fw_flash := fl\<rparr>)"
  "(unlogged fw)\<lparr>fw_decode_stats := s\<rparr> = unlogged (fw\<lparr>fw_decode_stats := s\<rparr>)" "(unlogged fw)\<lparr>fw_cli := c\<rparr> = unlogged (fw\<lparr>fw_cli := c\<rparr>)"
  "(unlogged fw)\<lparr>fw_status := b\<rparr> = unlogged (fw\<lparr>fw_status := b\<rparr>)" "(unlogged fw)\<lparr>fw_baud := m\<rparr> = unlogged (fw\<lparr>fw_baud := m\<rparr>)"
  by (simp_all add: unlogged_def)

lemma unlogged_app_update [hush]:
  "(unlogged_app app)\<lparr>ac_persistent_config := v0\<rparr> = unlogged_app (app\<lparr>ac_persistent_config := v0\<rparr>)" "(unlogged_app app)\<lparr>ac_config_valid := v1\<rparr> = unlogged_app (app\<lparr>ac_config_valid := v1\<rparr>)"
  "(unlogged_app app)\<lparr>ac_need_prompt := v2\<rparr> = unlogged_app (app\<lparr>ac_need_prompt := v2\<rparr>)" "(unlogged_app app)\<lparr>ac_local_config := v3\<rparr> = unlogged_app (app\<lparr>ac_local_config := v3\<rparr>)"
  "(unlogged_app app)\<lparr>ac_destination_config := v4\<rparr> = unlogged_app (app\<lparr>ac_destination_config := v4\<rparr>)" "(unlogged_app app)\<lparr>ac_sender_config := v5\<rparr> = unlogged_app (app\<lparr>ac_sender_config := v5\<rparr>)"
  "(unlogged_app app)\<lparr>ac_net_config := v6\<rparr> = unlogged_app (app\<lparr>ac_net_config := v6\<rparr>)" "(unlogged_app app)\<lparr>ac_v24_config := v7\<rparr> = unlogged_app (app\<lparr>ac_v24_config := v7\<rparr>)"
  "(unlogged_app app)\<lparr>ac_rx_frame_buffer := v8\<rparr> = unlogged_app (app\<lparr>ac_rx_frame_buffer := v8\<rparr>)" "(unlogged_app app)\<lparr>ac_tx_frame_buffer := v9\<rparr> = unlogged_app (app\<lparr>ac_tx_frame_buffer := v9\<rparr>)"
  "(unlogged_app app)\<lparr>ac_reconstructed_frame := v10\<rparr> = unlogged_app (app\<lparr>ac_reconstructed_frame := v10\<rparr>)" "(unlogged_app app)\<lparr>ac_accumulator := v11\<rparr> = unlogged_app (app\<lparr>ac_accumulator := v11\<rparr>)"
  "(unlogged_app app)\<lparr>ac_tx_queue := v12\<rparr> = unlogged_app (app\<lparr>ac_tx_queue := v12\<rparr>)"
  by (simp_all add: unlogged_app_def upd_stats_def)

lemma unlogged_upd_stats:
  assumes "\<And>s a b. f (s\<lparr>st_log_drop_lines := a, st_log_queue_used_max := b\<rparr>) = (f s)\<lparr>st_log_drop_lines := a, st_log_queue_used_max := b\<rparr>"
  shows "upd_stats f (unlogged_app app) = unlogged_app (upd_stats f app)"
  using assms by (simp add: unlogged_app_def upd_stats_def)

text \<open>A change of the application context that leaves the two counters alone.\<close>

lemma unlogged_upd_app:
  assumes "unlogged_app (f (fw_app fw)) = f (unlogged_app (fw_app fw))"
  shows "upd_app f (unlogged fw) = unlogged (upd_app f fw)"
  using assms by (simp add: unlogged_def upd_app_def)

lemmas hush_defs = unlogged_app_def upd_stats_def

section \<open>Commands\<close>

lemma hush_push [hush]: "push_event e (unlogged fw) = unlogged (push_event e fw)"
  by (simp add: push_event_def hush)

lemma hush_v24 [hush]:
  "subcmd_set_v24_inverted k z args (unlogged fw) = unlogged (subcmd_set_v24_inverted k z args fw)"
  "subcmd_get_v24_inverted k z args (unlogged fw) = unlogged (subcmd_get_v24_inverted k z args fw)"
  "subcmd_set_v24_clockmode k z args (unlogged fw) = unlogged (subcmd_set_v24_clockmode k z args fw)"
  "subcmd_get_v24_clockmode k z args (unlogged fw) = unlogged (subcmd_get_v24_clockmode k z args fw)"
  "subcmd_set_v24_baudrate k z args (unlogged fw) = unlogged (subcmd_set_v24_baudrate k z args fw)"
  "subcmd_get_v24_baudrate k z args (unlogged fw) = unlogged (subcmd_get_v24_baudrate k z args fw)"
  by (simp_all add: subcmd_set_v24_inverted_def subcmd_get_v24_inverted_def subcmd_set_v24_clockmode_def
      subcmd_get_v24_clockmode_def subcmd_set_v24_baudrate_def subcmd_get_v24_baudrate_def dispatch_defs hush
      split: prod.split sum.split)

lemma hush_net [hush]:
  "subcmd_set_ip_local k z args (unlogged fw) = unlogged (subcmd_set_ip_local k z args fw)"
  "subcmd_get_ip_local k z args (unlogged fw) = unlogged (subcmd_get_ip_local k z args fw)"
  "subcmd_set_ip_remote k z args (unlogged fw) = unlogged (subcmd_set_ip_remote k z args fw)"
  "subcmd_get_ip_remote k z args (unlogged fw) = unlogged (subcmd_get_ip_remote k z args fw)"
  "subcmd_set_ip_gateway k z args (unlogged fw) = unlogged (subcmd_set_ip_gateway k z args fw)"
  "subcmd_get_ip_gateway k z args (unlogged fw) = unlogged (subcmd_get_ip_gateway k z args fw)"
  "subcmd_set_udp_port_local k z args (unlogged fw) = unlogged (subcmd_set_udp_port_local k z args fw)"
  "subcmd_get_udp_port_local k z args (unlogged fw) = unlogged (subcmd_get_udp_port_local k z args fw)"
  "subcmd_set_udp_port_remote k z args (unlogged fw) = unlogged (subcmd_set_udp_port_remote k z args fw)"
  "subcmd_get_udp_port_remote k z args (unlogged fw) = unlogged (subcmd_get_udp_port_remote k z args fw)"
  by (simp_all add: subcmd_set_ip_local_def subcmd_get_ip_local_def subcmd_set_ip_remote_def subcmd_get_ip_remote_def
      subcmd_set_ip_gateway_def subcmd_get_ip_gateway_def subcmd_set_udp_port_local_def subcmd_get_udp_port_local_def
      subcmd_set_udp_port_remote_def subcmd_get_udp_port_remote_def dispatch_defs hush
      split: prod.split sum.split)

lemma hush_pins [hush]:
  "cat_gpio_set k z args (unlogged fw) = unlogged (cat_gpio_set k z args fw)"
  "cat_gpio_get k z args (unlogged fw) = unlogged (cat_gpio_get k z args fw)"
  "cmd_pininfo k z args (unlogged fw) = unlogged (cmd_pininfo k z args fw)"
  by (auto simp: cat_gpio_set_def cat_gpio_get_def cmd_pininfo_def Let_def split_beta hush
      split: prod.split sum.split option.split)

lemma hush_table:
  assumes "\<And>name h args. (name, h) \<in> set entries \<Longrightarrow> h k z args (unlogged fw) = unlogged (h k z args fw)"
  shows "run_table at_end entries k z args (unlogged fw) = unlogged (run_table at_end entries k z args fw)"
  using assms by (auto simp: run_table_def split: option.split dest: table_lookup_mem)

lemma hush_categories [hush]:
  "cat_v24_set k z args (unlogged fw) = unlogged (cat_v24_set k z args fw)"
  "cat_v24_get k z args (unlogged fw) = unlogged (cat_v24_get k z args fw)"
  "cat_net_set k z args (unlogged fw) = unlogged (cat_net_set k z args fw)"
  "cat_net_get k z args (unlogged fw) = unlogged (cat_net_get k z args fw)"
  unfolding cat_v24_set_def cat_v24_get_def cat_net_set_def cat_net_get_def
  by (rule hush_table;
      auto simp: v24_subcmds_set_def v24_subcmds_get_def net_subcmds_set_def net_subcmds_get_def hush)+

lemma hush_loglevel [hush]:
  "cat_loglevel_set k z args (unlogged fw) = unlogged (cat_loglevel_set k z args fw)"
  "cat_loglevel_get k z args (unlogged fw) = unlogged (cat_loglevel_get k z args fw)"
  by (simp_all add: cat_loglevel_set_def cat_loglevel_get_def unlogged_def set_loglevel_def get_loglevel_def Let_def split: option.split)

lemma hush_set_get [hush]:
  "cmd_set k z args (unlogged fw) = unlogged (cmd_set k z args fw)" "cmd_get k z args (unlogged fw) = unlogged (cmd_get k z args fw)"
  unfolding cmd_set_def cmd_get_def by (rule hush_table; auto simp: categories_set_def categories_get_def hush)+

lemma hush_command: "(name, h) \<in> set commands \<Longrightarrow> h k z args (unlogged fw) = unlogged (h k z args fw)"
  by (auto simp: commands_def cmd_help_def cmd_status_def cmd_mem_def cmd_save_def cmd_wipe_def cmd_net_def cmd_reboot_def hush)

lemma hush_cli_line [hush]: "handle_cli_line k z line (unlogged fw) = unlogged (handle_cli_line k z line fw)"
  by (auto simp: handle_cli_line_def split: prod.split option.split dest!: map_of_SomeD intro: hush_command)


section \<open>Events\<close>

text \<open>A result is forgetful in its state only.\<close>

abbreviation hush_pair :: "'r \<times> ('h, 'w) firmware \<Rightarrow> 'r \<times> ('h, 'w) firmware" where
  "hush_pair \<equiv> apsnd unlogged"

lemma hush_proceed:
  assumes "\<And>s. f (g s) = map_outcome g (f s)"
  shows "proceed (map_outcome g r) f = map_outcome g (proceed r f)"
  using assms by (cases r) simp_all

lemma hush_returning [hush]:
  assumes "\<And>v s. f v (unlogged s) = map_outcome unlogged (f v s)"
  shows "returning (map_outcome hush_pair r) f = map_outcome unlogged (returning r f)"
  using assms by (cases r) auto

lemma hush_prompt [hush]: "prompt_app (unlogged fw) = unlogged (prompt_app fw)"
  "upd_app (\<lambda>app. app\<lparr>ac_need_prompt := b\<rparr>) (unlogged fw) = unlogged (upd_app (\<lambda>app. app\<lparr>ac_need_prompt := b\<rparr>) fw)"
  by (simp_all add: prompt_app_def unlogged_upd_app hush)

lemma hush_netinfo [hush]: "change_netinfo z get put ip (unlogged fw) = hush_pair (change_netinfo z get put ip fw)"
  by (simp add: change_netinfo_def hush split_beta Let_def)

lemma hush_endpoints [hush]:
  "upd_app (\<lambda>app. app\<lparr>ac_local_config := f (ac_local_config app)\<rparr>) (unlogged fw)
    = unlogged (upd_app (\<lambda>app. app\<lparr>ac_local_config := f (ac_local_config app)\<rparr>) fw)"
  "upd_app (\<lambda>app. app\<lparr>ac_destination_config := f (ac_destination_config app)\<rparr>) (unlogged fw)
    = unlogged (upd_app (\<lambda>app. app\<lparr>ac_destination_config := f (ac_destination_config app)\<rparr>) fw)"
  "upd_app (\<lambda>app. app\<lparr>ac_v24_config := c\<rparr>) (unlogged fw) = unlogged (upd_app (\<lambda>app. app\<lparr>ac_v24_config := c\<rparr>) fw)"
  "upd_app (\<lambda>app. app\<lparr>ac_v24_config := g (ac_v24_config app)\<rparr>) (unlogged fw)
    = unlogged (upd_app (\<lambda>app. app\<lparr>ac_v24_config := g (ac_v24_config app)\<rparr>) fw)"
  by (simp_all add: unlogged_upd_app hush)

lemma hush_set_net_ip [hush]: "ev_set_net_ip z item ip (unlogged fw) = hush_pair (ev_set_net_ip z item ip fw)"
  by (cases item) (simp_all add: ev_set_net_ip_def hush split_beta)

lemma hush_set_net_port [hush]: "ev_set_net_port z item port (unlogged fw) = map_outcome hush_pair (ev_set_net_port z item port fw)"
  by (cases item) (simp_all add: ev_set_net_port_def reopen_socket_def fatal_panic_def hush split_beta Let_def)

lemma hush_set_net [hush]: "ev_set_net_settings z payload (unlogged fw) = map_outcome hush_pair (ev_set_net_settings z payload fw)"
  by (cases "ev_set_net_port z (eqd_id payload) (case eqd_value payload of Val_port port \<Rightarrow> port | _ \<Rightarrow> 0) fw")
    (auto simp: ev_set_net_settings_def hush split_beta Let_def split: event_value.split)

lemma hush_get [hush]:
  "ev_get_net_settings z payload (unlogged fw) = unlogged (ev_get_net_settings z payload fw)"
  "ev_get_v24_settings payload (unlogged fw) = unlogged (ev_get_v24_settings payload fw)"
  by (simp_all add: ev_get_net_settings_def ev_get_v24_settings_def hush)

lemma hush_set_v24 [hush]:
  "ev_set_v24_baudrate k b (unlogged fw) = map_outcome hush_pair (ev_set_v24_baudrate k b fw)"
  "ev_set_v24_polarities k p (unlogged fw) = map_outcome hush_pair (ev_set_v24_polarities k p fw)"
  "ev_set_v24_clock_mode ext (unlogged fw) = hush_pair (ev_set_v24_clock_mode ext fw)"
  by (simp_all add: ev_set_v24_baudrate_def ev_set_v24_polarities_def ev_set_v24_clock_mode_def hush
      Let_def split: option.split prod.split)

lemma hush_set_v24_settings [hush]: "ev_set_v24_settings k payload (unlogged fw) = map_outcome hush_pair (ev_set_v24_settings k payload fw)"
  by (simp add: ev_set_v24_settings_def hush split: event_queue_data_types_t.split event_value.split)

lemma hush_status [hush]:
  "snd (ev_status k (unlogged fw)) = unlogged (snd (ev_status k fw))"
  "print_status_event k (unlogged fw) = unlogged (print_status_event k fw)"
  by (simp_all add: ev_status_def print_status_event_def unlogged_def hush_defs split_beta Let_def split: option.split)

lemma hush_save [hush]: "ev_save_config z (unlogged fw) = unlogged (ev_save_config z fw)"
  by (simp add: ev_save_config_def unlogged_def hush_defs get_loglevel_def set_loglevel_def split_beta Let_def)

lemma hush_frames [hush]:
  "ev_udp_rx (unlogged fw) = unlogged (ev_udp_rx fw)"
  "ev_hdlc_decode frame (unlogged fw) = unlogged (ev_hdlc_decode frame fw)"
  by (simp_all add: ev_udp_rx_def ev_hdlc_decode_def push_event_def unlogged_def upd_app_def hush_defs split_beta Let_def)

lemma hush_dispatch [hush]: "event_dispatch k z event (unlogged fw) = map_outcome unlogged (event_dispatch k z event fw)"
  by (simp add: event_dispatch_def reboot_def request_save_config_def hush Let_def
      split: event_type_t.split option.split event_data.split)

lemma hush_dispatch_loop [hush]: "dispatch_loop k z n (unlogged fw) = map_outcome unlogged (dispatch_loop k z n fw)"
  by (induction n arbitrary: fw) (simp_all add: hush hush_proceed split: prod.split option.split)

lemma hush_poll_events [hush]: "poll_and_dispatch_events k z (unlogged fw) = map_outcome unlogged (poll_and_dispatch_events k z fw)"
  by (simp add: poll_and_dispatch_events_def hush)


section \<open>The loop\<close>

lemma hush_stats:
  assumes "\<And>s a b. f (s\<lparr>st_log_drop_lines := a, st_log_queue_used_max := b\<rparr>) = (f s)\<lparr>st_log_drop_lines := a, st_log_queue_used_max := b\<rparr>"
  shows "upd_app (upd_stats f) (unlogged fw) = unlogged (upd_app (upd_stats f) fw)"
  using unlogged_upd_stats [OF assms] by (simp add: unlogged_upd_app)

lemmas hush_app = unlogged_upd_app unlogged_app_update unlogged_upd_stats unlogged_update

lemma hush_rx_byte: "rx_byte_step b ((rt, unlogged fw), n) = apfst hush_pair (rx_byte_step b ((rt, fw), n))"
proof -
  have "event_loop_should_drop_hunt_idle_byte (unlogged_app (fw_app fw)) = event_loop_should_drop_hunt_idle_byte (fw_app fw)"
    by (simp add: fun_eq_iff event_loop_should_drop_hunt_idle_byte_def)
  then show ?thesis
    by (cases "event_loop_should_drop_hunt_idle_byte (fw_app fw) b (el_hunt_idle_run_length rt)";
        cases "hdlc_sync_acc_process_byte (ac_accumulator (fw_app fw)) b")
      (simp add: rx_byte_step_def hush_stats hush_app Let_def)
qed

lemma hush_drain_rx: "drain_rx_until_empty k (apfst hush_pair s) = map_option (apfst hush_pair) (drain_rx_until_empty k s)"
  by (rule settles_option [OF drain_rx_settles])
    (auto simp: drain_rx_step_def unlogged_update hush_rx_byte split: prod.split option.split)


lemma hush_drain_stats: "update_rx_drain_stats n now_us (hush_pair st) = hush_pair (update_rx_drain_stats n now_us st)"
  by (cases st) (simp add: update_rx_drain_stats_def unlogged_def upd_app_def unlogged_app_def upd_stats_def)

lemma hush_loop_drain_rx: "loop_drain_rx k (hush_pair st) = map_option (apsnd hush_pair) (loop_drain_rx k st)"
proof -
  have "drain_rx_until_empty k (hush_pair st, 0) = map_option (apfst hush_pair) (drain_rx_until_empty k (st, 0))"
    using hush_drain_rx [of k "(st, 0)"] by simp
  then show ?thesis
    using hush_drain_stats
    by (cases "drain_rx_until_empty k (st, 0)") (auto simp: loop_drain_rx_def unlogged_update split_beta Let_def)
qed

lemma hush_cli_poll: "loop_cli_poll k (unlogged fw) = unlogged (loop_cli_poll k fw)"
  by (simp add: loop_cli_poll_def unlogged_update split_beta Let_def)

lemma hush_buffer_stats: "loop_buffer_stats z (unlogged fw) = unlogged (loop_buffer_stats z fw)"
  by (simp add: loop_buffer_stats_def hush_stats unlogged_update split_beta Let_def)

lemma hush_stall_stats: "loop_stall_stats k (unlogged fw) = unlogged (loop_stall_stats k fw)"
  by (simp add: loop_stall_stats_def hush_stats unlogged_update split_beta Let_def)

lemma hush_throttle: "update_udp_rx_throttle_state (hush_pair st) = hush_pair (update_udp_rx_throttle_state st)"
  by (cases st) (simp add: update_udp_rx_throttle_state_def hush_stats Let_def)

lemma hush_enqueue: "poll_and_enqueue_udp_rx z (rt, unlogged fw) = hush_pair (poll_and_enqueue_udp_rx z (rt, fw))"
  by (cases "w5500_poll_rx z (ac_sender_config (fw_app fw)) (ac_rx_frame_buffer (fw_app fw)) (fw_net fw)")
    (simp add: poll_and_enqueue_udp_rx_def hush_app split_beta Let_def unlogged_app_def upd_stats_def)

lemma hush_udp_rx: "loop_udp_rx z (hush_pair st) = hush_pair (loop_udp_rx z st)"
  by (cases "update_udp_rx_throttle_state st") (simp add: loop_udp_rx_def hush_throttle hush_enqueue hush_stats)

lemma hush_tx_pipeline: "poll_tx_pipeline k (rt, unlogged fw) = apsnd (map_outcome hush_pair) (poll_tx_pipeline k (rt, fw))"
proof -
  obtain err n q d where "tx_queue_drain k TX_QUEUE_DRAIN_CHUNK_SIZE (snd (poll_queue_stats (ac_tx_queue (fw_app fw)))) (fw_driver fw) = (err, n, q, d)"
    using prod_cases4 by blast
  then show ?thesis
    by (cases "tx_poll k d") (auto simp: poll_tx_pipeline_def hush_app split_beta Let_def)
qed


lemma hush_restart:
  "acc_restart (unlogged_app app) = unlogged_app (acc_restart app)" "clear_reconstructed (unlogged_app app) = unlogged_app (clear_reconstructed app)"
  by (simp_all add: acc_restart_def clear_reconstructed_def unlogged_app_update)

lemma hush_idle_timeout: "poll_hdlc_idle_timeout now_us (hush_pair st) = hush_pair (poll_hdlc_idle_timeout now_us st)"
  by (cases st) (simp add: poll_hdlc_idle_timeout_def hush_app hush_restart Let_def)

lemma hush_accepted: "decode_accepted z (rt, unlogged fw) = hush_pair (decode_accepted z (rt, fw))"
  by (simp add: decode_accepted_def hush_app)

lemma hush_rejected: "decode_rejected (rt, unlogged fw) = hush_pair (decode_rejected (rt, fw))"
  by (simp add: decode_rejected_def hush_app hush_restart Let_def)

lemma hush_decode: "decode_hdlc_to_udp_tx z (rt, unlogged fw) = hush_pair (decode_hdlc_to_udp_tx z (rt, fw))"
proof -
  define count :: "('a, 'b) firmware \<Rightarrow> ('a, 'b) firmware" where
    "count = upd_app (upd_stats (\<lambda>s. s\<lparr>st_hdlc_frame_ready := st_hdlc_frame_ready s + 1\<rparr>))"
  have count: "count (unlogged fw) = unlogged (count fw)" "st_serial_rx_bytes (ac_stats (unlogged_app app)) = st_serial_rx_bytes (ac_stats app)" for app
    by (simp_all add: count_def hush_stats) (simp add: unlogged_app_def upd_stats_def)
  obtain ok buf len stats where decode: "hdlc_decode (Some (ac_reconstructed_frame (fw_app (count fw))))
      (Some (uf_payload (ac_tx_frame_buffer (fw_app (count fw))))) TX_BUF_SIZE (Some 0) True (fw_decode_stats (count fw)) = (ok, buf, len, stats)"
    using prod_cases4 by blast
  define store :: "('a, 'b) firmware \<Rightarrow> ('a, 'b) firmware" where
    "store g = (upd_app (\<lambda>app. app\<lparr>ac_tx_frame_buffer := \<lparr>uf_payload = the buf, uf_length = the len\<rparr>\<rparr>) g)\<lparr>fw_decode_stats := stats\<rparr>" for g
  have store: "store (unlogged g) = unlogged (store g)" for g
    by (simp add: store_def hush_app)
  define finish :: "('a, 'b) loop_state \<Rightarrow> ('a, 'b) loop_state" where
    "finish st = apsnd (upd_app clear_reconstructed) (if ok then decode_accepted z st else decode_rejected st)" for st
  have clear: "upd_app clear_reconstructed (unlogged g) = unlogged (upd_app clear_reconstructed g)" for g :: "('a, 'b) firmware"
    by (simp add: unlogged_upd_app hush_restart)
  have finish: "finish (r, unlogged g) = hush_pair (finish (r, g))" for r g
    by (cases "decode_accepted z (r, g)"; cases "decode_rejected (r, g)") (simp add: finish_def hush_accepted hush_rejected clear)
  have run: "decode_hdlc_to_udp_tx z (rt, g)
      = finish (rt\<lparr>el_work_done := True, el_last_frame_ready_bytes := st_serial_rx_bytes (ac_stats (fw_app (count g)))\<rparr>, store (count g))"
    if "hdlc_decode (Some (ac_reconstructed_frame (fw_app (count g)))) (Some (uf_payload (ac_tx_frame_buffer (fw_app (count g)))))
      TX_BUF_SIZE (Some 0) True (fw_decode_stats (count g)) = (ok, buf, len, stats)" for g
    using that unfolding decode_hdlc_to_udp_tx_def finish_def store_def count_def Let_def by (simp add: split_beta apsnd_def map_prod_def)
  show ?thesis
    using run [of fw] run [of "unlogged fw"] decode by (simp add: count store finish)
qed


lemma hush_poll_accumulator: "poll_accumulator (unlogged fw) = hush_pair (poll_accumulator fw)"
  by (simp add: poll_accumulator_def hush_app split_beta Let_def)

lemma hush_drain_frames: "drain_hdlc_frames_to_udp z (hush_pair st) = map_option hush_pair (drain_hdlc_frames_to_udp z st)"
proof (rule settles_option [OF drain_frames_settles])
  fix st :: "('a, 'b) loop_state"
  show "drain_frames_step z (hush_pair st) = map_sum hush_pair hush_pair (drain_frames_step z st)"
    by (cases st; cases "poll_accumulator (snd st)")
      (simp add: drain_frames_step_def hush_poll_accumulator hush_decode hush_app hush_restart)
qed

lemma hush_no_progress: "poll_hdlc_no_progress k (hush_pair st) = hush_pair (poll_hdlc_no_progress k st)"
proof -
  have "st_serial_rx_bytes (ac_stats (unlogged_app app)) = st_serial_rx_bytes (ac_stats app)"
    "st_hdlc_decode_ok (ac_stats (unlogged_app app)) = st_hdlc_decode_ok (ac_stats app)" for app
    by (simp_all add: unlogged_app_def upd_stats_def)
  then show ?thesis
    by (cases st) (simp add: poll_hdlc_no_progress_def hush_app hush_restart if_distrib [of hush_pair] Let_def cong: if_cong)
qed

lemma hush_line_to_network: "loop_line_to_network k z (hush_pair st) = map_option hush_pair (loop_line_to_network k z st)"
  by (simp add: loop_line_to_network_def hush_loop_drain_rx hush_idle_timeout hush_drain_frames hush_no_progress
      option.map_comp o_def split: option.split prod.split)


section \<open>Log activity\<close>

text \<open>Lines written by the main core, and lines taken out by the second core.\<close>

datatype log_act = Log_write log_level_t "string option" | Core1_takes

fun do_log :: "log_act \<Rightarrow> global_log_state_t \<Rightarrow> global_log_state_t" where
  "do_log (Log_write level formatted) s = log_write level formatted s"
| "do_log Core1_takes s = snd (log_drain_step s)"

definition logging :: "log_act list \<Rightarrow> ('h, 'w) firmware \<Rightarrow> ('h, 'w) firmware" where
  "logging acts fw = fw\<lparr>fw_log := fold do_log acts (fw_log fw)\<rparr>"

lemma do_log_level: "get_loglevel (fold do_log acts s) = get_loglevel s"
proof (induction acts arbitrary: s)
  case (Cons act acts)
  have "get_loglevel (do_log act s) = get_loglevel s"
    by (cases act) (auto simp: get_loglevel_def log_write_def log_drain_step_def Let_def split: option.split)
  then show ?case
    using Cons by simp
qed simp

lemma unlogged_logging [simp]: "unlogged (logging acts fw) = unlogged fw"
  by (simp add: logging_def unlogged_def do_log_level)

text \<open>The two places that read the log.\<close>

lemma unlogged_statistics: "unlogged (update_statistics (unlogged fw)) = unlogged (update_statistics fw)"
  by (simp add: update_statistics_def unlogged_def unlogged_app_def upd_app_def upd_stats_def log_take_dropped_count_def set_loglevel_def
      get_loglevel_def Let_def)

lemma unlogged_prompt: "unlogged (loop_prompt (unlogged fw)) = unlogged (loop_prompt fw)"
  by (simp add: loop_prompt_def print_prompt_def log_take_emitted_flag_def unlogged_def unlogged_app_def upd_app_def upd_stats_def set_loglevel_def
      get_loglevel_def Let_def)

text \<open>
  The iteration with log activity before each of them.  Nothing else reads the log, so this covers lines written anywhere in
  the iteration.
\<close>

definition logged_housekeeping ::
  "'h sdk \<Rightarrow> 'w wiznet \<Rightarrow> log_act list \<times> log_act list \<Rightarrow> ('h, 'w) loop_state \<Rightarrow> ('h, 'w) loop_state outcome" where
  "logged_housekeeping k z acts = (\<lambda>(rt, fw).
     proceed (keep_runtime rt (poll_and_dispatch_events k z (loop_stall_stats k (update_statistics (logging (fst acts) fw)))))
       (\<lambda>(rt1, fw1). Running (rt1\<lparr>el_work_done := False\<rparr>, loop_prompt (logging (snd acts) fw1))))"

definition logged_iteration ::
  "'h sdk \<Rightarrow> 'w wiznet \<Rightarrow> log_act list \<times> log_act list \<Rightarrow> ('h, 'w) loop_state \<Rightarrow> ('h, 'w) loop_state outcome option" where
  "logged_iteration k z acts = (\<lambda>(rt, fw).
     case loop_drain_rx k (rt, loop_cli_poll k fw) of
       None \<Rightarrow> None
     | Some (_, rt1, fw1) \<Rightarrow>
         (case snd (poll_tx_pipeline k (rt1, loop_buffer_stats z fw1)) of
            Stopped why st2 \<Rightarrow> Some (Stopped why st2)
          | Running st2 \<Rightarrow>
              (case loop_line_to_network k z (loop_udp_rx z st2) of
                 None \<Rightarrow> None
               | Some st3 \<Rightarrow> Some (logged_housekeeping k z acts st3))))"

fun logged_loop ::
  "'h sdk \<Rightarrow> 'w wiznet \<Rightarrow> (log_act list \<times> log_act list) list \<Rightarrow> ('h, 'w) loop_state \<Rightarrow> ('h, 'w) loop_state outcome option" where
  "logged_loop k z [] st = Some (Running st)"
| "logged_loop k z (acts # rest) st =
     (case logged_iteration k z acts st of
        Some (Running st1) \<Rightarrow> logged_loop k z rest st1
      | r \<Rightarrow> r)"

lemma logging_Nil [simp]: "logging [] fw = fw"
  by (simp add: logging_def)

lemma no_log_activity: "logged_iteration k z ([], []) = event_loop_iteration k z"
proof -
  have "logged_housekeeping k z ([], []) = loop_housekeeping k z"
    by (simp add: fun_eq_iff logged_housekeeping_def loop_housekeeping_def)
  then show ?thesis
    unfolding logged_iteration_def event_loop_iteration_def by (simp only:)
qed

lemma silent_loop: "logged_loop k z (replicate n ([], [])) st = event_loop k z n st"
  by (induction n arbitrary: st) (simp_all add: no_log_activity split: option.split outcome.split)

section \<open>Nothing depends on the log\<close>

lemma housekeeping_independent:
  fixes st :: "('h, 'w) loop_state"
  shows "map_outcome hush_pair (logged_housekeeping k z acts st) = map_outcome hush_pair (logged_housekeeping k z ([], []) (hush_pair st))"
proof -
  obtain rt fw where st: "st = (rt, fw)"
    by fastforce
  let ?poll = "\<lambda>fw :: ('h, 'w) firmware. poll_and_dispatch_events k z (loop_stall_stats k (update_statistics fw))"
  have poll: "map_outcome unlogged (?poll g) = map_outcome unlogged (?poll (unlogged g))" for g
    by (simp add: hush_stall_stats [symmetric] hush_poll_events [symmetric] unlogged_statistics)
  then have same: "map_outcome unlogged (?poll (logging (fst acts) fw)) = map_outcome unlogged (?poll (unlogged fw))"
    by (metis unlogged_logging)
  have prompt: "unlogged (loop_prompt (logging a g)) = unlogged (loop_prompt h)" if "unlogged g = unlogged h" for a and g h :: "('h, 'w) firmware"
    using unlogged_prompt unlogged_logging that by metis
  show ?thesis
    using same prompt by (cases "?poll (logging (fst acts) fw)"; cases "?poll (unlogged fw)")
      (auto simp: st logged_housekeeping_def)
qed

lemma iteration_independent:
  "map_option (map_outcome hush_pair) (logged_iteration k z acts st)
    = map_option (map_outcome hush_pair) (logged_iteration k z ([], []) (hush_pair st))"
proof (cases st)
  case (Pair rt fw)
  show ?thesis
  proof (cases "loop_drain_rx k (rt, loop_cli_poll k fw)")
    case (Some r)
    obtain t rt1 fw1 where r: "r = (t, rt1, fw1)"
      using prod_cases3 by blast
    have drain: "loop_drain_rx k (rt, unlogged (loop_cli_poll k fw)) = Some (t, rt1, unlogged fw1)"
      using hush_loop_drain_rx [of k "(rt, loop_cli_poll k fw)"] Some r by simp
    show ?thesis
    proof (cases "snd (poll_tx_pipeline k (rt1, loop_buffer_stats z fw1))")
      case (Running st2)
      then show ?thesis
        using housekeeping_independent [of k z acts]
        by (cases "loop_line_to_network k z (loop_udp_rx z st2)")
          (auto simp: Pair logged_iteration_def hush_cli_poll Some r drain hush_buffer_stats hush_tx_pipeline hush_udp_rx hush_line_to_network)
    qed (auto simp: Pair logged_iteration_def hush_cli_poll Some r drain hush_buffer_stats hush_tx_pipeline apsnd_compose)
  qed (use hush_loop_drain_rx [of k "(rt, loop_cli_poll k fw)"] in \<open>simp add: Pair logged_iteration_def hush_cli_poll\<close>)
qed

lemma hush_continue:
  assumes "map_option (map_outcome h) r = map_option (map_outcome h) r'"
    and "\<And>s s'. h s = h s' \<Longrightarrow> map_option (map_outcome h) (f s) = map_option (map_outcome h) (f' s')"
  shows "map_option (map_outcome h) (case r of Some (Running s) \<Rightarrow> f s | x \<Rightarrow> x)
    = map_option (map_outcome h) (case r' of Some (Running s) \<Rightarrow> f' s | x \<Rightarrow> x)"
proof (cases r)
  case None
  then show ?thesis
    using assms(1) by (cases r') simp_all
next
  case (Some x)
  then obtain y where "r' = Some y"
    using assms(1) by (cases r') simp_all
  then show ?thesis
    using assms Some by (cases x; cases y) simp_all
qed

lemma loops_independent:
  assumes "hush_pair st = hush_pair st'"
  shows "map_option (map_outcome hush_pair) (logged_loop k z acts st)
    = map_option (map_outcome hush_pair) (logged_loop k z (replicate (length acts) ([], [])) st')"
  using assms
proof (induction acts arbitrary: st st')
  case (Cons a acts)
  have "map_option (map_outcome hush_pair) (logged_iteration k z a st) = map_option (map_outcome hush_pair) (logged_iteration k z ([], []) st')"
    using iteration_independent [of k z a st] iteration_independent [of k z "([], [])" st'] Cons.prems by simp
  then show ?case
    using hush_continue [OF _ Cons.IH] by simp
qed simp

section \<open>Properties\<close>


end
