(* ===== verification/Loop_Invariant.thy ===== *)
theory Loop_Invariant
  imports Unbounded_Loops
begin

text \<open>
  What the firmware keeps true from start-up on, whatever the hardware, the network and the operator
  do: one invariant over the whole state, preserved by every function of the main loop.  From it
  follow that no undefined step is ever taken, that the transmit queue never overflows, that the
  bytes on the line are the accepted datagrams in order, and that only payloads with a matching
  checksum are sent to the network.
\<close>

section \<open>The driver\<close>

text \<open>
  The two PIO pointers and the bytes received so far, and a step that hands no byte to the transmitter
  and takes none from the receiver.
\<close>

definition pios :: "'h v24_driver \<Rightarrow> nat option \<times> nat option \<times> byte list" where
  "pios d = (rt_tx_pio (dr_runtime d), rt_rx_pio (dr_runtime d), dr_rx d)"

definition driver_ok :: "'h v24_driver \<Rightarrow> bool" where
  "driver_ok d \<longleftrightarrow> rt_tx_pio (dr_runtime d) \<noteq> None \<and> rt_rx_pio (dr_runtime d) \<noteq> None"

definition wire :: "'h v24_driver \<Rightarrow> byte list" where
  "wire d = bytes_put (dr_trace d)"

definition silent :: "'h v24_driver \<Rightarrow> 'h v24_driver \<Rightarrow> bool" where
  "silent d d' \<longleftrightarrow> pios d' = pios d \<and> wire d' = wire d"

lemma silent_refl [simp]: "silent d d"
  by (simp add: silent_def)

lemma silent_trans: "silent d d1 \<Longrightarrow> silent d1 d2 \<Longrightarrow> silent d d2"
  by (simp add: silent_def)

lemma silent_driver_ok: "silent d d' \<Longrightarrow> driver_ok d' = driver_ok d"
  by (simp add: silent_def driver_ok_def pios_def)

lemma silent_ask [simp]: "silent d (snd (hw_ask k q d))"
  by (simp add: silent_def pios_def wire_def)

lemma rx_get_facts:
  assumes "rx_get k d = (r, d')"
  shows "dr_rx d' = dr_rx d @ (case r of None \<Rightarrow> [] | Some b \<Rightarrow> [b])" "wire d' = wire d" "driver_ok d' = driver_ok d"
  using assms
  by (auto simp: rx_get_def wire_def driver_ok_def split_beta Let_def split: option.splits if_splits)

lemma silent_main_estimator: "silent (fw_driver fw) (fw_driver (main_estimator k fw))"
  by (auto simp: main_estimator_def baudrate_estimator_init_def silent_def pios_def wire_def Let_def split_beta)

lemma silent_rx_poll_stall [simp]: "silent d (snd (rx_clock_poll_stall k d))"
  by (auto simp: rx_clock_poll_stall_def silent_def pios_def wire_def split_beta Let_def split: option.split)

lemma silent_rx_hard_reset [simp]: "silent d (rx_clock_hard_reset k d)"
  by (auto simp: rx_clock_hard_reset_def silent_def pios_def wire_def Let_def split: option.split)

lemma silent_tx_poll: "tx_poll k d = Some (r, d') \<Longrightarrow> silent d d'"
  by (auto simp: tx_poll_def silent_def pios_def wire_def split_beta Let_def split: if_splits option.splits)

lemma tx_poll_defined: "driver_ok d \<Longrightarrow> \<exists>r d'. tx_poll k d = Some (r, d')"
  by (auto simp: tx_poll_def driver_ok_def split_beta Let_def)

lemma silent_settings:
  "tx_clock_update_settings k c d = Some d' \<Longrightarrow> silent d d'" "rx_clock_update_settings k p d = Some d' \<Longrightarrow> silent d d'"
  by (auto simp: tx_clock_update_settings_def rx_clock_update_settings_def silent_def pios_def wire_def Let_def
      split: option.splits if_splits)

lemma settings_defined:
  "driver_ok d \<Longrightarrow> \<exists>d'. tx_clock_update_settings k c d = Some d'" "driver_ok d \<Longrightarrow> \<exists>d'. rx_clock_update_settings k p d = Some d'"
  by (auto simp: tx_clock_update_settings_def rx_clock_update_settings_def driver_ok_def Let_def)

text \<open>Draining the transmit queue does hand over bytes, but keeps the pointers.\<close>

lemma pios_cts_seq [simp]: "pios (snd (tx_clock_get_cts_toggle_seq k d)) = pios d"
proof -
  have "rt_tx_pio (fold (cts_raw_irq_handler k) irqs rt) = rt_tx_pio rt
      \<and> rt_rx_pio (fold (cts_raw_irq_handler k) irqs rt) = rt_rx_pio rt" for irqs rt
    by (induction irqs arbitrary: rt) (simp_all add: cts_raw_irq_handler_def)
  then show ?thesis
    by (simp add: tx_clock_get_cts_toggle_seq_def pios_def split_beta Let_def)
qed

lemma pios_tx_put [simp]: "pios (snd (tx_put k b d)) = pios d"
  by (auto simp: tx_put_def pios_def split_beta Let_def split: option.split)

lemma pios_ask [simp]: "pios (snd (hw_ask k q d)) = pios d"
  by (simp add: pios_def)

lemma pios_drain_loop: "pios (snd (drain_loop k payload offset i n d)) = pios d"
  by (induction n arbitrary: i d) (simp_all add: split_beta Let_def)

lemma pios_tx_reset [simp]: "pios (tx_clock_hard_reset k d) = pios d"
  by (simp add: tx_clock_hard_reset_def pios_def Let_def split: option.split)

lemma pios_drain_bytes: "pios (snd (snd (tx_queue_drain_bytes k n q d))) = pios d"
  using pios_drain_loop [of k] by (simp add: tx_queue_drain_bytes_def split_beta Let_def)

lemma pios_drain:
  assumes "tx_queue_drain k n q d = (err, m, q', d')"
  shows "pios d' = pios d"
proof -
  have "pios (snd (snd (snd (tx_queue_drain k n q d)))) = pios d"
    using pios_drain_bytes [of k n]
    by (simp add: tx_queue_drain_def split_beta Let_def split: option.split)
  with assms show ?thesis
    by simp
qed

section \<open>The invariant\<close>

text \<open>
  The transmit side: the queue holds at most 48 frames, no datagram was refused for lack of room, and
  what was handed to the transmitter are the frames of the received payloads in order, but for those
  whose frame is longer than an entry of the queue.
\<close>

definition line_payloads :: "byte list list \<Rightarrow> byte list list" where
  "line_payloads received = filter (\<lambda>data. length (hdlc_frame True data) \<le> TX_FRAME_MAX_SIZE_BYTE) received"

definition tx_inv :: "TX_QUEUE_T \<Rightarrow> byte list list \<Rightarrow> u64 \<Rightarrow> u64 \<Rightarrow> byte list \<Rightarrow> bool" where
  "tx_inv q received accepted drops w \<longleftrightarrow> tq_inv q \<and> tx_queue_get_count q \<le> TX_QUEUE_HIGH_WM \<and> drops = 0
     \<and> tx_log (map (hdlc_frame True) (line_payloads received)) w q \<and> accepted = of_nat (length (line_payloads received))"

text \<open>
  A payload that came over the line: among the received bytes (some may be missing: idle bytes are
  skipped and a full buffer loses bytes), in one bit alignment, there are two flags, and what is between
  them unstuffs cleanly to the payload and its checksum.
\<close>

definition line_frame :: "byte list \<Rightarrow> byte list \<Rightarrow> bool" where
  "line_frame rx data \<longleftrightarrow> (\<exists>bs phase start body. subseq bs rx \<and> aligned_at bs phase start = Some HDLC_FLAG_BYTE
     \<and> map Some body = map (aligned_at bs phase) [Suc start..<Suc start + length body]
     \<and> aligned_at bs phase (Suc start + length body) = Some HDLC_FLAG_BYTE
     \<and> hdlc_decode_spec True TX_BUF_SIZE body = Inr data)"

lemma line_frame_append: "line_frame rx data \<Longrightarrow> line_frame (rx @ ys) data"
  unfolding line_frame_def by (blast intro: list_emb_append2)

text \<open>The network side: every datagram sent came over the line, and all are counted.\<close>

definition forwarded_ok :: "(byte list \<times> byte list \<times> u16) list \<Rightarrow> u64 \<Rightarrow> byte list \<Rightarrow> bool" where
  "forwarded_ok sent n rx \<longleftrightarrow> n = of_nat (length sent) \<and> (\<forall>(data, ip, port)\<in>set sent. line_frame rx data)"

definition queued_event :: "event_t \<Rightarrow> bool" where
  "queued_event e \<longleftrightarrow> command_event e \<or> (\<exists>slot line. e = cli_line_event slot line)"

definition events_inv :: "cli_state \<Rightarrow> event_t event_queue_state \<Rightarrow> bool" where
  "events_inv cli q \<longleftrightarrow> console_inv (cli, q) \<and> (\<forall>e\<in>set (eq_contents q). queued_event e)"

definition buffers_inv :: "app_ctx_t \<Rightarrow> bool" where
  "buffers_inv app \<longleftrightarrow> frame_clean (ac_rx_frame_buffer app) \<and> length (uf_payload (ac_tx_frame_buffer app)) = TX_BUF_SIZE
     \<and> sync_inv (ac_accumulator app) (ac_reconstructed_frame app)"

definition fw_inv :: "('h, 'w) firmware \<Rightarrow> bool" where
  "fw_inv fw \<longleftrightarrow>
     tx_inv (ac_tx_queue (fw_app fw)) (w_received (fw_net fw)) (st_hdlc_tx_frames (ac_stats (fw_app fw)))
       (st_tx_queue_drop_frames (ac_stats (fw_app fw))) (wire (fw_driver fw))
     \<and> forwarded_ok (net_sent (fw_net fw)) (st_udp_tx_frames (ac_stats (fw_app fw))) (dr_rx (fw_driver fw))
     \<and> subseq (raw (ac_accumulator (fw_app fw))) (dr_rx (fw_driver fw))
     \<and> events_inv (fw_cli fw) (fw_events fw) \<and> buffers_inv (fw_app fw) \<and> driver_ok (fw_driver fw)"

text \<open>Steps that leave everything the invariant speaks about alone.\<close>

definition same_view :: "('h, 'w) firmware \<Rightarrow> ('h, 'w) firmware \<Rightarrow> bool" where
  "same_view fw fw' \<longleftrightarrow>
     ac_tx_queue (fw_app fw') = ac_tx_queue (fw_app fw)
     \<and> st_hdlc_tx_frames (ac_stats (fw_app fw')) = st_hdlc_tx_frames (ac_stats (fw_app fw))
     \<and> st_tx_queue_drop_frames (ac_stats (fw_app fw')) = st_tx_queue_drop_frames (ac_stats (fw_app fw))
     \<and> st_udp_tx_frames (ac_stats (fw_app fw')) = st_udp_tx_frames (ac_stats (fw_app fw))
     \<and> ac_rx_frame_buffer (fw_app fw') = ac_rx_frame_buffer (fw_app fw)
     \<and> ac_tx_frame_buffer (fw_app fw') = ac_tx_frame_buffer (fw_app fw)
     \<and> ac_accumulator (fw_app fw') = ac_accumulator (fw_app fw)
     \<and> ac_reconstructed_frame (fw_app fw') = ac_reconstructed_frame (fw_app fw)
     \<and> net_sent (fw_net fw') = net_sent (fw_net fw) \<and> w_received (fw_net fw') = w_received (fw_net fw)
     \<and> fw_cli fw' = fw_cli fw \<and> fw_events fw' = fw_events fw
     \<and> silent (fw_driver fw) (fw_driver fw')"

lemma same_view_inv: "same_view fw fw' \<Longrightarrow> fw_inv fw \<Longrightarrow> fw_inv fw'"
  using silent_driver_ok [of "fw_driver fw" "fw_driver fw'"]
  by (simp add: same_view_def fw_inv_def buffers_inv_def silent_def pios_def)

lemma same_view_trans: "same_view fw fw1 \<Longrightarrow> same_view fw1 fw2 \<Longrightarrow> same_view fw fw2"
  by (auto simp: same_view_def intro: silent_trans)

lemma same_view_refl [simp]: "same_view fw fw"
  by (simp add: same_view_def)

section \<open>Reception\<close>

lemma fw_inv_sync: "fw_inv fw \<Longrightarrow> sync_inv (ac_accumulator (fw_app fw)) (ac_reconstructed_frame (fw_app fw))"
  by (simp add: fw_inv_def buffers_inv_def)

lemma fw_inv_driver_ok: "fw_inv fw \<Longrightarrow> driver_ok (fw_driver fw)"
  by (simp add: fw_inv_def)

lemma fw_inv_acc:
  assumes "fw_inv fw" "sync_inv acc (ac_reconstructed_frame (fw_app fw))" "subseq (raw acc) (dr_rx (fw_driver fw))"
  shows "fw_inv (upd_app (\<lambda>app. app\<lparr>ac_accumulator := acc\<rparr>) fw)"
  using assms by (simp add: fw_inv_def buffers_inv_def)

lemma fw_inv_stats:
  assumes "fw_inv fw" "\<And>s. st_hdlc_tx_frames (f s) = st_hdlc_tx_frames s"
    "\<And>s. st_tx_queue_drop_frames (f s) = st_tx_queue_drop_frames s" "\<And>s. st_udp_tx_frames (f s) = st_udp_tx_frames s"
  shows "fw_inv (upd_app (upd_stats f) fw)"
  by (rule same_view_inv [OF _ assms(1)]) (simp add: same_view_def upd_stats_def assms(2-4))

lemma fw_inv_driver: "fw_inv fw \<Longrightarrow> silent (fw_driver fw) d \<Longrightarrow> fw_inv (fw\<lparr>fw_driver := d\<rparr>)"
  by (erule same_view_inv [rotated]) (simp add: same_view_def)

lemma rx_byte_step_inv:
  assumes "fw_inv (snd (fst st))" "subseq (raw (ac_accumulator (fw_app (snd (fst st)))) @ [b]) (dr_rx (fw_driver (snd (fst st))))"
  shows "fw_inv (snd (fst (rx_byte_step b st)))"
proof -
  obtain rt fw n where st: "st = ((rt, fw), n)"
    by (metis surj_pair)
  have inv: "fw_inv fw" and sub: "subseq (raw (ac_accumulator (fw_app fw)) @ [b]) (dr_rx (fw_driver fw))"
    using assms st by simp_all
  let ?acc = "snd (hdlc_sync_acc_process_byte (ac_accumulator (fw_app fw)) b)"
  have ok: "acc_ok (ac_accumulator (fw_app fw))"
    using fw_inv_sync [OF inv] by (simp add: sync_inv_def poll_inv_def)
  have "subseq (raw ?acc) (dr_rx (fw_driver fw))"
  proof (cases "sa_position (ac_accumulator (fw_app fw)) < RX_HDLC_SYNC_MAX_BUFFER_SIZE")
    case True
    then show ?thesis
      using process_byte_raw [OF ok True] sub by simp
  next
    case False
    then show ?thesis
      using inv by (simp add: hdlc_sync_acc_process_byte_def fw_inv_def)
  qed
  then have "fw_inv (upd_app (\<lambda>app. app\<lparr>ac_accumulator := ?acc\<rparr>) fw)"
    by (rule fw_inv_acc [OF inv process_byte_inv [OF fw_inv_sync [OF inv]]])
  then show ?thesis
    using inv by (auto simp: st rx_byte_step_def split_beta Let_def intro!: fw_inv_stats)
qed

lemma rx_get_inv:
  assumes "fw_inv fw" "rx_get k (fw_driver fw) = (r, d)"
  shows "fw_inv (fw\<lparr>fw_driver := d\<rparr>)"
    "r = Some b \<Longrightarrow> subseq (raw (ac_accumulator (fw_app fw)) @ [b]) (dr_rx d)"
proof -
  note get = rx_get_facts [OF assms(2)]
  show "fw_inv (fw\<lparr>fw_driver := d\<rparr>)"
    using assms(1) get by (auto simp: fw_inv_def forwarded_ok_def line_frame_append split: option.split)
  show "subseq (raw (ac_accumulator (fw_app fw)) @ [b]) (dr_rx d)" if "r = Some b"
    using assms(1) get(1) that by (simp add: fw_inv_def list_emb_append_mono)
qed

lemma drain_rx_inv:
  assumes "drain_rx_until_empty k st = Some st'"
  shows "fw_inv (snd (fst st)) \<longrightarrow> fw_inv (snd (fst st'))"
proof (rule drain_rx_invar [OF assms])
  show "fw_inv (snd (fst ((rt, fw), n))) \<longrightarrow> fw_inv (snd (fst r))" if "rx_get k (fw_driver fw) = (Some b, d)"
    "fw_inv (snd (fst (rx_byte_step b ((rt, fw\<lparr>fw_driver := d\<rparr>), n)))) \<longrightarrow> fw_inv (snd (fst r))" for rt fw n b d r
    using that rx_get_inv [OF _ that(1)] rx_byte_step_inv [of "((rt, fw\<lparr>fw_driver := d\<rparr>), n)" b] by simp
qed (simp add: rx_get_inv(1))

lemma loop_drain_rx_inv:
  assumes "loop_drain_rx k st = Some (now, st')" "fw_inv (snd st)"
  shows "fw_inv (snd st')"
proof -
  obtain rt fw n where run: "drain_rx_until_empty k (st, 0) = Some ((rt, fw), n)"
    and st': "st' = update_rx_drain_stats n (fst (hw_ask k To_us_since_boot (fw_driver fw)))
        (rt, fw\<lparr>fw_driver := snd (hw_ask k To_us_since_boot (fw_driver fw))\<rparr>)"
    using assms(1) by (auto simp: loop_drain_rx_def split_beta Let_def split: option.splits)
  have "fw_inv fw"
    using drain_rx_inv [OF run] assms(2) by simp
  then show ?thesis
    by (rule same_view_inv [rotated]) (simp add: st' update_rx_drain_stats_def same_view_def upd_stats_def)
qed

section \<open>Transmission\<close>

lemma queued_frames_count: "tq_inv q \<Longrightarrow> tx_queue_get_count q = length (queued_frames q)"
  by (simp add: tx_queue_get_count_def queued_frames_def tq_inv_def rb_contents_def)

text \<open>Draining never adds a frame to the queue.\<close>

lemma drain_count:
  assumes "tq_inv q" "tx_queue_drain k n q d = (err, m, q', d')"
  shows "tx_queue_get_count q' \<le> tx_queue_get_count q"
proof -
  have next_entry: "length (queued_frames q1) \<le> length (queued_frames q)" if "next_entry q = Some q1" for q1
    using next_entry_cases [OF assms(1)] that by (auto split: if_splits list.splits)
  have "rb_count (tq_queue_buffer q') \<le> rb_count (tq_queue_buffer q)"
  proof (cases "drain_restarts k q d")
    case True
    then show ?thesis
      using drain_restart [OF assms(1) True, of n] assms queued_frames_count [of q'] queued_frames_count [of q]
      by (auto simp: tx_queue_get_count_def)
  next
    case False
    show ?thesis
    proof (cases "next_entry q")
      case None
      then show ?thesis
        using drain_idle [OF assms(1) False None, of n] assms(2) by auto
    next
      case (Some q1)
      obtain m2 q2 d2 where bytes: "tx_queue_drain_bytes k n q1 (snd (tx_clock_get_cts_toggle_seq k d)) = (m2, q2, d2)"
        by (metis prod_cases3)
      have "tq_queue_buffer q2 = tq_queue_buffer q1"
        using bytes by (auto simp: tx_queue_drain_bytes_def split_beta Let_def)
      then have buf: "tq_queue_buffer q' = tq_queue_buffer q1"
        using drain_unfold [OF False Some bytes] assms(2) by (auto split: if_splits)
      have "tq_inv q1"
        using next_entry_cases [OF assms(1)] Some assms(1) by (auto split: if_splits list.splits)
      then show ?thesis
        using next_entry [OF Some] queued_frames_count [of q1] queued_frames_count [OF assms(1)] buf
        by (simp add: tx_queue_get_count_def)
    qed
  qed
  then show ?thesis
    by (simp add: tx_queue_get_count_def)
qed

lemma tx_inv_stats: "tx_inv q ds a r w \<Longrightarrow> tx_inv (snd (poll_queue_stats q)) ds a r w"
proof -
  assume inv: "tx_inv q ds a r w"
  have count: "tx_queue_get_count (snd (poll_queue_stats q)) = tx_queue_get_count q"
    by (simp add: poll_queue_stats_def tx_queue_get_count_def Let_def)
  have q: "tq_inv q"
    using inv by (simp add: tx_inv_def)
  note same = poll_queue_stats_same [of q]
  show ?thesis
    using inv count same(1) tx_log_same [OF q same(1) [OF q] same(2,3), of "[]"] same(4)
    by (auto simp: tx_inv_def)
qed

lemma tx_inv_drain:
  assumes "tx_inv q ds a r (wire d)" "tx_queue_drain k n q d = (err, m, q', d')"
  shows "tx_inv q' ds a r (wire d')"
  using assms drain_count [OF _ assms(2)] tx_log_drain [OF _ _ assms(2)]
  by (fastforce simp: tx_inv_def wire_def)

lemma fw_inv_tx:
  assumes "fw_inv fw" "tx_inv q (w_received (fw_net fw)) (st_hdlc_tx_frames (ac_stats (fw_app fw))) (st_tx_queue_drop_frames (ac_stats (fw_app fw))) (wire d)"
    and "pios d = pios (fw_driver fw)"
  shows "fw_inv ((upd_app (\<lambda>app. app\<lparr>ac_tx_queue := q\<rparr>) fw)\<lparr>fw_driver := d\<rparr>)"
  using assms by (simp add: fw_inv_def buffers_inv_def pios_def driver_ok_def)

lemma poll_tx_pipeline_inv:
  assumes "fw_inv (snd st)"
  shows "\<exists>st'. snd (poll_tx_pipeline k st) = Running st' \<and> fw_inv (snd st')"
proof -
  obtain rt fw where st: "st = (rt, fw)"
    by (cases st)
  have inv: "fw_inv fw"
    using assms st by simp
  let ?q1 = "snd (poll_queue_stats (ac_tx_queue (fw_app fw)))"
  obtain err m q2 d where drain: "tx_queue_drain k TX_QUEUE_DRAIN_CHUNK_SIZE ?q1 (fw_driver fw) = (err, m, q2, d)"
    by (metis prod_cases4)
  have "tx_inv ?q1 (w_received (fw_net fw)) (st_hdlc_tx_frames (ac_stats (fw_app fw))) (st_tx_queue_drop_frames (ac_stats (fw_app fw))) (wire (fw_driver fw))"
    using inv tx_inv_stats by (simp add: fw_inv_def)
  note tx = tx_inv_drain [OF this drain]
  have ok: "driver_ok d"
    using pios_drain [OF drain] inv by (simp add: fw_inv_def driver_ok_def pios_def)
  note fw1 = fw_inv_tx [OF inv tx pios_drain [OF drain]]
  obtain r d1 where poll: "tx_poll k d = Some (r, d1)"
    using tx_poll_defined [OF ok] by blast
  have "fw_inv (((upd_app (\<lambda>app. app\<lparr>ac_tx_queue := q2\<rparr>) fw)\<lparr>fw_driver := d\<rparr>)\<lparr>fw_driver := d1\<rparr>)"
    by (rule fw_inv_driver [OF fw1]) (use silent_tx_poll [OF poll] in simp)
  then show ?thesis
    using fw1 drain poll by (simp add: st poll_tx_pipeline_def split_beta Let_def)
qed

lemma enqueue_tx_inv:
  assumes inv: "tx_inv q ds a r w" and room: "tx_queue_get_count q < TX_QUEUE_HIGH_WM"
    and run: "tx_queue_enqueue_udp_frame q f = (err, q')"
  shows "tx_inv q' (ds @ [take (uf_length f) (uf_payload f)]) (a + (if err = E2S_OK then 1 else 0)) r w" "err \<noteq> E2S_ERR_TX_QUEUE_FULL"
proof -
  have q: "tq_inv q" and drops: "r = 0"
    using inv by (simp_all add: tx_inv_def)
  have log: "tx_log (map (hdlc_frame True) (line_payloads ds)) w q" "a = of_nat (length (line_payloads ds))"
    using inv by (simp_all add: tx_inv_def)
  let ?data = "take (uf_length f) (uf_payload f)"
  have not_full: "rb_count (tq_queue_buffer q) \<noteq> TX_FRAME_QUEUE_SIZE"
    using room by (simp add: tx_queue_get_count_def TX_QUEUE_HIGH_WM_def TX_FRAME_QUEUE_SIZE_def)
  show "err \<noteq> E2S_ERR_TX_QUEUE_FULL"
    using enqueue_run [OF q, of f] not_full run by (auto split: if_splits)
  show "tx_inv q' (ds @ [?data]) (a + (if err = E2S_OK then 1 else 0)) r w"
  proof (cases "err = E2S_OK")
    case False
    then have "q' = q" "line_payloads (ds @ [?data]) = line_payloads ds"
      using enqueue_run [OF q, of f] not_full run by (auto simp: line_payloads_def split: if_splits)
    then show ?thesis
      using inv False by (simp add: tx_inv_def)
  next
    case True
    then have acc: "tq_inv q'" "queued_frames q' = queued_frames q @ [hdlc_frame True ?data]"
        "current_bytes q' = current_bytes q" "current_offset q' = current_offset q"
        "line_payloads (ds @ [?data]) = line_payloads ds @ [?data]"
      using enqueue_run [OF q, of f] not_full run by (auto simp: line_payloads_def split: if_splits)
    have "tx_log (map (hdlc_frame True) (line_payloads ds @ [?data])) w q'"
      using tx_log_same [OF q acc(1,3,4,2) log(1)] by simp
    moreover have "tx_queue_get_count q' \<le> TX_QUEUE_HIGH_WM"
      using queued_frames_count [OF acc(1)] queued_frames_count [OF q] acc(2) room by simp
    ultimately show ?thesis
      using True acc(1,5) drops log(2) by (simp add: tx_inv_def)
  qed
qed

lemma wipe_frame_is_clean:
  assumes "frame_clean f"
  shows "frame_clean (wipe_frame f)"
  using wipe_frame_clean [OF assms] by (simp add: frame_clean_def)

lemma poll_and_enqueue_udp_rx_inv:
  assumes "recvfrom_contract z" "fw_inv (snd st)" "tx_queue_get_count (ac_tx_queue (fw_app (snd st))) < TX_QUEUE_HIGH_WM"
  shows "fw_inv (snd (poll_and_enqueue_udp_rx z st))"
proof -
  obtain rt fw where st: "st = (rt, fw)"
    by (cases st)
  have inv: "fw_inv fw" and clean: "frame_clean (ac_rx_frame_buffer (fw_app fw))"
    using assms(2) st by (simp_all add: fw_inv_def buffers_inv_def)
  obtain got sender frame n where poll: "w5500_poll_rx z (ac_sender_config (fw_app fw)) (ac_rx_frame_buffer (fw_app fw)) (fw_net fw)
      = (got, sender, frame, n)"
    by (metis prod_cases4)
  note rx = w5500_poll_rx_step [OF assms(1) clean poll refl]
  obtain err q where enq: "tx_queue_enqueue_udp_frame (ac_tx_queue (fw_app fw)) frame = (err, q)"
    by fastforce
  have "tx_inv (ac_tx_queue (fw_app fw)) (w_received (fw_net fw)) (st_hdlc_tx_frames (ac_stats (fw_app fw)))
      (st_tx_queue_drop_frames (ac_stats (fw_app fw))) (wire (fw_driver fw))"
    using inv by (simp add: fw_inv_def)
  note tx = enqueue_tx_inv [OF this _ enq]
  have "net_sent n = net_sent (fw_net fw)"
    using rx(6) by (simp add: net_sent_def)
  then show ?thesis
    using inv rx(3,7) wipe_frame_is_clean [OF rx(3)] tx assms(3)
    by (simp add: st poll_and_enqueue_udp_rx_def poll enq Let_def fw_inv_def buffers_inv_def)
qed

lemma loop_udp_rx_inv:
  assumes "recvfrom_contract z" "fw_inv (snd st)"
  shows "fw_inv (snd (loop_udp_rx z st))"
proof -
  obtain rt fw where thr: "update_udp_rx_throttle_state st = (rt, fw)"
    by fastforce
  have inv: "fw_inv fw"
    by (rule same_view_inv [OF _ assms(2)])
      (use thr in \<open>auto simp: update_udp_rx_throttle_state_def same_view_def upd_stats_def Let_def
        split: prod.splits if_splits\<close>)
  have room: "tx_queue_get_count (ac_tx_queue (fw_app fw)) < TX_QUEUE_HIGH_WM" if "\<not> el_udp_rx_throttled rt"
    using thr that by (auto simp: update_udp_rx_throttle_state_def upd_stats_def Let_def TX_QUEUE_HIGH_WM_def TX_QUEUE_LOW_WM_def
        split: prod.splits if_splits)
  show ?thesis
  proof (cases "el_udp_rx_throttled rt")
    case True
    then show ?thesis
      using fw_inv_stats [OF inv] by (simp add: loop_udp_rx_def thr)
  next
    case False
    then show ?thesis
      using poll_and_enqueue_udp_rx_inv [OF assms(1), of "(rt, fw)"] inv room by (simp add: loop_udp_rx_def thr)
  qed
qed

section \<open>Decoding\<close>

lemma sync_inv_hunting:
  assumes "acc_ok acc" "sa_state acc = HDLC_SYNC_STATE_HUNTING" "frame_wf f" "0 < hf_capacity f"
  shows "sync_inv acc f"
  using assms by (simp add: sync_inv_def poll_inv_def locked_def acc_ok_def)

lemma sync_inv_parts:
  assumes "sync_inv acc f"
  shows "acc_ok acc" "frame_wf f" "0 < hf_capacity f" "length (sa_buffer acc) = RX_HDLC_SYNC_MAX_BUFFER_SIZE"
  using assms by (simp_all add: sync_inv_def poll_inv_def acc_ok_def)

lemma clear_hdlc_frame_wf:
  assumes "frame_wf f"
  shows "frame_wf (clear_hdlc_frame f)" "hf_capacity (clear_hdlc_frame f) = hf_capacity f"
  using assms by (auto simp: frame_wf_def clear_hdlc_frame_def)

text \<open>Starting over is always possible.\<close>

lemma restart_inv:
  assumes "sync_inv acc f" "frame_wf f'" "0 < hf_capacity f'"
  shows "sync_inv (hdlc_sync_acc_init (sa_buffer acc) flag) f'"
  using hdlc_sync_acc_init_inv(1) [OF sync_inv_parts(4) [OF assms(1)] assms(2,3)] .

text \<open>What decoding does with any frame: a success is a reference decoding.\<close>

lemma hdlc_decode_any:
  assumes "frame_wf f" "0 < cap" "cap \<le> length buf"
  shows "\<exists>ok buf' len stats'. hdlc_decode (Some f) (Some buf) cap (Some 0) lsb stats = (ok, Some buf', Some len, stats')
    \<and> length buf' = length buf
    \<and> (ok \<longrightarrow> flagged f \<and> (\<exists>data. hdlc_decode_spec lsb cap (frame_body f) = Inr data \<and> take len buf' = data \<and> len = length data))"
proof (cases "flagged f")
  case True
  note run = hdlc_decode_run [OF assms(1) True assms(2,3), of lsb stats 0]
  show ?thesis
  proof (cases "hdlc_decode_spec lsb cap (frame_body f)")
    case (Inl fl)
    then show ?thesis
      using run by (auto simp: decode_reports_def)
  next
    case (Inr data)
    then obtain buf' where "length buf' = length buf" "take (length data) buf' = data"
      "hdlc_decode (Some f) (Some buf) cap (Some 0) lsb stats = (True, Some buf', Some (length data), stats)"
      using run by (auto simp: decode_reports_def)
    then show ?thesis
      using Inr True by blast
  qed
next
  case False
  then show ?thesis
    by (auto simp: hdlc_decode_def flagged_def decode_abort_def)
qed

lemma hdlc_decode_spec_short:
  assumes "hdlc_decode_spec lsb cap body = Inr data"
  shows "length data + 2 \<le> cap"
proof -
  obtain u err where "unstuff 0 (bytes_bits lsb body) = (u, err)"
    by fastforce
  with assms show ?thesis
    by (auto simp: hdlc_decode_spec_def check_crc_spec_def Let_def split: if_splits
        dest: arg_cong [of _ _ length])
qed

text \<open>A reported candidate starts inside the raw stream, so consuming it removes bytes.\<close>

lemma candidate_progress:
  assumes "sync_inv acc f" "candidate_ready acc f"
  shows "length (raw (hdlc_sync_acc_consume_candidate acc accept)) < length (raw acc)"
    "acc_ok (hdlc_sync_acc_consume_candidate acc accept)"
    "sa_state (hdlc_sync_acc_consume_candidate acc accept) = HDLC_SYNC_STATE_HUNTING"
proof -
  have ok: "acc_ok acc" and valid: "sa_candidate_valid acc"
    using assms sync_inv_parts(1) by (auto simp: candidate_ready_def)
  have "sa_candidate_start acc < sa_candidate_end acc - 1" "sa_candidate_end acc \<le> length (raw acc)"
    using assms(2) length_raw [OF ok] by (auto simp: candidate_ready_def follows_def)
  then have "length (drop (if accept then sa_candidate_end acc else sa_candidate_start acc + 1) (raw acc)) < length (raw acc)"
    by auto
  then show "length (raw (hdlc_sync_acc_consume_candidate acc accept)) < length (raw acc)"
    using consume_candidate_raw(1) [OF ok valid, of accept] by (auto simp: RX_HDLC_SYNC_MAX_BUFFER_SIZE_def)
  show "acc_ok (hdlc_sync_acc_consume_candidate acc accept)"
    "sa_state (hdlc_sync_acc_consume_candidate acc accept) = HDLC_SYNC_STATE_HUNTING"
    using consume_candidate_raw(2,3) [OF ok valid, of accept] by simp_all
qed

definition raw_len :: "('h, 'w) firmware \<Rightarrow> nat" where
  "raw_len fw = length (raw (ac_accumulator (fw_app fw)))"

lemma poll_accumulator_inv:
  assumes "fw_inv fw" "poll_accumulator fw = (e, fw')"
  shows "fw_inv fw'" "raw_len fw' \<le> raw_len fw"
    "e = E2S_ERR_HDLC_ACC_FRAME_READY \<Longrightarrow> candidate_ready (ac_accumulator (fw_app fw')) (ac_reconstructed_frame (fw_app fw'))"
proof -
  obtain acc f where poll: "hdlc_sync_acc_poll (ac_accumulator (fw_app fw)) (ac_reconstructed_frame (fw_app fw)) = (e, acc, f)"
    and fw': "fw' = upd_app (\<lambda>app. app\<lparr>ac_accumulator := acc, ac_reconstructed_frame := f\<rparr>) fw"
    using assms(2) by (auto simp: poll_accumulator_def split: prod.splits)
  note post = hdlc_sync_acc_poll_post [OF fw_inv_sync [OF assms(1)] poll]
  show "fw_inv fw'"
    using assms(1) post(1) subseq_order.trans [OF suffix_imp_subseq [OF post(2)]]
    by (simp add: fw' fw_inv_def buffers_inv_def)
  show "raw_len fw' \<le> raw_len fw"
    using suffix_length_le [OF post(2)] by (simp add: fw' raw_len_def)
  show "candidate_ready (ac_accumulator (fw_app fw')) (ac_reconstructed_frame (fw_app fw'))"
    if "e = E2S_ERR_HDLC_ACC_FRAME_READY"
    using post(3) that by (auto simp: fw')
qed

text \<open>A candidate with the flags the decoder asks for is a stretch of the raw stream between two flags.\<close>

lemma candidate_window:
  assumes "candidate_ready acc f" "frame_wf f" "flagged f"
  shows "\<exists>phase start. aligned_at (raw acc) phase start = Some HDLC_FLAG_BYTE
    \<and> map Some (frame_body f) = map (aligned_at (raw acc) phase) [Suc start..<Suc start + length (frame_body f)]
    \<and> aligned_at (raw acc) phase (Suc start + length (frame_body f)) = Some HDLC_FLAG_BYTE"
proof -
  obtain phase w where w: "frame_bytes f = w @ [sa_sync_byte acc]" "2 \<le> length w"
      "follows (raw acc) (sa_sync_byte acc) phase (sa_candidate_start acc) (sa_candidate_end acc - 1) w"
      "aligned_at (raw acc) phase (sa_candidate_end acc - 1) = Some (sa_sync_byte acc)"
    using assms(1) by (auto simp: candidate_ready_def)
  define start where "start = sa_candidate_start acc"
  define stop where "stop = sa_candidate_end acc - 1"
  have fol: "start < stop" "map Some w = map (aligned_at (raw acc) phase) [start..<stop]" "w ! 0 = sa_sync_byte acc"
    using w(3) by (simp_all add: follows_def start_def stop_def)
  obtain x body where body: "w = x # body"
    using w(2) by (cases w) auto
  have bytes: "take (hf_length f) (hf_payload f) = x # body @ [sa_sync_byte acc]"
    using w(1) body by (simp add: frame_bytes_def)
  have len: "hf_length f = length body + 2" "hf_length f \<le> length (hf_payload f)"
    using length_frame_bytes [OF assms(2)] w(1) body assms(2) by (simp_all add: frame_wf_def)
  have "hf_payload f ! 0 = x"
    using arg_cong [OF bytes, of "\<lambda>l. l ! 0"] len by simp
  then have flag: "sa_sync_byte acc = HDLC_FLAG_BYTE" "x = HDLC_FLAG_BYTE"
    using assms(3) fol(3) body by (simp_all add: flagged_def)
  have "frame_body f = take (length body) (drop 1 (take (hf_length f) (hf_payload f)))"
    using len by (simp add: frame_body_def drop_take)
  then have fb: "frame_body f = body"
    by (simp add: bytes)
  have "stop = Suc start + length body"
    using arg_cong [OF fol(2), of length] body fol(1) by simp
  moreover from fol(1,2) have "Some x = aligned_at (raw acc) phase start"
      "map Some body = map (aligned_at (raw acc) phase) [Suc start..<stop]"
    by (simp_all add: body upt_conv_Cons)
  ultimately show ?thesis
    using w(4) flag fb by (intro exI [of _ phase] exI [of _ start]) (simp add: stop_def)
qed

lemma forwarded_send:
  assumes "forwarded_ok (net_sent n) c rx" "line_frame rx data"
    and "uf_length f = length data" "take (uf_length f) (uf_payload f) = data"
  shows "forwarded_ok (net_sent (w5500_udp_tx z cfg f n)) (c + 1) rx"
proof -
  have "uf_length f < 2 ^ 16"
    using assms(2,3) hdlc_decode_spec_short by (fastforce simp: line_frame_def TX_BUF_SIZE_def)
  from w5500_udp_tx_sent [OF this, of z cfg n] show ?thesis
    using assms by (auto simp: forwarded_ok_def)
qed

lemma subseq_consume:
  assumes "subseq (raw acc) rx" "acc_ok acc"
  shows "subseq (raw (hdlc_sync_acc_consume_candidate acc accept)) rx"
proof (cases "sa_candidate_valid acc")
  case True
  let ?rest = "drop (if accept then sa_candidate_end acc else sa_candidate_start acc + 1) (raw acc)"
  have "subseq (raw (hdlc_sync_acc_consume_candidate acc accept)) ?rest"
    unfolding consume_candidate_raw(1) [OF assms(2) True] by (auto intro: suffix_imp_subseq suffix_drop simp del: drop_drop)
  moreover have "subseq ?rest (raw acc)"
    by (simp add: suffix_imp_subseq suffix_drop)
  ultimately show ?thesis
    using assms(1) subseq_order.trans by blast
next
  case False
  then show ?thesis
    using assms(1) by (simp add: hdlc_sync_acc_consume_candidate_def)
qed

lemma decode_accepted_inv:
  assumes inv: "fw_inv fw" and cand: "candidate_ready (ac_accumulator (fw_app fw)) (ac_reconstructed_frame (fw_app fw))"
    and dec: "line_frame (dr_rx (fw_driver fw)) data" "uf_length (ac_tx_frame_buffer (fw_app fw)) = length data"
      "take (uf_length (ac_tx_frame_buffer (fw_app fw))) (uf_payload (ac_tx_frame_buffer (fw_app fw))) = data"
  shows "fw_inv (snd (decode_accepted z (rt, fw)))" "raw_len (snd (decode_accepted z (rt, fw))) < raw_len fw"
    "sa_state (ac_accumulator (fw_app (snd (decode_accepted z (rt, fw))))) = HDLC_SYNC_STATE_HUNTING"
proof -
  note sync = fw_inv_sync [OF inv]
  note prog = candidate_progress [OF sync cand, of True]
  have rx: "w_received (w5500_udp_tx z cfg f n) = w_received n" for cfg f n
    by (simp add: w5500_udp_tx_def)
  have fwd: "forwarded_ok (net_sent (fw_net fw)) (st_udp_tx_frames (ac_stats (fw_app fw))) (dr_rx (fw_driver fw))"
    and sub: "subseq (raw (ac_accumulator (fw_app fw))) (dr_rx (fw_driver fw))"
    using inv by (simp_all add: fw_inv_def)
  show "fw_inv (snd (decode_accepted z (rt, fw)))"
    using inv consume_candidate_inv [OF sync, of True] forwarded_send [OF fwd dec, of z "ac_destination_config (fw_app fw)"]
      subseq_consume [OF sub sync_inv_parts(1) [OF sync], of True]
    by (simp add: decode_accepted_def fw_inv_def buffers_inv_def upd_stats_def rx)
  show "raw_len (snd (decode_accepted z (rt, fw))) < raw_len fw"
    "sa_state (ac_accumulator (fw_app (snd (decode_accepted z (rt, fw))))) = HDLC_SYNC_STATE_HUNTING"
    using prog by (simp_all add: decode_accepted_def raw_len_def upd_stats_def)
qed

lemma raw_restart [simp]: "raw (hdlc_sync_acc_init b flag) = []"
  by (simp add: raw_def hdlc_sync_acc_init_def)

lemma decode_rejected_inv:
  assumes inv: "fw_inv fw" and cand: "candidate_ready (ac_accumulator (fw_app fw)) (ac_reconstructed_frame (fw_app fw))"
  shows "fw_inv (snd (decode_rejected (rt, fw)))" "raw_len (snd (decode_rejected (rt, fw))) < raw_len fw"
    "sa_state (ac_accumulator (fw_app (snd (decode_rejected (rt, fw))))) = HDLC_SYNC_STATE_HUNTING"
proof -
  note sync = fw_inv_sync [OF inv]
  note prog = candidate_progress [OF sync cand, of False]
  note kept = consume_candidate_inv [OF sync, of False]
  have again: "sync_inv (hdlc_sync_acc_init (sa_buffer (hdlc_sync_acc_consume_candidate (ac_accumulator (fw_app fw)) False)) HDLC_FLAG_BYTE)
      (ac_reconstructed_frame (fw_app fw))"
    by (rule restart_inv [OF kept sync_inv_parts(2,3) [OF kept]])
  have "subseq (raw (hdlc_sync_acc_consume_candidate (ac_accumulator (fw_app fw)) False)) (dr_rx (fw_driver fw))"
    using subseq_consume [OF _ sync_inv_parts(1) [OF sync]] inv by (simp add: fw_inv_def)
  then show "fw_inv (snd (decode_rejected (rt, fw)))"
    using inv kept again
    by (simp add: decode_rejected_def fw_inv_def buffers_inv_def upd_stats_def acc_restart_def Let_def)
  show "raw_len (snd (decode_rejected (rt, fw))) < raw_len fw"
    using prog(1) by (auto simp: decode_rejected_def raw_len_def upd_stats_def acc_restart_def Let_def)
  show "sa_state (ac_accumulator (fw_app (snd (decode_rejected (rt, fw))))) = HDLC_SYNC_STATE_HUNTING"
    using prog(3) by (simp add: decode_rejected_def upd_stats_def acc_restart_def Let_def hdlc_sync_acc_init_def)
qed

lemma clear_reconstructed_inv:
  assumes "fw_inv fw" "sa_state (ac_accumulator (fw_app fw)) = HDLC_SYNC_STATE_HUNTING"
  shows "fw_inv (upd_app clear_reconstructed fw)" "raw_len (upd_app clear_reconstructed fw) = raw_len fw"
proof -
  note sync = sync_inv_parts [OF fw_inv_sync [OF assms(1)]]
  have "sync_inv (ac_accumulator (fw_app fw)) (clear_hdlc_frame (ac_reconstructed_frame (fw_app fw)))"
    using sync_inv_hunting [OF sync(1) assms(2)] clear_hdlc_frame_wf [OF sync(2)] sync(3) by simp
  then show "fw_inv (upd_app clear_reconstructed fw)"
    using assms(1) by (simp add: fw_inv_def buffers_inv_def clear_reconstructed_def)
  show "raw_len (upd_app clear_reconstructed fw) = raw_len fw"
    by (simp add: raw_len_def clear_reconstructed_def)
qed

lemma decode_hdlc_to_udp_tx_inv:
  assumes inv: "fw_inv fw" and cand: "candidate_ready (ac_accumulator (fw_app fw)) (ac_reconstructed_frame (fw_app fw))"
  shows "fw_inv (snd (decode_hdlc_to_udp_tx z (rt, fw)))" "raw_len (snd (decode_hdlc_to_udp_tx z (rt, fw))) < raw_len fw"
proof -
  define fw1 where "fw1 = upd_app (upd_stats (\<lambda>s. s\<lparr>st_hdlc_frame_ready := st_hdlc_frame_ready s + 1\<rparr>)) fw"
  define rt1 where "rt1 = rt\<lparr>el_work_done := True, el_last_frame_ready_bytes := st_serial_rx_bytes (ac_stats (fw_app fw1))\<rparr>"
  have frame1: "ac_reconstructed_frame (fw_app fw1) = ac_reconstructed_frame (fw_app fw)"
      "ac_tx_frame_buffer (fw_app fw1) = ac_tx_frame_buffer (fw_app fw)" "ac_accumulator (fw_app fw1) = ac_accumulator (fw_app fw)"
    by (simp_all add: fw1_def upd_stats_def)
  have inv1: "fw_inv fw1"
    unfolding fw1_def by (rule fw_inv_stats [OF inv]) simp_all
  have buf: "TX_BUF_SIZE \<le> length (uf_payload (ac_tx_frame_buffer (fw_app fw1)))" "0 < TX_BUF_SIZE"
    using inv1 by (simp_all add: fw_inv_def buffers_inv_def TX_BUF_SIZE_def)
  from hdlc_decode_any [OF sync_inv_parts(2) [OF fw_inv_sync [OF inv1]] buf(2,1), of True "fw_decode_stats fw1"]
  obtain ok buf' len stats' where dec: "hdlc_decode (Some (ac_reconstructed_frame (fw_app fw1)))
        (Some (uf_payload (ac_tx_frame_buffer (fw_app fw1)))) TX_BUF_SIZE (Some 0) True (fw_decode_stats fw1)
      = (ok, Some buf', Some len, stats')" "length buf' = length (uf_payload (ac_tx_frame_buffer (fw_app fw1)))"
    and good: "ok \<Longrightarrow> flagged (ac_reconstructed_frame (fw_app fw1)) \<and> (\<exists>data. hdlc_decode_spec True TX_BUF_SIZE (frame_body (ac_reconstructed_frame (fw_app fw1))) = Inr data
        \<and> take len buf' = data \<and> len = length data)"
    by blast
  define fw2 where "fw2 = (upd_app (\<lambda>app. app\<lparr>ac_tx_frame_buffer := \<lparr>uf_payload = buf', uf_length = len\<rparr>\<rparr>) fw1)\<lparr>fw_decode_stats := stats'\<rparr>"
  have inv2: "fw_inv fw2"
    using inv1 dec(2) by (simp add: fw2_def fw_inv_def buffers_inv_def)
  have cand2: "candidate_ready (ac_accumulator (fw_app fw2)) (ac_reconstructed_frame (fw_app fw2))"
    using cand frame1 by (simp add: fw2_def)
  define st3 where "st3 = (if ok then decode_accepted z (rt1, fw2) else decode_rejected (rt1, fw2))"
  have step: "decode_hdlc_to_udp_tx z (rt, fw) = (fst st3, upd_app clear_reconstructed (snd st3))"
    unfolding decode_hdlc_to_udp_tx_def prod.case Let_def fw1_def [symmetric] rt1_def [symmetric] dec(1) option.sel
      fw2_def [symmetric] st3_def [symmetric] by (rule split_beta)
  have raw2: "raw_len fw2 = raw_len fw"
    by (simp add: raw_len_def fw2_def frame1)
  have st3: "fw_inv (snd st3) \<and> raw_len (snd st3) < raw_len fw2
      \<and> sa_state (ac_accumulator (fw_app (snd st3))) = HDLC_SYNC_STATE_HUNTING"
  proof (cases ok)
    case True
    obtain data where data: "hdlc_decode_spec True TX_BUF_SIZE (frame_body (ac_reconstructed_frame (fw_app fw1))) = Inr data"
      "take len buf' = data" "len = length data" "flagged (ac_reconstructed_frame (fw_app fw2))"
      using good [OF True] by (fastforce simp: fw2_def)
    have "subseq (raw (ac_accumulator (fw_app fw2))) (dr_rx (fw_driver fw2))"
      using inv2 by (simp add: fw_inv_def)
    moreover have "frame_body (ac_reconstructed_frame (fw_app fw1)) = frame_body (ac_reconstructed_frame (fw_app fw2))"
      by (simp add: fw2_def)
    ultimately have "line_frame (dr_rx (fw_driver fw2)) data"
      using candidate_window [OF cand2 sync_inv_parts(2) [OF fw_inv_sync [OF inv2]] data(4)] data(1)
      unfolding line_frame_def by metis
    then show ?thesis
      using decode_accepted_inv [OF inv2 cand2, of data z rt1] True data(2,3)
      by (simp add: st3_def) (simp add: fw2_def)
  next
    case False
    then show ?thesis
      using decode_rejected_inv [OF inv2 cand2, of rt1] by (simp add: st3_def)
  qed
  then show "fw_inv (snd (decode_hdlc_to_udp_tx z (rt, fw)))" "raw_len (snd (decode_hdlc_to_udp_tx z (rt, fw))) < raw_len fw"
    using clear_reconstructed_inv [of "snd st3"] raw2 by (simp_all add: step)
qed

lemma decode_events:
  fixes z :: "'w wiznet" and fw :: "('h, 'w) firmware"
  shows "fw_events (snd (decode_hdlc_to_udp_tx z (rt, fw))) = fw_events fw"
proof -
  have "fw_events (snd (decode_accepted z (rt', fw'))) = fw_events fw'" for rt' and fw' :: "('h, 'w) firmware"
    by (simp add: decode_accepted_def)
  moreover have "fw_events (snd (decode_rejected (rt', fw'))) = fw_events fw'" for rt' and fw' :: "('h, 'w) firmware"
    by (simp add: decode_rejected_def Let_def)
  ultimately show ?thesis
    by (simp add: decode_hdlc_to_udp_tx_def split_beta Let_def)
qed

lemma drain_frames_returns:
  assumes "fw_inv (snd st)"
  shows "\<exists>st'. drain_hdlc_frames_to_udp z st = Some st' \<and> fw_inv (snd st') \<and> fw_events (snd st') = fw_events (snd st)"
  using assms
proof (induction "raw_len (snd st)" arbitrary: st rule: less_induct)
  case less
  obtain e fw1 where poll: "poll_accumulator (snd st) = (e, fw1)"
    by fastforce
  note step = poll_accumulator_inv [OF less.prems poll]
  have ev: "fw_events fw1 = fw_events (snd st)"
    using poll by (auto simp: poll_accumulator_def split: prod.splits)
  show ?case
  proof (cases "e = E2S_ERR_HDLC_ACC_FRAME_READY")
    case True
    note dec = decode_hdlc_to_udp_tx_inv [OF step(1) step(3) [OF True], of z "fst st"]
    from less.hyps [OF _ dec(1)] dec(2) step(2) show ?thesis
      using True ev by (subst drain_hdlc_frames_to_udp.simps) (simp add: poll decode_events)
  next
    case False
    note sync = fw_inv_sync [OF step(1)]
    have frame: "frame_wf ((ac_reconstructed_frame (fw_app fw1))\<lparr>hf_length := 0\<rparr>)"
        "0 < hf_capacity ((ac_reconstructed_frame (fw_app fw1))\<lparr>hf_length := 0\<rparr>)"
      using sync_inv_parts(2,3) [OF sync] by (simp_all add: frame_wf_def)
    have "fw_inv (upd_app (\<lambda>app. acc_restart
             (app\<lparr>ac_reconstructed_frame := (ac_reconstructed_frame app)\<lparr>hf_length := 0\<rparr>\<rparr>)) fw1)"
      using step(1) restart_inv [OF sync frame] by (simp add: fw_inv_def buffers_inv_def acc_restart_def)
    then show ?thesis
      using False step(1) ev by (subst drain_hdlc_frames_to_udp.simps) (simp add: poll)
  qed
qed

section \<open>Resynchronisation and bookkeeping\<close>

lemma resync_inv:
  assumes "fw_inv fw" "\<And>s. st_hdlc_tx_frames (f s) = st_hdlc_tx_frames s"
    "\<And>s. st_tx_queue_drop_frames (f s) = st_tx_queue_drop_frames s" "\<And>s. st_udp_tx_frames (f s) = st_udp_tx_frames s"
  shows "fw_inv (upd_app (\<lambda>app. clear_reconstructed (acc_restart (upd_stats f app))) fw)"
proof -
  note sync = fw_inv_sync [OF assms(1)]
  note parts = sync_inv_parts [OF sync]
  have "sync_inv (hdlc_sync_acc_init (sa_buffer (ac_accumulator (fw_app fw))) HDLC_FLAG_BYTE)
      (clear_hdlc_frame (ac_reconstructed_frame (fw_app fw)))"
    using restart_inv [OF sync] clear_hdlc_frame_wf [OF parts(2)] parts(3) by simp
  then show ?thesis
    using assms by (simp add: fw_inv_def buffers_inv_def clear_reconstructed_def acc_restart_def upd_stats_def)
qed

lemma poll_hdlc_idle_timeout_inv:
  assumes "fw_inv (snd st)"
  shows "fw_inv (snd (poll_hdlc_idle_timeout now st))"
  using assms resync_inv [of "snd st"] by (auto simp: poll_hdlc_idle_timeout_def Let_def split_beta)

lemma poll_hdlc_no_progress_inv:
  assumes "fw_inv (snd st)"
  shows "fw_inv (snd (poll_hdlc_no_progress k st))"
proof -
  let ?fw = "upd_app (\<lambda>app. clear_reconstructed (acc_restart (upd_stats
      (\<lambda>s. s\<lparr>st_resync_no_progress_count := st_resync_no_progress_count s + 1\<rparr>) app))) (snd st)"
  have "fw_inv ?fw"
    by (rule resync_inv [OF assms]) simp_all
  then have "fw_inv (?fw\<lparr>fw_driver := rx_clock_hard_reset k (fw_driver (snd st))\<rparr>)"
    by (rule fw_inv_driver) simp
  then show ?thesis
    using assms by (auto simp: poll_hdlc_no_progress_def Let_def split_beta)
qed

lemma housekeeping_same_view:
  "same_view fw (update_statistics fw)" "same_view fw (loop_stall_stats k fw)" "same_view fw (loop_prompt fw)"
  "same_view fw (loop_buffer_stats z fw)"
proof -
  show "same_view fw (update_statistics fw)"
    by (simp add: update_statistics_def same_view_def upd_stats_def Let_def split_beta)
  show "same_view fw (loop_stall_stats k fw)"
    by (simp add: loop_stall_stats_def same_view_def upd_stats_def Let_def split_beta)
  show "same_view fw (loop_prompt fw)"
    by (simp add: loop_prompt_def print_prompt_def same_view_def Let_def split_beta)
  have "w_trace (snd (snd (w5500_poll_udp_buffer_full_events z n))) = w_trace n"
    "w_received (snd (snd (w5500_poll_udp_buffer_full_events z n))) = w_received n" for n
    by (simp_all add: w5500_poll_udp_buffer_full_events_def split_beta Let_def)
  then show "same_view fw (loop_buffer_stats z fw)"
    by (simp add: loop_buffer_stats_def same_view_def upd_stats_def Let_def split_beta net_sent_def)
qed

section \<open>Console and events\<close>

lemma queued_event_line [simp]: "queued_event (cli_line_event slot line)"
  by (auto simp: queued_event_def)

lemma queued_event_push:
  assumes "eq_inv q" "\<forall>e\<in>set (eq_contents q). queued_event e" "queued_event e"
  shows "\<forall>e\<in>set (eq_contents (snd (event_queue_push e q))). queued_event e"
  using assms(2,3) queue_push_cases(2) [OF assms(1), of e] by (auto simp: spec_push_def)

lemma process_char_events_inv:
  assumes "events_inv (fst c) (snd c)"
  shows "events_inv (fst (cli_process_char i c)) (snd (cli_process_char i c))"
proof -
  obtain s q where c: "c = (s, q)"
    by (cases c)
  have inv: "console_inv (s, q)" and es: "\<forall>e\<in>set (eq_contents q). queued_event e"
    using assms by (simp_all add: events_inv_def c)
  have eq: "eq_inv q"
    using inv by (simp add: console_inv_def)
  have "snd (cli_process_char i c) = q \<or> (\<exists>slot line. snd (cli_process_char i c) = snd (event_queue_push (cli_line_event slot line) q))"
    using end_of_line_state [OF inv] by (auto simp: c cli_process_char_def)
  then have "\<forall>e\<in>set (eq_contents (snd (cli_process_char i c))). queued_event e"
    using es queued_event_push [OF eq es] queued_event_line by metis
  moreover have "console_inv (cli_process_char i c)"
    using key_refines(1) [of c i] inv c by simp
  ultimately show ?thesis
    by (simp add: events_inv_def)
qed

lemma cli_poll_loop_inv:
  assumes "events_inv (fst c) (snd c)" "cli_poll_loop k n (c, d) = (c', d')"
  shows "events_inv (fst c') (snd c') \<and> silent d d'"
  using assms
proof (induction n arbitrary: c d)
  case 0
  then show ?case by simp
next
  case (Suc n)
  show ?case
  proof (cases "sint (fst (hw_ask k Getchar_timeout_us d)) = PICO_ERROR_TIMEOUT k")
    case True
    then show ?thesis
      using Suc.prems silent_ask [of d k Getchar_timeout_us] by (auto simp: Let_def split_beta)
  next
    case False
    let ?c = "cli_process_char (sint (fst (hw_ask k Getchar_timeout_us d))) c"
    have "events_inv (fst c') (snd c') \<and> silent (snd (hw_ask k Getchar_timeout_us d)) d'"
      using Suc.IH [OF process_char_events_inv [OF Suc.prems(1)]] Suc.prems(2) False by (simp add: Let_def split_beta)
    then show ?thesis
      using silent_trans [OF silent_ask [of d k Getchar_timeout_us]] by blast
  qed
qed

lemma loop_cli_poll_inv:
  assumes "fw_inv fw"
  shows "fw_inv (loop_cli_poll k fw)"
proof -
  obtain c d where poll: "cli_poll_loop k CLI_MAX_CHARS_PER_POLL ((fw_cli fw, fw_events fw), fw_driver fw) = (c, d)"
    by fastforce
  have "events_inv (fst c) (snd c) \<and> silent (fw_driver fw) d"
    using cli_poll_loop_inv [OF _ poll] assms by (simp add: fw_inv_def)
  then show ?thesis
    using assms poll silent_driver_ok [of "fw_driver fw" d]
    by (simp add: loop_cli_poll_def cli_poll_def split_beta Let_def fw_inv_def buffers_inv_def silent_def pios_def)
qed

section \<open>Dispatching\<close>

text \<open>A step that ends well: the invariant holds and nothing undefined happened.\<close>

fun ends_well :: "('h, 'w) firmware outcome \<Rightarrow> bool" where
  "ends_well (Running fw) = fw_inv fw"
| "ends_well (Stopped why fw) = (why \<noteq> Undefined \<and> fw_inv fw)"

fun returns_well :: "('r \<times> ('h, 'w) firmware) outcome \<Rightarrow> bool" where
  "returns_well (Running (_, fw)) = fw_inv fw"
| "returns_well (Stopped why (_, fw)) = (why \<noteq> Undefined \<and> fw_inv fw)"

lemma returns_well_then:
  assumes "returns_well r" "\<And>v fw. fw_inv fw \<Longrightarrow> ends_well (f v fw)"
  shows "ends_well (returning r f)"
  using assms by (cases "(r, f)" rule: returning.cases) simp_all

lemma events_inv_push:
  assumes "events_inv cli q" "command_event e"
  shows "events_inv cli (snd (event_queue_push e q))"
  using assms queue_event_refines(1) [of cli q e] queued_event_push [of q e] command_event_no_line
  by (auto simp: events_inv_def queued_event_def console_inv_def)

lemma push_event_inv: "fw_inv fw \<Longrightarrow> command_event e \<Longrightarrow> fw_inv (push_event e fw)"
  using events_inv_push [of "fw_cli fw" "fw_events fw" e] by (simp add: fw_inv_def push_event_def)

lemma events_inv_push_all:
  "events_inv cli q \<Longrightarrow> \<forall>e\<in>set es. command_event e \<Longrightarrow> events_inv cli (push_all es q)"
  by (induction es arbitrary: q) (simp_all add: push_all_def events_inv_push)

lemma cli_effect_inv:
  assumes "cli_effect fw fw'" "fw_inv fw"
  shows "fw_inv fw'"
  using assms events_inv_push_all [of "fw_cli fw" "fw_events fw"]
  by (auto simp: cli_effect_def fw_inv_def wire_def net_sent_def driver_ok_def)

lemma prompt_app_inv [simp]: "fw_inv fw \<Longrightarrow> fw_inv (prompt_app fw)"
  by (erule same_view_inv [rotated]) (simp add: same_view_def prompt_app_def)

lemma fw_inv_config:
  assumes "fw_inv fw" "net_sent n = net_sent (fw_net fw)" "w_received n = w_received (fw_net fw)"
  shows "fw_inv (fw\<lparr>fw_net := n\<rparr>)"
  by (rule same_view_inv [OF _ assms(1)]) (simp add: same_view_def assms(2,3))

lemma net_sent_do [simp]:
  "net_sent (snd (chip_do z (Wiz_setnetinfo i) n)) = net_sent n" "net_sent (snd (chip_do z (Wiz_close s) n)) = net_sent n"
  "net_sent (snd (chip_do z (Wiz_socket s m p f) n)) = net_sent n" "net_sent (snd (chip_getnetinfo z n)) = net_sent n"
  by (simp_all add: net_sent_def)

lemma change_netinfo_inv:
  assumes "fw_inv fw"
  shows "fw_inv (snd (change_netinfo z get put ip fw))"
  using assms by (auto simp: change_netinfo_def Let_def split_beta intro!: fw_inv_config)

lemma ev_set_net_ip_inv: "fw_inv fw \<Longrightarrow> fw_inv (snd (ev_set_net_ip z item ip fw))"
proof -
  assume inv: "fw_inv fw"
  have app: "fw_inv (upd_app (\<lambda>app. app\<lparr>ac_local_config := f app\<rparr>) fw')"
    "fw_inv (upd_app (\<lambda>app. app\<lparr>ac_destination_config := f app\<rparr>) fw')" if "fw_inv fw'" for f and fw' :: "('a, 'b) firmware"
    using that by (auto simp: same_view_def intro!: same_view_inv [OF _ that])
  show ?thesis
    using inv change_netinfo_inv [OF inv] app
    by (auto simp: ev_set_net_ip_def Let_def split_beta split: event_queue_data_types_t.split)
qed

lemma reopen_socket_inv: "fw_inv fw \<Longrightarrow> returns_well (reopen_socket z config fw)"
  by (auto simp: reopen_socket_def w5500_reconfigure_udp_socket_def w5500_open_udp_socket_def fatal_panic_def Let_def
      split_beta intro!: fw_inv_config)

lemma ev_set_net_port_inv: "fw_inv fw \<Longrightarrow> returns_well (ev_set_net_port z item port fw)"
proof -
  assume inv: "fw_inv fw"
  have "fw_inv (upd_app (\<lambda>app. app\<lparr>ac_local_config := f app\<rparr>) fw)"
    "fw_inv (upd_app (\<lambda>app. app\<lparr>ac_destination_config := f app\<rparr>) fw)" for f
    using inv by (auto simp: same_view_def intro!: same_view_inv [OF _ inv])
  then show ?thesis
    using inv by (auto simp: ev_set_net_port_def Let_def split: event_queue_data_types_t.split intro!: reopen_socket_inv)
qed

lemma prompt_returns_well:
  assumes "returns_well r"
  shows "returns_well (proceed r (\<lambda>(v, fw). Running (v, upd_app (\<lambda>app. app\<lparr>ac_need_prompt := True\<rparr>) fw)))"
  using assms prompt_app_inv unfolding prompt_app_def by (cases r) (auto split: prod.splits)

lemma ev_set_net_settings_inv:
  assumes "fw_inv fw" "is_ip_item item \<and> v = Val_ip ip \<or> is_port_item item \<and> v = Val_port p"
  shows "returns_well (ev_set_net_settings z \<lparr>eqd_id = item, eqd_value = v\<rparr> fw)"
proof (cases "is_ip_item item")
  case True
  then have "v = Val_ip ip"
    using assms(2) by (auto simp: is_ip_item_def is_port_item_def)
  then show ?thesis
    using True prompt_app_inv [OF ev_set_net_ip_inv [OF assms(1)]]
    by (simp add: ev_set_net_settings_def Let_def split_beta prompt_app_def)
next
  case False
  then show ?thesis
    using assms(2) prompt_returns_well [OF ev_set_net_port_inv [OF assms(1)]]
    by (simp add: ev_set_net_settings_def Let_def)
qed

lemma config_inv:
  assumes "fw_inv fw"
  shows "fw_inv (upd_app (\<lambda>app. app\<lparr>ac_v24_config := f app\<rparr>) fw)"
  by (rule same_view_inv [OF _ assms]) (simp add: same_view_def)

lemma ev_set_v24_baudrate_inv:
  assumes inv: "fw_inv fw" and rate: "baudrate \<in> set v24_baudrates"
  shows "returns_well (ev_set_v24_baudrate k baudrate fw)"
proof (cases "vc_baudrate (ac_v24_config (fw_app fw)) = baudrate")
  case True
  then show ?thesis
    using inv by (simp add: ev_set_v24_baudrate_def)
next
  case False
  have "baudrate \<noteq> 0"
    using rate by (auto simp: v24_baudrates_def)
  then obtain config rt where re: "reinit_v24_config (ac_v24_config (fw_app fw)) baudrate (dr_runtime (fw_driver fw)) = Some (config, rt)"
    and rt: "rt_tx_pio rt = rt_tx_pio (dr_runtime (fw_driver fw))" "rt_rx_pio rt = rt_rx_pio (dr_runtime (fw_driver fw))"
    by (auto simp: reinit_v24_config_def Let_def)
  define fw1 where "fw1 = (upd_app (\<lambda>app. app\<lparr>ac_v24_config := config\<rparr>) fw)\<lparr>fw_driver := (fw_driver fw)\<lparr>dr_runtime := rt\<rparr>\<rparr>"
  have inv1: "fw_inv fw1"
    unfolding fw1_def
    by (rule fw_inv_driver [OF config_inv [OF inv]]) (simp add: silent_def pios_def wire_def rt)
  then obtain d where d: "tx_clock_update_settings k config (fw_driver fw1) = Some d"
    using settings_defined(1) [OF fw_inv_driver_ok] by blast
  have "fw_inv (prompt_app (fw1\<lparr>fw_driver := d\<rparr>))"
    by (rule prompt_app_inv [OF fw_inv_driver [OF inv1 silent_settings(1) [OF d]]])
  then show ?thesis
    unfolding ev_set_v24_baudrate_def if_not_P [OF False] re option.case prod.case Let_def fw1_def [symmetric] d by simp
qed

lemma ev_set_v24_polarities_inv:
  assumes inv: "fw_inv fw"
  shows "returns_well (ev_set_v24_polarities k polarities fw)"
proof (cases "vc_polarities (ac_v24_config (fw_app fw)) = polarities")
  case True
  then show ?thesis
    using inv by (simp add: ev_set_v24_polarities_def)
next
  case False
  define config where "config = (ac_v24_config (fw_app fw))\<lparr>vc_polarities := polarities\<rparr>"
  define fw1 where "fw1 = upd_app (\<lambda>app. app\<lparr>ac_v24_config := config\<rparr>) fw"
  have inv1: "fw_inv fw1"
    unfolding fw1_def by (rule config_inv [OF inv])
  then obtain d where d: "tx_clock_update_settings k config (fw_driver fw1) = Some d"
    using settings_defined(1) [OF fw_inv_driver_ok] by blast
  note sil = silent_settings(1) [OF d]
  have "driver_ok d"
    using inv1 silent_driver_ok [OF sil] by (simp add: fw_inv_def)
  then obtain d1 where d1: "rx_clock_update_settings k (Some (rx_polarities polarities)) d = Some d1"
    using settings_defined(2) by blast
  have "fw_inv (prompt_app (fw1\<lparr>fw_driver := d1\<rparr>))"
    by (rule prompt_app_inv [OF fw_inv_driver [OF inv1 silent_trans [OF sil silent_settings(2) [OF d1]]]])
  then show ?thesis
    unfolding ev_set_v24_polarities_def if_not_P [OF False] Let_def config_def [symmetric] fw1_def [symmetric] d option.case d1
    by simp
qed

lemma ev_set_v24_clock_mode_inv: "fw_inv fw \<Longrightarrow> fw_inv (snd (ev_set_v24_clock_mode ext fw))"
  using config_inv [of fw] by (auto simp: ev_set_v24_clock_mode_def)

lemma ev_save_config_inv: "fw_inv fw \<Longrightarrow> fw_inv (ev_save_config z fw)"
  by (erule same_view_inv [rotated])
    (simp add: same_view_def ev_save_config_def config_write_def Let_def split_beta)

lemma ev_status_inv: "fw_inv fw \<Longrightarrow> fw_inv (print_status_event k (snd (ev_status k fw)))"
proof -
  assume inv: "fw_inv fw"
  have "same_view fw (snd (ev_status k fw))"
    by (simp add: same_view_def ev_status_def Let_def split_beta upd_stats_def)
  moreover have "same_view fw1 (print_status_event k fw1)" for fw1 :: "('a, 'b) firmware"
    by (simp add: same_view_def print_status_event_def Let_def split: option.split)
  ultimately show ?thesis
    using inv same_view_inv by blast
qed

lemma inline_payload_data [simp]: "inline_payload (data_event t i v) = Some \<lparr>eqd_id = i, eqd_value = v\<rparr>"
  by (simp add: inline_payload_def event_get_payload_ptr_def data_event_def sizeof_event_queue_data_def)

lemma event_types [simp]: "ev_type (bare_event t) = t" "ev_type (data_event t i v) = t"
  by (simp_all add: bare_event_def data_event_def)

lemma set_net_dispatch_inv:
  assumes "fw_inv fw" "is_ip_item i \<and> v = Val_ip ip \<or> is_port_item i \<and> v = Val_port p"
  shows "ends_well (event_dispatch k z (data_event EV_SET_NET_SETTINGS i v) fw)"
  using returns_well_then [OF ev_set_net_settings_inv [OF assms, of z]]
  by (simp add: event_dispatch_def request_save_config_def push_event_inv)

lemma set_v24_dispatch_inv:
  assumes "fw_inv fw" "returns_well (ev_set_v24_settings k \<lparr>eqd_id = i, eqd_value = v\<rparr> fw)"
  shows "ends_well (event_dispatch k z (data_event EV_SET_V24_SETTINGS i v) fw)"
  using returns_well_then [OF assms(2)]
  by (simp add: event_dispatch_def request_save_config_def push_event_inv Let_def)

lemma command_dispatch_inv:
  assumes inv: "fw_inv fw" and e: "command_event e"
  shows "ends_well (event_dispatch k z e fw)"
proof -
  from e show ?thesis
  proof cases
    case (bare t)
    have "same_view fw (prompt_app (fw\<lparr>fw_flash := config_wipe (fw_flash fw)\<rparr>))"
      by (simp add: same_view_def prompt_app_def)
    with bare inv show ?thesis
      using same_view_inv [of fw] ev_status_inv [OF inv] ev_save_config_inv [OF inv]
      by (auto simp: event_dispatch_def reboot_def)
  next
    case (get t i v)
    with inv show ?thesis
      by (auto simp: event_dispatch_def ev_get_net_settings_def ev_get_v24_settings_def intro!: fw_inv_config)
  next
    case (ip i ip)
    then show ?thesis
      using set_net_dispatch_inv [OF inv, of i "Val_ip ip"] by (auto simp: is_ip_item_def)
  next
    case (port i p)
    then show ?thesis
      using set_net_dispatch_inv [OF inv, of i "Val_port p"] by (auto simp: is_port_item_def)
  next
    case (rate b)
    then show ?thesis
      using set_v24_dispatch_inv [OF inv] ev_set_v24_baudrate_inv [OF inv rate(2)] by (simp add: ev_set_v24_settings_def)
  next
    case (pol p)
    then show ?thesis
      using set_v24_dispatch_inv [OF inv] ev_set_v24_polarities_inv [OF inv] by (simp add: ev_set_v24_settings_def)
  next
    case (clock c)
    moreover have "returns_well (Running (ev_set_v24_clock_mode c fw))"
      using ev_set_v24_clock_mode_inv [OF inv, of c] by (cases "ev_set_v24_clock_mode c fw") simp
    ultimately show ?thesis
      using set_v24_dispatch_inv [OF inv] by (simp add: ev_set_v24_settings_def)
  qed
qed

lemma dispatch_inv:
  assumes "fw_inv fw" "queued_event e"
  shows "ends_well (event_dispatch k z e fw)"
proof (cases "command_event e")
  case True
  then show ?thesis
    using command_dispatch_inv assms(1) by blast
next
  case False
  then obtain slot line where "e = cli_line_event slot line"
    using assms(2) by (auto simp: queued_event_def)
  then show ?thesis
    using cli_effect_inv [OF handle_cli_line_effect assms(1)]
    by (simp add: event_dispatch_def cli_line_event_def event_get_payload_ptr_def)
qed

lemma pop_event_inv:
  assumes "fw_inv fw" "event_queue_pop (fw_events fw) = (e, q)"
  shows "fw_inv (fw\<lparr>fw_events := q\<rparr>)" "case e of None \<Rightarrow> True | Some e \<Rightarrow> queued_event e"
proof -
  have ev: "console_inv (fw_cli fw, fw_events fw)" "\<forall>e\<in>set (eq_contents (fw_events fw)). queued_event e"
    using assms(1) by (simp_all add: fw_inv_def events_inv_def)
  have eq: "eq_inv (fw_events fw)"
    using ev(1) by (simp add: console_inv_def)
  note pop = event_queue_pop_run [OF eq]
  have "\<forall>e\<in>set (eq_contents q). queued_event e"
    using ev(2) pop(2) assms(2) by (cases "eq_contents (fw_events fw)") auto
  then show "fw_inv (fw\<lparr>fw_events := q\<rparr>)"
    using assms take_event_refines(1) [OF ev(1)] by (simp add: fw_inv_def events_inv_def)
  show "case e of None \<Rightarrow> True | Some e \<Rightarrow> queued_event e"
    using ev(2) pop(1) assms(2) by (auto split: list.splits option.splits)
qed

lemma dispatch_loop_inv: "fw_inv fw \<Longrightarrow> ends_well (dispatch_loop k z n fw)"
proof (induction n arbitrary: fw)
  case 0
  then show ?case by simp
next
  case (Suc n)
  obtain e q where pop: "event_queue_pop (fw_events fw) = (e, q)"
    by fastforce
  note p = pop_event_inv [OF Suc.prems pop]
  show ?case
  proof (cases e)
    case None
    then show ?thesis
      using p(1) pop by simp
  next
    case (Some ev)
    then have "ends_well (event_dispatch k z ev (fw\<lparr>fw_events := q\<rparr>))"
      using dispatch_inv [OF p(1)] p(2) by simp
    then show ?thesis
      using Suc.IH pop Some by (cases "event_dispatch k z ev (fw\<lparr>fw_events := q\<rparr>)") simp_all
  qed
qed

section \<open>The loop\<close>

fun loop_well :: "('h, 'w) loop_state outcome \<Rightarrow> bool" where
  "loop_well (Running st) = fw_inv (snd st)"
| "loop_well (Stopped why st) = (why \<noteq> Undefined \<and> fw_inv (snd st))"

lemma loop_housekeeping_inv:
  assumes "fw_inv (snd st)"
  shows "loop_well (loop_housekeeping k z st)"
proof -
  obtain rt fw where st: "st = (rt, fw)"
    by (cases st)
  let ?fw = "loop_stall_stats k (update_statistics fw)"
  have "fw_inv ?fw"
    using assms st housekeeping_same_view(1,2) same_view_inv by (metis snd_conv)
  then have "ends_well (poll_and_dispatch_events k z ?fw)"
    by (simp add: poll_and_dispatch_events_def dispatch_loop_inv)
  then show ?thesis
    using housekeeping_same_view(3) same_view_inv
    by (cases "poll_and_dispatch_events k z ?fw") (auto simp: st loop_housekeeping_def)
qed

lemma event_loop_iteration_inv:
  assumes "recvfrom_contract z" "fw_inv (snd st)" "event_loop_iteration k z st = Some r"
  shows "loop_well r"
proof -
  obtain rt fw where st: "st = (rt, fw)"
    by (cases st)
  obtain now rt1 fw1 where rx: "loop_drain_rx k (rt, loop_cli_poll k fw) = Some (now, rt1, fw1)"
    using assms(3) by (auto simp: st event_loop_iteration_def split: option.splits)
  have "fw_inv fw1"
    using loop_drain_rx_inv [OF rx] loop_cli_poll_inv [of fw k] assms(2) st by simp
  then have "fw_inv (loop_buffer_stats z fw1)"
    using housekeeping_same_view(4) same_view_inv by blast
  then obtain st2 where tx: "snd (poll_tx_pipeline k (rt1, loop_buffer_stats z fw1)) = Running st2" "fw_inv (snd st2)"
    using poll_tx_pipeline_inv [of "(rt1, loop_buffer_stats z fw1)" k] by auto
  then obtain st3 where line: "loop_line_to_network k z (loop_udp_rx z st2) = Some st3"
    and r: "r = loop_housekeeping k z st3"
    using assms(3) rx by (auto simp: st event_loop_iteration_def split: option.splits)
  obtain now2 st4 where rx2: "loop_drain_rx k (loop_udp_rx z st2) = Some (now2, st4)"
    and st3: "map_option (poll_hdlc_no_progress k) (drain_hdlc_frames_to_udp z (poll_hdlc_idle_timeout now2 st4)) = Some st3"
    using line by (auto simp: loop_line_to_network_def split: option.splits)
  have "fw_inv (snd (poll_hdlc_idle_timeout now2 st4))"
    by (rule poll_hdlc_idle_timeout_inv [OF loop_drain_rx_inv [OF rx2 loop_udp_rx_inv [OF assms(1) tx(2)]]])
  then have "fw_inv (snd st3)"
    using drain_frames_returns [of "poll_hdlc_idle_timeout now2 st4" z] st3 poll_hdlc_no_progress_inv by auto
  then show ?thesis
    using loop_housekeeping_inv r by blast
qed

lemma event_loop_inv:
  assumes "recvfrom_contract z" "fw_inv (snd st)" "event_loop k z n st = Some r"
  shows "loop_well r"
  using assms(2,3)
proof (induction n arbitrary: st)
  case 0
  then show ?case by auto
next
  case (Suc n)
  then obtain r1 where step: "event_loop_iteration k z st = Some r1"
    by (auto split: option.splits)
  note inv = event_loop_iteration_inv [OF assms(1) Suc.prems(1) step]
  show ?case
    using Suc.IH Suc.prems(2) step inv by (cases r1) auto
qed

end
