(* ===== verification/Quiet_Board.thy ===== *)
theory Quiet_Board
  imports Loop_Invariant
begin

text \<open>
  A board on which nothing arrives on the line and no key is pressed.  Shown here: the parts of an
  iteration that have nothing to do there return and leave the transmit side as it is, and an
  iteration and hence the loop complete without events.
\<close>

section \<open>A quiet board\<close>

text \<open>
  A board on which nothing arrives on the line and no key is pressed: without events the loop just
  goes on.
\<close>

definition quiet :: "'h sdk \<Rightarrow> bool" where
  "quiet k \<longleftrightarrow> (\<forall>d. fst (rx_get k d) = None) \<and> (\<forall>d. sint (fst (hw_ask k Getchar_timeout_us d)) = PICO_ERROR_TIMEOUT k)"

lemma quiet_drain: "quiet k \<Longrightarrow> drain_rx_until_empty k st
    = Some ((fst (fst st), (snd (fst st))\<lparr>fw_driver := snd (rx_get k (fw_driver (snd (fst st))))\<rparr>), snd st)"
  by (subst drain_rx_until_empty.simps) (simp add: quiet_def split_beta)

section \<open>What matters for the transmit side\<close>

text \<open>
  \<open>inbox\<close> says which datagrams wait in the chip; sending and reading registers leave them there.
\<close>

definition keeps_inbox :: "'w wiznet \<Rightarrow> ('w \<Rightarrow> byte list list) \<Rightarrow> bool" where
  "keeps_inbox z inbox \<longleftrightarrow>
     (\<forall>s data ip port w. inbox (snd (wiz_do z (Wiz_sendto s data ip port) w)) = inbox w)
     \<and> (\<forall>q w. inbox (snd (wiz_ask z q w)) = inbox w)"

definition tx_side ::
  "('w \<Rightarrow> byte list list) \<Rightarrow> ('h, 'w) firmware \<Rightarrow>
   TX_QUEUE_T \<times> (nat option \<times> u32 \<times> byte list) \<times> byte list list \<times> byte list list \<times> event_t event_queue_state" where
  "tx_side inbox fw = (ac_tx_queue (fw_app fw),
     (rt_tx_pio (dr_runtime (fw_driver fw)), rt_cts_toggle_seq (dr_runtime (fw_driver fw)), wire (fw_driver fw)),
     w_received (fw_net fw), inbox (w_chip (fw_net fw)), fw_events fw)"

lemma rx_get_tx_side:
  "dr_runtime (snd (rx_get k d)) = dr_runtime d" "wire (snd (rx_get k d)) = wire d"
  by (simp_all add: rx_get_def wire_def split_beta Let_def split: option.split)

lemma tx_side_rx:
  assumes "quiet k" "loop_drain_rx k (rt, fw) = Some (now_us, rt', fw')"
  shows "tx_side inbox fw' = tx_side inbox fw"
  using assms
  by (auto simp: loop_drain_rx_def quiet_drain update_rx_drain_stats_def tx_side_def upd_stats_def rx_get_tx_side wire_def
      rx_get_tx_side(2) [unfolded wire_def] split_beta Let_def)

lemma quiet_rx_returns:
  assumes "quiet k"
  obtains now_us rt' fw' where "loop_drain_rx k st = Some (now_us, rt', fw')"
  using that by (simp add: loop_drain_rx_def quiet_drain [OF assms] update_rx_drain_stats_def split_beta Let_def)

lemma tx_side_cli:
  assumes "quiet k"
  shows "tx_side inbox (loop_cli_poll k fw) = tx_side inbox fw"
  using assms
  by (simp add: loop_cli_poll_def cli_poll_def quiet_def CLI_MAX_CHARS_PER_POLL_def numeral_eq_Suc tx_side_def wire_def
      split_beta Let_def)

lemma tx_side_buffer_stats:
  assumes "keeps_inbox z inbox"
  shows "tx_side inbox (loop_buffer_stats z fw) = tx_side inbox fw"
  using assms
  by (simp add: loop_buffer_stats_def w5500_poll_udp_buffer_full_events_def chip_ask_def keeps_inbox_def tx_side_def upd_stats_def
      split_beta Let_def)

lemma tx_side_poll:
  assumes "tx_poll k d = Some (r, d')"
  shows "rt_tx_pio (dr_runtime d') = rt_tx_pio (dr_runtime d)" "rt_cts_toggle_seq (dr_runtime d') = rt_cts_toggle_seq (dr_runtime d)"
    "wire d' = wire d"
  using assms by (auto simp: tx_poll_def wire_def split_beta Let_def split: if_splits option.splits)

text \<open>Taking frames from the accumulator does not touch the transmit side.\<close>

lemma tx_side_decode:
  fixes fw :: "('h, 'w) firmware"
  assumes "keeps_inbox z inbox"
  shows "tx_side inbox (snd (decode_hdlc_to_udp_tx z (rt, fw))) = tx_side inbox fw"
proof -
  have sent: "tx_side inbox (snd (decode_accepted z st)) = tx_side inbox (snd st)" for st :: "('h, 'w) loop_state"
    using assms
    by (simp add: decode_accepted_def w5500_udp_tx_def chip_do_def keeps_inbox_def tx_side_def upd_stats_def split_beta Let_def)
  have kept: "tx_side inbox (snd (decode_rejected st)) = tx_side inbox (snd st)" for st :: "('h, 'w) loop_state"
    by (simp add: decode_rejected_def tx_side_def upd_stats_def acc_restart_def split_beta Let_def)
  have clear: "tx_side inbox (upd_app clear_reconstructed fw) = tx_side inbox fw" for fw :: "('h, 'w) firmware"
    by (simp add: clear_reconstructed_def tx_side_def)
  show ?thesis
    unfolding decode_hdlc_to_udp_tx_def split_beta Let_def
    by (simp add: sent kept clear) (simp add: tx_side_def upd_stats_def)
qed

lemma tx_side_accumulator: "poll_accumulator fw = (e, fw') \<Longrightarrow> tx_side inbox fw' = tx_side inbox fw"
  by (auto simp: poll_accumulator_def tx_side_def split: prod.splits)

lemma tx_side_frames:
  assumes "keeps_inbox z inbox" "drain_hdlc_frames_to_udp z st = Some st'"
  shows "tx_side inbox (snd st') = tx_side inbox (snd st)"
proof (rule drain_frames_invar [OF assms(2)])
  show "tx_side inbox (snd (rt, if e \<noteq> E2S_OK then upd_app (\<lambda>app. acc_restart
      (app\<lparr>ac_reconstructed_frame := (ac_reconstructed_frame app)\<lparr>hf_length := 0\<rparr>\<rparr>)) fw1 else fw1)) = tx_side inbox (snd (rt, fw))"
    if "poll_accumulator fw = (e, fw1)" for rt e and fw fw1 :: "('b, 'a) firmware"
    using tx_side_accumulator [OF that, of inbox] by (simp add: tx_side_def acc_restart_def)
qed (simp add: tx_side_accumulator tx_side_decode [OF assms(1)])

lemma tx_side_resync:
  "tx_side inbox (snd (poll_hdlc_idle_timeout now_us (rt, fw))) = tx_side inbox fw"
  "tx_side inbox (snd (poll_hdlc_no_progress k (rt, fw))) = tx_side inbox fw"
proof -
  have "dr_runtime (rx_clock_hard_reset k d) = dr_runtime d" "wire (rx_clock_hard_reset k d) = wire d" for d
    by (simp_all add: rx_clock_hard_reset_def wire_def Let_def split: option.split)
  then show "tx_side inbox (snd (poll_hdlc_idle_timeout now_us (rt, fw))) = tx_side inbox fw"
    "tx_side inbox (snd (poll_hdlc_no_progress k (rt, fw))) = tx_side inbox fw"
    by (simp_all add: poll_hdlc_idle_timeout_def poll_hdlc_no_progress_def tx_side_def upd_stats_def acc_restart_def
        clear_reconstructed_def Let_def)
qed

text \<open>The receive half of an iteration returns and leaves the transmit side alone.\<close>

lemma quiet_receive_half:
  assumes "quiet k" "keeps_inbox z inbox" "fw_inv fw"
  shows "\<exists>rt' fw'. loop_line_to_network k z (rt, fw) = Some (rt', fw') \<and> fw_inv fw' \<and> tx_side inbox fw' = tx_side inbox fw"
proof -
  obtain now_us rt1 fw1 where rx: "loop_drain_rx k (rt, fw) = Some (now_us, rt1, fw1)"
    using quiet_rx_returns [OF assms(1)] by blast
  have inv1: "fw_inv fw1"
    using loop_drain_rx_inv [OF rx] assms(3) by simp
  obtain st2 where st2: "drain_hdlc_frames_to_udp z (poll_hdlc_idle_timeout now_us (rt1, fw1)) = Some st2" "fw_inv (snd st2)"
    using drain_frames_returns [OF poll_hdlc_idle_timeout_inv [of "(rt1, fw1)" now_us], of z] inv1 by auto
  obtain rt3 fw3 where st3: "poll_hdlc_no_progress k st2 = (rt3, fw3)"
    by fastforce
  have "tx_side inbox fw3 = tx_side inbox (snd st2)"
    using tx_side_resync(2) [of inbox k "fst st2" "snd st2"] st3 by simp
  also have "\<dots> = tx_side inbox fw"
    using tx_side_frames [OF assms(2) st2(1)] tx_side_resync(1) [of inbox now_us rt1 fw1] tx_side_rx [OF assms(1) rx] by simp
  finally show ?thesis
    using rx st2(1) st3 poll_hdlc_no_progress_inv [OF st2(2), of k] by (simp add: loop_line_to_network_def)
qed

text \<open>Without events the end of an iteration does nothing to it either.\<close>

lemma quiet_housekeeping:
  assumes "fw_inv fw" "eq_contents (fw_events fw) = []"
  shows "\<exists>rt' fw'. loop_housekeeping k z (rt, fw) = Running (rt', fw') \<and> fw_inv fw' \<and> tx_side inbox fw' = tx_side inbox fw
    \<and> el_udp_rx_throttled rt' = el_udp_rx_throttled rt"
proof -
  let ?fw1 = "loop_stall_stats k (update_statistics fw)"
  have "dr_runtime (snd (rx_clock_poll_stall k d)) = dr_runtime d" "wire (snd (rx_clock_poll_stall k d)) = wire d" for d
    by (simp_all add: rx_clock_poll_stall_def wire_def split_beta Let_def split: option.split)
  then have side: "tx_side inbox ?fw1 = tx_side inbox fw"
    by (simp add: loop_stall_stats_def update_statistics_def tx_side_def upd_stats_def split_beta Let_def)
  then have none: "eq_contents (fw_events ?fw1) = []"
    using assms(2) by (simp add: tx_side_def)
  have inv: "fw_inv ?fw1"
    using assms(1) housekeeping_same_view(1,2) same_view_inv by metis
  then have "eq_inv (fw_events ?fw1)"
    by (simp add: fw_inv_def events_inv_def console_inv_def)
  with none have "poll_and_dispatch_events k z ?fw1 = Running ?fw1"
    using event_queue_pop_run(1) [of "fw_events ?fw1"]
    by (simp add: poll_and_dispatch_events_def EVENT_LOOP_MAX_EVENTS_AT_ONCE_def EVENT_LOOP_MAX_EVENTS_WHILE_TX_ACTIVE_def
        numeral_eq_Suc)
  moreover have "tx_side inbox (loop_prompt ?fw1) = tx_side inbox ?fw1"
    by (simp add: loop_prompt_def print_prompt_def tx_side_def split_beta Let_def)
  ultimately show ?thesis
    using side same_view_inv [OF housekeeping_same_view(3) inv] by (simp add: loop_housekeeping_def)
qed

section \<open>An iteration\<close>

text \<open>Up to the transmitter: nothing changes before it.\<close>

lemma quiet_send_half:
  assumes "quiet k" "keeps_inbox z inbox" "fw_inv fw"
  shows "\<exists>now_us rt1 fw1. loop_drain_rx k (rt, loop_cli_poll k fw) = Some (now_us, rt1, fw1) \<and> fw_inv (loop_buffer_stats z fw1)
    \<and> tx_side inbox (loop_buffer_stats z fw1) = tx_side inbox fw \<and> el_udp_rx_throttled rt1 = el_udp_rx_throttled rt"
proof -
  obtain now_us rt1 fw1 where rx: "loop_drain_rx k (rt, loop_cli_poll k fw) = Some (now_us, rt1, fw1)"
    using quiet_rx_returns [OF assms(1)] by blast
  have "fw_inv fw1"
    using loop_drain_rx_inv [OF rx] loop_cli_poll_inv [OF assms(3)] by simp
  then have "fw_inv (loop_buffer_stats z fw1)"
    using housekeeping_same_view(4) same_view_inv by blast
  moreover have "el_udp_rx_throttled rt1 = el_udp_rx_throttled rt"
    using rx by (auto simp: loop_drain_rx_def quiet_drain [OF assms(1)] update_rx_drain_stats_def split_beta Let_def)
  ultimately show ?thesis
    using rx tx_side_rx [OF assms(1) rx, of inbox] tx_side_cli [OF assms(1), of inbox fw] tx_side_buffer_stats [OF assms(2), of fw1]
    by simp
qed

lemma quiet_iteration:
  assumes "quiet k" "recvfrom_contract z" "fw_inv fw" "eq_contents (fw_events fw) = []"
  shows "\<exists>rt' fw'. event_loop_iteration k z (rt, fw) = Some (Running (rt', fw')) \<and> fw_inv fw' \<and> eq_contents (fw_events fw') = []"
proof -
  let ?inbox = "\<lambda>_. []"
  have pass: "keeps_inbox z ?inbox"
    by (simp add: keeps_inbox_def)
  obtain now_us rt1 fw1 where rx: "loop_drain_rx k (rt, loop_cli_poll k fw) = Some (now_us, rt1, fw1)"
    "fw_inv (loop_buffer_stats z fw1)" "fw_events (loop_buffer_stats z fw1) = fw_events fw"
    using quiet_send_half [OF assms(1) pass assms(3), of rt] by (auto simp: tx_side_def)
  obtain rt2 fw2 where tx: "snd (poll_tx_pipeline k (rt1, loop_buffer_stats z fw1)) = Running (rt2, fw2)" "fw_inv fw2"
    using poll_tx_pipeline_inv [of "(rt1, loop_buffer_stats z fw1)" k] rx(2) by fastforce
  have ev2: "fw_events fw2 = fw_events fw"
    using tx(1) rx(3) by (auto simp: poll_tx_pipeline_def split_beta Let_def split: if_splits option.splits)
  obtain rt3 fw3 where udp: "loop_udp_rx z (rt2, fw2) = (rt3, fw3)"
    by fastforce
  have "fw_inv fw3" "fw_events fw3 = fw_events fw"
    using loop_udp_rx_inv [OF assms(2), of "(rt2, fw2)"] tx(2) udp ev2
    by (auto simp: loop_udp_rx_def update_udp_rx_throttle_state_def poll_and_enqueue_udp_rx_def split_beta Let_def split: if_splits)
  then obtain rt4 fw4 where net: "loop_line_to_network k z (rt3, fw3) = Some (rt4, fw4)" "fw_inv fw4" "fw_events fw4 = fw_events fw"
    using quiet_receive_half [OF assms(1) pass, of fw3 rt3] by (auto simp: tx_side_def)
  then show ?thesis
    using quiet_housekeeping [of fw4 k z rt4 ?inbox] assms(4) rx(1) tx(1) udp
    by (auto simp: event_loop_iteration_def tx_side_def)
qed

lemma quiet_loop:
  assumes "quiet k" "recvfrom_contract z" "fw_inv fw" "eq_contents (fw_events fw) = []"
  shows "\<exists>rt' fw'. event_loop k z n (rt, fw) = Some (Running (rt', fw'))"
  using assms(3,4)
proof (induction n arbitrary: rt fw)
  case (Suc n)
  then show ?case
    using quiet_iteration [OF assms(1,2) Suc.prems, of rt] by fastforce
qed simp

end
