(* ===== verification/Firmware.thy ===== *)
theory Firmware
  imports Quiet_Board
begin

text \<open>
  The firmware as a whole: the start-up establishes the invariant of the main loop, every iteration
  completes and keeps it, and what follows for the operator: the loop does not get stuck or step into
  undefined behaviour, the transmit queue does not overflow, the line carries the accepted datagrams in
  order and the network gets only payloads that came over the line with their checksum.
\<close>

section \<open>Start-up\<close>

lemma in_net_Running: "in_net fw r = Running fw' \<longleftrightarrow> (\<exists>n. r = Running n \<and> fw' = fw\<lparr>fw_net := n\<rparr>)"
  by (cases r) auto

lemma in_driver_Running: "in_driver fw d = Running fw' \<longleftrightarrow> (\<exists>d1. d = Some d1 \<and> fw' = fw\<lparr>fw_driver := d1\<rparr>)"
  by (auto simp: in_driver_def split: option.split)

text \<open>Before the transmitter is set up: everything but the queue and the PIO pointers.\<close>

definition boot_inv :: "('h, 'w) firmware \<Rightarrow> bool" where
  "boot_inv fw \<longleftrightarrow>
     net_sent (fw_net fw) = [] \<and> w_received (fw_net fw) = [] \<and> wire (fw_driver fw) = []
     \<and> ac_tx_queue (fw_app fw) = ac_tx_queue app_zero \<and> fw_cli fw = cli_state_zero
     \<and> uf_payload (ac_rx_frame_buffer (fw_app fw)) = replicate RX_BUF_SIZE 0
     \<and> length (uf_payload (ac_tx_frame_buffer (fw_app fw))) = TX_BUF_SIZE
     \<and> length (sa_buffer (ac_accumulator (fw_app fw))) = RX_HDLC_SYNC_MAX_BUFFER_SIZE
     \<and> length (hf_payload (ac_reconstructed_frame (fw_app fw))) = RX_HDLC_SYNC_MAX_BUFFER_SIZE"

lemma boot_inv_power_on: "boot_inv (power_on hw chip flash)"
  by (simp add: boot_inv_def power_on_def app_zero_def net_sent_def wire_def hdlc_sync_acc_init_def)

lemma driver_init_net:
  assumes "w5500_driver_init z n = Running n'"
  shows "net_sent n' = net_sent n" "w_received n' = w_received n"
proof -
  obtain err n5 where map: "w5500_apply_socket_mem_map z (snd (chip_do z Wiz_initialize (snd (chip_do z Wiz_reset
      (snd (chip_do z Wiz_cris_initialize (snd (chip_do z Wiz_spi_initialize n)))))))) = (err, n5)"
    by fastforce
  then have "net_sent n5 = net_sent n" "w_received n5 = w_received n"
    by (auto simp: w5500_apply_socket_mem_map_def net_sent_def split_beta Let_def split: if_splits
        dest!: arg_cong [of _ _ "\<lambda>p. (w_trace (snd p), w_received (snd p))"])
  then show "net_sent n' = net_sent n" "w_received n' = w_received n"
    using assms map
    by (auto simp: w5500_driver_init_def Let_def fatal_panic_def net_sent_def split: if_splits)
qed

lemma init_pins_wire: "wire (init_pins k d) = wire d"
proof -
  have "bytes_put (concat (map (\<lambda>p. [Gpio_init p, Gpio_set_dir p False, Gpio_pull_down p]) ps)) = []"
    "bytes_put (concat (map (\<lambda>p. [Gpio_init p, Gpio_set_dir p True]) ps)) = []" for ps
    by (induction ps) simp_all
  then show ?thesis
    by (simp add: wire_def init_pins_def)
qed

lemma set_network_net:
  "net_sent (snd (w5500_set_network z c n)) = net_sent n" "w_received (snd (w5500_set_network z c n)) = w_received n"
  by (simp_all add: w5500_set_network_def net_sent_def)

text \<open>The state \<open>init_app\<close> leaves.\<close>

lemma init_app_boot:
  assumes "init_app z cfg fw = Running fw'" "boot_inv fw"
  shows "boot_inv fw'" "uf_length (ac_rx_frame_buffer (fw_app fw')) = 0"
    "sync_inv (ac_accumulator (fw_app fw')) (ac_reconstructed_frame (fw_app fw'))"
    "st_hdlc_tx_frames (ac_stats (fw_app fw')) = 0" "st_tx_queue_drop_frames (ac_stats (fw_app fw')) = 0"
    "st_udp_tx_frames (ac_stats (fw_app fw')) = 0" "raw (ac_accumulator (fw_app fw')) = []"
proof -
  define fw1 where "fw1 = upd_app (\<lambda>app. app\<lparr>ac_stats := stats_zero, ac_need_prompt := True,
      ac_rx_frame_buffer := (ac_rx_frame_buffer app)\<lparr>uf_length := 0\<rparr>,
      ac_tx_frame_buffer := (ac_tx_frame_buffer app)\<lparr>uf_length := 0\<rparr>\<rparr>) fw"
  obtain fw2 where fw2: "(if ac_config_valid (fw_app fw1) then init_app_stored z cfg fw1 else init_app_default z fw1) = Running fw2"
    and fw': "fw' = upd_app (\<lambda>app. app\<lparr>
        ac_accumulator := hdlc_sync_acc_init (sa_buffer (ac_accumulator app)) HDLC_FLAG_BYTE,
        ac_reconstructed_frame := (ac_reconstructed_frame app)\<lparr>hf_length := 0,
          hf_capacity := RX_HDLC_SYNC_MAX_BUFFER_SIZE\<rparr>\<rparr>) fw2"
    using assms(1) by (auto simp: init_app_def fw1_def [symmetric] Let_def proceed_eq_Running)
  have "boot_inv fw1"
    using assms(2) by (simp add: boot_inv_def fw1_def)
  moreover have "wire (fw_driver fw2) = wire (fw_driver fw1) \<and> net_sent (fw_net fw2) = net_sent (fw_net fw1)
      \<and> w_received (fw_net fw2) = w_received (fw_net fw1) \<and> ac_tx_queue (fw_app fw2) = ac_tx_queue (fw_app fw1) \<and> fw_cli fw2 = fw_cli fw1
      \<and> ac_rx_frame_buffer (fw_app fw2) = ac_rx_frame_buffer (fw_app fw1)
      \<and> ac_tx_frame_buffer (fw_app fw2) = ac_tx_frame_buffer (fw_app fw1)
      \<and> ac_accumulator (fw_app fw2) = ac_accumulator (fw_app fw1)
      \<and> ac_reconstructed_frame (fw_app fw2) = ac_reconstructed_frame (fw_app fw1)
      \<and> ac_stats (fw_app fw2) = ac_stats (fw_app fw1)"
    using fw2 set_network_net
    by (auto simp: init_app_stored_def init_app_default_def w5500_set_network_defaults_def Let_def split_beta wire_def
        split: if_splits option.splits prod.splits)
  ultimately have all: "boot_inv fw2" "uf_length (ac_rx_frame_buffer (fw_app fw2)) = 0" "ac_stats (fw_app fw2) = stats_zero"
    by (simp_all add: boot_inv_def) (simp_all add: fw1_def)
  show "boot_inv fw'" "uf_length (ac_rx_frame_buffer (fw_app fw')) = 0"
    "st_hdlc_tx_frames (ac_stats (fw_app fw')) = 0" "st_tx_queue_drop_frames (ac_stats (fw_app fw')) = 0"
    "st_udp_tx_frames (ac_stats (fw_app fw')) = 0" "raw (ac_accumulator (fw_app fw')) = []"
    using all by (simp_all add: fw' raw_def boot_inv_def hdlc_sync_acc_init_def stats_zero_def)
  have "frame_wf ((ac_reconstructed_frame (fw_app fw2))\<lparr>hf_length := 0, hf_capacity := RX_HDLC_SYNC_MAX_BUFFER_SIZE\<rparr>)"
    using all(1) by (simp add: frame_wf_def boot_inv_def)
  then show "sync_inv (ac_accumulator (fw_app fw')) (ac_reconstructed_frame (fw_app fw'))"
    using all(1) hdlc_sync_acc_init_inv(1) [of "sa_buffer (ac_accumulator (fw_app fw2))"]
    by (simp add: fw' boot_inv_def RX_HDLC_SYNC_MAX_BUFFER_SIZE_def)
qed

lemma tx_queue_boot:
  "snd (tx_queue_init (ac_tx_queue app_zero) (rb_buffer (tq_queue_buffer (ac_tx_queue app_zero)))) = tx_queue_start"
  by (simp add: tx_queue_start_def tx_queue_init_def tx_queue_zero_def app_zero_def RbInit_def Let_def)

lemma tx_inv_start: "tx_inv tx_queue_start [] 0 0 []"
proof -
  have "tx_log [] [] tx_queue_start"
    using tx_queue_start_inv by (auto intro!: tx_logI [of "[]" "[]" "[]"])
  then show ?thesis
    using tx_queue_start_inv queued_frames_count [OF tx_queue_start_inv(1)]
    by (auto simp: tx_inv_def line_payloads_def)
qed

lemma cts_irq_init_facts:
  "dr_runtime (cts_irq_init k d) = dr_runtime d" "wire (cts_irq_init k d) = wire d"
  by (simp_all add: cts_irq_init_def Let_def wire_def hw_do_def)

lemma wire_init:
  "wire (upd_runtime f d) = wire d" "wire (hw_do k (Pio_sm_claim p s) d) = wire d" "wire (snd (hw_ask k q d)) = wire d"
  by (simp_all add: wire_def)

lemma tx_clock_init_facts:
  assumes "tx_clock_init k pio sm c d = Some d'"
  shows "rt_tx_pio (dr_runtime d') = Some pio" "wire d' = wire d"
  using assms
  by (auto simp: tx_clock_init_def tx_clock_init_xck_def tx_clock_init_tck_def tx_clock_update_settings_def Let_def
      split_beta wire_def cts_irq_init_facts cts_irq_init_facts(2) [unfolded wire_def] split: if_splits option.splits)

lemma rx_clock_init_facts:
  assumes "rx_clock_init k pio sm p d = Some d'"
  shows "rt_rx_pio (dr_runtime d') = Some pio" "rt_tx_pio (dr_runtime d') = rt_tx_pio (dr_runtime d)" "wire d' = wire d"
  using assms
  by (auto simp: rx_clock_init_def rx_clock_update_settings_def Let_def split_beta wire_def split: option.splits)

lemma open_socket_facts:
  assumes "main_open_socket z fw = Running fw'"
  shows "\<exists>n. fw' = fw\<lparr>fw_net := n\<rparr> \<and> net_sent n = net_sent (fw_net fw) \<and> w_received n = w_received (fw_net fw)"
  using assms
  by (auto simp: main_open_socket_def w5500_open_udp_socket_def w5500_debug_status_def Let_def split_beta fatal_panic_def
      net_sent_def split: if_splits)

lemma main_config_boot:
  assumes "boot_inv fw"
  shows "boot_inv (snd (main_config garbage fw))"
  using assms by (auto simp: main_config_def boot_inv_def split: option.split)

lemma main_clocks_facts:
  assumes "main_clocks k fw = Running fw'"
  shows "\<exists>d. fw' = fw\<lparr>fw_driver := d\<rparr> \<and> driver_ok d \<and> wire d = wire (fw_driver fw)"
proof -
  obtain d1 d2 where d1: "tx_clock_init k 0 0 (ac_v24_config (fw_app fw)) (fw_driver fw) = Some d1"
    and d2: "rx_clock_init k 0 1 (Some (rx_polarities (vc_polarities (ac_v24_config (fw_app fw))))) d1 = Some d2"
    and fw': "fw' = fw\<lparr>fw_driver := d2\<rparr>"
    using assms by (auto simp: main_clocks_def proceed_eq_Running in_driver_Running)
  then show ?thesis
    using tx_clock_init_facts [OF d1] rx_clock_init_facts [OF d2] by (auto simp: driver_ok_def)
qed

text \<open>The phases of the start-up that a running firmware went through.\<close>

lemma main_startup_phases:
  assumes "main_startup k z garbage fw = Running fw'"
  obtains n cfg fw3 fw4 fw5 fw6 where "w5500_driver_init z (fw_net fw) = Running n"
    "main_config garbage (fw\<lparr>fw_net := n, fw_driver := init_pins k (fw_driver fw)\<rparr>) = (cfg, fw3)"
    "init_app z cfg fw3 = Running fw4" "main_open_socket z fw4 = Running fw5"
    "main_clocks k (main_tx_queue fw5) = Running fw6" "fw' = main_ready k (main_estimator k fw6)"
  using assms that
  by (auto simp: main_startup_def proceed_eq_Running in_net_Running Let_def split_beta) (metis prod.collapse)

lemma main_startup_state:
  assumes "main_startup k z garbage (power_on hw chip flash) = Running fw"
  shows "fw_inv fw \<and> net_sent (fw_net fw) = [] \<and> w_received (fw_net fw) = [] \<and> wire (fw_driver fw) = []
    \<and> ac_tx_queue (fw_app fw) = tx_queue_start \<and> eq_contents (fw_events fw) = []"
proof -
  let ?fw = "power_on hw chip flash"
  obtain n cfg fw3 fw4 fw5 fw6 where n: "w5500_driver_init z (fw_net ?fw) = Running n"
    and cfg: "main_config garbage (?fw\<lparr>fw_net := n, fw_driver := init_pins k (fw_driver ?fw)\<rparr>) = (cfg, fw3)"
    and fw4: "init_app z cfg fw3 = Running fw4" and fw5: "main_open_socket z fw4 = Running fw5"
    and fw6: "main_clocks k (main_tx_queue fw5) = Running fw6" and fw: "fw = main_ready k (main_estimator k fw6)"
    by (rule main_startup_phases [OF assms])
  have "boot_inv (?fw\<lparr>fw_net := n, fw_driver := init_pins k (fw_driver ?fw)\<rparr>)"
    using boot_inv_power_on [of hw chip flash] driver_init_net [OF n] init_pins_wire [of k "fw_driver ?fw"]
    by (simp add: boot_inv_def)
  then have "boot_inv fw3"
    using main_config_boot [of _ garbage] cfg by (metis snd_conv)
  note app = init_app_boot [OF fw4 this]
  obtain n5 where n5: "fw5 = fw4\<lparr>fw_net := n5\<rparr>" "net_sent n5 = net_sent (fw_net fw4)" "w_received n5 = w_received (fw_net fw4)"
    using open_socket_facts [OF fw5] by blast
  obtain d where d: "fw6 = (main_tx_queue fw5)\<lparr>fw_driver := d\<rparr>" "driver_ok d" "wire d = wire (fw_driver fw5)"
    using main_clocks_facts [OF fw6] by (auto simp: main_tx_queue_def)
  have q6: "ac_tx_queue (fw_app fw6) = tx_queue_start"
    using app(1) tx_queue_boot by (simp add: d(1) main_tx_queue_def n5(1) boot_inv_def)
  have "fw_inv (fw6\<lparr>fw_events := event_queue_init event_zero\<rparr>)"
    using app n5 d q6 tx_inv_start console_start(1) [of event_zero] event_queue_init_inv(2) [of event_zero]
    by (simp add: fw_inv_def forwarded_ok_def buffers_inv_def events_inv_def main_tx_queue_def frame_clean_def boot_inv_def)
  then have "fw_inv fw"
    by (rule same_view_inv [rotated])
      (use silent_main_estimator [of fw6 k] in \<open>simp add: fw main_ready_def same_view_def silent_def pios_def wire_def Let_def\<close>)
  moreover have "net_sent (fw_net fw) = []" "w_received (fw_net fw) = []" "ac_tx_queue (fw_app fw) = tx_queue_start"
    "eq_contents (fw_events fw) = []" "wire (fw_driver fw) = []"
    using app(1) n5 d q6 event_queue_init_inv(2) [of event_zero] silent_main_estimator [of fw6 k]
    by (simp_all add: fw main_ready_def main_tx_queue_def boot_inv_def silent_def wire_def Let_def)
  ultimately show ?thesis
    by simp
qed

lemma main_startup_inv: "main_startup k z garbage (power_on hw chip flash) = Running fw \<Longrightarrow> fw_inv fw"
  by (rule main_startup_state [THEN conjunct1])

text \<open>The start-up leaves the frequency estimator as \<open>Baudrate_Monitor\<close> takes it up.\<close>

lemma main_startup_estimator:
  assumes "main_startup k z garbage (power_on hw chip flash) = Running fw"
  shows "baud_start (fw_baud fw)"
proof -
  let ?fw = "power_on hw chip flash"
  obtain n cfg fw3 fw4 fw5 fw6 where cfg: "main_config garbage (?fw\<lparr>fw_net := n, fw_driver := init_pins k (fw_driver ?fw)\<rparr>) = (cfg, fw3)"
    and fw4: "init_app z cfg fw3 = Running fw4" and fw5: "main_open_socket z fw4 = Running fw5"
    and fw6: "main_clocks k (main_tx_queue fw5) = Running fw6" and fw: "fw = main_ready k (main_estimator k fw6)"
    by (rule main_startup_phases [OF assms])
  have "fw_baud fw3 = baud_monitor_zero"
    using cfg by (auto simp: main_config_def power_on_def split: option.splits)
  moreover have "fw_baud fw4 = fw_baud fw3"
    using fw4 by (auto simp: init_app_def init_app_stored_def init_app_default_def proceed_eq_Running Let_def
        split: prod.splits option.splits if_splits)
  moreover have "fw_baud fw6 = fw_baud fw4"
    using open_socket_facts [OF fw5] main_clocks_facts [OF fw6] by (auto simp: main_tx_queue_def)
  ultimately show ?thesis
    by (auto simp: fw main_ready_def main_estimator_def baud_start_def rxc_monitor_def Let_def split_beta)
qed

section \<open>When the firmware starts and keeps going\<close>

text \<open>
  A chip that accepts its socket and memory settings, and a receiver whose FIFO is empty after
  finitely many reads.
\<close>

definition chip_accepts :: "'w wiznet \<Rightarrow> bool" where
  "chip_accepts z \<longleftrightarrow> (\<forall>s m p f w. fst (wiz_do z (Wiz_socket s m p f) w) = int s)
     \<and> (\<forall>a b w. fst (wiz_do z (Wiz_init_memsize a b) w) \<noteq> -1)"

definition fifo_empties :: "'h sdk \<Rightarrow> 'w itself \<Rightarrow> bool" where
  "fifo_empties k _ \<longleftrightarrow> (\<forall>st :: ('h, 'w) loop_state \<times> nat. drain_rx_until_empty k st \<noteq> None)"

lemma chip_do_ret: "fst (chip_do z c n) = fst (wiz_do z c (w_chip n))"
  by (simp add: chip_do_def split_beta)

lemma driver_init_starts: "chip_accepts z \<Longrightarrow> \<exists>n'. w5500_driver_init z n = Running n'"
  by (simp add: w5500_driver_init_def w5500_apply_socket_mem_map_def chip_accepts_def split_beta Let_def chip_do_ret)

lemma open_socket_starts: "chip_accepts z \<Longrightarrow> \<exists>fw'. main_open_socket z fw = Running fw'"
  by (simp add: main_open_socket_def w5500_open_udp_socket_def chip_accepts_def split_beta Let_def chip_do_ret)

lemma clocks_start: "\<exists>fw'. main_clocks k fw = Running fw'"
  by (simp add: main_clocks_def in_driver_def tx_clock_init_def tx_clock_init_xck_def tx_clock_init_tck_def
      tx_clock_update_settings_def rx_clock_init_def rx_clock_update_settings_def Let_def split_beta)

lemma init_app_starts:
  assumes "ac_config_valid (fw_app fw) \<longrightarrow> vc_baudrate (cf_v24_config cfg) \<noteq> 0"
  shows "\<exists>fw'. init_app z cfg fw = Running fw'"
  using assms
  by (auto simp: init_app_def init_app_stored_def init_app_default_def init_v24_config_def reinit_v24_config_def
      V24_BAUD_9600_def Let_def split_beta)

lemma main_startup_starts:
  assumes "chip_accepts z" "cf_magic flash = CONFIG_MAGIC \<longrightarrow> vc_baudrate (cf_v24_config flash) \<noteq> 0"
  shows "\<exists>fw. main_startup k z garbage (power_on hw chip flash) = Running fw"
proof -
  let ?fw = "power_on hw chip flash"
  obtain n where n: "w5500_driver_init z (fw_net ?fw) = Running n"
    using driver_init_starts [OF assms(1)] by blast
  obtain cfg fw3 where cfg: "main_config garbage (?fw\<lparr>fw_net := n, fw_driver := init_pins k (fw_driver ?fw)\<rparr>) = (cfg, fw3)"
    by fastforce
  then have "ac_config_valid (fw_app fw3) \<longrightarrow> vc_baudrate (cf_v24_config cfg) \<noteq> 0"
    using assms(2) by (auto simp: main_config_def config_is_valid_def config_read_def power_on_def split: if_splits)
  then obtain fw4 where fw4: "init_app z cfg fw3 = Running fw4"
    using init_app_starts by blast
  obtain fw5 where fw5: "main_open_socket z fw4 = Running fw5"
    using open_socket_starts [OF assms(1)] by blast
  obtain fw6 where "main_clocks k (main_tx_queue fw5) = Running fw6"
    using clocks_start by blast
  then show ?thesis
    using n cfg fw4 fw5 by (simp add: main_startup_def Let_def)
qed

text \<open>The main loop as a system that runs from any successful start-up.\<close>

definition loop_start :: "'h sdk \<Rightarrow> 'w wiznet \<Rightarrow> ('h, 'w) loop_state \<Rightarrow> bool" where
  "loop_start k z st \<longleftrightarrow> fst st = event_loop_runtime_start
     \<and> (\<exists>garbage hw chip flash. main_startup k z garbage (power_on hw chip flash) = Running (snd st))"

definition loop_step :: "'h sdk \<Rightarrow> 'w wiznet \<Rightarrow> ('h, 'w) loop_state \<Rightarrow> ('h, 'w) loop_state \<Rightarrow> bool" where
  "loop_step k z st st' \<longleftrightarrow> recvfrom_contract z \<and> event_loop_iteration k z st = Some (Running st')"

interpretation main_loop: safe_system "loop_start k z" "loop_step k z" "\<lambda>st. fw_inv (snd st)" for k z
  by unfold_locales
    (use main_startup_inv event_loop_iteration_inv in \<open>fastforce simp: loop_start_def loop_step_def\<close>)+

lemma event_loop_steps:
  assumes "recvfrom_contract z" "event_loop k z n st = Some (Running st')"
  shows "(loop_step k z)\<^sup>*\<^sup>* st st'"
  using assms(2)
proof (induction n arbitrary: st)
  case (Suc n)
  then obtain st1 where st1: "event_loop_iteration k z st = Some (Running st1)" "event_loop k z n st1 = Some (Running st')"
    by (auto split: option.splits outcome.splits)
  have "loop_step k z st st1"
    using st1(1) assms(1) by (simp add: loop_step_def)
  then show ?case
    using Suc.IH [OF st1(2)] by (rule converse_rtranclp_into_rtranclp)
qed simp

lemma running_inv:
  assumes "recvfrom_contract z" "main_startup k z garbage (power_on hw chip flash) = Running fw0"
    and "event_loop k z n (event_loop_runtime_start, fw0) = Some (Running (rt, fw))"
  shows "fw_inv fw"
  using main_loop.reachable_invar [OF _ event_loop_steps [OF assms(1,3)]] assms(2) by (auto simp: loop_start_def)

lemma iteration_returns:
  fixes st :: "('h, 'w) loop_state"
  assumes "recvfrom_contract z" "fifo_empties k TYPE('w)" "fw_inv (snd st)"
  shows "\<exists>r. event_loop_iteration k z st = Some r"
proof -
  have drains: "\<exists>now st'. loop_drain_rx k st = Some (now, st')" for st :: "('h, 'w) loop_state"
  proof -
    obtain st1 where "drain_rx_until_empty k (st, 0) = Some st1"
      using assms(2) unfolding fifo_empties_def by blast
    then show ?thesis
      by (simp add: loop_drain_rx_def split_beta Let_def)
  qed
  obtain rt fw where st: "st = (rt, fw)"
    by (cases st)
  obtain now rt1 fw1 where rx: "loop_drain_rx k (rt, loop_cli_poll k fw) = Some (now, rt1, fw1)"
    using drains by (metis prod.collapse)
  have "fw_inv (loop_buffer_stats z fw1)"
    using loop_drain_rx_inv [OF rx] loop_cli_poll_inv [of fw k] assms(3) st housekeeping_same_view(4) same_view_inv
    by (metis snd_conv)
  then obtain st2 where tx: "snd (poll_tx_pipeline k (rt1, loop_buffer_stats z fw1)) = Running st2" "fw_inv (snd st2)"
    using poll_tx_pipeline_inv [of "(rt1, loop_buffer_stats z fw1)" k] by auto
  obtain now2 st4 where rx2: "loop_drain_rx k (loop_udp_rx z st2) = Some (now2, st4)"
    using drains by blast
  have "fw_inv (snd (poll_hdlc_idle_timeout now2 st4))"
    by (rule poll_hdlc_idle_timeout_inv [OF loop_drain_rx_inv [OF rx2 loop_udp_rx_inv [OF assms(1) tx(2)]]])
  then obtain st5 where "drain_hdlc_frames_to_udp z (poll_hdlc_idle_timeout now2 st4) = Some st5"
    using drain_frames_returns by blast
  then show ?thesis
    using rx tx(1) rx2 by (simp add: st event_loop_iteration_def loop_line_to_network_def)
qed

lemma event_loop_returns:
  fixes st :: "('h, 'w) loop_state"
  assumes "recvfrom_contract z" "fifo_empties k TYPE('w)" "fw_inv (snd st)"
  shows "\<exists>r. event_loop k z n st = Some r"
  using assms(3)
proof (induction n arbitrary: st)
  case 0
  then show ?case by simp
next
  case (Suc n)
  obtain r where step: "event_loop_iteration k z st = Some r"
    using iteration_returns [OF assms(1,2) Suc.prems] by blast
  then show ?case
    using event_loop_iteration_inv [OF assms(1) Suc.prems step] Suc.IH by (cases r) auto
qed

text \<open>Each frame taken from the raw stream sends at most one datagram.\<close>

lemma decode_sends:
  fixes z :: "'w wiznet" and fw :: "('h, 'w) firmware"
  shows "length (net_sent (fw_net (snd (decode_hdlc_to_udp_tx z (rt, fw))))) \<le> Suc (length (net_sent (fw_net fw)))"
proof -
  have "length (net_sent (fw_net (snd (decode_accepted z (rt', fw'))))) = Suc (length (net_sent (fw_net fw')))"
    for rt' and fw' :: "('h, 'w) firmware"
    by (simp add: decode_accepted_def w5500_udp_tx_def net_sent_def)
  moreover have "fw_net (snd (decode_rejected (rt', fw'))) = fw_net fw'" for rt' and fw' :: "('h, 'w) firmware"
    by (simp add: decode_rejected_def Let_def)
  ultimately show ?thesis
    by (simp add: decode_hdlc_to_udp_tx_def split_beta Let_def le_SucI)
qed

lemma drain_frames_bound:
  assumes "fw_inv (snd st)"
  shows "\<exists>st'. drain_hdlc_frames_to_udp z st = Some st' \<and> fw_inv (snd st')
    \<and> length (net_sent (fw_net (snd st'))) \<le> length (net_sent (fw_net (snd st))) + raw_len (snd st)"
  using assms
proof (induction "raw_len (snd st)" arbitrary: st rule: less_induct)
  case less
  obtain e fw1 where poll: "poll_accumulator (snd st) = (e, fw1)"
    by fastforce
  note step = poll_accumulator_inv [OF less.prems poll]
  have net: "fw_net fw1 = fw_net (snd st)"
    using poll by (auto simp: poll_accumulator_def split: prod.splits)
  obtain st' where st': "drain_hdlc_frames_to_udp z st = Some st'" "fw_inv (snd st')"
    using drain_frames_returns [OF less.prems] by blast
  have "length (net_sent (fw_net (snd st'))) \<le> length (net_sent (fw_net (snd st))) + raw_len (snd st)"
  proof (cases "e = E2S_ERR_HDLC_ACC_FRAME_READY")
    case True
    let ?next = "decode_hdlc_to_udp_tx z (fst st, fw1)"
    note dec = decode_hdlc_to_udp_tx_inv [OF step(1) step(3) [OF True], of z "fst st"]
    have "drain_hdlc_frames_to_udp z ?next = Some st'"
      using st'(1) True by (subst (asm) drain_hdlc_frames_to_udp.simps) (simp add: poll)
    then have "length (net_sent (fw_net (snd st'))) \<le> length (net_sent (fw_net (snd ?next))) + raw_len (snd ?next)"
      using less.hyps [OF _ dec(1)] dec(2) step(2) by fastforce
    then show ?thesis
      using decode_sends [of z "fst st" fw1] dec(2) step(2) unfolding net by linarith
  next
    case False
    then show ?thesis
      using st'(1) net by (subst (asm) drain_hdlc_frames_to_udp.simps) (auto simp: poll split: if_splits)
  qed
  with st' show ?case
    by blast
qed

section \<open>A quiet board\<close>

lemma quiet_fifo: "quiet k \<Longrightarrow> fifo_empties k TYPE('w)"
  by (simp add: fifo_empties_def quiet_drain)

text \<open>The board of the witnesses: a silent line, and a chip that has some datagrams waiting.\<close>

definition quiet_sdk :: "unit sdk" where
  "quiet_sdk = \<lparr>sdk_do = (\<lambda>_ h. h), sdk_ask = (\<lambda>q h. (if q = Getchar_timeout_us then -1 else 1, h)), sdk_cts_irqs = (\<lambda>h. ([], h)),
     PIO_FDEBUG_TXSTALL_LSB = 24, PIO_FDEBUG_RXSTALL_LSB = 0, GPIO_IRQ_EDGES = 12, SYS_CLK_HZ = 125000000,
     GPIO_FUNC_SIO = 5, PICO_ERROR_TIMEOUT = -1\<rparr>"

definition mail_chip :: "nat wiznet" where
  "mail_chip = \<lparr>wiz_do = (\<lambda>c w. (case c of Wiz_socket s _ _ _ \<Rightarrow> int s | _ \<Rightarrow> 0, w)), wiz_ask = (\<lambda>_ w. (0, w)),
     wiz_recvfrom = (\<lambda>_ cap w. if 0 < w \<and> 0 < cap then (\<lparr>wr_ret = 1, wr_data = [0xFF], wr_from = Some ([10, 0, 0, 1], 6969)\<rparr>, w - 1)
                             else (\<lparr>wr_ret = 0, wr_data = [], wr_from = None\<rparr>, w)),
     wiz_getnetinfo = (\<lambda>w. (default_net_info, w))\<rparr>"

lemma quiet_board: "quiet quiet_sdk" "recvfrom_contract mail_chip" "chip_accepts mail_chip"
proof -
  show "quiet quiet_sdk"
    by (simp add: quiet_def rx_get_def hw_ask_def quiet_sdk_def split: option.split)
  show "recvfrom_contract mail_chip" "chip_accepts mail_chip"
    by (auto simp: recvfrom_contract_def mail_chip_def chip_accepts_def Let_def)
qed

lemma quiet_start:
  obtains fw rt' fw' where "main_startup quiet_sdk mail_chip config_zero (power_on () 5 config_zero) = Running fw"
    "event_loop quiet_sdk mail_chip 3 (event_loop_runtime_start, fw) = Some (Running (rt', fw'))"
proof -
  have "cf_magic config_zero \<noteq> CONFIG_MAGIC"
    by (simp add: config_zero_def CONFIG_MAGIC_def)
  then obtain fw where fw: "main_startup quiet_sdk mail_chip config_zero (power_on () 5 config_zero) = Running fw"
    using main_startup_starts [OF quiet_board(3), of config_zero quiet_sdk config_zero "()" 5] by blast
  then show thesis
    using that quiet_loop [OF quiet_board(1,2)] main_startup_state [OF fw] by blast
qed

section \<open>Properties\<close>

lemma line_payloads_all:
  assumes "\<forall>data\<in>set received. length data \<le> UDP_MAX_PAYLOAD_BYTES"
  shows "line_payloads received = received"
  using assms length_hdlc_frame_max [of _ True]
  by (fastforce simp: line_payloads_def TX_FRAME_MAX_SIZE_BYTE_def filter_id_conv)

text \<open>
  C1.  The firmware keeps running.  After a successful start-up, on any hardware whose receive FIFO
  runs empty after finitely many reads, whatever arrives from the network, the line and the console,
  every iteration of the main loop completes, and the loop is never left through undefined behaviour:
  it stops only when a reboot was requested or a socket could not be reopened.
\<close>

theorem firmware_keeps_running:
  fixes k :: "'h sdk" and z :: "'w wiznet"
  assumes "recvfrom_contract z" "fifo_empties k TYPE('w)"
    and "main_startup k z garbage (power_on hw chip flash) = Running fw0"
  shows "(\<exists>st. event_loop k z n (event_loop_runtime_start, fw0) = Some (Running st))
    \<or> (\<exists>why st. event_loop k z n (event_loop_runtime_start, fw0) = Some (Stopped why st) \<and> why \<noteq> Undefined)"
proof -
  have inv: "fw_inv (snd (event_loop_runtime_start, fw0))"
    using main_startup_inv [OF assms(3)] by simp
  obtain r where r: "event_loop k z n (event_loop_runtime_start, fw0) = Some r"
    using event_loop_returns [OF assms(1,2) inv] by blast
  then show ?thesis
    using event_loop_inv [OF assms(1) inv r] by (cases r) auto
qed

theorem firmware_keeps_running_witness:
  "\<exists>fw0. main_startup quiet_sdk mail_chip config_zero (power_on () 5 config_zero) = Running fw0
     \<and> ((\<exists>st. event_loop quiet_sdk mail_chip 3 (event_loop_runtime_start, fw0) = Some (Running st))
       \<or> (\<exists>why st. event_loop quiet_sdk mail_chip 3 (event_loop_runtime_start, fw0) = Some (Stopped why st) \<and> why \<noteq> Undefined))"
  by (rule quiet_start)
    (use firmware_keeps_running [OF quiet_board(2) quiet_fifo [OF quiet_board(1)]] in blast)

text \<open>
  C8.  The transmit queue never overflows.  At the end of every iteration at most 48 of its 64 entries
  are used, and no datagram has been dropped because the queue was full: the loop stops taking
  datagrams from the chip at 48 and takes the next one only when 12 are left.
\<close>

theorem tx_queue_never_overflows:
  fixes k :: "'h sdk" and z :: "'w wiznet"
  assumes "recvfrom_contract z" "main_startup k z garbage (power_on hw chip flash) = Running fw0"
    and "event_loop k z n (event_loop_runtime_start, fw0) = Some (Running (rt, fw))"
  shows "tx_queue_get_count (ac_tx_queue (fw_app fw)) \<le> TX_QUEUE_HIGH_WM
    \<and> st_tx_queue_drop_frames (ac_stats (fw_app fw)) = 0"
  using running_inv [OF assms] by (simp add: fw_inv_def tx_inv_def)

theorem tx_queue_never_overflows_witness:
  "\<exists>fw0 rt fw. main_startup quiet_sdk mail_chip config_zero (power_on () 5 config_zero) = Running fw0
     \<and> event_loop quiet_sdk mail_chip 3 (event_loop_runtime_start, fw0) = Some (Running (rt, fw))
     \<and> tx_queue_get_count (ac_tx_queue (fw_app fw)) \<le> TX_QUEUE_HIGH_WM"
proof (rule quiet_start)
  fix fw rt' fw'
  assume run: "main_startup quiet_sdk mail_chip config_zero (power_on () 5 config_zero) = Running fw"
    "event_loop quiet_sdk mail_chip 3 (event_loop_runtime_start, fw) = Some (Running (rt', fw'))"
  show ?thesis
    using run tx_queue_never_overflows [OF quiet_board(2) run] by blast
qed





text \<open>
  C32.  Draining terminates.  In every state the invariant allows, the loop that extracts frames from
  the received bytes comes to an end, whatever was received; it sends at most one datagram per byte
  that was buffered and keeps the invariant.  The states at start-up satisfy the invariant, and every
  iteration of the main loop keeps it.
\<close>

theorem frame_drain_terminates:
  assumes "fw_inv fw"
  shows "\<exists>rt' fw'. drain_hdlc_frames_to_udp z (rt, fw) = Some (rt', fw') \<and> fw_inv fw'
    \<and> length (net_sent (fw_net fw')) \<le> length (net_sent (fw_net fw)) + length (raw (ac_accumulator (fw_app fw)))"
  using drain_frames_bound [of "(rt, fw)" z] assms by (auto simp: raw_len_def)

theorem frame_drain_terminates_witness:
  "\<exists>fw rt' fw'. main_startup quiet_sdk mail_chip config_zero (power_on () 5 config_zero) = Running fw
     \<and> drain_hdlc_frames_to_udp mail_chip (event_loop_runtime_start, fw) = Some (rt', fw')"
proof (rule quiet_start)
  fix fw rt' fw'
  assume run: "main_startup quiet_sdk mail_chip config_zero (power_on () 5 config_zero) = Running fw"
  then show ?thesis
    using frame_drain_terminates [OF main_startup_inv [OF run]] by blast
qed

section \<open>Idle bytes\<close>

lemma process_byte_state:
  "sa_state (snd (hdlc_sync_acc_process_byte acc b)) = sa_state acc" "acc_ok acc \<Longrightarrow> acc_ok (snd (hdlc_sync_acc_process_byte acc b))"
  by (auto simp: hdlc_sync_acc_process_byte_def acc_ok_def)

text \<open>What is left of received bytes when runs of idle bytes are cut to two, \<open>i\<close> of them seen before.\<close>

fun hunt_filter :: "u32 \<Rightarrow> byte list \<Rightarrow> byte list" where
  "hunt_filter i [] = []"
| "hunt_filter i (b # bs) =
     (if b = 0x00 \<or> b = 0xFF then (if 2 \<le> i then hunt_filter i bs else b # hunt_filter (i + 1) bs)
      else b # hunt_filter 0 bs)"

text \<open>A byte received while the synchroniser hunts with the external clock.\<close>

lemma rx_byte_step_hunting:
  assumes "vc_external_clock (ac_v24_config (fw_app fw))" "sa_state (ac_accumulator (fw_app fw)) = HDLC_SYNC_STATE_HUNTING"
    and "acc_ok (ac_accumulator (fw_app fw))" "length (raw (ac_accumulator (fw_app fw))) < RX_HDLC_SYNC_MAX_BUFFER_SIZE"
    and "rx_byte_step b ((rt, fw), n) = ((rt', fw'), n')"
  defines "skip \<equiv> (b = 0x00 \<or> b = 0xFF) \<and> 2 \<le> el_hunt_idle_run_length rt"
  shows "raw (ac_accumulator (fw_app fw')) = raw (ac_accumulator (fw_app fw)) @ (if skip then [] else [b])"
    "ac_v24_config (fw_app fw') = ac_v24_config (fw_app fw)"
    "sa_state (ac_accumulator (fw_app fw')) = HDLC_SYNC_STATE_HUNTING" "acc_ok (ac_accumulator (fw_app fw'))"
    "el_hunt_idle_run_length rt' = (if b = 0x00 \<or> b = 0xFF then (if skip then el_hunt_idle_run_length rt
       else el_hunt_idle_run_length rt + 1) else 0)"
proof -
  have room: "sa_position (ac_accumulator (fw_app fw)) < RX_HDLC_SYNC_MAX_BUFFER_SIZE"
    using assms(3,4) length_raw by simp
  note byte = process_byte_raw [OF assms(3) room, of b]
  show "raw (ac_accumulator (fw_app fw')) = raw (ac_accumulator (fw_app fw)) @ (if skip then [] else [b])"
    "ac_v24_config (fw_app fw') = ac_v24_config (fw_app fw)"
    "sa_state (ac_accumulator (fw_app fw')) = HDLC_SYNC_STATE_HUNTING" "acc_ok (ac_accumulator (fw_app fw'))"
    "el_hunt_idle_run_length rt' = (if b = 0x00 \<or> b = 0xFF then (if skip then el_hunt_idle_run_length rt
       else el_hunt_idle_run_length rt + 1) else 0)"
    using assms(1-3,5) byte
    by (auto simp: skip_def rx_byte_step_def event_loop_should_drop_hunt_idle_byte_def upd_stats_def process_byte_state Let_def
        split_beta split: if_splits)
qed


lemma rx_bytes_hunting:
  assumes "vc_external_clock (ac_v24_config (fw_app fw))" "sa_state (ac_accumulator (fw_app fw)) = HDLC_SYNC_STATE_HUNTING"
    and "acc_ok (ac_accumulator (fw_app fw))" "length (raw (ac_accumulator (fw_app fw))) + length bs \<le> RX_HDLC_SYNC_MAX_BUFFER_SIZE"
  shows "raw (ac_accumulator (fw_app (snd (fst (fold rx_byte_step bs ((rt, fw), n))))))
    = raw (ac_accumulator (fw_app fw)) @ hunt_filter (el_hunt_idle_run_length rt) bs"
  using assms
proof (induction bs arbitrary: rt fw n)
  case (Cons b bs)
  obtain rt' fw' n' where step: "rx_byte_step b ((rt, fw), n) = ((rt', fw'), n')"
    by (metis surj_pair)
  have "length (raw (ac_accumulator (fw_app fw))) < RX_HDLC_SYNC_MAX_BUFFER_SIZE"
    using Cons.prems(4) by simp
  note one = rx_byte_step_hunting [OF Cons.prems(1-3) this step]
  have "length (raw (ac_accumulator (fw_app fw'))) + length bs \<le> RX_HDLC_SYNC_MAX_BUFFER_SIZE"
    using one(1) Cons.prems(4) by (simp split: if_splits)
  from Cons.IH [OF _ one(3,4) this] one(1,2,5) Cons.prems(1) show ?case
    by (auto simp: step)
qed simp

lemma zero_frame:
  "hdlc_frame True [0, 0, 0] = [0x7E, 0, 0, 0, 0xCC, 0x9C, 0x7E]"
  "hunt_filter 0 [0x7E, 0, 0, 0, 0xCC, 0x9C, 0x7E] = [0x7E, 0, 0, 0xCC, 0x9C, 0x7E]"
  by code_simp+

text \<open>
  C38.  The idle filter damages frames.  In external clock mode, while the synchroniser is hunting, a run
  of received bytes 00 or FF is cut to two, wherever it occurs: what reaches the synchroniser is the
  filtered stream.  A frame that is received in one piece is filtered as well, and one that carries
  three such bytes in a row loses a byte: the frame of the payload 00 00 00 does not survive.
\<close>

theorem idle_filter_damages_frames:
  assumes "vc_external_clock (ac_v24_config (fw_app fw))" "sa_state (ac_accumulator (fw_app fw)) = HDLC_SYNC_STATE_HUNTING"
    and "acc_ok (ac_accumulator (fw_app fw))" "length (raw (ac_accumulator (fw_app fw))) + length bs \<le> RX_HDLC_SYNC_MAX_BUFFER_SIZE"
  shows "raw (ac_accumulator (fw_app (snd (fst (fold rx_byte_step bs ((rt, fw), n))))))
      = raw (ac_accumulator (fw_app fw)) @ hunt_filter (el_hunt_idle_run_length rt) bs
    \<and> hdlc_frame True [0, 0, 0] = [0x7E, 0, 0, 0, 0xCC, 0x9C, 0x7E]
    \<and> hunt_filter 0 (hdlc_frame True [0, 0, 0]) = [0x7E, 0, 0, 0xCC, 0x9C, 0x7E]"
  using rx_bytes_hunting [OF assms] zero_frame by metis

theorem idle_filter_damages_frames_witness:
  "let fw = (power_on () (5::nat) config_zero)\<lparr>fw_app := app_zero\<lparr>ac_v24_config := v24_config_zero\<lparr>vc_external_clock := True\<rparr>\<rparr>\<rparr>
   in raw (ac_accumulator (fw_app (snd (fst (fold rx_byte_step (hdlc_frame True [0, 0, 0]) ((event_loop_runtime_start, fw), 0))))))
     = [0x7E, 0, 0, 0xCC, 0x9C, 0x7E]"
proof -
  let ?fw = "(power_on () (5::nat) config_zero)\<lparr>fw_app := app_zero\<lparr>ac_v24_config := v24_config_zero\<lparr>vc_external_clock := True\<rparr>\<rparr>\<rparr>"
  let ?bs = "hdlc_frame True [0, 0, 0]"
  have hunting: "vc_external_clock (ac_v24_config (fw_app ?fw))" "sa_state (ac_accumulator (fw_app ?fw)) = HDLC_SYNC_STATE_HUNTING"
    "acc_ok (ac_accumulator (fw_app ?fw))" "raw (ac_accumulator (fw_app ?fw)) = []"
    by (simp_all add: app_zero_def hdlc_sync_acc_init_def acc_ok_def raw_def)
  have room: "length (raw (ac_accumulator (fw_app ?fw))) + length ?bs \<le> RX_HDLC_SYNC_MAX_BUFFER_SIZE"
    unfolding hunting(4) by (simp add: zero_frame RX_HDLC_SYNC_MAX_BUFFER_SIZE_def)
  have "el_hunt_idle_run_length event_loop_runtime_start = 0"
    by (simp add: event_loop_runtime_start_def)
  then show ?thesis
    using idle_filter_damages_frames [OF hunting(1-3) room, of event_loop_runtime_start 0]
    unfolding hunting(4) Let_def by (metis append_Nil)
qed

end
