(* ===== verification/Settings.thy ===== *)
theory Settings
  imports Firmware
begin

text \<open>
  What becomes of a setting the operator types: it is applied, stored in flash before anything else
  happens, and is in force again after a restart.  And two flaws of the settings handlers: a change of
  the rate leaves RTS raised, and a change of the remote port moves the listening port.
\<close>

section \<open>Storing and restarting\<close>

text \<open>The configuration that \<open>EV_SAVE_CONFIG\<close> puts together.\<close>

definition saved_config :: "'w wiznet \<Rightarrow> ('h, 'w) firmware \<Rightarrow> config_t" where
  "saved_config z fw = (ac_persistent_config (fw_app fw))\<lparr>cf_magic := CONFIG_MAGIC, cf_log_level := get_loglevel (fw_log fw),
     cf_v24_config := ac_v24_config (fw_app fw),
     cf_net_config := (ac_net_config (fw_app fw))\<lparr>nc_net_info := fst (chip_getnetinfo z (fw_net fw))\<rparr>,
     cf_local_config := ac_local_config (fw_app fw), cf_remote_config := ac_destination_config (fw_app fw)\<rparr>"

lemma ev_save_config_flash: "fw_flash (ev_save_config z fw) = saved_config z fw"
  by (simp add: ev_save_config_def saved_config_def config_write_def split_beta Let_def)

lemma ev_save_config_keeps:
  "ac_v24_config (fw_app (ev_save_config z fw)) = ac_v24_config (fw_app fw)"
  "ac_local_config (fw_app (ev_save_config z fw)) = ac_local_config (fw_app fw)"
  "ac_destination_config (fw_app (ev_save_config z fw)) = ac_destination_config (fw_app fw)"
  "fw_events (ev_save_config z fw) = fw_events fw"
  by (simp_all add: ev_save_config_def split_beta Let_def)

text \<open>A start-up from a valid flash puts its content in force.\<close>

lemma reinit_same:
  assumes "V24_BAUD_1200 \<le> vc_baudrate c" "reinit_v24_config c (vc_baudrate c) rt = Some (c', rt')"
  shows "c' = c"
  using assms by (auto simp: reinit_v24_config_def Let_def split: if_splits)

lemma init_app_restores:
  assumes "init_app z cfg fw = Running fw'" "ac_config_valid (fw_app fw)" "V24_BAUD_1200 \<le> vc_baudrate (cf_v24_config cfg)"
  shows "ac_local_config (fw_app fw') = cf_local_config cfg" "ac_destination_config (fw_app fw') = cf_remote_config cfg"
    "ac_v24_config (fw_app fw') = cf_v24_config cfg" "get_loglevel (fw_log fw') = cf_log_level cfg"
    "w_trace (fw_net fw') = w_trace (fw_net fw) @ [Wiz_network_initialize (nc_net_info (cf_net_config cfg))]"
  using assms(1,2) reinit_same [OF assms(3)]
  by (auto simp: init_app_def init_app_stored_def w5500_set_network_def Let_def split_beta proceed_eq_Running
      get_loglevel_def set_loglevel_def split: option.splits prod.splits)

lemma main_startup_restores:
  assumes "main_startup k z garbage (power_on hw chip flash) = Running fw" "cf_magic flash = CONFIG_MAGIC"
    and "V24_BAUD_1200 \<le> vc_baudrate (cf_v24_config flash)"
  shows "ac_local_config (fw_app fw) = cf_local_config flash" "ac_destination_config (fw_app fw) = cf_remote_config flash"
    "ac_v24_config (fw_app fw) = cf_v24_config flash" "get_loglevel (fw_log fw) = cf_log_level flash"
    "\<exists>cs. w_trace (fw_net fw) = cs @ [Wiz_network_initialize (nc_net_info (cf_net_config flash)),
       Wiz_socket UDP_SOCKET Sn_MR_UDP (uc_port (cf_local_config flash)) True]"
proof -
  let ?fw = "power_on hw chip flash"
  obtain n cfg fw3 fw4 fw5 fw6 where n: "w5500_driver_init z (fw_net ?fw) = Running n"
    and cfg: "main_config garbage (?fw\<lparr>fw_net := n, fw_driver := init_pins k (fw_driver ?fw)\<rparr>) = (cfg, fw3)"
    and fw4: "init_app z cfg fw3 = Running fw4" and fw5: "main_open_socket z fw4 = Running fw5"
    and fw6: "main_clocks k (main_tx_queue fw5) = Running fw6" and fw: "fw = main_ready k (main_estimator k fw6)"
    by (rule main_startup_phases [OF assms(1)])
  have cfg3: "cfg = flash" "ac_config_valid (fw_app fw3)"
    using cfg assms(2) by (auto simp: main_config_def config_is_valid_def config_read_def power_on_def)
  note app = init_app_restores [OF fw4 cfg3(2)]
  obtain d where d: "fw6 = (main_tx_queue fw5)\<lparr>fw_driver := d\<rparr>"
    using main_clocks_facts [OF fw6] by blast
  obtain n5 where n5: "fw5 = fw4\<lparr>fw_net := n5\<rparr>"
    and socket: "w_trace n5 = w_trace (fw_net fw4) @ [Wiz_socket UDP_SOCKET Sn_MR_UDP (uc_port (ac_local_config (fw_app fw4))) True]"
    using fw5
    by (auto simp: main_open_socket_def w5500_open_udp_socket_def w5500_debug_status_def Let_def split_beta fatal_panic_def
        split: if_splits)
  have same: "ac_local_config (fw_app fw) = ac_local_config (fw_app fw4)"
    "ac_destination_config (fw_app fw) = ac_destination_config (fw_app fw4)"
    "ac_v24_config (fw_app fw) = ac_v24_config (fw_app fw4)" "fw_log fw = fw_log fw4" "fw_net fw = n5"
    by (simp_all add: fw d n5 main_ready_def main_tx_queue_def Let_def)
  show "ac_local_config (fw_app fw) = cf_local_config flash" "ac_destination_config (fw_app fw) = cf_remote_config flash"
    "ac_v24_config (fw_app fw) = cf_v24_config flash" "get_loglevel (fw_log fw) = cf_log_level flash"
    using app assms(3) cfg3(1) same by simp_all
  show "\<exists>cs. w_trace (fw_net fw) = cs @ [Wiz_network_initialize (nc_net_info (cf_net_config flash)),
       Wiz_socket UDP_SOCKET Sn_MR_UDP (uc_port (cf_local_config flash)) True]"
    using app assms(3) cfg3(1) same(5) socket by simp
qed

section \<open>From the typed line to the flash\<close>

lemma dispatch_next:
  assumes "eq_inv (fw_events fw)" "eq_contents (fw_events fw) = e # es"
  obtains q where "eq_inv q" "eq_contents q = es"
    "dispatch_loop k z (Suc n) fw = proceed (event_dispatch k z e (fw\<lparr>fw_events := q\<rparr>)) (dispatch_loop k z n)"
  using event_queue_pop_run [OF assms(1)] assms(2) that by (auto simp: event_queue_pop_run(1) [OF assms(1)])

lemma dispatch_done:
  assumes "eq_inv (fw_events fw)" "eq_contents (fw_events fw) = []"
  shows "dispatch_loop k z n fw = Running fw"
  using event_queue_pop_run(1) [OF assms(1)] assms(2) by (cases n) simp_all

lemma push_event_queue:
  assumes "eq_inv (fw_events fw)" "length (eq_contents (fw_events fw)) < 15"
  shows "eq_inv (fw_events (push_event e fw))" "eq_contents (fw_events (push_event e fw)) = eq_contents (fw_events fw) @ [e]"
  using event_queue_push_room(2,3) [OF assms(1), of e] assms(2) by (simp_all add: push_event_def EVENT_QUEUE_CAPACITY_def)

lemma push_event_keeps:
  "fw_app (push_event e fw) = fw_app fw" "fw_net (push_event e fw) = fw_net fw" "fw_log (push_event e fw) = fw_log fw"
  "fw_flash (push_event e fw) = fw_flash fw" "fw_driver (push_event e fw) = fw_driver fw"
  by (simp_all add: push_event_def)

text \<open>
  The operator has typed one line and nothing else is waiting; the transmitter is idle, so that one
  pass may handle up to 20 events.
\<close>

definition line_waiting :: "string \<Rightarrow> ('h, 'w) firmware \<Rightarrow> bool" where
  "line_waiting line fw \<longleftrightarrow> eq_inv (fw_events fw) \<and> tx_queue_is_empty (ac_tx_queue (fw_app fw))
     \<and> (\<exists>slot. eq_contents (fw_events fw) = [cli_line_event slot line] \<and> ci_line_pool (fw_cli fw) ! slot = line)"

text \<open>The line queues a settings event, and the next step of the pass dispatches it.\<close>

lemma line_dispatched:
  assumes "line_waiting line fw" "\<And>fw. handle_cli_line k z line fw = push_event e fw"
  obtains q where "eq_inv q" "eq_contents q = []"
    "poll_and_dispatch_events k z fw
     = proceed (event_dispatch k z e (prompt_app (fw\<lparr>fw_events := q\<rparr>))) (dispatch_loop k z 18)"
proof -
  obtain slot where fw: "eq_inv (fw_events fw)" "eq_contents (fw_events fw) = [cli_line_event slot line]"
    "ci_line_pool (fw_cli fw) ! slot = line" "tx_queue_is_empty (ac_tx_queue (fw_app fw))"
    using assms(1) by (auto simp: line_waiting_def)
  obtain q1 where q1: "eq_inv q1" "eq_contents q1 = []"
    "dispatch_loop k z (Suc 19) fw = proceed (event_dispatch k z (cli_line_event slot line) (fw\<lparr>fw_events := q1\<rparr>)) (dispatch_loop k z 19)"
    by (rule dispatch_next [OF fw(1,2)])
  let ?fw1 = "prompt_app (push_event e (fw\<lparr>fw_events := q1\<rparr>))"
  have line: "event_dispatch k z (cli_line_event slot line) (fw\<lparr>fw_events := q1\<rparr>) = Running ?fw1"
    using fw(3) assms(2) by (simp add: event_dispatch_def cli_line_event_def event_get_payload_ptr_def)
  have "eq_inv (fw_events ?fw1)" "eq_contents (fw_events ?fw1) = [e]"
    using push_event_queue [of "fw\<lparr>fw_events := q1\<rparr>" e] q1(1,2) by (simp_all add: prompt_app_def)
  then obtain q2 where q2: "eq_inv q2" "eq_contents q2 = []"
    "dispatch_loop k z (Suc 18) ?fw1 = proceed (event_dispatch k z e (?fw1\<lparr>fw_events := q2\<rparr>)) (dispatch_loop k z 18)"
    by (rule dispatch_next)
  have "?fw1\<lparr>fw_events := q2\<rparr> = prompt_app (fw\<lparr>fw_events := q2\<rparr>)"
    by (simp add: push_event_def prompt_app_def upd_app_def)
  moreover have "Suc 18 = 19" "Suc 19 = 20"
    by simp_all
  ultimately have "dispatch_loop k z 20 fw = proceed (event_dispatch k z e (prompt_app (fw\<lparr>fw_events := q2\<rparr>))) (dispatch_loop k z 18)"
    using q1(3) q2(3) line by (metis proceed.simps(1))
  then show thesis
    using that [OF q2(1,2)] fw(4) by (simp add: poll_and_dispatch_events_def EVENT_LOOP_MAX_EVENTS_AT_ONCE_def)
qed

text \<open>A settings event that changes something asks for a save, which the same pass carries out.\<close>

lemma setting_saved:
  assumes "eq_inv (fw_events fw1)" "eq_contents (fw_events fw1) = []"
    and "event_dispatch k z e fw = Running (request_save_config fw1)"
  obtains q where "proceed (event_dispatch k z e fw) (dispatch_loop k z 18) = Running (ev_save_config z (fw1\<lparr>fw_events := q\<rparr>))"
proof -
  let ?fw2 = "request_save_config fw1"
  have "eq_inv (fw_events ?fw2)" "eq_contents (fw_events ?fw2) = [bare_event EV_SAVE_CONFIG]"
    using push_event_queue [OF assms(1)] assms(2) by (simp_all add: request_save_config_def)
  then obtain q where q: "eq_inv q" "eq_contents q = []"
    "dispatch_loop k z (Suc 17) ?fw2
     = proceed (event_dispatch k z (bare_event EV_SAVE_CONFIG) (?fw2\<lparr>fw_events := q\<rparr>)) (dispatch_loop k z 17)"
    by (rule dispatch_next)
  have "?fw2\<lparr>fw_events := q\<rparr> = fw1\<lparr>fw_events := q\<rparr>"
    by (simp add: request_save_config_def push_event_def)
  then have "event_dispatch k z (bare_event EV_SAVE_CONFIG) (?fw2\<lparr>fw_events := q\<rparr>) = Running (ev_save_config z (fw1\<lparr>fw_events := q\<rparr>))"
    by (simp add: event_dispatch_def)
  then have "dispatch_loop k z 18 ?fw2 = Running (ev_save_config z (fw1\<lparr>fw_events := q\<rparr>))"
    using q dispatch_done [of "ev_save_config z (fw1\<lparr>fw_events := q\<rparr>)" k z 17]
    by (simp add: ev_save_config_keeps numeral_eq_Suc)
  then show thesis
    using that assms(3) by simp
qed

lemma known_rate:
  assumes "b \<in> set v24_baudrates"
  shows "V24_BAUD_1200 \<le> b" "b \<noteq> 0"
  using assms by (auto simp: v24_baudrates_def V24_BAUD_1200_def)

lemma rate_set:
  assumes "driver_ok (fw_driver fw)" "b \<in> set v24_baudrates" "vc_baudrate (ac_v24_config (fw_app fw)) \<noteq> b"
  shows "\<exists>d. ev_set_v24_baudrate k b fw = Running (no_change\<lparr>ar_changed := True\<rparr>, prompt_app
    ((upd_app (\<lambda>app. app\<lparr>ac_v24_config := (ac_v24_config app)\<lparr>vc_baudrate := b\<rparr>\<rparr>) fw)\<lparr>fw_driver := d\<rparr>))"
proof -
  obtain rt where re: "reinit_v24_config (ac_v24_config (fw_app fw)) b (dr_runtime (fw_driver fw))
      = Some ((ac_v24_config (fw_app fw))\<lparr>vc_baudrate := b\<rparr>, rt)" "rt_tx_pio rt = rt_tx_pio (dr_runtime (fw_driver fw))"
    using known_rate [OF assms(2)] by (auto simp: reinit_v24_config_def Let_def)
  then obtain d where d: "tx_clock_update_settings k ((ac_v24_config (fw_app fw))\<lparr>vc_baudrate := b\<rparr>)
      ((fw_driver fw)\<lparr>dr_runtime := rt\<rparr>) = Some d"
    using assms(1) by (auto simp: tx_clock_update_settings_def driver_ok_def Let_def)
  let ?fw = "(upd_app (\<lambda>app. app\<lparr>ac_v24_config := (ac_v24_config app)\<lparr>vc_baudrate := b\<rparr>\<rparr>) fw)\<lparr>fw_driver := d\<rparr>"
  have "ev_set_v24_baudrate k b fw = Running (no_change\<lparr>ar_changed := True\<rparr>, prompt_app ?fw)"
    unfolding ev_set_v24_baudrate_def if_not_P [OF assms(3)] re(1) option.case prod.case Let_def
    by (simp add: d upd_app_def)
  then show ?thesis
    by blast
qed

lemma rate_event:
  assumes "driver_ok (fw_driver fw)" "b \<in> set v24_baudrates" "vc_baudrate (ac_v24_config (fw_app fw)) \<noteq> b"
  shows "\<exists>d. event_dispatch k z (data_event EV_SET_V24_SETTINGS V24_BAUDRATE (Val_baudrate b)) fw
    = Running (request_save_config (prompt_app ((upd_app (\<lambda>app. app\<lparr>ac_v24_config := (ac_v24_config app)\<lparr>vc_baudrate := b\<rparr>\<rparr>) fw)
        \<lparr>fw_driver := d\<rparr>)))"
  using rate_set [OF assms, of k] by (auto simp: event_dispatch_def ev_set_v24_settings_def no_change_def)

lemma remote_address_event:
  assumes "uc_ip_address (ac_destination_config (fw_app fw)) \<noteq> ip"
  shows "event_dispatch k z (data_event EV_SET_NET_SETTINGS NET_IP_REMOTE (Val_ip ip)) fw
    = Running (request_save_config (prompt_app (upd_app (\<lambda>app. app\<lparr>ac_destination_config :=
        (ac_destination_config app)\<lparr>uc_ip_address := ip\<rparr>\<rparr>) fw)))"
  using assms by (simp add: event_dispatch_def ev_set_net_settings_def ev_set_net_ip_def is_ip_item_def prompt_app_def)

lemma reopen_accepted:
  assumes "chip_accepts z"
  shows "\<exists>n. reopen_socket z config fw = Running (True, fw\<lparr>fw_net := n\<rparr>)
    \<and> w_trace n = w_trace (fw_net fw) @ [Wiz_close UDP_SOCKET, Wiz_socket UDP_SOCKET Sn_MR_UDP (uc_port config) True]"
  using assms
  by (auto simp: reopen_socket_def w5500_reconfigure_udp_socket_def w5500_open_udp_socket_def chip_accepts_def split_beta
      Let_def chip_do_ret)

lemma local_port_event:
  assumes "chip_accepts z" "uc_port (ac_local_config (fw_app fw)) \<noteq> p"
  shows "\<exists>n. event_dispatch k z (data_event EV_SET_NET_SETTINGS NET_PORT_LOCAL (Val_port p)) fw
    = Running (request_save_config (prompt_app ((upd_app (\<lambda>app. app\<lparr>ac_local_config := (ac_local_config app)\<lparr>uc_port := p\<rparr>\<rparr>) fw)
        \<lparr>fw_net := n\<rparr>)))
    \<and> w_trace n = w_trace (fw_net fw) @ [Wiz_close UDP_SOCKET, Wiz_socket UDP_SOCKET Sn_MR_UDP p True]"
proof -
  let ?fw = "upd_app (\<lambda>app. app\<lparr>ac_local_config := (ac_local_config app)\<lparr>uc_port := p\<rparr>\<rparr>) fw"
  obtain n where n: "reopen_socket z (ac_local_config (fw_app ?fw)) ?fw = Running (True, ?fw\<lparr>fw_net := n\<rparr>)"
    "w_trace n = w_trace (fw_net fw) @ [Wiz_close UDP_SOCKET, Wiz_socket UDP_SOCKET Sn_MR_UDP p True]"
    using reopen_accepted [OF assms(1), of "ac_local_config (fw_app ?fw)" ?fw] by auto
  then have "ev_set_net_port z NET_PORT_LOCAL p fw = Running (True, ?fw\<lparr>fw_net := n\<rparr>)"
    using assms(2) by (simp add: ev_set_net_port_def Let_def)
  then show ?thesis
    using n(2)
    by (auto simp: event_dispatch_def ev_set_net_settings_def is_ip_item_def is_port_item_def prompt_app_def upd_app_def
        intro!: exI [of _ n])
qed

text \<open>
  Changing the remote port reopens the firmware's own socket on that port: from then on it listens
  there, while its configured local port is still the old one.
\<close>

lemma remote_port_moves_listener:
  assumes "chip_accepts z" "uc_port (ac_destination_config (fw_app fw)) \<noteq> p"
  shows "\<exists>fw'. ev_set_net_port z NET_PORT_REMOTE p fw = Running (True, fw')
    \<and> ac_local_config (fw_app fw') = ac_local_config (fw_app fw)
    \<and> w_trace (fw_net fw') = w_trace (fw_net fw) @ [Wiz_close UDP_SOCKET, Wiz_socket UDP_SOCKET Sn_MR_UDP p True]"
proof -
  let ?fw = "upd_app (\<lambda>app. app\<lparr>ac_destination_config := (ac_destination_config app)\<lparr>uc_port := p\<rparr>\<rparr>) fw"
  show ?thesis
    using reopen_accepted [OF assms(1), of "ac_destination_config (fw_app ?fw)" ?fw] assms(2)
    by (auto simp: ev_set_net_port_def Let_def)
qed

lemma clock_event:
  assumes "vc_external_clock (ac_v24_config (fw_app fw)) \<noteq> ext" "tx_queue_is_empty (ac_tx_queue (fw_app fw))"
  shows "event_dispatch k z (data_event EV_SET_V24_SETTINGS V24_CLOCK_MODE (Val_clock_mode ext)) fw
    = Running (push_event (bare_event EV_REBOOT) (request_save_config (prompt_app
        (upd_app (\<lambda>app. app\<lparr>ac_v24_config := (ac_v24_config app)\<lparr>vc_external_clock := ext\<rparr>\<rparr>) fw))))"
  using assms by (simp add: event_dispatch_def ev_set_v24_settings_def ev_set_v24_clock_mode_def Let_def)

text \<open>The save that was queued first is carried out before the restart.\<close>

lemma save_before_reboot:
  assumes "eq_inv (fw_events fw)" "eq_contents (fw_events fw) = []"
  obtains fw' q where "dispatch_loop k z 18 (push_event (bare_event EV_REBOOT) (request_save_config fw)) = Stopped Reboot fw'"
    "fw_flash fw' = saved_config z (fw\<lparr>fw_events := q\<rparr>)"
proof -
  let ?fw2 = "push_event (bare_event EV_REBOOT) (request_save_config fw)"
  have one: "eq_inv (fw_events (request_save_config fw))" "eq_contents (fw_events (request_save_config fw)) = [bare_event EV_SAVE_CONFIG]"
    using push_event_queue [OF assms(1)] assms(2) by (simp_all add: request_save_config_def)
  then have "eq_inv (fw_events ?fw2)" "eq_contents (fw_events ?fw2) = [bare_event EV_SAVE_CONFIG, bare_event EV_REBOOT]"
    using push_event_queue [OF one(1)] by simp_all
  then obtain q where q: "eq_inv q" "eq_contents q = [bare_event EV_REBOOT]"
    "dispatch_loop k z (Suc 17) ?fw2
     = proceed (event_dispatch k z (bare_event EV_SAVE_CONFIG) (?fw2\<lparr>fw_events := q\<rparr>)) (dispatch_loop k z 17)"
    by (rule dispatch_next)
  define saved where "saved = ev_save_config z (fw\<lparr>fw_events := q\<rparr>)"
  have "?fw2\<lparr>fw_events := q\<rparr> = fw\<lparr>fw_events := q\<rparr>"
    by (simp add: request_save_config_def push_event_def)
  then have first: "dispatch_loop k z (Suc 17) ?fw2 = dispatch_loop k z 17 saved"
    using q(3) by (simp add: event_dispatch_def saved_def)
  have "eq_inv (fw_events saved)" "eq_contents (fw_events saved) = [bare_event EV_REBOOT]"
    using q(1,2) by (simp_all add: saved_def ev_save_config_keeps)
  then obtain q2 where "dispatch_loop k z (Suc 16) saved
      = proceed (event_dispatch k z (bare_event EV_REBOOT) (saved\<lparr>fw_events := q2\<rparr>)) (dispatch_loop k z 16)"
    by (rule dispatch_next)
  then have "dispatch_loop k z 18 ?fw2 = Stopped Reboot (saved\<lparr>fw_events := q2\<rparr>)"
    using first by (simp add: event_dispatch_def reboot_def numeral_eq_Suc)
  then show thesis
    by (rule that) (simp add: saved_def ev_save_config_flash)
qed

section \<open>Properties\<close>

text \<open>
  C10.  Saved settings survive a restart.  After the save event has been handled, a start-up with that
  flash, on any hardware and any chip that accepts its settings, succeeds and puts back in force both
  endpoints, the line settings and the log level, gives the chip the network settings it had, and
  listens on the saved local port.
\<close>

theorem saved_settings_survive_restart:
  assumes "event_dispatch k z (bare_event EV_SAVE_CONFIG) fw = Running saved"
    and "vc_baudrate (ac_v24_config (fw_app fw)) \<in> set v24_baudrates" "chip_accepts z'"
  shows "\<exists>fw'. main_startup k' z' garbage (power_on hw chip (fw_flash saved)) = Running fw'
    \<and> ac_local_config (fw_app fw') = ac_local_config (fw_app fw)
    \<and> ac_destination_config (fw_app fw') = ac_destination_config (fw_app fw)
    \<and> ac_v24_config (fw_app fw') = ac_v24_config (fw_app fw) \<and> get_loglevel (fw_log fw') = get_loglevel (fw_log fw)
    \<and> (\<exists>cs. w_trace (fw_net fw') = cs @ [Wiz_network_initialize (fst (wiz_getnetinfo z (w_chip (fw_net fw)))),
         Wiz_socket UDP_SOCKET Sn_MR_UDP (uc_port (ac_local_config (fw_app fw))) True])"
proof -
  have flash: "fw_flash saved = saved_config z fw"
    using assms(1) ev_save_config_flash [of z fw] by (auto simp: event_dispatch_def)
  have rate: "V24_BAUD_1200 \<le> vc_baudrate (cf_v24_config (saved_config z fw))" "vc_baudrate (cf_v24_config (saved_config z fw)) \<noteq> 0"
    and valid: "cf_magic (saved_config z fw) = CONFIG_MAGIC"
    using known_rate [OF assms(2)] by (simp_all add: saved_config_def)
  obtain fw' where start: "main_startup k' z' garbage (power_on hw chip (saved_config z fw)) = Running fw'"
    using main_startup_starts [OF assms(3), of "saved_config z fw" k' garbage hw chip] rate(2) by blast
  have "cf_local_config (saved_config z fw) = ac_local_config (fw_app fw)"
    "cf_remote_config (saved_config z fw) = ac_destination_config (fw_app fw)"
    "cf_v24_config (saved_config z fw) = ac_v24_config (fw_app fw)"
    "cf_log_level (saved_config z fw) = get_loglevel (fw_log fw)"
    "nc_net_info (cf_net_config (saved_config z fw)) = fst (wiz_getnetinfo z (w_chip (fw_net fw)))"
    by (simp_all add: saved_config_def chip_getnetinfo_def split_beta)
  with main_startup_restores [OF start valid rate(1)] start show ?thesis
    unfolding flash by metis
qed

text \<open>The flash holds a valid configuration with the settings in force.\<close>

definition settings_stored :: "('h, 'w) firmware \<Rightarrow> bool" where
  "settings_stored fw \<longleftrightarrow> (case config_read (fw_flash fw) of None \<Rightarrow> False
     | Some c \<Rightarrow> cf_v24_config c = ac_v24_config (fw_app fw) \<and> cf_local_config c = ac_local_config (fw_app fw)
         \<and> cf_remote_config c = ac_destination_config (fw_app fw) \<and> cf_log_level c = get_loglevel (fw_log fw))"

lemma settings_stored_save: "settings_stored (ev_save_config z fw)"
proof -
  have "fw_log (ev_save_config z fw) = fw_log fw"
    by (simp add: ev_save_config_def split_beta Let_def)
  then show ?thesis
    by (simp add: settings_stored_def ev_save_config_flash ev_save_config_keeps config_read_def saved_config_def)
qed

lemma typed_setting_stored:
  assumes "line_waiting line fw" "\<And>fw. handle_cli_line k z line fw = push_event e fw"
    and "\<And>q. \<exists>fw1. event_dispatch k z e (prompt_app (fw\<lparr>fw_events := q\<rparr>)) = Running (request_save_config fw1)
      \<and> fw_events fw1 = q \<and> setting (ac_v24_config (fw_app fw1)) (ac_local_config (fw_app fw1)) (ac_destination_config (fw_app fw1))"
  shows "\<exists>fw'. poll_and_dispatch_events k z fw = Running fw' \<and> settings_stored fw'
    \<and> setting (ac_v24_config (fw_app fw')) (ac_local_config (fw_app fw')) (ac_destination_config (fw_app fw'))"
proof -
  obtain q where q: "eq_inv q" "eq_contents q = []"
    "poll_and_dispatch_events k z fw
     = proceed (event_dispatch k z e (prompt_app (fw\<lparr>fw_events := q\<rparr>))) (dispatch_loop k z 18)"
    by (rule line_dispatched [OF assms(1,2)])
  obtain fw1 where fw1: "event_dispatch k z e (prompt_app (fw\<lparr>fw_events := q\<rparr>)) = Running (request_save_config fw1)"
    "fw_events fw1 = q" "setting (ac_v24_config (fw_app fw1)) (ac_local_config (fw_app fw1)) (ac_destination_config (fw_app fw1))"
    using assms(3) by blast
  have "eq_inv (fw_events fw1)" "eq_contents (fw_events fw1) = []"
    using q(1,2) fw1(2) by simp_all
  then obtain q' where "poll_and_dispatch_events k z fw = Running (ev_save_config z (fw1\<lparr>fw_events := q'\<rparr>))"
    unfolding q(3) by (rule setting_saved [OF _ _ fw1(1)])
  then show ?thesis
    using settings_stored_save [of z "fw1\<lparr>fw_events := q'\<rparr>"] fw1(3) by (simp add: ev_save_config_keeps)
qed

lemma typed_rate_stored:
  fixes fw :: "('h, 'w) firmware"
  assumes "line_waiting line fw" "driver_ok (fw_driver fw)" "line = ''set v24 baudrate '' @ dec n"
    "n \<in> unat ` set v24_baudrates" "vc_baudrate (ac_v24_config (fw_app fw)) \<noteq> of_nat n"
  shows "\<exists>fw'. poll_and_dispatch_events k z fw = Running fw' \<and> settings_stored fw'
    \<and> vc_baudrate (ac_v24_config (fw_app fw')) = of_nat n"
proof -
  have known: "of_nat n \<in> set v24_baudrates"
    using assms(4) by auto
  have "\<exists>fw1. event_dispatch k z (data_event EV_SET_V24_SETTINGS V24_BAUDRATE (Val_baudrate (of_nat n)))
        (prompt_app (fw\<lparr>fw_events := q\<rparr>)) = Running (request_save_config fw1)
      \<and> fw_events fw1 = q \<and> vc_baudrate (ac_v24_config (fw_app fw1)) = of_nat n" for q
    using rate_event [OF _ known, of "prompt_app (fw\<lparr>fw_events := q\<rparr>)" k z] assms(2,5) by (fastforce simp: prompt_app_def)
  moreover have "handle_cli_line k z line fw = push_event (data_event EV_SET_V24_SETTINGS V24_BAUDRATE (Val_baudrate (of_nat n))) fw" for fw :: "('h, 'w) firmware"
    unfolding assms(3) by (simp only: typed_rate [OF assms(4)] dispatch_v24_baudrate_def)
  ultimately show ?thesis
    using typed_setting_stored [OF assms(1), where setting = "\<lambda>v l r. vc_baudrate v = of_nat n"] by blast
qed

lemma typed_remote_stored:
  fixes fw :: "('h, 'w) firmware"
  assumes "line_waiting line fw" "line = ''set net ip.remote '' @ print_ip ip" "length ip = 4"
    "uc_ip_address (ac_destination_config (fw_app fw)) \<noteq> ip"
  shows "\<exists>fw'. poll_and_dispatch_events k z fw = Running fw' \<and> settings_stored fw'
    \<and> uc_ip_address (ac_destination_config (fw_app fw')) = ip"
proof -
  have "\<exists>fw1. event_dispatch k z (data_event EV_SET_NET_SETTINGS NET_IP_REMOTE (Val_ip ip)) (prompt_app (fw\<lparr>fw_events := q\<rparr>))
        = Running (request_save_config fw1)
      \<and> fw_events fw1 = q \<and> uc_ip_address (ac_destination_config (fw_app fw1)) = ip" for q
    using remote_address_event [of "prompt_app (fw\<lparr>fw_events := q\<rparr>)" ip k z] assms(4) by (fastforce simp: prompt_app_def)
  moreover have "handle_cli_line k z line fw = push_event (data_event EV_SET_NET_SETTINGS NET_IP_REMOTE (Val_ip ip)) fw" for fw :: "('h, 'w) firmware"
    unfolding assms(2) by (simp only: typed_address(1) [OF assms(3)] dispatch_ip_def)
  ultimately show ?thesis
    using typed_setting_stored [OF assms(1), where setting = "\<lambda>v l r. uc_ip_address r = ip"] by blast
qed

lemma typed_port_stored:
  fixes fw :: "('h, 'w) firmware"
  assumes "line_waiting line fw" "chip_accepts z" "line = ''set net udp.port.local '' @ dec n" "n < 2 ^ 16"
    "uc_port (ac_local_config (fw_app fw)) \<noteq> of_nat n"
  shows "\<exists>fw'. poll_and_dispatch_events k z fw = Running fw' \<and> settings_stored fw'
    \<and> uc_port (ac_local_config (fw_app fw')) = of_nat n"
proof -
  have "\<exists>fw1. event_dispatch k z (data_event EV_SET_NET_SETTINGS NET_PORT_LOCAL (Val_port (of_nat n)))
        (prompt_app (fw\<lparr>fw_events := q\<rparr>)) = Running (request_save_config fw1)
      \<and> fw_events fw1 = q \<and> uc_port (ac_local_config (fw_app fw1)) = of_nat n" for q
    using local_port_event [OF assms(2), of "prompt_app (fw\<lparr>fw_events := q\<rparr>)" "of_nat n" k] assms(5)
    by (fastforce simp: prompt_app_def)
  moreover have "handle_cli_line k z line fw = push_event (data_event EV_SET_NET_SETTINGS NET_PORT_LOCAL (Val_port (of_nat n))) fw" for fw :: "('h, 'w) firmware"
    unfolding assms(3) by (simp only: typed_port(1) [OF assms(4)] dispatch_set_udp_port_def)
  ultimately show ?thesis
    using typed_setting_stored [OF assms(1), where setting = "\<lambda>v l r. uc_port l = of_nat n"] by blast
qed

text \<open>The board of the witnesses: just started at 9600 baud, with one line typed.\<close>

definition typed_board :: "string \<Rightarrow> (unit, nat) firmware" where
  "typed_board line = (let fw = power_on () 0 config_zero in
     fw\<lparr>fw_app := (fw_app fw)\<lparr>ac_v24_config := v24_config_zero\<lparr>vc_baudrate := 9600\<rparr>\<rparr>,
        fw_driver := upd_runtime (\<lambda>rt. rt\<lparr>rt_tx_pio := Some 0, rt_rx_pio := Some 0\<rparr>) (fw_driver fw),
        fw_cli := (fw_cli fw)\<lparr>ci_line_pool := (ci_line_pool (fw_cli fw))[0 := line]\<rparr>,
        fw_events := snd (event_queue_push (cli_line_event 0 line) (fw_events fw))\<rparr>)"

lemma typed_board_facts:
  "line_waiting line (typed_board line)" "driver_ok (fw_driver (typed_board line))"
  "vc_baudrate (ac_v24_config (fw_app (typed_board line))) = 9600" "\<not> vc_external_clock (ac_v24_config (fw_app (typed_board line)))"
  "uc_ip_address (ac_destination_config (fw_app (typed_board line))) = [0, 0, 0, 0]"
  "uc_port (ac_local_config (fw_app (typed_board line))) = 0"
proof -
  let ?q = "snd (event_queue_push (cli_line_event 0 line) (event_queue_init event_zero))"
  have "eq_inv ?q" "eq_contents ?q = [cli_line_event 0 line]"
    using event_queue_push_room(2,3) [OF event_queue_init_inv(1) [of event_zero], of "cli_line_event 0 line"]
    by (simp_all add: event_queue_init_inv(2) EVENT_QUEUE_CAPACITY_def)
  moreover have "fw_events (typed_board line) = ?q"
    by (simp add: typed_board_def power_on_def Let_def)
  moreover have "tx_queue_is_empty (ac_tx_queue (fw_app (typed_board line)))"
    by (simp add: typed_board_def power_on_def app_zero_def tx_queue_is_empty_def entry_drained_def tx_entry_zero_def Let_def)
  moreover have "ci_line_pool (fw_cli (typed_board line)) ! 0 = line"
    by (simp add: typed_board_def power_on_def cli_state_zero_def CLI_EVENT_POOL_SIZE_def EVENT_QUEUE_CAPACITY_def Let_def)
  ultimately show "line_waiting line (typed_board line)"
    by (auto simp: line_waiting_def)
qed (simp_all add: typed_board_def power_on_def app_zero_def v24_config_zero_def udp_config_zero_def driver_ok_def Let_def)

theorem saved_settings_survive_restart_witness:
  "\<exists>saved fw'. event_dispatch quiet_sdk mail_chip (bare_event EV_SAVE_CONFIG) (typed_board '''') = Running saved
     \<and> main_startup quiet_sdk mail_chip config_zero (power_on () 5 (fw_flash saved)) = Running fw'
     \<and> vc_baudrate (ac_v24_config (fw_app fw')) = 9600"
proof -
  obtain saved where saved: "event_dispatch quiet_sdk mail_chip (bare_event EV_SAVE_CONFIG) (typed_board '''') = Running saved"
    by (simp add: event_dispatch_def)
  have "vc_baudrate (ac_v24_config (fw_app (typed_board ''''))) \<in> set v24_baudrates"
    by (simp add: typed_board_facts v24_baudrates_def)
  from saved_settings_survive_restart [OF saved this quiet_board(3), of quiet_sdk config_zero "()" 5] saved show ?thesis
    by (metis typed_board_facts(3))
qed



text \<open>
  C30.  A new clock mode takes effect.  When the operator has typed a change of the clock mode and the
  transmitter is idle, the mode is stored before the firmware restarts itself, and the start-up that
  follows runs with the new mode and all other line settings as they were.  While frames are waiting,
  the change is refused and nothing happens.
\<close>

theorem typed_clock_mode_takes_effect:
  assumes "line_waiting (''set v24 txclock '' @ dec (if ext then 1 else 0)) fw"
    and "vc_external_clock (ac_v24_config (fw_app fw)) \<noteq> ext" "vc_baudrate (ac_v24_config (fw_app fw)) \<in> set v24_baudrates"
    and "chip_accepts z'"
  shows "(\<exists>stop fw'. poll_and_dispatch_events k z fw = Stopped Reboot stop
      \<and> main_startup k' z' garbage (power_on hw chip (fw_flash stop)) = Running fw'
      \<and> ac_v24_config (fw_app fw') = (ac_v24_config (fw_app fw))\<lparr>vc_external_clock := ext\<rparr>)
    \<and> (\<not> tx_queue_is_empty (ac_tx_queue (fw_app busy)) \<longrightarrow>
        event_dispatch k z (data_event EV_SET_V24_SETTINGS V24_CLOCK_MODE (Val_clock_mode ext)) busy = Running busy)"
proof
  let ?e = "data_event EV_SET_V24_SETTINGS V24_CLOCK_MODE (Val_clock_mode ext)"
  let ?set = "\<lambda>q. prompt_app (upd_app (\<lambda>app. app\<lparr>ac_v24_config := (ac_v24_config app)\<lparr>vc_external_clock := ext\<rparr>\<rparr>)
      (prompt_app (fw\<lparr>fw_events := q\<rparr>)))"
  obtain q where q: "eq_inv q" "eq_contents q = []"
    "poll_and_dispatch_events k z fw = proceed (event_dispatch k z ?e (prompt_app (fw\<lparr>fw_events := q\<rparr>))) (dispatch_loop k z 18)"
    by (rule line_dispatched [OF assms(1) typed_clock])
  have "tx_queue_is_empty (ac_tx_queue (fw_app fw))"
    using assms(1) by (simp add: line_waiting_def)
  then have run: "poll_and_dispatch_events k z fw
      = dispatch_loop k z 18 (push_event (bare_event EV_REBOOT) (request_save_config (?set q)))"
    using clock_event [of "prompt_app (fw\<lparr>fw_events := q\<rparr>)" ext k z] assms(2) q(3) by (simp add: prompt_app_def)
  have "eq_inv (fw_events (?set q))" "eq_contents (fw_events (?set q)) = []"
    using q(1,2) by (simp_all add: prompt_app_def)
  then obtain stop q' where stop: "poll_and_dispatch_events k z fw = Stopped Reboot stop"
    "fw_flash stop = saved_config z ((?set q)\<lparr>fw_events := q'\<rparr>)"
    unfolding run by (rule save_before_reboot)
  have flash: "cf_v24_config (fw_flash stop) = (ac_v24_config (fw_app fw))\<lparr>vc_external_clock := ext\<rparr>"
    "cf_magic (fw_flash stop) = CONFIG_MAGIC"
    by (simp_all add: stop(2) saved_config_def prompt_app_def)
  obtain fw' where start: "main_startup k' z' garbage (power_on hw chip (fw_flash stop)) = Running fw'"
    using main_startup_starts [OF assms(4), of "fw_flash stop" k' garbage hw chip] flash known_rate [OF assms(3)] by auto
  then show "\<exists>stop fw'. poll_and_dispatch_events k z fw = Stopped Reboot stop
      \<and> main_startup k' z' garbage (power_on hw chip (fw_flash stop)) = Running fw'
      \<and> ac_v24_config (fw_app fw') = (ac_v24_config (fw_app fw))\<lparr>vc_external_clock := ext\<rparr>"
    using stop(1) main_startup_restores(3) [OF start flash(2)] flash(1) known_rate [OF assms(3)] by auto
qed (simp add: event_dispatch_def ev_set_v24_settings_def ev_set_v24_clock_mode_def no_change_def)

theorem typed_clock_mode_takes_effect_witness:
  "\<exists>stop fw'. poll_and_dispatch_events quiet_sdk mail_chip (typed_board (''set v24 txclock '' @ dec 1)) = Stopped Reboot stop
     \<and> main_startup quiet_sdk mail_chip config_zero (power_on () 5 (fw_flash stop)) = Running fw'
     \<and> vc_external_clock (ac_v24_config (fw_app fw'))"
proof -
  let ?fw = "typed_board (''set v24 txclock '' @ dec (if True then 1 else 0))"
  have "vc_external_clock (ac_v24_config (fw_app ?fw)) \<noteq> True" "vc_baudrate (ac_v24_config (fw_app ?fw)) \<in> set v24_baudrates"
    by (simp_all add: typed_board_facts) (simp add: v24_baudrates_def)
  from typed_clock_mode_takes_effect [OF typed_board_facts(1) this quiet_board(3), of quiet_sdk mail_chip quiet_sdk config_zero "()" 5 "typed_board ''''"]
  show ?thesis
    by fastforce
qed

text \<open>
  C36.  A change of the rate while RTS is raised leaves it raised for good: the change marks RTS as
  released without lowering the pin, so that no poll of the transmitter ever lowers it again, although
  each reports that the transmitter is idle.
\<close>

theorem rate_change_strands_rts:
  assumes "ev_set_v24_baudrate k b fw = Running (r, fw')" "vc_baudrate (ac_v24_config (fw_app fw)) \<noteq> b"
    and "rts_level False (dr_trace (fw_driver fw))"
  defines "polled \<equiv> \<lambda>n. ((\<lambda>d. snd (the (tx_poll k d))) ^^ n) (fw_driver fw')"
  shows "rts_level False (dr_trace (polled n)) \<and> tx_poll k (polled n) = Some (True, polled (Suc n))"
proof -
  have start: "\<not> rt_rts_set (dr_runtime (fw_driver fw')) \<and> rts_level False (dr_trace (fw_driver fw'))"
    using assms(1-3)
    by (auto simp: ev_set_v24_baudrate_def reinit_v24_config_def tx_clock_update_settings_def prompt_app_def V24_RTS_def Let_def
        split: option.splits if_splits)
  have "\<not> rt_rts_set (dr_runtime (polled n)) \<and> rts_level False (dr_trace (polled n))"
    by (induction n) (use start in \<open>simp_all add: polled_def tx_poll_def\<close>)
  then show ?thesis
    by (simp add: polled_def tx_poll_def)
qed

theorem rate_change_strands_rts_witness:
  "let fw = (typed_board '''')\<lparr>fw_driver := snd (tx_put quiet_sdk 0x7E (fw_driver (typed_board '''')))\<rparr> in
   \<exists>r fw'. ev_set_v24_baudrate quiet_sdk 19200 fw = Running (r, fw')
     \<and> rts_level False (dr_trace (((\<lambda>d. snd (the (tx_poll quiet_sdk d))) ^^ 7) (fw_driver fw')))"
proof -
  let ?fw = "(typed_board '''')\<lparr>fw_driver := snd (tx_put quiet_sdk 0x7E (fw_driver (typed_board '''')))\<rparr>"
  have pio: "rt_tx_pio (dr_runtime (fw_driver (typed_board ''''))) = Some 0" "\<not> rt_rts_set (dr_runtime (fw_driver (typed_board '''')))"
    by (simp_all add: typed_board_def power_on_def v24_runtime_start_def Let_def)
  have rts: "rts_level False (dr_trace (fw_driver ?fw))"
    using pio by (simp add: tx_put_def V24_RTS_def split_beta Let_def)
  have rate: "vc_baudrate (ac_v24_config (fw_app ?fw)) \<noteq> 19200"
    by (simp add: typed_board_facts)
  have same: "pios (fw_driver ?fw) = pios (fw_driver (typed_board ''''))"
    by simp
  have "driver_ok (fw_driver ?fw)"
    using typed_board_facts(2) [of "''''"] same unfolding driver_ok_def pios_def by (metis fst_conv snd_conv)
  moreover have "19200 \<in> set v24_baudrates"
    by (simp add: v24_baudrates_def)
  ultimately obtain r fw' where run: "ev_set_v24_baudrate quiet_sdk 19200 ?fw = Running (r, fw')"
    using rate_set [where k = quiet_sdk] rate by blast
  show ?thesis
    using rate_change_strands_rts [where n = 7, OF run rate rts] run by (auto simp: Let_def)
qed

end
