(* ===== verification/Bridge.thy ===== *)
theory Bridge
  imports Firmware
begin

text \<open>
  The way from the serial line to the network, end to end: bytes are put through \<open>rx_byte_step\<close>, the
  body of \<open>drain_rx_until_empty\<close>, and \<open>drain_hdlc_frames_to_udp\<close> forwards what they complete.  Shown
  here: in internal clock mode every encoded frame whose first bytes are seen as \<open>Hdlc_Link\<close> asks for
  leaves as one datagram with its payload, in order, and the receiver is ready for the next frame.
\<close>

section \<open>Rounds\<close>

text \<open>The receive part of the main loop, once per chunk of bytes found in the receive FIFO.\<close>

fun line_rounds :: "'w wiznet \<Rightarrow> byte list list \<Rightarrow> ('h, 'w) loop_state \<Rightarrow> ('h, 'w) loop_state option" where
  "line_rounds z [] st = Some st"
| "line_rounds z (c # cs) st =
     Option.bind (drain_hdlc_frames_to_udp z (fst (fold rx_byte_step c (st, 0)))) (line_rounds z cs)"

lemma line_rounds_append:
  "line_rounds z (cs @ ds) st = Option.bind (line_rounds z cs st) (line_rounds z ds)"
  by (induction cs arbitrary: st) (auto split: Option.bind_splits)

text \<open>What a round leaves alone until a frame is complete.\<close>

definition same_route :: "('h, 'w) firmware \<Rightarrow> ('h, 'w) firmware \<Rightarrow> bool" where
  "same_route fw fw' \<longleftrightarrow> fw_net fw' = fw_net fw \<and> ac_v24_config (fw_app fw') = ac_v24_config (fw_app fw)
     \<and> ac_destination_config (fw_app fw') = ac_destination_config (fw_app fw)
     \<and> ac_tx_frame_buffer (fw_app fw') = ac_tx_frame_buffer (fw_app fw)"

lemma same_route_trans: "same_route fw fw1 \<Longrightarrow> same_route fw1 fw2 \<Longrightarrow> same_route fw fw2"
  by (simp add: same_route_def)

text \<open>With the internal clock, received bytes go to the accumulator and nowhere else.\<close>

lemma rx_bytes_feed:
  assumes "\<not> vc_external_clock (ac_v24_config (fw_app fw))" "fst (fold rx_byte_step c ((rt, fw), n)) = (rt', fw')"
  shows "ac_accumulator (fw_app fw') = rx_feed (ac_accumulator (fw_app fw)) c"
    "ac_reconstructed_frame (fw_app fw') = ac_reconstructed_frame (fw_app fw)" "same_route fw fw'"
proof -
  have "ac_accumulator (fw_app fw') = rx_feed (ac_accumulator (fw_app fw)) c
    \<and> ac_reconstructed_frame (fw_app fw') = ac_reconstructed_frame (fw_app fw) \<and> same_route fw fw'"
    using assms
  proof (induction c arbitrary: rt fw n)
    case (Cons b c)
    obtain rt1 fw1 n1 where step: "rx_byte_step b ((rt, fw), n) = ((rt1, fw1), n1)"
      by (metis surj_pair)
    then have one: "ac_accumulator (fw_app fw1) = snd (hdlc_sync_acc_process_byte (ac_accumulator (fw_app fw)) b)"
      "ac_reconstructed_frame (fw_app fw1) = ac_reconstructed_frame (fw_app fw)" "same_route fw fw1"
      using Cons.prems(1)
      by (auto simp: rx_byte_step_def event_loop_should_drop_hunt_idle_byte_def upd_stats_def same_route_def split_beta Let_def
          split: if_splits)
    then have "\<not> vc_external_clock (ac_v24_config (fw_app fw1))"
      using Cons.prems(1) by (simp add: same_route_def)
    from Cons.IH [OF this] Cons.prems(2) step one show ?case
      by (auto intro: same_route_trans)
  qed (simp add: same_route_def)
  then show "ac_accumulator (fw_app fw') = rx_feed (ac_accumulator (fw_app fw)) c"
    "ac_reconstructed_frame (fw_app fw') = ac_reconstructed_frame (fw_app fw)" "same_route fw fw'"
    by blast+
qed

text \<open>A round that completes no frame.\<close>

lemma round_goes_on:
  assumes "\<not> vc_external_clock (ac_v24_config (fw_app fw))"
    and "hdlc_sync_acc_poll (rx_feed (ac_accumulator (fw_app fw)) c) (ac_reconstructed_frame (fw_app fw)) = (E2S_OK, acc, frame)"
  shows "\<exists>rt' fw'. drain_hdlc_frames_to_udp z (fst (fold rx_byte_step c ((rt, fw), n))) = Some (rt', fw')
    \<and> same_route fw fw' \<and> ac_accumulator (fw_app fw') = acc \<and> ac_reconstructed_frame (fw_app fw') = frame"
proof -
  obtain rt1 fw1 where feed: "fst (fold rx_byte_step c ((rt, fw), n)) = (rt1, fw1)"
    by fastforce
  note fed = rx_bytes_feed [OF assms(1) feed]
  then have "poll_accumulator fw1 = (E2S_OK, upd_app (\<lambda>app. app\<lparr>ac_accumulator := acc, ac_reconstructed_frame := frame\<rparr>) fw1)"
    using assms(2) by (simp add: poll_accumulator_def)
  then show ?thesis
    using fed(3) feed by (subst drain_hdlc_frames_to_udp.simps) (simp add: same_route_def)
qed

text \<open>What a forwarded frame changes.\<close>

definition forwards :: "byte list \<Rightarrow> ('h, 'w) firmware \<Rightarrow> ('h, 'w) firmware \<Rightarrow> bool" where
  "forwards data fw fw' \<longleftrightarrow>
     net_sent (fw_net fw') = net_sent (fw_net fw)
       @ [(data, uc_ip_address (ac_destination_config (fw_app fw)), uc_port (ac_destination_config (fw_app fw)))]
     \<and> ac_v24_config (fw_app fw') = ac_v24_config (fw_app fw)
     \<and> ac_destination_config (fw_app fw') = ac_destination_config (fw_app fw)
     \<and> length (uf_payload (ac_tx_frame_buffer (fw_app fw'))) = TX_BUF_SIZE
     \<and> fresh (ac_accumulator (fw_app fw')) \<and> raw (ac_accumulator (fw_app fw')) = []"

lemma forwards_same_route: "same_route fw fw1 \<Longrightarrow> forwards data fw1 fw' \<Longrightarrow> forwards data fw fw'"
  by (simp add: forwards_def same_route_def)

lemma decode_forwards:
  assumes "length (uf_payload (ac_tx_frame_buffer (fw_app fw))) = TX_BUF_SIZE"
    and "delivered (hdlc_frame True data) (ac_accumulator (fw_app fw)) (ac_reconstructed_frame (fw_app fw))"
    and "length data \<le> UDP_MAX_PAYLOAD_BYTES" "decode_hdlc_to_udp_tx z (rt, fw) = (rt', fw')"
  shows "forwards data fw fw'" "ac_reconstructed_frame (fw_app fw') = clear_hdlc_frame (ac_reconstructed_frame (fw_app fw))"
proof -
  let ?buf = "uf_payload (ac_tx_frame_buffer (fw_app fw))"
  have len: "length data + 2 \<le> TX_BUF_SIZE" "length data < 2 ^ 16"
    using assms(3) by (simp_all add: TX_BUF_SIZE_def UDP_MAX_PAYLOAD_BYTES_def)
  note dec = delivered_decodes [OF assms(2) len(1), where buf = ?buf]
  obtain buf where "hdlc_decode (Some (ac_reconstructed_frame (fw_app fw))) (Some ?buf) TX_BUF_SIZE (Some 0) True (fw_decode_stats fw)
        = (True, Some buf, Some (length data), fw_decode_stats fw)"
      "take (length data) buf = data" "length buf = TX_BUF_SIZE"
    using dec(1) [of 0 "fw_decode_stats fw"] assms(1) by auto
  then show "forwards data fw fw'" "ac_reconstructed_frame (fw_app fw') = clear_hdlc_frame (ac_reconstructed_frame (fw_app fw))"
    using assms(1,4) dec(2,3) len(2) w5500_udp_tx_sent [of "\<lparr>uf_payload = buf, uf_length = length data\<rparr>"]
    by (auto simp: forwards_def decode_hdlc_to_udp_tx_def decode_accepted_def upd_stats_def clear_reconstructed_def Let_def)
qed

text \<open>With no raw bytes left the drain has nothing to do.\<close>

lemma drain_nothing:
  assumes "acc_ok (ac_accumulator (fw_app fw))" "raw (ac_accumulator (fw_app fw)) = []"
  shows "drain_hdlc_frames_to_udp z (rt, fw) = Some (rt, fw)"
  using length_raw [OF assms(1)] assms(2)
  by (subst drain_hdlc_frames_to_udp.simps) (simp add: poll_accumulator_def hdlc_sync_acc_poll_def upd_app_def)

text \<open>A round that completes a frame: its payload is sent, and nothing is left to poll.\<close>

lemma round_forwards:
  assumes "\<not> vc_external_clock (ac_v24_config (fw_app fw))" "length (uf_payload (ac_tx_frame_buffer (fw_app fw))) = TX_BUF_SIZE"
    and "hdlc_sync_acc_poll (rx_feed (ac_accumulator (fw_app fw)) c) (ac_reconstructed_frame (fw_app fw))
      = (E2S_ERR_HDLC_ACC_FRAME_READY, acc, frame)"
    and "delivered (hdlc_frame True data) acc frame" "length data \<le> UDP_MAX_PAYLOAD_BYTES"
  shows "\<exists>rt' fw'. drain_hdlc_frames_to_udp z (fst (fold rx_byte_step c ((rt, fw), n))) = Some (rt', fw')
    \<and> forwards data fw fw' \<and> ac_reconstructed_frame (fw_app fw') = clear_hdlc_frame frame"
proof -
  obtain rt1 fw1 where feed: "fst (fold rx_byte_step c ((rt, fw), n)) = (rt1, fw1)"
    by fastforce
  note fed = rx_bytes_feed [OF assms(1) feed]
  let ?fw2 = "upd_app (\<lambda>app. app\<lparr>ac_accumulator := acc, ac_reconstructed_frame := frame\<rparr>) fw1"
  have poll: "poll_accumulator fw1 = (E2S_ERR_HDLC_ACC_FRAME_READY, ?fw2)"
    using fed(1,2) assms(3) by (simp add: poll_accumulator_def)
  have same: "same_route fw ?fw2"
    using fed(3) by (simp add: same_route_def)
  obtain rt3 fw3 where dst: "decode_hdlc_to_udp_tx z (rt1, ?fw2) = (rt3, fw3)"
    by fastforce
  have fw3: "forwards data ?fw2 fw3" "ac_reconstructed_frame (fw_app fw3) = clear_hdlc_frame frame"
    using decode_forwards [OF _ _ assms(5) dst] assms(2,4) same by (simp_all add: same_route_def)
  then have "drain_hdlc_frames_to_udp z (rt3, fw3) = Some (rt3, fw3)"
    by (intro drain_nothing) (simp_all add: forwards_def fresh_def)
  then have "drain_hdlc_frames_to_udp z (rt1, fw1) = Some (rt3, fw3)"
    using poll dst by (subst drain_hdlc_frames_to_udp.simps) simp
  then show ?thesis
    using fw3 forwards_same_route [OF same] feed by auto
qed

section \<open>Frames\<close>

text \<open>The bytes of one frame, as they are found in the receive FIFO round by round.\<close>

definition arrives :: "byte list \<Rightarrow> byte list list \<Rightarrow> bool" where
  "arrives data cs \<longleftrightarrow> concat cs = hdlc_frame True data \<and> cs \<noteq> [] \<and> [] \<notin> set (tl cs)
     \<and> clear_start (hdlc_frame True data) (length (hd cs)) \<and> length data \<le> UDP_MAX_PAYLOAD_BYTES"

text \<open>The receiver between two frames.\<close>

definition receiver_ready :: "('h, 'w) firmware \<Rightarrow> bool" where
  "receiver_ready fw \<longleftrightarrow> \<not> vc_external_clock (ac_v24_config (fw_app fw))
     \<and> length (uf_payload (ac_tx_frame_buffer (fw_app fw))) = TX_BUF_SIZE
     \<and> fresh (ac_accumulator (fw_app fw)) \<and> raw (ac_accumulator (fw_app fw)) = []
     \<and> frame_wf (ac_reconstructed_frame (fw_app fw))
     \<and> hf_capacity (ac_reconstructed_frame (fw_app fw)) = RX_HDLC_SYNC_MAX_BUFFER_SIZE"

lemma rx_feed_inv: "sync_inv acc frame \<Longrightarrow> sync_inv (rx_feed acc c) frame"
  by (induction c arbitrary: acc) (simp_all add: process_byte_inv)

lemma poll_capacity:
  assumes "sync_inv acc frame" "hdlc_sync_acc_poll acc frame = (e, acc', frame')"
  shows "hf_capacity frame' = hf_capacity frame"
  using hdlc_sync_poll_loop_post [of "(acc, frame, sa_processed acc)"] assms
  by (auto simp: sync_inv_def loop_post_def hdlc_sync_acc_poll_def split: prod.splits option.splits if_splits)

lemma rx_chunks_capacity:
  assumes "sync_inv acc frame" "rx_chunks acc frame cs = (es, acc', frame')"
  shows "hf_capacity frame' = hf_capacity frame"
  using assms
proof (induction cs arbitrary: acc frame es)
  case (Cons c cs)
  obtain e acc1 frame1 where poll: "hdlc_sync_acc_poll (rx_feed acc c) frame = (e, acc1, frame1)"
    by (metis prod_cases3)
  note inv = rx_feed_inv [OF Cons.prems(1), of c]
  from Cons.IH [OF hdlc_sync_acc_poll_post(1) [OF inv poll]] poll_capacity [OF inv poll] Cons.prems(2) poll
  show ?case
    by (auto split: prod.splits)
qed simp

text \<open>The rounds follow the synchroniser: when its last poll reports a frame, that frame is forwarded.\<close>

lemma rounds_forward:
  assumes "\<not> vc_external_clock (ac_v24_config (fw_app fw))" "length (uf_payload (ac_tx_frame_buffer (fw_app fw))) = TX_BUF_SIZE"
    and "rx_chunks (ac_accumulator (fw_app fw)) (ac_reconstructed_frame (fw_app fw)) (c # cs)
      = (replicate (length cs) E2S_OK @ [E2S_ERR_HDLC_ACC_FRAME_READY], acc, frame)"
    and "delivered (hdlc_frame True data) acc frame" "length data \<le> UDP_MAX_PAYLOAD_BYTES"
  shows "\<exists>rt' fw'. line_rounds z (c # cs) (rt, fw) = Some (rt', fw')
    \<and> forwards data fw fw' \<and> ac_reconstructed_frame (fw_app fw') = clear_hdlc_frame frame"
  using assms(1-3)
proof (induction cs arbitrary: c rt fw)
  case Nil
  then have "hdlc_sync_acc_poll (rx_feed (ac_accumulator (fw_app fw)) c) (ac_reconstructed_frame (fw_app fw))
      = (E2S_ERR_HDLC_ACC_FRAME_READY, acc, frame)"
    by (auto split: prod.splits)
  from round_forwards [OF Nil.prems(1,2) this assms(4,5), of z rt 0] show ?case
    by auto
next
  case (Cons d ds)
  obtain e acc1 frame1 es where
    poll: "hdlc_sync_acc_poll (rx_feed (ac_accumulator (fw_app fw)) c) (ac_reconstructed_frame (fw_app fw)) = (e, acc1, frame1)"
    and rest: "rx_chunks acc1 frame1 (d # ds) = (es, acc, frame)"
    and es: "e # es = replicate (length (d # ds)) E2S_OK @ [E2S_ERR_HDLC_ACC_FRAME_READY]"
    using Cons.prems(3) by (auto split: prod.splits simp del: replicate_Suc)
  then have "e = E2S_OK" "es = replicate (length ds) E2S_OK @ [E2S_ERR_HDLC_ACC_FRAME_READY]"
    by simp_all
  with round_goes_on [OF Cons.prems(1), of c acc1 frame1 z rt 0] poll obtain rt1 fw1 where one:
    "drain_hdlc_frames_to_udp z (fst (fold rx_byte_step c ((rt, fw), 0))) = Some (rt1, fw1)" "same_route fw fw1"
    "ac_accumulator (fw_app fw1) = acc1" "ac_reconstructed_frame (fw_app fw1) = frame1"
    by blast
  have "line_rounds z (c # d # ds) (rt, fw) = line_rounds z (d # ds) (rt1, fw1)"
    using one(1) by simp
  then show ?case
    using Cons.IH [of fw1 d rt1] Cons.prems(1,2) rest one(3,4) one(2) [unfolded same_route_def] forwards_same_route [OF one(2)]
      \<open>es = replicate (length ds) E2S_OK @ [E2S_ERR_HDLC_ACC_FRAME_READY]\<close>
    by (auto simp del: line_rounds.simps rx_chunks.simps)
qed

lemma frame_arrives:
  assumes "receiver_ready fw" "arrives data cs"
  shows "\<exists>rt' fw'. line_rounds z cs (rt, fw) = Some (rt', fw') \<and> receiver_ready fw' \<and> forwards data fw fw'"
proof -
  let ?acc = "ac_accumulator (fw_app fw)" and ?frame = "ac_reconstructed_frame (fw_app fw)" and ?F = "hdlc_frame True data"
  obtain c ds where cs: "cs = c # ds"
    using assms(2) by (cases cs) (auto simp: arrives_def)
  have ready: "\<not> vc_external_clock (ac_v24_config (fw_app fw))" "length (uf_payload (ac_tx_frame_buffer (fw_app fw))) = TX_BUF_SIZE"
    "fresh ?acc" "raw ?acc = []" "frame_wf ?frame" "hf_capacity ?frame = RX_HDLC_SYNC_MAX_BUFFER_SIZE"
    using assms(1) by (simp_all add: receiver_ready_def)
  have arr: "?F = [] @ concat (c # ds)" "[] \<notin> set ds" "clear_start ?F (length ([] @ c))" "length data \<le> UDP_MAX_PAYLOAD_BYTES"
    using assms(2) by (simp_all add: arrives_def cs)
  have short: "length ?F \<le> HDLC_SYNC_MAX_REASONABLE_FRAME_SIZE_BYTES" "length ?F \<le> hf_capacity ?frame"
    using length_hdlc_frame_max [OF arr(4), of True] ready(6) by (simp_all add: sync_consts)
  from link_run [OF framed_hdlc_frame [OF short(1)] ready(3,4) _ arr(1-3) ready(5) short(2)]
  obtain acc frame where run: "rx_chunks ?acc ?frame (c # ds)
      = (replicate (length ds) E2S_OK @ [E2S_ERR_HDLC_ACC_FRAME_READY], acc, frame)" "delivered ?F acc frame"
    by auto
  have "sync_inv ?acc ?frame"
    using ready(3,5,6) by (auto simp: fresh_def sync_consts intro: sync_inv_hunting)
  then have "frame_wf (clear_hdlc_frame frame)" "hf_capacity (clear_hdlc_frame frame) = RX_HDLC_SYNC_MAX_BUFFER_SIZE"
    using rx_chunks_capacity [OF _ run(1)] ready(6) clear_hdlc_frame_wf [of frame] run(2) by (simp_all add: delivered_def)
  then show ?thesis
    using rounds_forward [OF ready(1,2) run arr(4), of z rt] ready(1)
    unfolding cs receiver_ready_def forwards_def by metis
qed

text \<open>The start-up leaves the receiver between two frames, unless the stored configuration asks for the external clock.\<close>

lemma init_app_receiver:
  assumes "init_app z cfg fw = Running fw'"
  shows "sa_state (ac_accumulator (fw_app fw')) = HDLC_SYNC_STATE_HUNTING" "sa_processed (ac_accumulator (fw_app fw')) = 0"
    "sa_sync_byte (ac_accumulator (fw_app fw')) = HDLC_FLAG_BYTE" "raw (ac_accumulator (fw_app fw')) = []"
    "hf_capacity (ac_reconstructed_frame (fw_app fw')) = RX_HDLC_SYNC_MAX_BUFFER_SIZE"
    "\<not> ac_config_valid (fw_app fw) \<Longrightarrow> \<not> vc_external_clock (ac_v24_config (fw_app fw'))"
  using assms
  by (auto simp: init_app_def proceed_eq_Running Let_def hdlc_sync_acc_init_def raw_def)
    (auto simp: init_app_default_def Let_def split: prod.splits option.splits)

lemma startup_receiver:
  assumes "main_startup k z garbage (power_on hw chip flash) = Running fw"
  shows "\<not> vc_external_clock (ac_v24_config (fw_app fw)) \<Longrightarrow> receiver_ready fw"
    and "cf_magic flash \<noteq> CONFIG_MAGIC \<Longrightarrow> \<not> vc_external_clock (ac_v24_config (fw_app fw))"
proof -
  let ?fw = "power_on hw chip flash"
  obtain n cfg fw3 fw4 fw5 fw6 where cfg: "main_config garbage (?fw\<lparr>fw_net := n, fw_driver := init_pins k (fw_driver ?fw)\<rparr>) = (cfg, fw3)"
    and fw4: "init_app z cfg fw3 = Running fw4" and fw5: "main_open_socket z fw4 = Running fw5"
    and fw6: "main_clocks k (main_tx_queue fw5) = Running fw6" and fw: "fw = main_ready k (main_estimator k fw6)"
    by (rule main_startup_phases [OF assms])
  note init = init_app_receiver [OF fw4]
  have same: "ac_accumulator (fw_app fw) = ac_accumulator (fw_app fw4)" "ac_v24_config (fw_app fw) = ac_v24_config (fw_app fw4)"
    "ac_reconstructed_frame (fw_app fw) = ac_reconstructed_frame (fw_app fw4)"
    using open_socket_facts [OF fw5] main_clocks_facts [OF fw6] by (auto simp: fw main_ready_def main_tx_queue_def Let_def)
  note inv = main_startup_inv [OF assms]
  then show "receiver_ready fw" if "\<not> vc_external_clock (ac_v24_config (fw_app fw))"
    using that init sync_inv_parts [OF fw_inv_sync [OF inv]]
    by (simp add: receiver_ready_def fresh_def same fw_inv_def buffers_inv_def)
  assume "cf_magic flash \<noteq> CONFIG_MAGIC"
  then have "\<not> ac_config_valid (fw_app fw3)"
    using cfg by (auto simp: main_config_def config_is_valid_def power_on_def)
  then show "\<not> vc_external_clock (ac_v24_config (fw_app fw))"
    using init(6) same by simp
qed

lemma frames_arrive:
  fixes fw :: "('h, 'w) firmware"
  assumes "receiver_ready fw" "list_all2 arrives datas css"
  shows "\<exists>rt' fw'. line_rounds z (concat css) (rt, fw) = Some (rt', fw') \<and> receiver_ready fw'
    \<and> net_sent (fw_net fw') = net_sent (fw_net fw)
        @ map (\<lambda>data. (data, uc_ip_address (ac_destination_config (fw_app fw)), uc_port (ac_destination_config (fw_app fw)))) datas"
  using assms(2,1)
proof (induction arbitrary: rt fw rule: list_all2_induct)
  case (Cons data datas cs css)
  obtain rt1 and fw1 :: "('h, 'w) firmware" where one: "line_rounds z cs (rt, fw) = Some (rt1, fw1)" "receiver_ready fw1"
    "net_sent (fw_net fw1) = net_sent (fw_net fw)
        @ [(data, uc_ip_address (ac_destination_config (fw_app fw)), uc_port (ac_destination_config (fw_app fw)))]"
    "ac_destination_config (fw_app fw1) = ac_destination_config (fw_app fw)"
    using frame_arrives [OF Cons.prems Cons.hyps(1)] unfolding forwards_def by blast
  show ?case
    using Cons.IH [OF one(2), of rt1] one by (simp add: line_rounds_append)
qed simp

section \<open>Properties\<close>



end
