(* ===== verification/Driver_Run.thy ===== *)
theory Driver_Run
  imports Unbounded_Loops
begin

text \<open>
  How the firmware uses the line driver.  Whatever the main loop does, the driver changes only in these ways: commands
  that are no byte for the transmitter, questions, interrupts, \<open>tx_put\<close>, \<open>rx_get\<close>, and settings that leave the choice of the
  PIO state machines alone.  Properties of the hardware that hold under these steps therefore hold throughout the
  run of the firmware.
\<close>

section \<open>Driver steps\<close>

definition same_machines :: "'h v24_driver \<Rightarrow> 'h v24_driver \<Rightarrow> bool" where
  "same_machines d e \<longleftrightarrow> rt_tx_pio (dr_runtime d) = rt_tx_pio (dr_runtime e) \<and> rt_tx_sm (dr_runtime d) = rt_tx_sm (dr_runtime e)
     \<and> rt_rx_pio (dr_runtime d) = rt_rx_pio (dr_runtime e) \<and> rt_rx_sm (dr_runtime d) = rt_rx_sm (dr_runtime e)"

fun is_put :: "hw_cmd \<Rightarrow> bool" where
  "is_put (Pio_sm_put _ _ _) \<longleftrightarrow> True"
| "is_put _ \<longleftrightarrow> False"

fun is_get :: "hw_query \<Rightarrow> bool" where
  "is_get (Pio_sm_get _ _) \<longleftrightarrow> True"
| "is_get _ \<longleftrightarrow> False"

inductive driver_run :: "'h sdk \<Rightarrow> 'h v24_driver \<Rightarrow> 'h v24_driver \<Rightarrow> bool" for k and d :: "'h v24_driver" where
  run_start: "driver_run k d d"
| run_settings: "driver_run k d e \<Longrightarrow> dr_hw e' = dr_hw e \<Longrightarrow> dr_trace e' = dr_trace e \<Longrightarrow> dr_rx e' = dr_rx e \<Longrightarrow> same_machines e' e
    \<Longrightarrow> driver_run k d e'"
| run_do: "driver_run k d e \<Longrightarrow> \<not> is_put c \<Longrightarrow> driver_run k d (hw_do k c e)"
| run_ask: "driver_run k d e \<Longrightarrow> \<not> is_get q \<Longrightarrow> driver_run k d (snd (hw_ask k q e))"
| run_irqs: "driver_run k d e \<Longrightarrow> driver_run k d (e\<lparr>dr_hw := snd (sdk_cts_irqs k (dr_hw e))\<rparr>)"
| run_put: "driver_run k d e \<Longrightarrow> driver_run k d (snd (tx_put k b e))"
| run_get: "driver_run k d e \<Longrightarrow> driver_run k d (snd (rx_get k e))"

declare run_start [simp]

lemma driver_run_trans: "driver_run k d e \<Longrightarrow> driver_run k e f \<Longrightarrow> driver_run k d f"
  by (rotate_tac, induction rule: driver_run.induct) (auto intro: driver_run.intros)

named_theorems runs

lemma run_do_all [runs]: "driver_run k d e \<Longrightarrow> list_all (\<lambda>c. \<not> is_put c) cs \<Longrightarrow> driver_run k d (hw_do_all k cs e)"
  by (induction cs arbitrary: e) (auto intro: run_do)

lemma run_runtime [runs]:
  assumes "driver_run k d e" "\<And>rt. rt_tx_pio (f rt) = rt_tx_pio rt \<and> rt_tx_sm (f rt) = rt_tx_sm rt \<and> rt_rx_pio (f rt) = rt_rx_pio rt \<and> rt_rx_sm (f rt) = rt_rx_sm rt"
  shows "driver_run k d (upd_runtime f e)"
  by (rule run_settings [OF assms(1)]) (use assms(2) in \<open>simp_all add: same_machines_def\<close>)

lemmas [runs] = run_do run_ask run_put run_get

section \<open>Driver functions\<close>

lemma run_cts_seq [runs]: "driver_run k d e \<Longrightarrow> driver_run k d (snd (tx_clock_get_cts_toggle_seq k e))"
proof -
  assume e: "driver_run k d e"
  have "rt_tx_pio (fold (cts_raw_irq_handler k) irqs rt) = rt_tx_pio rt \<and> rt_tx_sm (fold (cts_raw_irq_handler k) irqs rt) = rt_tx_sm rt
    \<and> rt_rx_pio (fold (cts_raw_irq_handler k) irqs rt) = rt_rx_pio rt \<and> rt_rx_sm (fold (cts_raw_irq_handler k) irqs rt) = rt_rx_sm rt" for irqs rt
    by (induction irqs arbitrary: rt) (simp_all add: cts_raw_irq_handler_def)
  then show ?thesis
    using run_runtime [OF run_irqs [OF e]] by (simp add: tx_clock_get_cts_toggle_seq_def split_beta Let_def)
qed

lemma run_tx_reset [runs]: "driver_run k d e \<Longrightarrow> driver_run k d (tx_clock_hard_reset k e)"
  by (auto simp: tx_clock_hard_reset_def Let_def intro!: run_do split: option.split)

lemma run_rx_reset [runs]: "driver_run k d e \<Longrightarrow> driver_run k d (rx_clock_hard_reset k e)"
  by (auto simp: rx_clock_hard_reset_def Let_def intro!: run_do split: option.split)

lemma run_tx_settings: "tx_clock_update_settings k c e = Some e' \<Longrightarrow> driver_run k d e \<Longrightarrow> driver_run k d e'"
  by (auto simp: tx_clock_update_settings_def Let_def intro!: run_do split: option.splits if_splits)

lemma run_rx_settings: "rx_clock_update_settings k p e = Some e' \<Longrightarrow> driver_run k d e \<Longrightarrow> driver_run k d e'"
  by (auto simp: rx_clock_update_settings_def Let_def intro!: run_do split: option.splits if_splits)

lemma run_poll_stall [runs]: "driver_run k d e \<Longrightarrow> driver_run k d (snd (rx_clock_poll_stall k e))"
  by (auto simp: rx_clock_poll_stall_def split_beta Let_def intro!: run_do run_ask split: option.split)

lemma run_tx_poll: "tx_poll k e = Some (idle, e') \<Longrightarrow> driver_run k d e \<Longrightarrow> driver_run k d e'"
proof -
  assume poll: "tx_poll k e = Some (idle, e')" and e: "driver_run k d e"
  have pending: "driver_run k d (f\<lparr>dr_deassert_pending := p, dr_deassert_deadline_us := t\<rparr>)" if "driver_run k d f" for f p t
    by (rule run_settings [OF that]) (simp_all add: same_machines_def)
  have idle: "driver_run k d (e\<lparr>dr_deassert_pending := p\<rparr>)" for p
    by (rule run_settings [OF e]) (simp_all add: same_machines_def)
  show ?thesis
    using poll
    by (auto simp: tx_poll_def split_beta Let_def intro!: idle run_runtime run_do pending run_ask e split: if_splits option.splits)
qed

lemma run_cli_poll: "driver_run k d e \<Longrightarrow> driver_run k d (snd (cli_poll k (c, e)))"
proof -
  have "driver_run k d e \<Longrightarrow> driver_run k d (snd (cli_poll_loop k n (c, e)))" for n
    by (induction n arbitrary: c e) (simp_all add: split_beta Let_def run_ask)
  then show "driver_run k d e \<Longrightarrow> driver_run k d (snd (cli_poll k (c, e)))"
    by (simp add: cli_poll_def)
qed

lemma run_drain_loop: "driver_run k d e \<Longrightarrow> driver_run k d (snd (drain_loop k payload offset i n e))"
  by (induction n arbitrary: i e) (simp_all add: split_beta Let_def run_put run_ask)

lemma run_tx_drain: "driver_run k d e \<Longrightarrow> tx_queue_drain k n q e = (err, m, q', e') \<Longrightarrow> driver_run k d e'"
  by (auto simp: tx_queue_drain_def tx_queue_drain_bytes_def split_beta Let_def intro!: run_tx_reset run_cts_seq run_drain_loop
      split: if_splits option.splits)

section \<open>The firmware\<close>

abbreviation fw_run :: "'h sdk \<Rightarrow> ('h, 'w) firmware \<Rightarrow> ('h, 'w) firmware \<Rightarrow> bool" where
  "fw_run k fw fw' \<equiv> driver_run k (fw_driver fw) (fw_driver fw')"

lemma run_push [simp]: "fw_driver (push_event e fw) = fw_driver fw"
  by (simp add: push_event_def)

lemma run_v24_commands:
  "fw_driver (subcmd_set_v24_inverted k z args fw) = fw_driver fw" "fw_driver (subcmd_get_v24_inverted k z args fw) = fw_driver fw"
  "fw_driver (subcmd_set_v24_clockmode k z args fw) = fw_driver fw" "fw_driver (subcmd_get_v24_clockmode k z args fw) = fw_driver fw"
  "fw_driver (subcmd_set_v24_baudrate k z args fw) = fw_driver fw" "fw_driver (subcmd_get_v24_baudrate k z args fw) = fw_driver fw"
  by (simp_all add: subcmd_set_v24_inverted_def subcmd_get_v24_inverted_def subcmd_set_v24_clockmode_def
      subcmd_get_v24_clockmode_def subcmd_set_v24_baudrate_def subcmd_get_v24_baudrate_def dispatch_defs
      split: prod.split sum.split)

lemma run_net_commands:
  "fw_driver (subcmd_set_ip_local k z args fw) = fw_driver fw" "fw_driver (subcmd_get_ip_local k z args fw) = fw_driver fw"
  "fw_driver (subcmd_set_ip_remote k z args fw) = fw_driver fw" "fw_driver (subcmd_get_ip_remote k z args fw) = fw_driver fw"
  "fw_driver (subcmd_set_ip_gateway k z args fw) = fw_driver fw" "fw_driver (subcmd_get_ip_gateway k z args fw) = fw_driver fw"
  "fw_driver (subcmd_set_udp_port_local k z args fw) = fw_driver fw" "fw_driver (subcmd_get_udp_port_local k z args fw) = fw_driver fw"
  "fw_driver (subcmd_set_udp_port_remote k z args fw) = fw_driver fw" "fw_driver (subcmd_get_udp_port_remote k z args fw) = fw_driver fw"
  by (simp_all add: subcmd_set_ip_local_def subcmd_get_ip_local_def subcmd_set_ip_remote_def subcmd_get_ip_remote_def
      subcmd_set_ip_gateway_def subcmd_get_ip_gateway_def subcmd_set_udp_port_local_def subcmd_get_udp_port_local_def
      subcmd_set_udp_port_remote_def subcmd_get_udp_port_remote_def dispatch_defs
      split: prod.split sum.split)

lemma run_pins:
  "fw_run k fw (cat_gpio_set k z args fw)" "fw_run k fw (cat_gpio_get k z args fw)" "fw_run k fw (cmd_pininfo k z args fw)"
  by (auto simp: cat_gpio_set_def cat_gpio_get_def cmd_pininfo_def Let_def split_beta intro!: run_ask run_do
      split: prod.split sum.split option.split)

lemma run_commands:
  assumes "\<And>name h args. (name, h) \<in> set entries \<Longrightarrow> fw_run k fw (h k z args fw)"
  shows "fw_run k fw (run_table at_end entries k z args fw)"
  using assms by (auto simp: run_table_def split: option.split dest: table_lookup_mem)

lemma run_categories:
  "fw_run k fw (cat_v24_set k z args fw)" "fw_run k fw (cat_v24_get k z args fw)"
  "fw_run k fw (cat_net_set k z args fw)" "fw_run k fw (cat_net_get k z args fw)"
  unfolding cat_v24_set_def cat_v24_get_def cat_net_set_def cat_net_get_def
  by (rule run_commands;
      auto simp: v24_subcmds_set_def v24_subcmds_get_def net_subcmds_set_def net_subcmds_get_def run_v24_commands run_net_commands)+

lemma run_set_get: "fw_run k fw (cmd_set k z args fw)" "fw_run k fw (cmd_get k z args fw)"
  unfolding cmd_set_def cmd_get_def
  by (rule run_commands; auto simp: categories_set_def categories_get_def cat_loglevel_set_def cat_loglevel_get_def Let_def run_categories run_pins
      split: option.split)+

lemma run_command: "(name, h) \<in> set commands \<Longrightarrow> fw_run k fw (h k z args fw)"
  by (auto simp: commands_def cmd_help_def cmd_status_def cmd_mem_def cmd_save_def cmd_wipe_def cmd_net_def cmd_reboot_def run_set_get run_pins)

lemma run_cli_line: "fw_run k fw (handle_cli_line k z line fw)"
  by (auto simp: handle_cli_line_def split: prod.split option.split dest!: map_of_SomeD intro: run_command)


section \<open>Events and the loop\<close>

lemma run_net_event:
  "ev_set_net_settings z payload fw = Running (changed, fw') \<Longrightarrow> fw_driver fw' = fw_driver fw"
proof -
  have "fw_driver (snd (ev_set_net_ip z item ip fw)) = fw_driver fw" for item ip
    by (cases item) (simp_all add: ev_set_net_ip_def change_netinfo_def split_beta Let_def)
  moreover have "fw_driver g = fw_driver fw" if "ev_set_net_port z item port fw = Running (c, g)" for item port c g
    using that by (cases item) (auto simp: ev_set_net_port_def reopen_socket_def fatal_panic_def split_beta Let_def split: if_splits)
  ultimately show "ev_set_net_settings z payload fw = Running (changed, fw') \<Longrightarrow> fw_driver fw' = fw_driver fw"
    by (auto simp: ev_set_net_settings_def split_beta Let_def proceed_eq_Running split: if_splits event_value.splits)
qed

lemma reinit_machines:
  "reinit_v24_config c b rt = Some (c', rt') \<Longrightarrow> rt_tx_pio rt' = rt_tx_pio rt \<and> rt_tx_sm rt' = rt_tx_sm rt
    \<and> rt_rx_pio rt' = rt_rx_pio rt \<and> rt_rx_sm rt' = rt_rx_sm rt"
  by (auto simp: reinit_v24_config_def Let_def split: if_splits)

lemma run_v24_event:
  assumes "ev_set_v24_settings k payload fw = Running (res, fw')"
  shows "fw_run k fw fw'"
proof -
  have "fw_run k fw g" if baud: "ev_set_v24_baudrate k b fw = Running (r, g)" for b r g
  proof (cases "vc_baudrate (ac_v24_config (fw_app fw)) = b")
    case False
    then obtain c rt where re: "reinit_v24_config (ac_v24_config (fw_app fw)) b (dr_runtime (fw_driver fw)) = Some (c, rt)"
      and d: "tx_clock_update_settings k c ((fw_driver fw)\<lparr>dr_runtime := rt\<rparr>) = Some (fw_driver g)"
      using baud by (auto simp: ev_set_v24_baudrate_def prompt_app_def Let_def split: option.splits prod.splits)
    have "driver_run k (fw_driver fw) ((fw_driver fw)\<lparr>dr_runtime := rt\<rparr>)"
      by (rule run_settings [OF run_start]) (use reinit_machines [OF re] in \<open>simp_all add: same_machines_def\<close>)
    then show ?thesis
      using run_tx_settings [OF d] by blast
  qed (use baud in \<open>auto simp: ev_set_v24_baudrate_def prompt_app_def\<close>)
  moreover have "fw_run k fw g" if "ev_set_v24_polarities k p fw = Running (r, g)" for p r g
    using that by (auto simp: ev_set_v24_polarities_def prompt_app_def Let_def dest!: run_tx_settings [OF _ run_start]
        intro: run_rx_settings split: if_splits option.splits)
  moreover have "fw_run k fw g" if "ev_set_v24_clock_mode ext fw = (r, g)" for ext r g
    using that by (auto simp: ev_set_v24_clock_mode_def prompt_app_def split: if_splits)
  ultimately show ?thesis
    using assms by (auto simp: ev_set_v24_settings_def
        split: event_queue_data_types_t.splits event_value.splits)
qed

lemma run_status: "fw_run k fw (print_status_event k (snd (ev_status k fw)))"
  by (auto simp: print_status_event_def ev_status_def split_beta Let_def intro!: run_ask split: option.split)

lemma returning_Running: "returning r f = Running s \<longleftrightarrow> (\<exists>v t. r = Running (v, t) \<and> f v t = Running s)"
  by (cases r) auto

lemma run_dispatch:
  assumes "event_dispatch k z event fw = Running fw'"
  shows "fw_run k fw fw'"
proof -
  have [simp]: "fw_driver (prompt_app g) = fw_driver g" "fw_driver (request_save_config g) = fw_driver g"
    "fw_driver (ev_save_config z g) = fw_driver g" "fw_driver (ev_udp_rx g) = fw_driver g" "fw_driver (ev_hdlc_decode frame g) = fw_driver g"
    "fw_driver (ev_get_net_settings z payload g) = fw_driver g" "fw_driver (ev_get_v24_settings payload g) = fw_driver g"
    for g :: "('a, 'b) firmware" and frame payload
    by (simp_all add: prompt_app_def request_save_config_def ev_save_config_def ev_udp_rx_def ev_hdlc_decode_def ev_get_net_settings_def
        ev_get_v24_settings_def split_beta Let_def)
  show ?thesis
  proof (cases "ev_type event")
    case EV_SET_NET_SETTINGS
    then show ?thesis
      using assms run_net_event [of z _ fw] by (fastforce simp: event_dispatch_def returning_Running split: option.splits)
  next
    case EV_SET_V24_SETTINGS
    then show ?thesis
      using assms run_v24_event [of k _ fw] by (fastforce simp: event_dispatch_def returning_Running Let_def split: option.splits)
  qed (use assms run_status [of k fw] run_cli_line [of k fw z] in
      \<open>auto simp: event_dispatch_def reboot_def split: option.splits event_data.splits\<close>)
qed

lemma run_poll_events:
  assumes "poll_and_dispatch_events k z fw = Running fw'"
  shows "fw_run k fw fw'"
proof -
  have "fw_run k g fw'" if "dispatch_loop k z n g = Running fw'" for n g
    using that
  proof (induction n arbitrary: g)
    case (Suc n)
    obtain ev q where pop: "event_queue_pop (fw_events g) = (ev, q)"
      by fastforce
    show ?case
    proof (cases ev)
      case (Some e)
      then obtain h where h: "event_dispatch k z e (g\<lparr>fw_events := q\<rparr>) = Running h" "dispatch_loop k z n h = Running fw'"
        using Suc.prems pop by (auto simp: proceed_eq_Running)
      then show ?thesis
        using driver_run_trans [OF run_dispatch [OF h(1)] Suc.IH [OF h(2)]] by simp
    qed (use Suc.prems pop in auto)
  qed simp
  then show ?thesis
    using assms by (simp add: poll_and_dispatch_events_def Let_def)
qed

lemma rx_byte_driver: "fw_driver (snd (fst (rx_byte_step b ((rt, fw), n)))) = fw_driver fw"
  by (simp add: rx_byte_step_def split_beta Let_def)

lemma run_drain_rx:
  assumes "drain_rx_until_empty k st = Some st'"
  shows "fw_run k (snd (fst st)) (snd (fst st'))"
proof (rule drain_rx_invar [OF assms])
  show "fw_run k (snd (fst ((rt, fw), n))) (snd (fst ((rt, fw\<lparr>fw_driver := d\<rparr>), n)))" if "rx_get k (fw_driver fw) = (None, d)" for rt n fw d
    using run_get [OF run_start, of k "fw_driver fw"] that by simp
  show "fw_run k (snd (fst ((rt, fw), n))) (snd (fst r))" if "rx_get k (fw_driver fw) = (Some b, d)"
    "fw_run k (snd (fst (rx_byte_step b ((rt, fw\<lparr>fw_driver := d\<rparr>), n)))) (snd (fst r))" for rt fw n b d r
    using driver_run_trans [OF run_get [OF run_start, of k "fw_driver fw"]] that by (simp add: rx_byte_driver)
qed

lemma run_loop_drain_rx: "loop_drain_rx k (rt, fw) = Some (t, rt', fw') \<Longrightarrow> fw_run k fw fw'"
  using run_drain_rx [of k "((rt, fw), 0)"]
  by (auto simp: loop_drain_rx_def update_rx_drain_stats_def split_beta Let_def intro!: run_ask split: option.splits)

lemma decode_driver: "fw_driver (snd (decode_hdlc_to_udp_tx z (rt, fw))) = fw_driver fw"
  by (simp add: decode_hdlc_to_udp_tx_def decode_accepted_def decode_rejected_def split_beta Let_def)

lemma poll_driver: "poll_accumulator fw = (e, fw1) \<Longrightarrow> fw_driver fw1 = fw_driver fw"
  by (auto simp: poll_accumulator_def split_beta Let_def)

lemma drain_frames_driver:
  assumes "drain_hdlc_frames_to_udp z st = Some st'"
  shows "fw_driver (snd st') = fw_driver (snd st)"
  by (rule drain_frames_invar [OF assms]) (simp_all add: poll_driver decode_driver)

lemma run_line_to_network: "loop_line_to_network k z (rt, fw) = Some (rt', fw') \<Longrightarrow> fw_run k fw fw'"
proof -
  assume "loop_line_to_network k z (rt, fw) = Some (rt', fw')"
  then obtain t st1 st2 where st: "loop_drain_rx k (rt, fw) = Some (t, st1)"
    "drain_hdlc_frames_to_udp z (poll_hdlc_idle_timeout t st1) = Some st2" "poll_hdlc_no_progress k st2 = (rt', fw')"
    by (auto simp: loop_line_to_network_def split: option.splits)
  have "fw_driver (snd (poll_hdlc_idle_timeout t st1)) = fw_driver (snd st1)"
    by (simp add: poll_hdlc_idle_timeout_def split_beta Let_def)
  then have "fw_run k fw (snd st2)"
    using run_loop_drain_rx [of k rt fw t "fst st1" "snd st1"] st(1) drain_frames_driver [OF st(2)] by simp
  then show "fw_run k fw fw'"
    using st(3) by (cases st2) (auto simp: poll_hdlc_no_progress_def Let_def intro: run_rx_reset split: if_splits)
qed

lemma run_tx_pipeline:
  assumes "snd (poll_tx_pipeline k (rt, fw)) = Running (rt', fw')"
  shows "fw_run k fw fw'"
proof -
  obtain err n q d where drain: "tx_queue_drain k TX_QUEUE_DRAIN_CHUNK_SIZE (snd (poll_queue_stats (ac_tx_queue (fw_app fw)))) (fw_driver fw) = (err, n, q, d)"
    using prod_cases4 by blast
  have "driver_run k (fw_driver fw) d"
    using run_tx_drain [OF run_start drain] .
  then show ?thesis
    using assms drain run_tx_poll [of k d] by (auto simp: poll_tx_pipeline_def split_beta Let_def split: if_splits option.splits)
qed

lemma run_iteration:
  assumes "event_loop_iteration k z (rt, fw) = Some (Running (rt', fw'))"
  shows "fw_run k fw fw'"
proof -
  obtain t rt1 fw1 st2 rt3 fw3 where st: "loop_drain_rx k (rt, loop_cli_poll k fw) = Some (t, rt1, fw1)"
    "snd (poll_tx_pipeline k (rt1, loop_buffer_stats z fw1)) = Running st2"
    "loop_line_to_network k z (loop_udp_rx z st2) = Some (rt3, fw3)" "loop_housekeeping k z (rt3, fw3) = Running (rt', fw')"
    using assms by (auto simp: event_loop_iteration_def split: option.splits outcome.splits)
  have "fw_run k fw (loop_cli_poll k fw)"
    using run_cli_poll [OF run_start, of k "fw_driver fw" "(fw_cli fw, fw_events fw)"] by (simp add: loop_cli_poll_def split_beta Let_def)
  also have "driver_run k (fw_driver (loop_cli_poll k fw)) (fw_driver fw1)"
    using run_loop_drain_rx [OF st(1)] .
  finally (driver_run_trans) have 1: "fw_run k fw fw1" .
  have "fw_driver (loop_buffer_stats z fw1) = fw_driver fw1"
    by (simp add: loop_buffer_stats_def split_beta Let_def)
  then have 2: "fw_run k fw1 (snd st2)"
    using run_tx_pipeline [of k rt1 "loop_buffer_stats z fw1" "fst st2" "snd st2"] st(2) by simp
  have "fw_driver (snd (loop_udp_rx z st2)) = fw_driver (snd st2)"
    by (cases st2) (auto simp: loop_udp_rx_def update_udp_rx_throttle_state_def poll_and_enqueue_udp_rx_def split_beta Let_def)
  then have 3: "fw_run k (snd st2) fw3"
    using run_line_to_network [of k z "fst (loop_udp_rx z st2)" "snd (loop_udp_rx z st2)"] st(3) by simp
  have "fw_driver (update_statistics fw3) = fw_driver fw3" "fw_driver (loop_prompt g) = fw_driver g" for g :: "('a, 'b) firmware"
    by (simp_all add: update_statistics_def loop_prompt_def print_prompt_def split_beta Let_def)
  moreover have "fw_run k (update_statistics fw3) (loop_stall_stats k (update_statistics fw3))"
    using run_poll_stall [OF run_start, of k "fw_driver (update_statistics fw3)"] by (simp add: loop_stall_stats_def split_beta Let_def)
  ultimately have "fw_run k fw3 fw'"
    using st(4) run_poll_events [of k z "loop_stall_stats k (update_statistics fw3)"] driver_run_trans
    by (cases "poll_and_dispatch_events k z (loop_stall_stats k (update_statistics fw3))") (auto simp: loop_housekeeping_def)
  then show ?thesis
    using 1 2 3 driver_run_trans by blast
qed

text \<open>The whole run of the main loop.\<close>

lemma run_loop: "event_loop k z n (rt, fw) = Some (Running (rt', fw')) \<Longrightarrow> fw_run k fw fw'"
proof (induction n arbitrary: rt fw)
  case (Suc n)
  then obtain rt1 fw1 where "event_loop_iteration k z (rt, fw) = Some (Running (rt1, fw1))"
    "event_loop k z n (rt1, fw1) = Some (Running (rt', fw'))"
    by (auto split: option.splits outcome.splits)
  then show ?case
    using run_iteration Suc.IH driver_run_trans by blast
qed simp

end
