(* ===== verification/Pio_Machine.thy ===== *)
theory Pio_Machine
  imports V24_Driver
begin

text \<open>
  The programmable I/O of the RP2040, as far as the programs under \<open>src/pio\<close> use it: a state machine
  with a program of at most 32 instructions, two scratch registers, an output and an input shift
  register and two FIFOs.  The machine is set up from the same settings that \<open>V24_Driver\<close> hands to
  \<open>pio_sm_init\<close>.

  One \<open>Cycle\<close> is one tick of the state machine's divided clock; between ticks the processor puts words
  into the transmit FIFO and gets words from the receive FIFO.  Input pins are the levels the machine
  sees in a cycle, behind the input synchronisers and overrides.
\<close>

section \<open>Programs\<close>

datatype pio_cond = Always | Not_x | X_dec | Y_dec | On_pin

datatype pio_op =
  Jmp pio_cond nat
| Wait_pin bool nat
| In_pins
| Out_pins
| Pull_block
| Set_pins bool
| Set_x u32
| Set_y u32
| Mov_x_isr
| Nop

text \<open>
  \<open>In_pins\<close> and \<open>Out_pins\<close> move one bit, as in all programs here.  An instruction has an optional side-set of
  one pin and a delay; every program wraps from its last instruction to its first.
\<close>

datatype pio_instr = Instr (i_op: pio_op) (i_side: "bool option") (i_delay: nat)

section \<open>Configuration\<close>

record sm_config =
  sc_jmp_pin :: nat
  sc_in_base :: nat
  sc_out_base :: nat
  sc_set_base :: nat
  sc_side_base :: nat
  sc_in_right :: bool
  sc_autopush :: bool
  sc_push_threshold :: nat
  sc_out_right :: bool
  sc_autopull :: bool
  sc_pull_threshold :: nat
  sc_join_rx :: bool

text \<open>The default of the SDK: shift right, no automatic transfers, thresholds of 32 bits.\<close>

definition sm_config_default :: sm_config where
  "sm_config_default =
     \<lparr>sc_jmp_pin = 0, sc_in_base = 0, sc_out_base = 0, sc_set_base = 0, sc_side_base = 0,
      sc_in_right = True, sc_autopush = False, sc_push_threshold = 32,
      sc_out_right = True, sc_autopull = False, sc_pull_threshold = 32, sc_join_rx = False\<rparr>"

fun sm_set :: "sm_setting \<Rightarrow> sm_config \<Rightarrow> sm_config" where
  "sm_set (Sm_config_set_jmp_pin p) c = c\<lparr>sc_jmp_pin := p\<rparr>"
| "sm_set (Sm_config_set_in_pins p) c = c\<lparr>sc_in_base := p\<rparr>"
| "sm_set (Sm_config_set_in_shift r a n) c = c\<lparr>sc_in_right := r, sc_autopush := a, sc_push_threshold := n\<rparr>"
| "sm_set Sm_config_set_fifo_join_rx c = c\<lparr>sc_join_rx := True\<rparr>"
| "sm_set (Sm_config_set_sideset_pins p) c = c\<lparr>sc_side_base := p\<rparr>"
| "sm_set (Sm_config_set_out_pins p _) c = c\<lparr>sc_out_base := p\<rparr>"
| "sm_set (Sm_config_set_out_shift r a n) c = c\<lparr>sc_out_right := r, sc_autopull := a, sc_pull_threshold := n\<rparr>"
| "sm_set (Sm_config_set_set_pins p _) c = c\<lparr>sc_set_base := p\<rparr>"

definition sm_configure :: "sm_setting list \<Rightarrow> sm_config" where
  "sm_configure settings = fold sm_set settings sm_config_default"

section \<open>State\<close>

text \<open>
  \<open>sm_tx_stall\<close> and \<open>sm_rx_stall\<close> are the machine's bits of \<open>FDEBUG\<close>, which stay set until they are written.
  \<open>sm_put\<close> and \<open>sm_got\<close> record the words that have gone through the FIFOs.
\<close>

record pio_sm =
  sm_pc :: nat
  sm_x :: u32
  sm_y :: u32
  sm_osr :: u32
  sm_osr_count :: nat
  sm_isr :: u32
  sm_isr_count :: nat
  sm_delay :: nat
  sm_txf :: "u32 list"
  sm_rxf :: "u32 list"
  sm_pins :: "nat \<Rightarrow> bool"
  sm_tx_stall :: bool
  sm_rx_stall :: bool
  sm_put :: "u32 list"
  sm_got :: "u32 list"

text \<open>After \<open>pio_sm_init\<close>: both FIFOs empty, the output register counted as shifted out, the input register as empty.\<close>

definition sm_init :: pio_sm where
  "sm_init =
     \<lparr>sm_pc = 0, sm_x = 0, sm_y = 0, sm_osr = 0, sm_osr_count = 32, sm_isr = 0, sm_isr_count = 0, sm_delay = 0,
      sm_txf = [], sm_rxf = [], sm_pins = (\<lambda>_. False), sm_tx_stall = False, sm_rx_stall = False, sm_put = [], sm_got = []\<rparr>"

definition tx_depth :: "sm_config \<Rightarrow> nat" where
  "tx_depth c = (if sc_join_rx c then 0 else 4)"

definition rx_depth :: "sm_config \<Rightarrow> nat" where
  "rx_depth c = (if sc_join_rx c then 8 else 4)"

section \<open>One cycle\<close>

text \<open>The automatic refill of the output register.\<close>

definition autopull :: "sm_config \<Rightarrow> pio_sm \<Rightarrow> pio_sm" where
  "autopull c s =
     (if sc_autopull c \<and> sm_osr_count s \<ge> sc_pull_threshold c
      then (case sm_txf s of [] \<Rightarrow> s | w # ws \<Rightarrow> s\<lparr>sm_osr := w, sm_osr_count := 0, sm_txf := ws\<rparr>)
      else s)"

definition take_branch :: "sm_config \<Rightarrow> (nat \<Rightarrow> bool) \<Rightarrow> pio_cond \<Rightarrow> pio_sm \<Rightarrow> bool \<times> pio_sm" where
  "take_branch c pins cond s =
     (case cond of
        Always \<Rightarrow> (True, s)
      | Not_x \<Rightarrow> (sm_x s = 0, s)
      | X_dec \<Rightarrow> (sm_x s \<noteq> 0, s\<lparr>sm_x := sm_x s - 1\<rparr>)
      | Y_dec \<Rightarrow> (sm_y s \<noteq> 0, s\<lparr>sm_y := sm_y s - 1\<rparr>)
      | On_pin \<Rightarrow> (pins (sc_jmp_pin c), s))"

text \<open>One bit into the input register, and one bit out of the output register.\<close>

definition shift_in :: "bool \<Rightarrow> bool \<Rightarrow> u32 \<Rightarrow> u32" where
  "shift_in right b isr =
     (if right then drop_bit 1 isr OR push_bit 31 (of_bool b) else push_bit 1 isr OR of_bool b)"

definition shift_out :: "bool \<Rightarrow> u32 \<Rightarrow> bool \<times> u32" where
  "shift_out right osr = (if right then (bit osr 0, drop_bit 1 osr) else (bit osr 31, push_bit 1 osr))"

definition next_pc :: "pio_instr list \<Rightarrow> pio_sm \<Rightarrow> nat" where
  "next_pc code s = (if Suc (sm_pc s) < length code then Suc (sm_pc s) else 0)"

text \<open>
  Executing an operation: whether it completes, and the new state.  An operation that stalls is
  executed again in the next cycle.  A machine with automatic refill looks at its output register in every
  cycle; \<open>OUT\<close> on a register that has been shifted out refills it and stalls for the cycle.
\<close>

definition pio_exec :: "sm_config \<Rightarrow> pio_instr list \<Rightarrow> (nat \<Rightarrow> bool) \<Rightarrow> pio_op \<Rightarrow> pio_sm \<Rightarrow> bool \<times> pio_sm" where
  "pio_exec c code pins oper s =
     (let go = (\<lambda>s'. (True, s'\<lparr>sm_pc := next_pc code s\<rparr>)) in
      case oper of
        Jmp cond target \<Rightarrow>
          (let (taken, s') = take_branch c pins cond s in if taken then (True, s'\<lparr>sm_pc := target\<rparr>) else go s')
      | Wait_pin level i \<Rightarrow> if pins (sc_in_base c + i) = level then go s else (False, s)
      | In_pins \<Rightarrow>
          (let isr = shift_in (sc_in_right c) (pins (sc_in_base c)) (sm_isr s);
               count = min 32 (sm_isr_count s + 1) in
           if sc_autopush c \<and> count \<ge> sc_push_threshold c
           then if length (sm_rxf s) < rx_depth c
                then go (s\<lparr>sm_isr := 0, sm_isr_count := 0, sm_rxf := sm_rxf s @ [isr]\<rparr>)
                else (False, s\<lparr>sm_rx_stall := True\<rparr>)
           else go (s\<lparr>sm_isr := isr, sm_isr_count := count\<rparr>))
      | Out_pins \<Rightarrow>
          if sc_autopull c \<and> sm_osr_count s \<ge> sc_pull_threshold c
          then (False, s\<lparr>sm_tx_stall := sm_tx_stall s \<or> sm_txf s = []\<rparr>)
          else
            let (b, osr) = shift_out (sc_out_right c) (sm_osr s)
            in go (s\<lparr>sm_pins := (sm_pins s)(sc_out_base c := b), sm_osr := osr, sm_osr_count := min 32 (sm_osr_count s + 1)\<rparr>)
      | Pull_block \<Rightarrow>
          (case sm_txf s of
             [] \<Rightarrow> (False, s\<lparr>sm_tx_stall := True\<rparr>)
           | w # ws \<Rightarrow> go (s\<lparr>sm_osr := w, sm_osr_count := 0, sm_txf := ws\<rparr>))
      | Set_pins b \<Rightarrow> go (s\<lparr>sm_pins := (sm_pins s)(sc_set_base c := b)\<rparr>)
      | Set_x v \<Rightarrow> go (s\<lparr>sm_x := v\<rparr>)
      | Set_y v \<Rightarrow> go (s\<lparr>sm_y := v\<rparr>)
      | Mov_x_isr \<Rightarrow> go (s\<lparr>sm_x := sm_isr s\<rparr>)
      | Nop \<Rightarrow> go s)"

text \<open>The side-set takes effect when the instruction is first tried, stalled or not; the delay follows its completion.\<close>

definition pio_cycle :: "sm_config \<Rightarrow> pio_instr list \<Rightarrow> (nat \<Rightarrow> bool) \<Rightarrow> pio_sm \<Rightarrow> pio_sm" where
  "pio_cycle c code pins s =
     (if sm_delay s > 0 then autopull c (s\<lparr>sm_delay := sm_delay s - 1\<rparr>)
      else
        let ins = code ! sm_pc s;
            s1 = (case i_side ins of None \<Rightarrow> s | Some v \<Rightarrow> s\<lparr>sm_pins := (sm_pins s)(sc_side_base c := v)\<rparr>);
            (ok, s2) = pio_exec c code pins (i_op ins) s1
        in autopull c (if ok then s2\<lparr>sm_delay := i_delay ins\<rparr> else s2))"

lemma autopull_keeps [simp]:
  "sm_rx_stall (autopull c s) = sm_rx_stall s" "sm_pc (autopull c s) = sm_pc s" "sm_delay (autopull c s) = sm_delay s"
  "sm_pins (autopull c s) = sm_pins s" "sm_put (autopull c s) = sm_put s" "sm_x (autopull c s) = sm_x s"
  by (auto simp: autopull_def split: list.split)

lemma pio_cycle_rx_stall: "sm_rx_stall s \<Longrightarrow> sm_rx_stall (pio_cycle c code pins s)"
  by (auto simp: pio_cycle_def pio_exec_def take_branch_def Let_def
      split: option.split pio_op.split pio_cond.split list.split prod.split)

section \<open>Runs\<close>

text \<open>A write to a full transmit FIFO is lost; reading an empty receive FIFO gives nothing that counts as received.\<close>

datatype pio_event = Cycle "nat \<Rightarrow> bool" | Put u32 | Get

fun pio_step :: "sm_config \<Rightarrow> pio_instr list \<Rightarrow> pio_event \<Rightarrow> pio_sm \<Rightarrow> pio_sm" where
  "pio_step c code (Cycle pins) s = pio_cycle c code pins s"
| "pio_step c code (Put w) s =
     (if length (sm_txf s) < tx_depth c then s\<lparr>sm_txf := sm_txf s @ [w], sm_put := sm_put s @ [w]\<rparr> else s)"
| "pio_step c code Get s =
     (case sm_rxf s of [] \<Rightarrow> s | w # ws \<Rightarrow> s\<lparr>sm_rxf := ws, sm_got := sm_got s @ [w]\<rparr>)"

abbreviation pio_run :: "sm_config \<Rightarrow> pio_instr list \<Rightarrow> pio_event list \<Rightarrow> pio_sm \<Rightarrow> pio_sm" where
  "pio_run c code evs \<equiv> fold (pio_step c code) evs"

lemma pio_cycle_put: "sm_put (pio_cycle c code pins s) = sm_put s"
  by (auto simp: pio_cycle_def pio_exec_def take_branch_def Let_def
      split: option.split pio_op.split pio_cond.split list.split prod.split)

lemma cycles_put: "sm_put (pio_run c code (map Cycle ps) s) = sm_put s"
  by (induction ps arbitrary: s) (simp_all add: pio_cycle_put)

text \<open>The output levels of a run, one reading per cycle.\<close>

fun pio_outputs :: "sm_config \<Rightarrow> pio_instr list \<Rightarrow> pio_event list \<Rightarrow> pio_sm \<Rightarrow> (nat \<Rightarrow> bool) list" where
  "pio_outputs c code [] s = []"
| "pio_outputs c code (Cycle pins # evs) s =
     (let s' = pio_cycle c code pins s in sm_pins s' # pio_outputs c code evs s')"
| "pio_outputs c code (ev # evs) s = pio_outputs c code evs (pio_step c code ev s)"

lemma outputs_last:
  "ps \<noteq> [] \<Longrightarrow> pio_outputs c code (map Cycle ps) s \<noteq> [] \<and> last (pio_outputs c code (map Cycle ps) s) = sm_pins (pio_run c code (map Cycle ps) s)"
  by (induction ps arbitrary: s rule: list_nonempty_induct) (simp_all add: Let_def)

text \<open>The input levels of a run, one per cycle.\<close>

fun pio_inputs :: "pio_event list \<Rightarrow> (nat \<Rightarrow> bool) list" where
  "pio_inputs [] = []"
| "pio_inputs (Cycle pins # evs) = pins # pio_inputs evs"
| "pio_inputs (_ # evs) = pio_inputs evs"

lemma pio_outputs_append:
  "pio_outputs c code (evs @ evs') s = pio_outputs c code evs s @ pio_outputs c code evs' (pio_run c code evs s)"
  by (induction c code evs s rule: pio_outputs.induct) (simp_all add: Let_def)

lemma pio_inputs_append [simp]: "pio_inputs (evs @ evs') = pio_inputs evs @ pio_inputs evs'"
  by (induction evs rule: pio_inputs.induct) simp_all

lemma pio_inputs_cycles [simp]: "pio_inputs (map Cycle ps) = ps"
  by (induction ps) simp_all

section \<open>Signals\<close>

text \<open>The bits a clocked line carries: the data levels seen at the falling edges of the clock.\<close>

fun falling_bits :: "bool \<Rightarrow> (bool \<times> bool) list \<Rightarrow> bool list" where
  "falling_bits clk [] = []"
| "falling_bits clk ((c, d) # ls) = (if clk \<and> \<not> c then d # falling_bits c ls else falling_bits c ls)"

lemma falling_bits_append:
  "falling_bits clk (ls @ ls') = falling_bits clk ls @ falling_bits (if ls = [] then clk else fst (last ls)) ls'"
  by (induction clk ls rule: falling_bits.induct) auto

end
