(* ===== verification/Pio_Programs.thy ===== *)
theory Pio_Programs
  imports Pio_Machine
begin

text \<open>
  The programs of \<open>src/pio\<close> that the firmware loads: the receiver \<open>rck_rxd\<close>, the transmitter with its own
  clock \<open>tck_txd\<close>, the transmitter on the clock of the line \<open>xck_txd\<close>, and the indicator \<open>led_mirror\<close>,
  on the machine of \<open>Pio_Machine\<close> with the settings of \<open>V24_Driver\<close>.  Shown here: the receiver takes the
  data level at every falling edge of the clock, the transmitter shows every bit it was given at one, and so the two
  together carry bytes; \<open>Pio_External\<close> has the other two programs.
\<close>

section \<open>The programs\<close>

definition rck_rxd_program :: "pio_instr list" where
  "rck_rxd_program =
     [Instr (Jmp On_pin 2) None 0,
      Instr (Jmp Always 0) None 0,
      Instr (Jmp On_pin 2) None 0,
      Instr In_pins None 0]"

definition tck_txd_program :: "pio_instr list" where
  "tck_txd_program =
     [Instr (Jmp On_pin 2) (Some False) 1,
      Instr (Jmp Always 0) (Some False) 1,
      Instr Out_pins (Some True) 1,
      Instr Nop (Some False) 1,
      Instr (Jmp Always 0) (Some False) 1]"

definition xck_txd_program :: "pio_instr list" where
  "xck_txd_program =
     [Instr Pull_block None 0,
      Instr (Set_x 7) None 0,
      Instr (Wait_pin False 0) None 0,
      Instr (Wait_pin True 0) None 0,
      Instr (Jmp On_pin 6) None 0,
      Instr (Jmp Always 2) None 0,
      Instr Out_pins None 0,
      Instr (Jmp X_dec 2) None 0,
      Instr (Jmp Always 0) None 0]"

definition led_mirror_program :: "pio_instr list" where
  "led_mirror_program =
     [Instr (Jmp On_pin 4) None 0,
      Instr In_pins None 0,
      Instr Mov_x_isr None 0,
      Instr (Jmp Not_x 6) None 0,
      Instr (Set_pins True) None 0,
      Instr (Jmp Always 0) None 0,
      Instr (Set_pins False) None 0]"

abbreviation "rck \<equiv> sm_configure rck_settings"
abbreviation "tck \<equiv> sm_configure tck_settings"
abbreviation "xck \<equiv> sm_configure xck_settings"

lemma rck_config [simp]:
  "sc_jmp_pin rck = V24_RXC" "sc_in_base rck = V24_RXD" "sc_in_right rck" "sc_autopush rck" "sc_push_threshold rck = 8"
  "\<not> sc_autopull rck" "rx_depth rck = 8" "tx_depth rck = 0"
  by (simp_all add: sm_configure_def rck_settings_def sm_config_default_def rx_depth_def tx_depth_def)

lemma tck_config [simp]:
  "sc_jmp_pin tck = V24_CTS" "sc_side_base tck = V24_TXC_DTE" "sc_out_base tck = V24_TXD" "sc_out_right tck"
  "sc_autopull tck" "sc_pull_threshold tck = 8" "tx_depth tck = 4"
  by (simp_all add: sm_configure_def tck_settings_def sm_config_default_def tx_depth_def)

lemma xck_config [simp]:
  "sc_jmp_pin xck = V24_CTS" "sc_in_base xck = V24_TXC_DCE" "sc_out_base xck = V24_TXD" "sc_out_right xck"
  "\<not> sc_autopull xck" "tx_depth xck = 4"
  by (simp_all add: sm_configure_def xck_settings_def sm_config_default_def tx_depth_def)

section \<open>Receiving\<close>

text \<open>The byte that \<open>rx_get\<close> makes of a word of the FIFO.\<close>

definition rx_byte :: "u32 \<Rightarrow> byte" where
  "rx_byte w = ucast (drop_bit RX_SHIFT_TO_LSB w)"

text \<open>All bits received: the words read and waiting, and what is in the input register.\<close>

definition rx_bits :: "pio_sm \<Rightarrow> bool list" where
  "rx_bits s = bytes_bits True (map rx_byte (sm_got s @ sm_rxf s)) @ map (bit (sm_isr s)) [32 - sm_isr_count s..<32]"

text \<open>What the program does with the levels of clock and data, cycle by cycle.\<close>

fun rck_auto :: "bool \<times> bool \<Rightarrow> nat \<times> bool list \<Rightarrow> nat \<times> bool list" where
  "rck_auto (c, d) (pc, bs) =
     (if pc = 0 then (if c then 2 else 1, bs)
      else if pc = 1 then (0, bs)
      else if pc = 2 then (if c then 2 else 3, bs)
      else (0, bs @ [d]))"

lemma shift_in_bits:
  fixes isr :: u32
  assumes "k < 32"
  shows "map (bit (shift_in True b isr)) [32 - Suc k..<32] = map (bit isr) [32 - k..<32] @ [b]"
proof (rule nth_equalityI)
  fix i
  assume "i < length (map (bit (shift_in True b isr)) [32 - Suc k..<32])"
  then have "i \<le> k"
    using assms by simp
  then show "map (bit (shift_in True b isr)) [32 - Suc k..<32] ! i = (map (bit isr) [32 - k..<32] @ [b]) ! i"
    using assms bit_imp_le_length [of isr 32] Suc_diff_le [of k "31 + i"]
    by (auto simp: shift_in_def nth_append bit_simps not_less)
qed (use assms in simp)

lemma rx_byte_bits: "byte_bits True (rx_byte w) = map (bit w) [24..<32]"
  by (rule nth_equalityI) (simp_all add: rx_byte_def RX_SHIFT_TO_LSB_def bit_pos_def bit_simps nth_map_upt [of _ 32 24]
      del: upt_rec_numeral)

definition rck_ok :: "pio_sm \<Rightarrow> bool" where
  "rck_ok s \<longleftrightarrow> sm_pc s < 4 \<and> sm_delay s = 0 \<and> sm_isr_count s < 8"

lemma rck_cycle:
  assumes "rck_ok s" "\<not> sm_rx_stall (pio_cycle rck rck_rxd_program pins s)"
  shows "rck_ok (pio_cycle rck rck_rxd_program pins s) \<and> \<not> sm_rx_stall s
    \<and> (sm_pc (pio_cycle rck rck_rxd_program pins s), rx_bits (pio_cycle rck rck_rxd_program pins s))
      = rck_auto (pins V24_RXC, pins V24_RXD) (sm_pc s, rx_bits s)"
proof -
  consider "sm_pc s = 0" | "sm_pc s = 1" | "sm_pc s = 2" | "sm_pc s = 3"
    using assms(1) by (auto simp: rck_ok_def less_Suc_eq numeral_eq_Suc)
  then show ?thesis
  proof cases
    case 4
    let ?isr = "shift_in True (pins V24_RXD) (sm_isr s)"
    have bits: "map (bit ?isr) [32 - Suc (sm_isr_count s)..<32] = map (bit (sm_isr s)) [32 - sm_isr_count s..<32] @ [pins V24_RXD]"
      using assms(1) by (intro shift_in_bits) (simp add: rck_ok_def)
    then show ?thesis
      using assms 4 rx_byte_bits [of ?isr]
      by (cases "sm_isr_count s = 7")
        (auto simp: pio_cycle_def rck_rxd_program_def pio_exec_def autopull_def next_pc_def rck_ok_def rx_bits_def Let_def
          split: if_splits)
  qed (use assms in \<open>auto simp: pio_cycle_def rck_rxd_program_def pio_exec_def autopull_def next_pc_def rck_ok_def rx_bits_def
      take_branch_def Let_def split: if_splits\<close>)
qed

lemma rck_host:
  "rck_ok (pio_step rck code (Put w) s) = rck_ok s" "rx_bits (pio_step rck code (Put w) s) = rx_bits s"
  "sm_pc (pio_step rck code (Put w) s) = sm_pc s" "sm_rx_stall (pio_step rck code (Put w) s) = sm_rx_stall s"
  "rck_ok (pio_step rck code Get s) = rck_ok s" "rx_bits (pio_step rck code Get s) = rx_bits s"
  "sm_pc (pio_step rck code Get s) = sm_pc s" "sm_rx_stall (pio_step rck code Get s) = sm_rx_stall s"
  by (auto simp: rck_ok_def rx_bits_def split: list.split)

lemma rck_run:
  assumes "rck_ok s" "\<not> sm_rx_stall (pio_run rck rck_rxd_program evs s)"
  shows "rck_ok (pio_run rck rck_rxd_program evs s)
    \<and> (sm_pc (pio_run rck rck_rxd_program evs s), rx_bits (pio_run rck rck_rxd_program evs s))
      = fold rck_auto (map (\<lambda>pins. (pins V24_RXC, pins V24_RXD)) (pio_inputs evs)) (sm_pc s, rx_bits s)"
  using assms(2)
proof (induction evs rule: rev_induct)
  case (snoc ev evs)
  let ?s = "pio_run rck rck_rxd_program evs s"
  show ?case
  proof (cases ev)
    case (Cycle pins)
    have "rck_ok ?s" if "\<not> sm_rx_stall ?s"
      using snoc.IH that by simp
    moreover have "\<not> sm_rx_stall ?s"
      using snoc.prems Cycle pio_cycle_rx_stall [of ?s rck rck_rxd_program pins] by auto
    ultimately show ?thesis
      using snoc.IH rck_cycle [of ?s pins] snoc.prems Cycle by auto
  qed (use snoc rck_host in auto)
qed (use assms(1) in simp)

text \<open>A level that is held for two cycles or more is seen, and its data bit is taken at the falling edge.\<close>

definition rck_at :: "bool \<Rightarrow> nat \<Rightarrow> bool" where
  "rck_at c pc \<longleftrightarrow> (if c then pc = 2 else pc = 0 \<or> pc = 1)"

lemma rck_auto_stays:
  assumes "rck_at c pc"
  shows "\<exists>pc'. fold rck_auto (replicate n (c, d)) (pc, bs) = (pc', bs) \<and> rck_at c pc'"
  using assms
proof (induction n arbitrary: pc)
  case (Suc n)
  obtain pc1 where "rck_auto (c, d) (pc, bs) = (pc1, bs)" "rck_at c pc1"
    using Suc.prems by (auto simp: rck_at_def split: if_splits)
  then show ?case
    using Suc.IH by (simp del: rck_auto.simps)
qed simp

lemma rck_auto_held:
  assumes "rck_at c0 pc" "2 \<le> n"
  shows "\<exists>pc'. fold rck_auto (replicate n (c, d)) (pc, bs) = (pc', bs @ falling_bits c0 [(c, d)]) \<and> rck_at c pc'"
proof (cases "c = c0")
  case True
  then show ?thesis
    using rck_auto_stays [of c pc n d bs] assms(1) by auto
next
  case False
  obtain m where n: "n = Suc (Suc m)"
    using assms(2) by (metis Suc_le_D numeral_2_eq_2 Suc_le_mono)
  have "\<exists>pc'. fold rck_auto (replicate 2 (c, d)) (pc, bs) = (pc', bs @ falling_bits c0 [(c, d)]) \<and> rck_at c pc'"
    using assms(1) False by (auto simp: rck_at_def numeral_2_eq_2 split: if_splits)
  then show ?thesis
    using rck_auto_stays [of c _ m d] by (auto simp: n numeral_2_eq_2)
qed

text \<open>A signal at the input: every level of it lasts for the number of cycles given with it.\<close>

definition held :: "nat list \<Rightarrow> 'a list \<Rightarrow> 'a list" where
  "held ns ls = concat (map2 replicate ns ls)"

lemma rck_auto_signal:
  assumes "rck_at c pc" "length ns = length ls" "\<forall>n\<in>set ns. 2 \<le> n"
  shows "\<exists>pc' c'. fold rck_auto (held ns ls) (pc, bs) = (pc', bs @ falling_bits c ls) \<and> rck_at c' pc'"
  using assms(2,1,3)
proof (induction ns ls arbitrary: c pc bs rule: list_induct2)
  case (Cons n ns l ls)
  obtain c1 d where l: "l = (c1, d)"
    by fastforce
  obtain pc1 where "fold rck_auto (replicate n l) (pc, bs) = (pc1, bs @ falling_bits c [(c1, d)])" "rck_at c1 pc1"
    using rck_auto_held [of c pc n c1 d bs] Cons.prems by (auto simp: l)
  then show ?case
    using Cons.IH [of c1 pc1 "bs @ falling_bits c [(c1, d)]"] Cons.prems
    by (auto simp: held_def l)
qed (auto simp: held_def)

lemma rck_receives:
  assumes "map (\<lambda>pins. (pins V24_RXC, pins V24_RXD)) (pio_inputs evs) = held ns ls" "length ns = length ls" "\<forall>n\<in>set ns. 2 \<le> n"
    and "\<not> sm_rx_stall (pio_run rck rck_rxd_program evs sm_init)"
  shows "rx_bits (pio_run rck rck_rxd_program evs sm_init) = falling_bits False ls"
    "sm_isr_count (pio_run rck rck_rxd_program evs sm_init) < 8"
proof -
  have start: "rck_ok sm_init" "rck_at False (sm_pc sm_init)" "rx_bits sm_init = []"
    by (simp_all add: rck_ok_def rck_at_def sm_init_def rx_bits_def)
  then show "rx_bits (pio_run rck rck_rxd_program evs sm_init) = falling_bits False ls"
    using rck_run [OF start(1) assms(4)] rck_auto_signal [OF start(2) assms(2,3), of "[]"] assms(1) by auto
  show "sm_isr_count (pio_run rck rck_rxd_program evs sm_init) < 8"
    using rck_run [OF start(1) assms(4)] by (simp add: rck_ok_def)
qed

lemma bytes_bits_prefix:
  assumes "bytes_bits lsb xs @ bits = bytes_bits lsb ys"
  shows "\<exists>zs. ys = xs @ zs \<and> bits = bytes_bits lsb zs"
  using assms
proof (induction xs arbitrary: ys)
  case (Cons x xs)
  then have "ys \<noteq> []"
    using length_byte_bits [of lsb x] by (auto simp del: length_byte_bits)
  then obtain y zs where ys: "ys = y # zs"
    by (cases ys) auto
  then have "byte_bits lsb x = byte_bits lsb y" "bytes_bits lsb xs @ bits = bytes_bits lsb zs"
    using Cons.prems by (simp_all add: append_eq_append_conv)
  then show ?case
    using Cons.IH ys by (simp add: byte_bits_inject)
qed simp

text \<open>
  What the receiver relies on: the levels of the line carry, at the falling edges of the clock, the bits of the
  bytes the sender has accepted, up to those it still holds.
\<close>

locale bit_source =
  fixes line :: "'e list \<Rightarrow> (bool \<times> bool) list" and accepted :: "'e list \<Rightarrow> byte list" and waiting :: "'e list \<Rightarrow> bool list"
  assumes account: "falling_bits False (line es) @ waiting es = bytes_bits True (accepted es)"
begin

lemma receiver_gets:
  fixes evs :: "pio_event list"
  defines "b \<equiv> pio_run rck rck_rxd_program evs sm_init"
  assumes "map (\<lambda>pins. (pins V24_RXC, pins V24_RXD)) (pio_inputs evs) = held ns (line es)"
    and "length ns = length (line es)" "\<forall>n\<in>set ns. 2 \<le> n" "\<not> sm_rx_stall b"
  shows "\<exists>rest. accepted es = map rx_byte (sm_got b @ sm_rxf b) @ rest \<and> (waiting es = [] \<longrightarrow> rest = [])"
proof -
  let ?part = "map (bit (sm_isr b)) [32 - sm_isr_count b..<32]" and ?got = "map rx_byte (sm_got b @ sm_rxf b)"
  note rx = rck_receives [OF assms(2-4) assms(5) [unfolded b_def], folded b_def]
  have "bytes_bits True ?got @ ?part = falling_bits False (line es)"
    using rx(1) by (simp add: rx_bits_def)
  then obtain rest where rest: "accepted es = ?got @ rest" "?part @ waiting es = bytes_bits True rest"
    using bytes_bits_prefix [of True ?got "?part @ waiting es" "accepted es"] account by (metis append_assoc)
  have "rest = []" if "waiting es = []"
    using that rx(2) arg_cong [OF rest(2), of length] by simp
  then show ?thesis
    using rest(1) by blast
qed

end

section \<open>Transmitting with the own clock\<close>

text \<open>The bits waiting in the output register and in the FIFO; only the low eight bits of a word are sent.\<close>

definition word_bits :: "u32 \<Rightarrow> bool list" where
  "word_bits w = map (bit w) [0..<8]"

definition osr_bits :: "pio_sm \<Rightarrow> bool list" where
  "osr_bits s = map (bit (sm_osr s)) [0..<8 - sm_osr_count s]"

definition tx_bits :: "pio_sm \<Rightarrow> bool list" where
  "tx_bits s = osr_bits s @ concat (map word_bits (sm_txf s))"

lemma tx_bits_keeps [simp]:
  "tx_bits (s\<lparr>sm_delay := n\<rparr>) = tx_bits s" "tx_bits (s\<lparr>sm_pc := n\<rparr>) = tx_bits s" "tx_bits (s\<lparr>sm_x := x\<rparr>) = tx_bits s"
  "tx_bits (s\<lparr>sm_pins := pins\<rparr>) = tx_bits s" "tx_bits (s\<lparr>sm_tx_stall := b\<rparr>) = tx_bits s"
  "tx_bits (s\<lparr>sm_pins := pins, sm_osr := w, sm_osr_count := n\<rparr>) = tx_bits (s\<lparr>sm_osr := w, sm_osr_count := n\<rparr>)"
  by (simp_all add: tx_bits_def osr_bits_def)

lemma tx_bits_autopull [simp]: "tx_bits (autopull tck s) = tx_bits s"
  by (auto simp: autopull_def tx_bits_def osr_bits_def word_bits_def split: list.split)

lemma tx_bits_shift:
  assumes "sm_osr_count s < 8"
  shows "tx_bits s = bit (sm_osr s) 0 # tx_bits (s\<lparr>sm_osr := drop_bit 1 (sm_osr s), sm_osr_count := Suc (sm_osr_count s)\<rparr>)"
proof -
  have "[0..<Suc n] = 0 # map Suc [0..<n]" for n
    by (simp add: upt_conv_Cons map_Suc_upt del: upt_Suc)
  then have "[0..<8 - sm_osr_count s] = 0 # map Suc [0..<8 - Suc (sm_osr_count s)]"
    using assms Suc_diff_Suc by metis
  then show ?thesis
    by (simp add: tx_bits_def osr_bits_def bit_simps o_def)
qed

text \<open>The clock and data levels of a state, and the bit that is on the line and not yet clocked.\<close>

definition tck_level :: "(nat \<Rightarrow> bool) \<Rightarrow> bool \<times> bool" where
  "tck_level pins = (pins V24_TXC_DTE, pins V24_TXD)"

definition on_line :: "pio_sm \<Rightarrow> bool list" where
  "on_line s = (if sm_pc s = 3 then [sm_pins s V24_TXD] else [])"

definition tck_ok :: "pio_sm \<Rightarrow> bool" where
  "tck_ok s \<longleftrightarrow> sm_pc s < 5 \<and> (sm_pc s = 3 \<longrightarrow> sm_pins s V24_TXC_DTE) \<and> (sm_pc s \<in> {0, 1, 4} \<longrightarrow> \<not> sm_pins s V24_TXC_DTE)"

text \<open>A cycle moves bits from the registers to the line and clocks the bit on the line, and loses none.\<close>

lemma tck_cycle:
  fixes s :: pio_sm and pins :: "nat \<Rightarrow> bool"
  defines "s' \<equiv> pio_cycle tck tck_txd_program pins s"
  assumes "tck_ok s"
  shows "tck_ok s' \<and> sm_put s' = sm_put s
    \<and> falling_bits (sm_pins s V24_TXC_DTE) [tck_level (sm_pins s')] @ on_line s' @ tx_bits s' = on_line s @ tx_bits s"
proof (cases "sm_delay s > 0")
  case True
  then have "s' = autopull tck (s\<lparr>sm_delay := sm_delay s - 1\<rparr>)"
    by (simp add: s'_def pio_cycle_def)
  then show ?thesis
    using assms(2) by (simp add: tck_ok_def on_line_def tck_level_def)
next
  case False
  have pins: "V24_TXC_DTE \<noteq> V24_TXD"
    by (simp add: v24_pins)
  consider "sm_pc s = 0" | "sm_pc s = 1" | "sm_pc s = 2" | "sm_pc s = 3" | "sm_pc s = 4"
    using assms(2) by (auto simp: tck_ok_def less_Suc_eq numeral_eq_Suc)
  then show ?thesis
    using assms(2) False pins tx_bits_shift [of s]
    by cases (auto simp: s'_def pio_cycle_def tck_txd_program_def pio_exec_def take_branch_def next_pc_def shift_out_def tck_ok_def
        on_line_def tck_level_def not_le Let_def split: if_splits)
qed

lemma tck_put:
  "tck_ok (pio_step tck code (Put w) s) = tck_ok s \<and> on_line (pio_step tck code (Put w) s) = on_line s
   \<and> sm_pins (pio_step tck code (Put w) s) = sm_pins s
   \<and> (\<exists>ws. sm_put (pio_step tck code (Put w) s) = sm_put s @ ws
        \<and> tx_bits (pio_step tck code (Put w) s) = tx_bits s @ concat (map word_bits ws))"
  by (cases "length (sm_txf s) < 4") (simp_all add: tck_ok_def on_line_def tx_bits_def osr_bits_def)

lemma tck_get:
  "tck_ok (pio_step tck code Get s) = tck_ok s \<and> on_line (pio_step tck code Get s) = on_line s
   \<and> sm_pins (pio_step tck code Get s) = sm_pins s
   \<and> sm_put (pio_step tck code Get s) = sm_put s \<and> tx_bits (pio_step tck code Get s) = tx_bits s"
  by (cases "sm_rxf s") (simp_all add: tck_ok_def on_line_def tx_bits_def osr_bits_def)

lemma tck_host:
  assumes "\<nexists>pins. ev = Cycle pins"
  shows "tck_ok (pio_step tck code ev s) = tck_ok s" "on_line (pio_step tck code ev s) = on_line s"
    "sm_pins (pio_step tck code ev s) = sm_pins s"
    "\<exists>ws. sm_put (pio_step tck code ev s) = sm_put s @ ws \<and> tx_bits (pio_step tck code ev s) = tx_bits s @ concat (map word_bits ws)"
  using assms tck_put [of code _ s] tck_get [of code s] by (cases ev; simp del: pio_step.simps)+

text \<open>The levels that a run shows on the line.\<close>

definition tck_line :: "pio_event list \<Rightarrow> pio_sm \<Rightarrow> (bool \<times> bool) list" where
  "tck_line evs s = map tck_level (pio_outputs tck tck_txd_program evs s)"

text \<open>Over any run the bits clocked, the bit on the line and the bits waiting are those from before and those of the words put.\<close>

lemma tck_run:
  fixes s :: pio_sm and evs :: "pio_event list"
  defines "s' \<equiv> pio_run tck tck_txd_program evs s"
  assumes "tck_ok s"
  shows "tck_ok s' \<and> (\<exists>ws. sm_put s' = sm_put s @ ws
    \<and> falling_bits (sm_pins s V24_TXC_DTE) (tck_line evs s) @ on_line s' @ tx_bits s' = on_line s @ tx_bits s @ concat (map word_bits ws))"
  using assms(2) unfolding s'_def
proof (induction evs arbitrary: s)
  case Nil
  then show ?case
    by (simp add: tck_line_def)
next
  case (Cons ev evs)
  let ?s1 = "pio_step tck tck_txd_program ev s"
  have ok: "tck_ok ?s1"
    using Cons.prems tck_cycle [OF Cons.prems] tck_host(1) by (cases ev) (simp_all del: pio_step.simps(2,3))
  obtain ws where ws: "tck_ok (pio_run tck tck_txd_program evs ?s1)" "sm_put (pio_run tck tck_txd_program evs ?s1) = sm_put ?s1 @ ws"
    "falling_bits (sm_pins ?s1 V24_TXC_DTE) (tck_line evs ?s1) @ on_line (pio_run tck tck_txd_program evs ?s1)
      @ tx_bits (pio_run tck tck_txd_program evs ?s1) = on_line ?s1 @ tx_bits ?s1 @ concat (map word_bits ws)"
    using Cons.IH [OF ok] by blast
  show ?case
  proof (cases "\<exists>pins. ev = Cycle pins")
    case True
    then obtain pins where ev: "ev = Cycle pins"
      by blast
    have "falling_bits (sm_pins s V24_TXC_DTE) (tck_line (ev # evs) s)
        = falling_bits (sm_pins s V24_TXC_DTE) [tck_level (sm_pins ?s1)] @ falling_bits (sm_pins ?s1 V24_TXC_DTE) (tck_line evs ?s1)"
      by (simp add: tck_line_def ev tck_level_def Let_def)
    then show ?thesis
      using tck_cycle [OF Cons.prems, of pins] ws by (simp add: ev)
  next
    case False
    note ev = this
    have "tck_line (ev # evs) s = tck_line evs ?s1"
      using ev by (cases ev) (simp_all add: tck_line_def)
    moreover obtain ws1 where "sm_put ?s1 = sm_put s @ ws1" "tx_bits ?s1 = tx_bits s @ concat (map word_bits ws1)"
      using tck_host(4) [OF ev] by blast
    ultimately show ?thesis
      using ws tck_host(2,3) [OF ev, of tck_txd_program s] by (intro conjI exI [of _ "ws1 @ ws"]) simp_all
  qed
qed

lemma tck_start: "tck_ok sm_init" "on_line sm_init = []" "tx_bits sm_init = []" "sm_put sm_init = []" "\<not> sm_pins sm_init p"
  by (simp_all add: tck_ok_def on_line_def tx_bits_def osr_bits_def sm_init_def)

lemma tck_accounts:
  "falling_bits False (tck_line evs sm_init) @ on_line (pio_run tck tck_txd_program evs sm_init)
     @ tx_bits (pio_run tck tck_txd_program evs sm_init)
   = concat (map word_bits (sm_put (pio_run tck tck_txd_program evs sm_init)))"
  using tck_run [OF tck_start(1), of evs] tck_start(2-5) by auto

lemma word_bits_low: "word_bits = (\<lambda>w. byte_bits True (ucast w))"
  by (rule ext, rule nth_equalityI) (simp_all add: word_bits_def bit_pos_def bit_simps del: upt_rec_numeral)

interpretation tck_source: bit_source "\<lambda>evs. tck_line evs sm_init"
  "\<lambda>evs. map ucast (sm_put (pio_run tck tck_txd_program evs sm_init))"
  "\<lambda>evs. on_line (pio_run tck tck_txd_program evs sm_init) @ tx_bits (pio_run tck tck_txd_program evs sm_init)"
  by unfold_locales (use tck_accounts in \<open>simp add: word_bits_low o_def\<close>)

text \<open>One bit takes eight cycles while CTS is up.\<close>

lemma osr_ready: "tx_bits s \<noteq> [] \<Longrightarrow> sm_osr_count (autopull tck s) < 8"
  by (auto simp: autopull_def tx_bits_def osr_bits_def split: list.split)

lemma tck_bit:
  assumes "sm_pc s = 0" "sm_delay s = 0" "tx_bits s \<noteq> []" "tck_ok s" "list_all (\<lambda>pins. pins V24_CTS) ps" "length ps = 8"
  shows "\<exists>s'. pio_run tck tck_txd_program (map Cycle ps) s = s' \<and> sm_pc s' = 0 \<and> sm_delay s' = 0 \<and> tck_ok s'
    \<and> tx_bits s = falling_bits False (tck_line (map Cycle ps) s) @ tx_bits s' \<and> length (falling_bits False (tck_line (map Cycle ps) s)) = 1"
proof -
  let ?cyc = "pio_cycle tck tck_txd_program"
  let ?at = "\<lambda>s pc n clk. sm_pc s = pc \<and> sm_delay s = n \<and> sm_pins s V24_TXC_DTE = clk"
  have cycle: "?at s pc 1 clk \<Longrightarrow> ?at (?cyc p s) pc 0 clk" for s p pc clk
    by (simp add: pio_cycle_def)
  have first: "?at s 0 0 clk \<Longrightarrow> p V24_CTS \<Longrightarrow> ?at (?cyc p s) 2 1 False" "?at s 3 0 clk \<Longrightarrow> ?at (?cyc p s) 4 1 False"
    "?at s 4 0 clk \<Longrightarrow> ?at (?cyc p s) 0 1 False" "?at s 2 0 clk \<Longrightarrow> sm_osr_count s < 8 \<Longrightarrow> ?at (?cyc p s) 3 1 True" for s p clk
    by (auto simp: pio_cycle_def tck_txd_program_def pio_exec_def take_branch_def next_pc_def shift_out_def v24_pins Let_def)
  obtain p1 p2 p3 p4 p5 p6 p7 p8 where ps: "ps = [p1, p2, p3, p4, p5, p6, p7, p8]"
    using assms(6) by (auto simp: numeral_eq_Suc length_Suc_conv)
  define s1 s2 s3 s4 s5 s6 s7 s8 where "s1 = ?cyc p1 s" "s2 = ?cyc p2 s1" "s3 = ?cyc p3 s2" "s4 = ?cyc p4 s3" "s5 = ?cyc p5 s4"
    "s6 = ?cyc p6 s5" "s7 = ?cyc p7 s6" "s8 = ?cyc p8 s7"
  note defs = this
  have s2: "?at s1 2 1 False" "?at s2 2 0 False"
    using first(1) [of s _ p1] cycle [of s1 2 False p2] assms(1,2,5) by (auto simp: defs ps)
  have "sm_osr_count s1 < 8"
    using osr_ready assms(1-3) by (auto simp: defs pio_cycle_def tck_txd_program_def pio_exec_def take_branch_def next_pc_def Let_def)
  then have "sm_osr_count s2 < 8"
    using s2(1) by (auto simp: defs(2) pio_cycle_def autopull_def split: list.split)
  then have s4: "?at s3 3 1 True" "?at s4 3 0 True"
    using first(4) [OF s2(2)] cycle [of s3 3 True p4] by (auto simp: defs(3,4))
  have s6: "?at s5 4 1 False" "?at s6 4 0 False"
    using first(2) [OF s4(2)] cycle [of s5 4 False p6] by (auto simp: defs(5,6))
  have s8: "?at s7 0 1 False" "?at s8 0 0 False"
    using first(3) [OF s6(2)] cycle [of s7 0 False p8] by (auto simp: defs(7,8))
  have run: "pio_run tck tck_txd_program (map Cycle ps) s = s8" "tck_line (map Cycle ps) s = map (tck_level \<circ> sm_pins) [s1, s2, s3, s4, s5, s6, s7, s8]"
    by (simp_all add: ps defs tck_line_def Let_def)
  then have "length (falling_bits False (tck_line (map Cycle ps) s)) = 1"
    using s2 s4 s6 s8 by (simp add: tck_level_def)
  moreover have "\<not> sm_pins s V24_TXC_DTE" "on_line s = []" "on_line s8 = []"
    using assms(1,4) s8 by (simp_all add: tck_ok_def on_line_def)
  moreover have "sm_put s8 = sm_put s"
    using cycles_put [of tck tck_txd_program ps s] run(1) by simp
  ultimately show ?thesis
    using tck_run [OF assms(4), of "map Cycle ps"] s8(2) run(1) by auto
qed

lemma tck_bits:
  assumes "sm_pc s = 0" "sm_delay s = 0" "tck_ok s" "n \<le> length (tx_bits s)" "list_all (\<lambda>pins. pins V24_CTS) ps" "length ps = 8 * n"
  shows "falling_bits False (tck_line (map Cycle ps) s) = take n (tx_bits s)
    \<and> sm_pc (pio_run tck tck_txd_program (map Cycle ps) s) = 0
    \<and> tx_bits (pio_run tck tck_txd_program (map Cycle ps) s) = drop n (tx_bits s)"
  using assms
proof (induction n arbitrary: s ps)
  case (Suc n)
  let ?ps1 = "take 8 ps" and ?ps2 = "drop 8 ps"
  have ps: "list_all (\<lambda>pins. pins V24_CTS) ?ps1" "list_all (\<lambda>pins. pins V24_CTS) ?ps2" "length ?ps1 = 8" "length ?ps2 = 8 * n"
    using Suc.prems(5,6) by (auto simp: list_all_iff dest: in_set_takeD in_set_dropD)
  then have ne: "?ps1 \<noteq> []"
    by auto
  have "tx_bits s \<noteq> []"
    using Suc.prems(4) by auto
  then obtain s1 where s1: "pio_run tck tck_txd_program (map Cycle ?ps1) s = s1" "sm_pc s1 = 0" "sm_delay s1 = 0" "tck_ok s1"
    "tx_bits s = falling_bits False (tck_line (map Cycle ?ps1) s) @ tx_bits s1" "length (falling_bits False (tck_line (map Cycle ?ps1) s)) = 1"
    using tck_bit [OF Suc.prems(1,2) _ Suc.prems(3) ps(1,3)] by blast
  have "tck_line (map Cycle ps) s = tck_line (map Cycle ?ps1) s @ tck_line (map Cycle ?ps2) s1"
    using pio_outputs_append [of tck tck_txd_program "map Cycle ?ps1" "map Cycle ?ps2" s]
    by (simp add: tck_line_def s1(1) flip: map_append)
  moreover have "fst (last (tck_line (map Cycle ?ps1) s)) = False" "tck_line (map Cycle ?ps1) s \<noteq> []"
    using outputs_last [OF ne, of tck tck_txd_program s] s1(1,2,4)
    by (simp_all add: tck_line_def last_map tck_level_def tck_ok_def)
  moreover have "pio_run tck tck_txd_program (map Cycle ps) s = pio_run tck tck_txd_program (map Cycle ?ps2) s1"
    by (subst append_take_drop_id [of 8 ps, symmetric], unfold map_append fold_append) (simp add: s1(1))
  moreover have "falling_bits False (tck_line (map Cycle ?ps2) s1) = take n (tx_bits s1)
    \<and> sm_pc (pio_run tck tck_txd_program (map Cycle ?ps2) s1) = 0
    \<and> tx_bits (pio_run tck tck_txd_program (map Cycle ?ps2) s1) = drop n (tx_bits s1)"
    using Suc.IH [OF s1(2-4) _ ps(2,4)] Suc.prems(4) s1(5,6) by (metis Suc_le_mono length_append plus_1_eq_Suc)
  ultimately show ?case
    using s1(5,6) by (auto simp: falling_bits_append length_Suc_conv)
qed (simp add: tck_line_def)

section \<open>The receiver keeps up\<close>

text \<open>A bit takes the receiver three cycles at least, so its FIFO cannot overflow within 214 cycles.\<close>

definition rck_used :: "pio_sm \<Rightarrow> nat" where
  "rck_used s = 3 * (8 * length (sm_rxf s) + sm_isr_count s) + (if sm_pc s = 2 then 1 else if sm_pc s = 3 then 2 else 0)"

lemma rck_no_stall:
  assumes "rck_ok s" "\<not> sm_rx_stall s" "rck_used s + length (pio_inputs evs) < 215"
  shows "\<not> sm_rx_stall (pio_run rck rck_rxd_program evs s)"
  using assms
proof (induction evs arbitrary: s)
  case (Cons ev evs)
  let ?s1 = "pio_step rck rck_rxd_program ev s"
  have "rck_ok ?s1 \<and> \<not> sm_rx_stall ?s1 \<and> rck_used ?s1 + length (pio_inputs evs) < 215"
  proof (cases ev)
    case (Cycle pins)
    consider "sm_pc s = 0" | "sm_pc s = 1" | "sm_pc s = 2" | "sm_pc s = 3"
      using Cons.prems(1) by (auto simp: rck_ok_def less_Suc_eq numeral_eq_Suc)
    then show ?thesis
      using Cons.prems Cycle
      by cases (auto simp: pio_cycle_def rck_rxd_program_def pio_exec_def take_branch_def autopull_def next_pc_def rck_ok_def
          rck_used_def Let_def not_less)
  next
    case (Put w)
    then show ?thesis
      using Cons.prems by simp
  next
    case Get
    then show ?thesis
      using Cons.prems by (cases "sm_rxf s") (simp_all add: rck_ok_def rck_used_def)
  qed
  then show ?case
    using Cons.IH by simp
qed simp

section \<open>Properties\<close>

lemma puts_fit:
  assumes "length (sm_txf s) + length ws \<le> 4"
  shows "pio_run tck code (map Put ws) s = s\<lparr>sm_txf := sm_txf s @ ws, sm_put := sm_put s @ ws\<rparr>"
    "pio_outputs tck code (map Put ws) s = []"
  using assms by (induction ws arbitrary: s) simp_all

text \<open>
  C26.  The bit rate.  Up to four bytes are in the FIFO of the internally clocked transmitter and CTS stays up.  Then after
  \<open>TX_PIO_CYCLES_PER_BIT\<close> cycles per bit exactly that many bits have been clocked, from the first byte
  on and each byte with its least significant bit first.
\<close>

theorem tck_txd_bit_rate:
  assumes "length bs \<le> 4" "list_all (\<lambda>pins. pins V24_CTS) ps" "length ps = TX_PIO_CYCLES_PER_BIT * n" "n \<le> 8 * length bs"
  shows "falling_bits False (tck_line (map (Put \<circ> ucast) bs @ map Cycle ps) sm_init) = take n (bytes_bits True bs)"
proof -
  let ?s = "sm_init\<lparr>sm_txf := map ucast bs, sm_put := map ucast bs\<rparr>"
  have "tck_line (map (Put \<circ> ucast) bs @ map Cycle ps) sm_init = tck_line (map Cycle ps) ?s"
    using puts_fit [of sm_init "map ucast bs" tck_txd_program] assms(1)
    by (simp add: tck_line_def pio_outputs_append sm_init_def)
  moreover have "tx_bits ?s = bytes_bits True bs"
    by (simp add: tx_bits_def osr_bits_def sm_init_def word_bits_low o_def)
  ultimately show ?thesis
    using tck_bits [of ?s n ps] assms(2-4) by (simp add: sm_init_def tck_ok_def TX_PIO_CYCLES_PER_BIT_def)
qed

theorem tck_txd_bit_rate_witness:
  "falling_bits False (tck_line (map (Put \<circ> ucast) [0x7E :: byte, 0xDF] @ map Cycle (replicate 72 (\<lambda>p. p = V24_CTS))) sm_init)
     = [False, True, True, True, True, True, True, False, True]"
  using tck_txd_bit_rate [of "[0x7E, 0xDF]" "replicate 72 (\<lambda>p. p = V24_CTS)" 9]
  by (simp add: TX_PIO_CYCLES_PER_BIT_def list_all_iff byte_bits_def bit_pos_def upt_rec numeral_eq_Suc)


text \<open>A wired receiver that is not read, for the witness.\<close>

definition wire_levels :: "bool \<times> bool \<Rightarrow> nat \<Rightarrow> bool" where
  "wire_levels l p = (if p = V24_RXC then fst l else snd l)"

lemma wired_inputs:
  "pio_inputs (map (Cycle \<circ> wire_levels) ls) = map wire_levels ls"
  "map (\<lambda>pins. (pins V24_RXC, pins V24_RXD)) (map wire_levels ls) = ls"
  by (induction ls) (simp_all add: wire_levels_def v24_pins)

lemma length_tck_line: "length (tck_line evs s) = length (pio_inputs evs)"
proof -
  have "length (pio_outputs c code evs s) = length (pio_inputs evs)" for c code
    by (induction c code evs s rule: pio_outputs.induct) (simp_all add: Let_def)
  then show ?thesis
    by (simp add: tck_line_def)
qed

lemma length_held: "length ns = length ls \<Longrightarrow> length (held ns ls) = sum_list ns"
  by (induction ns ls rule: list_induct2) (simp_all add: held_def)


end
