(* ===== verification/Board_Wire.thy ===== *)
theory Board_Wire
  imports Driver_Run Bridge Pio_Programs
begin

text \<open>
  The firmware on a board whose line hardware is the PIO with the programs of \<open>src/pio\<close>.  The interface \<open>pio_board\<close> says what the
  driver's calls mean for the two state machines: time passes in any amount between and during the calls, a byte written goes into the
  transmit FIFO, a byte read comes from the receive FIFO.  Shown here: as long as the driver does not reset a state machine, the
  bytes the transmitter has been given are those of the driver's trace and the bytes the firmware has read are those of the receiver; so
  over a cable the second firmware reads what the first has sent.
\<close>

section \<open>State machines under cycles\<close>

abbreviation tx_machine :: "pio_event list \<Rightarrow> pio_sm" where
  "tx_machine evs \<equiv> pio_run tck tck_txd_program evs sm_init"

abbreviation rx_machine :: "pio_event list \<Rightarrow> pio_sm" where
  "rx_machine evs \<equiv> pio_run rck rck_rxd_program evs sm_init"

lemma autopull_fifos: "length (sm_txf (autopull c s)) \<le> length (sm_txf s)" "sm_rxf (autopull c s) = sm_rxf s" "sm_got (autopull c s) = sm_got s"
  by (auto simp: autopull_def split: list.split)

lemma exec_fifos:
  "length (sm_txf (snd (pio_exec c code pins oper s))) \<le> length (sm_txf s)" "\<exists>ws. sm_rxf (snd (pio_exec c code pins oper s)) = sm_rxf s @ ws"
  "sm_got (snd (pio_exec c code pins oper s)) = sm_got s"
  by (auto simp: pio_exec_def take_branch_def Let_def split: pio_op.split pio_cond.split list.split prod.split)

lemma pio_cycle_fifos:
  "length (sm_txf (pio_cycle c code pins s)) \<le> length (sm_txf s)" "\<exists>ws. sm_rxf (pio_cycle c code pins s) = sm_rxf s @ ws"
  "sm_got (pio_cycle c code pins s) = sm_got s"
proof -
  define s1 where "s1 = (case i_side (code ! sm_pc s) of None \<Rightarrow> s | Some v \<Rightarrow> s\<lparr>sm_pins := (sm_pins s)(sc_side_base c := v)\<rparr>)"
  define s2 where "s2 = snd (pio_exec c code pins (i_op (code ! sm_pc s)) s1)"
  have s1: "sm_txf s1 = sm_txf s" "sm_rxf s1 = sm_rxf s" "sm_got s1 = sm_got s"
    by (simp_all add: s1_def split: option.split)
  have "pio_cycle c code pins s = autopull c (s\<lparr>sm_delay := sm_delay s - 1\<rparr>)
      \<or> (\<exists>n. pio_cycle c code pins s = autopull c (s2\<lparr>sm_delay := n\<rparr>)) \<or> pio_cycle c code pins s = autopull c s2"
    by (auto simp: pio_cycle_def s1_def s2_def split_beta Let_def)
  then show "length (sm_txf (pio_cycle c code pins s)) \<le> length (sm_txf s)" "\<exists>ws. sm_rxf (pio_cycle c code pins s) = sm_rxf s @ ws"
    "sm_got (pio_cycle c code pins s) = sm_got s"
    using autopull_fifos(1) [of c "s\<lparr>sm_delay := sm_delay s - 1\<rparr>"] le_trans [OF autopull_fifos(1) [of c s2]]
      exec_fifos [of c code pins "i_op (code ! sm_pc s)" s1] s1 le_trans [OF autopull_fifos(1) [of c "s2\<lparr>sm_delay := _\<rparr>"]]
    by (auto simp: s2_def [symmetric] autopull_fifos)
qed

lemma cycles_fifos:
  "length (sm_txf (pio_run c code (map Cycle ps) s)) \<le> length (sm_txf s)" "\<exists>ws. sm_rxf (pio_run c code (map Cycle ps) s) = sm_rxf s @ ws"
  "sm_got (pio_run c code (map Cycle ps) s) = sm_got s"
proof (induction ps arbitrary: s)
  case (Cons p ps)
  { case 1
    show ?case
      using Cons(1) [of "pio_cycle c code p s"] pio_cycle_fifos(1) [of c code p s] by simp
  next
    case 2
    show ?case
      using Cons(2) [of "pio_cycle c code p s"] pio_cycle_fifos(2) [of c code p s] by force
  next
    case 3
    show ?case
      using Cons(3) [of "pio_cycle c code p s"] pio_cycle_fifos(3) [of c code p s] by simp }
qed simp_all

section \<open>The board\<close>

text \<open>Commands after which a state machine no longer goes on from where it was.\<close>

fun machine_reset :: "nat \<Rightarrow> hw_cmd \<Rightarrow> bool" where
  "machine_reset sm (Pio_sm_init p s _ _ _) \<longleftrightarrow> p = 0 \<and> s = sm"
| "machine_reset sm (Pio_sm_clear_fifos p s) \<longleftrightarrow> p = 0 \<and> s = sm"
| "machine_reset sm (Pio_sm_restart p s) \<longleftrightarrow> p = 0 \<and> s = sm"
| "machine_reset sm _ \<longleftrightarrow> False"

fun words_put :: "hw_cmd \<Rightarrow> pio_event list" where
  "words_put (Pio_sm_put p s w) = (if p = 0 \<and> s = 0 then [Put w] else [])"
| "words_put _ = []"

text \<open>
  The transmitter is state machine 0 and the receiver state machine 1 of the first PIO, as \<open>main\<close> chooses them.  \<open>tx\<close> and \<open>rx\<close> give what has
  happened to them since they were initialised.
\<close>

definition wire_kept :: "('h \<Rightarrow> pio_event list) \<Rightarrow> ('h \<Rightarrow> pio_event list) \<Rightarrow> 'h v24_driver \<Rightarrow> 'h v24_driver \<Rightarrow> bool" where
  "wire_kept tx rx d e \<longleftrightarrow> (\<exists>cs bs. dr_trace e = dr_trace d @ cs \<and> dr_rx e = dr_rx d @ bs
     \<and> (list_all (\<lambda>c. \<not> machine_reset 0 c) cs \<longrightarrow> map ucast (sm_put (tx_machine (tx (dr_hw e))))
          = map ucast (sm_put (tx_machine (tx (dr_hw d)))) @ bytes_put cs)
     \<and> (list_all (\<lambda>c. \<not> machine_reset 1 c) cs \<longrightarrow> map rx_byte (sm_got (rx_machine (rx (dr_hw e))))
          = map rx_byte (sm_got (rx_machine (rx (dr_hw d)))) @ bs))"

definition main_machines :: "'h v24_driver \<Rightarrow> bool" where
  "main_machines d \<longleftrightarrow> rt_tx_pio (dr_runtime d) = Some 0 \<and> rt_tx_sm (dr_runtime d) = 0
     \<and> rt_rx_pio (dr_runtime d) = Some 0 \<and> rt_rx_sm (dr_runtime d) = 1"

lemma wire_kept_trans: "wire_kept tx rx d e \<Longrightarrow> wire_kept tx rx e f \<Longrightarrow> wire_kept tx rx d f"
proof -
  assume "wire_kept tx rx d e" "wire_kept tx rx e f"
  then obtain cs bs cs' bs' where "dr_trace e = dr_trace d @ cs" "dr_rx e = dr_rx d @ bs" "dr_trace f = dr_trace e @ cs'" "dr_rx f = dr_rx e @ bs'"
    "list_all (\<lambda>c. \<not> machine_reset 0 c) cs \<longrightarrow> map ucast (sm_put (tx_machine (tx (dr_hw e)))) = map ucast (sm_put (tx_machine (tx (dr_hw d)))) @ bytes_put cs"
    "list_all (\<lambda>c. \<not> machine_reset 0 c) cs' \<longrightarrow> map ucast (sm_put (tx_machine (tx (dr_hw f)))) = map ucast (sm_put (tx_machine (tx (dr_hw e)))) @ bytes_put cs'"
    "list_all (\<lambda>c. \<not> machine_reset 1 c) cs \<longrightarrow> map rx_byte (sm_got (rx_machine (rx (dr_hw e)))) = map rx_byte (sm_got (rx_machine (rx (dr_hw d)))) @ bs"
    "list_all (\<lambda>c. \<not> machine_reset 1 c) cs' \<longrightarrow> map rx_byte (sm_got (rx_machine (rx (dr_hw f)))) = map rx_byte (sm_got (rx_machine (rx (dr_hw e)))) @ bs'"
    unfolding wire_kept_def by blast
  then show "wire_kept tx rx d f"
    unfolding wire_kept_def by (intro exI [of _ "cs @ cs'"] exI [of _ "bs @ bs'"]) simp
qed

lemma wire_keptI:
  assumes "dr_trace e = dr_trace d @ cs" "dr_rx e = dr_rx d @ bs"
    and "list_all (\<lambda>c. \<not> machine_reset 0 c) cs \<Longrightarrow> map ucast (sm_put (tx_machine (tx (dr_hw e)))) = map ucast (sm_put (tx_machine (tx (dr_hw d)))) @ bytes_put cs"
    and "list_all (\<lambda>c. \<not> machine_reset 1 c) cs \<Longrightarrow> map rx_byte (sm_got (rx_machine (rx (dr_hw e)))) = map rx_byte (sm_got (rx_machine (rx (dr_hw d)))) @ bs"
  shows "wire_kept tx rx d e"
  using assms unfolding wire_kept_def by blast

lemma bytes_put_none: "\<not> is_put c \<Longrightarrow> bytes_put [c] = []"
  by (cases c) simp_all

text \<open>
  What a board with such machines has to do.
\<close>

locale pio_board =
  fixes k :: "'h sdk" and tx rx :: "'h \<Rightarrow> pio_event list"
  assumes tx_init: "\<exists>ps. tx (sdk_do k (Pio_sm_init 0 0 offset Tck_txd tck_settings) h) = map Cycle ps"
    and rx_init: "\<exists>ps. rx (sdk_do k (Pio_sm_init 0 1 offset Rck_rxd rck_settings) h) = map Cycle ps"
    and tx_do: "\<not> machine_reset 0 c \<Longrightarrow> \<exists>ps qs. tx (sdk_do k c h) = tx h @ map Cycle ps @ words_put c @ map Cycle qs"
    and rx_do: "\<not> machine_reset 1 c \<Longrightarrow> \<exists>ps. rx (sdk_do k c h) = rx h @ map Cycle ps"
    and tx_ask: "\<exists>ps. tx (snd (sdk_ask k q h)) = tx h @ map Cycle ps"
    and rx_ask: "\<not> is_get q \<Longrightarrow> \<exists>ps. rx (snd (sdk_ask k q h)) = rx h @ map Cycle ps"
    and tx_irqs: "\<exists>ps. tx (snd (sdk_cts_irqs k h)) = tx h @ map Cycle ps"
    and rx_irqs: "\<exists>ps. rx (snd (sdk_cts_irqs k h)) = rx h @ map Cycle ps"
    and tx_room: "fst (sdk_ask k (Pio_sm_is_tx_fifo_full 0 0) h) = 0 \<Longrightarrow>
      length (sm_txf (tx_machine (tx (snd (sdk_ask k (Pio_sm_is_tx_fifo_full 0 0) h))))) < tx_depth tck"
    and rx_ready: "fst (sdk_ask k (Pio_sm_is_rx_fifo_empty 0 1) h) = 0 \<Longrightarrow>
      sm_rxf (rx_machine (rx (snd (sdk_ask k (Pio_sm_is_rx_fifo_empty 0 1) h)))) \<noteq> []"
    and rx_word: "sm_rxf (rx_machine (rx h)) \<noteq> [] \<Longrightarrow> fst (sdk_ask k (Pio_sm_get 0 1) h) = ucast (hd (sm_rxf (rx_machine (rx h))))
      \<and> (\<exists>ps qs. rx (snd (sdk_ask k (Pio_sm_get 0 1) h)) = rx h @ map Cycle ps @ [Get] @ map Cycle qs)"
begin

lemma ask_tx_put: "sm_put (tx_machine (tx (snd (sdk_ask k q h)))) = sm_put (tx_machine (tx h))"
  using tx_ask [of q h] cycles_put by fastforce

lemma ask_rx_got: "\<not> is_get q \<Longrightarrow> sm_got (rx_machine (rx (snd (sdk_ask k q h)))) = sm_got (rx_machine (rx h))"
  using rx_ask [of q h] cycles_fifos(3) by fastforce

lemma do_tx_put:
  assumes "\<not> machine_reset 0 c" "\<not> is_put c"
  shows "sm_put (tx_machine (tx (sdk_do k c h))) = sm_put (tx_machine (tx h))"
proof -
  have "words_put c = []"
    using assms(2) by (cases c) simp_all
  then show ?thesis
    using tx_do [OF assms(1), of h] cycles_put by fastforce
qed

lemma do_rx_got: "\<not> machine_reset 1 c \<Longrightarrow> sm_got (rx_machine (rx (sdk_do k c h))) = sm_got (rx_machine (rx h))"
  using rx_do [of c h] cycles_fifos(3) by fastforce

lemma put_word:
  assumes "length (sm_txf (tx_machine (tx h))) < tx_depth tck"
  shows "sm_put (tx_machine (tx (sdk_do k (Pio_sm_put 0 0 w) h))) = sm_put (tx_machine (tx h)) @ [w]"
proof -
  obtain ps qs where tx: "tx (sdk_do k (Pio_sm_put 0 0 w) h) = tx h @ map Cycle ps @ [Put w] @ map Cycle qs"
    using tx_do [of "Pio_sm_put 0 0 w" h] by auto
  let ?s = "pio_run tck tck_txd_program (map Cycle ps) (tx_machine (tx h))"
  have "length (sm_txf ?s) < 4"
    using assms cycles_fifos(1) [of tck tck_txd_program ps "tx_machine (tx h)"] by simp
  then show ?thesis
    by (simp add: tx cycles_put)
qed

lemma get_word:
  assumes "sm_rxf (rx_machine (rx h)) \<noteq> []"
  shows "sm_got (rx_machine (rx (snd (sdk_ask k (Pio_sm_get 0 1) h))))
    = sm_got (rx_machine (rx h)) @ [ucast (fst (sdk_ask k (Pio_sm_get 0 1) h))]"
proof -
  obtain w ws where w: "sm_rxf (rx_machine (rx h)) = w # ws"
    using assms by (cases "sm_rxf (rx_machine (rx h))") auto
  obtain ps qs where rx: "rx (snd (sdk_ask k (Pio_sm_get 0 1) h)) = rx h @ map Cycle ps @ [Get] @ map Cycle qs"
    and v: "fst (sdk_ask k (Pio_sm_get 0 1) h) = ucast w"
    using rx_word [OF assms] w by auto
  let ?s = "pio_run rck rck_rxd_program (map Cycle ps) (rx_machine (rx h))"
  obtain vs where "sm_rxf ?s = w # ws @ vs" "sm_got ?s = sm_got (rx_machine (rx h))"
    using cycles_fifos(2,3) [of rck rck_rxd_program ps "rx_machine (rx h)"] w by auto
  moreover have "ucast (ucast w :: u64) = w"
    by (rule bit_word_eqI) (simp add: bit_simps)
  ultimately show ?thesis
    unfolding rx v by (simp add: cycles_fifos(3))
qed

lemma kept_do: "\<not> is_put c \<Longrightarrow> wire_kept tx rx d (hw_do k c d)"
  by (rule wire_keptI [where cs = "[c]" and bs = "[]"]) (simp_all add: hw_do_def do_tx_put do_rx_got bytes_put_none)

lemma kept_ask: "\<not> is_get q \<Longrightarrow> wire_kept tx rx d (snd (hw_ask k q d))"
  by (rule wire_keptI [where cs = "[]" and bs = "[]"]) (simp_all add: hw_ask_def split_beta Let_def ask_tx_put ask_rx_got)

lemma kept_irqs: "wire_kept tx rx d (d\<lparr>dr_hw := snd (sdk_cts_irqs k (dr_hw d))\<rparr>)"
  using tx_irqs [of "dr_hw d"] rx_irqs [of "dr_hw d"]
  by (intro wire_keptI [where cs = "[]" and bs = "[]"]) (auto simp: cycles_put cycles_fifos(3))

lemma kept_do_all: "list_all (\<lambda>c. \<not> is_put c) cs \<Longrightarrow> wire_kept tx rx d (hw_do_all k cs d)"
proof (induction cs arbitrary: d)
  case (Cons c cs)
  then show ?case
    using wire_kept_trans [OF kept_do [of c d]] by simp
qed (simp add: wire_keptI [where cs = "[]" and bs = "[]"])

lemma kept_put:
  assumes "main_machines d"
  shows "wire_kept tx rx d (snd (tx_put k b d))"
proof -
  define d1 where "d1 = (if \<not> rt_rts_set (dr_runtime d)
    then upd_runtime (\<lambda>rt. rt\<lparr>rt_rts_set := True\<rparr>) (hw_do_all k [Pio_fdebug_write 0 (fdebug_bit (PIO_FDEBUG_TXSTALL_LSB k + 0)),
      Gpio_set_dir V24_RTS True, Gpio_put V24_RTS True] d) else d)"
  define d2 where "d2 = snd (hw_ask k (Pio_sm_is_tx_fifo_full 0 0) d1)"
  have put: "snd (tx_put k b d) = (if fst (hw_ask k (Pio_sm_is_tx_fifo_full 0 0) d1) \<noteq> 0 then d2 else hw_do k (Pio_sm_put 0 0 (ucast b)) d2)"
    using assms by (simp add: tx_put_def main_machines_def d1_def d2_def split_beta Let_def)
  have "wire_kept tx rx d (hw_do_all k [Pio_fdebug_write 0 (fdebug_bit (PIO_FDEBUG_TXSTALL_LSB k + 0)), Gpio_set_dir V24_RTS True, Gpio_put V24_RTS True] d)"
    by (rule kept_do_all) simp
  then have "wire_kept tx rx d d1"
    by (auto simp: d1_def wire_kept_def)
  then have kept: "wire_kept tx rx d d2"
    using wire_kept_trans kept_ask [of "Pio_sm_is_tx_fifo_full 0 0" d1] by (auto simp: d2_def)
  have "wire_kept tx rx d2 (hw_do k (Pio_sm_put 0 0 (ucast b)) d2)" if "fst (hw_ask k (Pio_sm_is_tx_fifo_full 0 0) d1) = 0"
  proof -
    have "length (sm_txf (tx_machine (tx (dr_hw d2)))) < tx_depth tck"
      using tx_room [of "dr_hw d1"] that by (simp add: d2_def hw_ask_def split_beta Let_def)
    then show ?thesis
      using put_word [of "dr_hw d2" "ucast b"]
      by (intro wire_keptI [where cs = "[Pio_sm_put 0 0 (ucast b)]" and bs = "[]"]) (simp_all add: hw_do_def do_rx_got)
  qed
  then show ?thesis
    using put kept wire_kept_trans by auto
qed

lemma kept_get:
  assumes "main_machines d"
  shows "wire_kept tx rx d (snd (rx_get k d))"
proof -
  define d1 where "d1 = snd (hw_ask k (Pio_sm_is_rx_fifo_empty 0 1) d)"
  define d2 where "d2 = snd (hw_ask k (Pio_sm_get 0 1) d1)"
  define v where "v = fst (hw_ask k (Pio_sm_get 0 1) d1)"
  define b :: byte where "b = ucast (drop_bit RX_SHIFT_TO_LSB (ucast v :: u32))"
  have get: "snd (rx_get k d) = (if fst (hw_ask k (Pio_sm_is_rx_fifo_empty 0 1) d) \<noteq> 0 then d1 else d2\<lparr>dr_rx := dr_rx d2 @ [b]\<rparr>)"
    using assms by (simp add: rx_get_def main_machines_def d1_def d2_def v_def b_def split_beta Let_def)
  have kept: "wire_kept tx rx d d1"
    using kept_ask [of "Pio_sm_is_rx_fifo_empty 0 1" d] by (simp add: d1_def)
  have "wire_kept tx rx d1 (d2\<lparr>dr_rx := dr_rx d2 @ [b]\<rparr>)" if "fst (hw_ask k (Pio_sm_is_rx_fifo_empty 0 1) d) = 0"
  proof -
    have "sm_rxf (rx_machine (rx (dr_hw d1))) \<noteq> []"
      using rx_ready [of "dr_hw d"] that by (simp add: d1_def hw_ask_def split_beta Let_def)
    then have "sm_got (rx_machine (rx (dr_hw d2))) = sm_got (rx_machine (rx (dr_hw d1))) @ [ucast v]"
      using get_word [of "dr_hw d1"] by (simp add: d2_def v_def hw_ask_def split_beta Let_def)
    then show ?thesis
      by (intro wire_keptI [where cs = "[]" and bs = "[b]"])
        (simp_all add: d2_def hw_ask_def ask_tx_put b_def rx_byte_def split_beta Let_def)
  qed
  then show ?thesis
    using get kept wire_kept_trans by auto
qed

lemma kept_run:
  assumes "driver_run k d e" "main_machines d"
  shows "wire_kept tx rx d e \<and> main_machines e"
  using assms(1)
proof (induction rule: driver_run.induct)
  case run_start
  then show ?case
    using assms(2) by (simp add: wire_keptI [where cs = "[]" and bs = "[]"])
next
  case (run_settings e e')
  then show ?case
    by (auto simp: wire_kept_def main_machines_def same_machines_def)
next
  case (run_do e c)
  then show ?case
    using wire_kept_trans [OF _ kept_do [of c e]] by (simp add: main_machines_def)
next
  case (run_ask e q)
  then show ?case
    using wire_kept_trans [OF _ kept_ask [of q e]] by (simp add: main_machines_def)
next
  case (run_irqs e)
  then show ?case
    using wire_kept_trans [OF _ kept_irqs [of e]] by (simp add: main_machines_def)
next
  case (run_put e b)
  moreover have "main_machines (snd (tx_put k b e))" if "main_machines e"
    using that by (auto simp: tx_put_def main_machines_def split_beta Let_def)
  ultimately show ?case
    using wire_kept_trans kept_put by blast
next
  case (run_get e)
  moreover have "main_machines (snd (rx_get k e))" if "main_machines e"
    using that by (auto simp: rx_get_def main_machines_def split_beta Let_def)
  ultimately show ?case
    using wire_kept_trans kept_get by blast
qed

text \<open>Starting the machines.\<close>

lemma put_do_all:
  "list_all (\<lambda>c. \<not> is_put c \<and> \<not> machine_reset 0 c) cs \<Longrightarrow>
    sm_put (tx_machine (tx (dr_hw (hw_do_all k cs d)))) = sm_put (tx_machine (tx (dr_hw d)))"
  by (induction cs arbitrary: d) (simp_all add: hw_do_def do_tx_put)

lemma got_do_all:
  "list_all (\<lambda>c. \<not> machine_reset 1 c) cs \<Longrightarrow> sm_got (rx_machine (rx (dr_hw (hw_do_all k cs d)))) = sm_got (rx_machine (rx (dr_hw d)))"
  by (induction cs arbitrary: d) (simp_all add: hw_do_def do_rx_got)

lemma tx_settings_put:
  "tx_clock_update_settings k c d = Some d' \<Longrightarrow> sm_put (tx_machine (tx (dr_hw d'))) = sm_put (tx_machine (tx (dr_hw d)))
    \<and> dr_runtime d' = dr_runtime d \<and> dr_rx d' = dr_rx d"
  using put_do_all by (auto simp: tx_clock_update_settings_def Let_def simp del: hw_do_all.simps split: option.splits)

lemma cts_init_put:
  "sm_put (tx_machine (tx (dr_hw (cts_irq_init k d)))) = sm_put (tx_machine (tx (dr_hw d)))"
  "dr_runtime (cts_irq_init k d) = dr_runtime d" "dr_rx (cts_irq_init k d) = dr_rx d"
  by (simp_all add: cts_irq_init_def hw_do_def do_tx_put Let_def)

lemma tx_clock_init_starts:
  assumes "tx_clock_init k 0 0 c d = Some d'"
  shows "rt_tx_pio (dr_runtime d') = Some 0 \<and> rt_tx_sm (dr_runtime d') = 0 \<and> dr_rx d' = dr_rx d"
    "\<not> vc_external_clock c \<Longrightarrow> sm_put (tx_machine (tx (dr_hw d'))) = []"
proof -
  obtain d1 where d1: "(if vc_external_clock c then tx_clock_init_xck k 0 0 c d else tx_clock_init_tck k 0 0 c d) = Some d1" "d' = cts_irq_init k d1"
    using assms by (auto simp: tx_clock_init_def)
  show "rt_tx_pio (dr_runtime d') = Some 0 \<and> rt_tx_sm (dr_runtime d') = 0 \<and> dr_rx d' = dr_rx d"
    using d1 tx_settings_put
    by (fastforce simp: cts_init_put tx_clock_init_xck_def tx_clock_init_tck_def split_beta Let_def split: if_splits)
  assume int: "\<not> vc_external_clock c"
  define d2 where "d2 = snd (hw_ask k (Pio_add_program 0 Tck_txd)
    (upd_runtime (\<lambda>rt. rt\<lparr>rt_tx_pio := Some 0, rt_tx_sm := 0\<rparr>) (hw_do k (Pio_sm_claim 0 0) d)))"
  define d3 where "d3 = hw_do_all k [Pio_gpio_init 0 V24_TXC_DTE, Pio_sm_set_consecutive_pindirs 0 0 V24_TXC_DTE 1 True,
    Pio_gpio_init 0 V24_TXD, Pio_sm_set_consecutive_pindirs 0 0 V24_TXD 1 True,
    Pio_gpio_init 0 V24_CTS, Pio_sm_set_consecutive_pindirs 0 0 V24_CTS 1 False] d2"
  obtain offset where "tx_clock_update_settings k c (hw_do k (Pio_sm_init 0 0 offset Tck_txd tck_settings) d3) = Some d1"
    using d1(1) int by (auto simp: tx_clock_init_tck_def d2_def d3_def split_beta Let_def)
  then have "sm_put (tx_machine (tx (dr_hw d1))) = sm_put (tx_machine (tx (sdk_do k (Pio_sm_init 0 0 offset Tck_txd tck_settings) (dr_hw d3))))"
    using tx_settings_put [of c _ d1] by (simp add: hw_do_def)
  then show "sm_put (tx_machine (tx (dr_hw d'))) = []"
    using tx_init [of offset "dr_hw d3"] cycles_put by (auto simp: d1(2) cts_init_put tck_start)
qed

lemma rx_clock_init_starts:
  assumes "rx_clock_init k 0 1 p d = Some d'"
  shows "rt_rx_pio (dr_runtime d') = Some 0 \<and> rt_rx_sm (dr_runtime d') = 1 \<and> rt_tx_pio (dr_runtime d') = rt_tx_pio (dr_runtime d)
      \<and> rt_tx_sm (dr_runtime d') = rt_tx_sm (dr_runtime d) \<and> dr_rx d' = dr_rx d"
    "sm_put (tx_machine (tx (dr_hw d'))) = sm_put (tx_machine (tx (dr_hw d)))"
    "sm_got (rx_machine (rx (dr_hw d'))) = []"
proof -
  define d2 where "d2 = snd (hw_ask k (Pio_add_program 0 Rck_rxd)
    (upd_runtime (\<lambda>rt. rt\<lparr>rt_rx_pio := Some 0, rt_rx_sm := 1\<rparr>) (hw_do k (Pio_sm_claim 0 1) d)))"
  define d3 where "d3 = hw_do_all k [Pio_gpio_init 0 V24_RXD, Pio_sm_set_consecutive_pindirs 0 1 V24_RXD 1 False,
    Pio_gpio_init 0 V24_RXC, Pio_sm_set_consecutive_pindirs 0 1 V24_RXC 1 False] d2"
  obtain offset where d': "rx_clock_update_settings k p (hw_do k (Pio_sm_init 0 1 offset Rck_rxd rck_settings) d3) = Some d'"
    using assms by (auto simp: rx_clock_init_def d2_def d3_def split_beta Let_def simp del: One_nat_def)
  define d4 where "d4 = hw_do k (Pio_sm_init 0 1 offset Rck_rxd rck_settings) d3"
  obtain cs where cs: "d' = hw_do_all k cs d4" "list_all (\<lambda>c. \<not> is_put c \<and> \<not> machine_reset 0 c \<and> \<not> machine_reset 1 c) cs"
    using d' unfolding d4_def [symmetric]
    by (auto simp: rx_clock_update_settings_def Let_def simp del: hw_do_all.simps split: option.splits)
  show "rt_rx_pio (dr_runtime d') = Some 0 \<and> rt_rx_sm (dr_runtime d') = 1 \<and> rt_tx_pio (dr_runtime d') = rt_tx_pio (dr_runtime d)
      \<and> rt_tx_sm (dr_runtime d') = rt_tx_sm (dr_runtime d) \<and> dr_rx d' = dr_rx d"
    by (simp add: cs(1) d4_def d3_def d2_def)
  have "sm_put (tx_machine (tx (dr_hw d4))) = sm_put (tx_machine (tx (dr_hw d)))"
    by (simp add: d4_def d3_def d2_def hw_do_def hw_ask_def split_beta Let_def do_tx_put ask_tx_put)
  then show "sm_put (tx_machine (tx (dr_hw d'))) = sm_put (tx_machine (tx (dr_hw d)))"
    using put_do_all [of cs d4] cs by (simp add: list_all_iff)
  have "sm_got (rx_machine (rx (dr_hw d4))) = []"
    using rx_init [of offset "dr_hw d3"] cycles_fifos(3) [of rck rck_rxd_program _ sm_init] by (auto simp: d4_def hw_do_def sm_init_def)
  then show "sm_got (rx_machine (rx (dr_hw d'))) = []"
    using got_do_all [of cs d4] cs by (simp add: list_all_iff)
qed

lemma startup_machines:
  assumes "main_startup k z garbage (power_on hw chip flash) = Running fw"
  shows "main_machines (fw_driver fw) \<and> dr_rx (fw_driver fw) = [] \<and> sm_got (rx_machine (rx (dr_hw (fw_driver fw)))) = []
    \<and> (\<not> vc_external_clock (ac_v24_config (fw_app fw)) \<longrightarrow> sm_put (tx_machine (tx (dr_hw (fw_driver fw)))) = [])"
proof -
  let ?fw = "power_on hw chip flash"
  obtain n cfg fw3 fw4 fw5 fw6 where cfg: "main_config garbage (?fw\<lparr>fw_net := n, fw_driver := init_pins k (fw_driver ?fw)\<rparr>) = (cfg, fw3)"
    and fw4: "init_app z cfg fw3 = Running fw4" and fw5: "main_open_socket z fw4 = Running fw5"
    and fw6: "main_clocks k (main_tx_queue fw5) = Running fw6" and fw: "fw = main_ready k (main_estimator k fw6)"
    by (rule main_startup_phases [OF assms])
  have "dr_rx (fw_driver fw3) = []"
    using cfg by (auto simp: main_config_def init_pins_def power_on_def split: option.splits if_splits)
  then have "dr_rx (fw_driver fw4) = []"
    using fw4 by (auto simp: init_app_def init_app_stored_def init_app_default_def proceed_eq_Running split_beta Let_def split: if_splits option.splits)
  then have rx5: "dr_rx (fw_driver (main_tx_queue fw5)) = []"
    using fw5 by (auto simp: main_open_socket_def main_tx_queue_def fatal_panic_def split_beta Let_def split: if_splits)
  obtain d1 d2 where d1: "tx_clock_init k 0 0 (ac_v24_config (fw_app (main_tx_queue fw5))) (fw_driver (main_tx_queue fw5)) = Some d1"
    and d2: "rx_clock_init k 0 1 (Some (rx_polarities (vc_polarities (ac_v24_config (fw_app (main_tx_queue fw5)))))) d1 = Some d2"
    and f6: "fw6 = (main_tx_queue fw5)\<lparr>fw_driver := d2\<rparr>"
    using fw6 by (auto simp: main_clocks_def in_driver_def proceed_eq_Running split: option.splits)
  obtain cs where cs: "fw_driver fw = hw_do_all k cs d2" "list_all (\<lambda>c. \<not> is_put c \<and> \<not> machine_reset 0 c \<and> \<not> machine_reset 1 c) cs"
    and config: "ac_v24_config (fw_app fw) = ac_v24_config (fw_app (main_tx_queue fw5))"
  proof
    let ?est = "baudrate_estimator_init V24_RXC (fw_baud fw6)"
    let ?cs = "fst ?est @ (if vc_external_clock (ac_v24_config (fw_app fw6)) then fst (baudrate_estimator_init V24_TXC_DCE (snd ?est)) else [])"
    have all: "hw_do_all k (as @ bs) d = hw_do_all k bs (hw_do_all k as d)" for as bs d
      by (induction as arbitrary: d) simp_all
    show "fw_driver fw = hw_do_all k (?cs @ [Gpio_put V24_DTR True]) d2"
      by (simp add: fw main_ready_def main_estimator_def f6 all split_beta Let_def)
    show "list_all (\<lambda>c. \<not> is_put c \<and> \<not> machine_reset 0 c \<and> \<not> machine_reset 1 c) (?cs @ [Gpio_put V24_DTR True])"
      by (simp add: baudrate_estimator_init_def Let_def)
    show "ac_v24_config (fw_app fw) = ac_v24_config (fw_app (main_tx_queue fw5))"
      by (simp add: fw main_ready_def f6 Let_def)
  qed
  have cs1: "list_all (\<lambda>c. \<not> is_put c \<and> \<not> machine_reset 0 c) cs" "list_all (\<lambda>c. \<not> machine_reset 1 c) cs"
    using cs(2) by (simp_all add: list_all_iff)
  show ?thesis
    using tx_clock_init_starts [OF d1] rx_clock_init_starts [OF d2] put_do_all [OF cs1(1), of d2] got_do_all [OF cs1(2), of d2] rx5
    by (simp add: cs(1) config main_machines_def)
qed

text \<open>From the start of the firmware on: what its driver did is what the machines have seen.\<close>

lemma firmware_wire:
  assumes "main_startup k z garbage (power_on hw chip flash) = Running fw0"
    and "event_loop k z n (event_loop_runtime_start, fw0) = Some (Running (rt, fw))"
  shows "\<exists>cs. dr_trace (fw_driver fw) = dr_trace (fw_driver fw0) @ cs
    \<and> (\<not> vc_external_clock (ac_v24_config (fw_app fw0)) \<and> list_all (\<lambda>c. \<not> machine_reset 0 c) cs \<longrightarrow>
         map ucast (sm_put (tx_machine (tx (dr_hw (fw_driver fw))))) = bytes_put (dr_trace (fw_driver fw)))
    \<and> (list_all (\<lambda>c. \<not> machine_reset 1 c) cs \<longrightarrow>
         map rx_byte (sm_got (rx_machine (rx (dr_hw (fw_driver fw))))) = dr_rx (fw_driver fw))"
proof -
  have "bytes_put (dr_trace (fw_driver fw0)) = []"
    using main_startup_state [OF assms(1)] by (simp add: wire_def)
  moreover have "wire_kept tx rx (fw_driver fw0) (fw_driver fw)"
    using kept_run [OF run_loop [OF assms(2)]] startup_machines [OF assms(1)] by blast
  ultimately show ?thesis
    using startup_machines [OF assms(1)] by (auto simp: wire_kept_def)
qed

end

section \<open>Over a cable\<close>

text \<open>What has been seen of a line is the line of an earlier time.\<close>

lemma tck_line_take: "\<exists>evs1 evs2. evs = evs1 @ evs2 \<and> take m (tck_line evs s) = tck_line evs1 s"
proof (induction evs arbitrary: m s)
  case (Cons ev evs)
  show ?case
  proof (cases ev)
    case (Cycle pins)
    show ?thesis
    proof (cases m)
      case 0
      then show ?thesis
        by (intro exI [of _ "[]"] exI [of _ "ev # evs"]) (simp add: tck_line_def)
    next
      case (Suc m')
      obtain evs1 evs2 where "evs = evs1 @ evs2"
        "take m' (tck_line evs (pio_cycle tck tck_txd_program pins s)) = tck_line evs1 (pio_cycle tck tck_txd_program pins s)"
        using Cons.IH by blast
      then show ?thesis
        by (intro exI [of _ "ev # evs1"] exI [of _ evs2]) (simp add: Cycle Suc tck_line_def Let_def)
    qed
  next
    case (Put w)
    obtain evs1 evs2 where "evs = evs1 @ evs2" "take m (tck_line evs (pio_step tck tck_txd_program ev s)) = tck_line evs1 (pio_step tck tck_txd_program ev s)"
      using Cons.IH by blast
    then show ?thesis
      by (intro exI [of _ "ev # evs1"] exI [of _ evs2]) (simp add: Put tck_line_def)
  next
    case Get
    obtain evs1 evs2 where "evs = evs1 @ evs2" "take m (tck_line evs (pio_step tck tck_txd_program ev s)) = tck_line evs1 (pio_step tck tck_txd_program ev s)"
      using Cons.IH by blast
    then show ?thesis
      by (intro exI [of _ "ev # evs1"] exI [of _ evs2]) (simp add: Get tck_line_def)
  qed
qed (simp add: tck_line_def)

lemma tx_machine_prefix: "\<exists>ws. sm_put (tx_machine (evs1 @ evs2)) = sm_put (tx_machine evs1) @ ws"
  using tck_run [of "tx_machine evs1" evs2] tck_run [OF tck_start(1), of evs1] by auto

definition on_cable :: "nat list \<Rightarrow> nat \<Rightarrow> pio_event list \<Rightarrow> pio_event list \<Rightarrow> bool" where
  "on_cable ns m sender receiver \<longleftrightarrow>
     map (\<lambda>pins. (pins V24_RXC, pins V24_RXD)) (pio_inputs receiver) = held ns (take m (tck_line sender sm_init))
     \<and> length ns = length (take m (tck_line sender sm_init)) \<and> list_all (\<lambda>n. 2 \<le> n) ns"

lemma cable_delivers:
  assumes "on_cable ns m sender receiver" "\<not> sm_rx_stall (rx_machine receiver)"
  shows "\<exists>rest. map ucast (sm_put (tx_machine sender)) = map rx_byte (sm_got (rx_machine receiver)) @ rest"
proof -
  obtain evs1 evs2 where evs: "sender = evs1 @ evs2" "take m (tck_line sender sm_init) = tck_line evs1 sm_init"
    using tck_line_take by blast
  obtain rest where "map ucast (sm_put (tx_machine evs1)) = map rx_byte (sm_got (rx_machine receiver) @ sm_rxf (rx_machine receiver)) @ rest"
    using tck_source.receiver_gets [of receiver ns evs1] assms evs(2) by (auto simp: on_cable_def list_all_iff)
  moreover obtain ws where "sm_put (tx_machine sender) = sm_put (tx_machine evs1) @ ws"
    using tx_machine_prefix [of evs1 evs2] by (auto simp: evs(1))
  ultimately show ?thesis
    by auto
qed

section \<open>A board built from the machines\<close>

text \<open>
  Hardware that is nothing but the two machines: before each call of the driver they run for the cycles a schedule gives, with the input
  levels it gives.  A reset starts a machine anew.  Without \<open>listening\<close> the receiver gets no clock.
\<close>

record pio_hw =
  ph_calls :: nat
  ph_tx :: "pio_event list"
  ph_rx :: "pio_event list"

type_synonym schedule = "nat \<Rightarrow> (nat \<Rightarrow> bool) list \<times> (nat \<Rightarrow> bool) list"

definition pass :: "schedule \<Rightarrow> pio_hw \<Rightarrow> pio_hw" where
  "pass sched h = h\<lparr>ph_calls := Suc (ph_calls h), ph_tx := ph_tx h @ map Cycle (fst (sched (ph_calls h))),
     ph_rx := ph_rx h @ map Cycle (snd (sched (ph_calls h)))\<rparr>"

definition board_do :: "hw_cmd \<Rightarrow> pio_hw \<Rightarrow> pio_hw" where
  "board_do c h = h\<lparr>ph_tx := (if machine_reset 0 c then [] else ph_tx h @ words_put c), ph_rx := (if machine_reset 1 c then [] else ph_rx h)\<rparr>"

definition board_rx :: "bool \<Rightarrow> pio_hw \<Rightarrow> pio_event list" where
  "board_rx listening h = (if listening then ph_rx h else [])"

fun board_answer :: "bool \<Rightarrow> hw_query \<Rightarrow> pio_hw \<Rightarrow> u64" where
  "board_answer listening (Pio_sm_is_tx_fifo_full _ _) h = of_bool (tx_depth tck \<le> length (sm_txf (tx_machine (ph_tx h))))"
| "board_answer listening (Pio_sm_is_tx_fifo_empty _ _) h = of_bool (sm_txf (tx_machine (ph_tx h)) = [])"
| "board_answer listening (Pio_sm_is_rx_fifo_empty _ _) h = of_bool (sm_rxf (rx_machine (board_rx listening h)) = [])"
| "board_answer listening (Pio_sm_get _ _) h = (case sm_rxf (rx_machine (board_rx listening h)) of [] \<Rightarrow> 0 | w # _ \<Rightarrow> ucast w)"
| "board_answer listening To_us_since_boot h = of_nat (ph_calls h)"
| "board_answer listening Getchar_timeout_us h = -1"
| "board_answer listening _ h = 0"

definition board_ask :: "bool \<Rightarrow> hw_query \<Rightarrow> pio_hw \<Rightarrow> u64 \<times> pio_hw" where
  "board_ask listening q h = (board_answer listening q h, if is_get q then h\<lparr>ph_rx := ph_rx h @ [Get]\<rparr> else h)"

definition board_sdk :: "bool \<Rightarrow> schedule \<Rightarrow> pio_hw sdk" where
  "board_sdk listening sched =
     \<lparr>sdk_do = (\<lambda>c h. board_do c (pass sched h)),
      sdk_ask = (\<lambda>q h. case board_ask listening q h of (v, h') \<Rightarrow> (v, if is_get q then pass sched h' else h')),
      sdk_cts_irqs = (\<lambda>h. ([], pass sched h)), PIO_FDEBUG_TXSTALL_LSB = 24, PIO_FDEBUG_RXSTALL_LSB = 0, GPIO_IRQ_EDGES = 12,
      SYS_CLK_HZ = 133000000, GPIO_FUNC_SIO = 5, PICO_ERROR_TIMEOUT = -1\<rparr>"

interpretation board: pio_board "board_sdk listening sched" ph_tx "board_rx listening"
proof
  fix h :: pio_hw and c q offset
  let ?k = "board_sdk listening sched"
  have ask: "sdk_ask ?k q h = (board_answer listening q h, if is_get q then pass sched (h\<lparr>ph_rx := ph_rx h @ [Get]\<rparr>) else h)" for q
    by (simp add: board_sdk_def board_ask_def)
  show "\<exists>ps. ph_tx (sdk_do ?k (Pio_sm_init 0 0 offset Tck_txd tck_settings) h) = map Cycle ps"
    "\<exists>ps. board_rx listening (sdk_do ?k (Pio_sm_init 0 1 offset Rck_rxd rck_settings) h) = map Cycle ps"
    "\<exists>ps. ph_tx (snd (sdk_cts_irqs ?k h)) = ph_tx h @ map Cycle ps"
    "\<exists>ps. board_rx listening (snd (sdk_cts_irqs ?k h)) = board_rx listening h @ map Cycle ps"
    by (auto simp: board_sdk_def board_do_def pass_def board_rx_def)
  show "\<exists>ps qs. ph_tx (sdk_do ?k c h) = ph_tx h @ map Cycle ps @ words_put c @ map Cycle qs" if "\<not> machine_reset 0 c"
    using that by (auto simp: board_sdk_def board_do_def pass_def intro: exI [of _ "[]"])
  show "\<exists>ps. board_rx listening (sdk_do ?k c h) = board_rx listening h @ map Cycle ps" if "\<not> machine_reset 1 c"
    using that by (auto simp: board_sdk_def board_do_def pass_def board_rx_def)
  show "\<exists>ps. ph_tx (snd (sdk_ask ?k q h)) = ph_tx h @ map Cycle ps"
    by (auto simp: ask pass_def)
  show "\<exists>ps. board_rx listening (snd (sdk_ask ?k q h)) = board_rx listening h @ map Cycle ps" if "\<not> is_get q"
    using that by (auto simp: ask)
  show "fst (sdk_ask ?k (Pio_sm_is_tx_fifo_full 0 0) h) = 0 \<Longrightarrow>
      length (sm_txf (tx_machine (ph_tx (snd (sdk_ask ?k (Pio_sm_is_tx_fifo_full 0 0) h))))) < tx_depth tck"
    "fst (sdk_ask ?k (Pio_sm_is_rx_fifo_empty 0 1) h) = 0 \<Longrightarrow>
      sm_rxf (rx_machine (board_rx listening (snd (sdk_ask ?k (Pio_sm_is_rx_fifo_empty 0 1) h)))) \<noteq> []"
    by (auto simp: ask)
  show "fst (sdk_ask ?k (Pio_sm_get 0 1) h) = ucast (hd (sm_rxf (rx_machine (board_rx listening h))))
      \<and> (\<exists>ps qs. board_rx listening (snd (sdk_ask ?k (Pio_sm_get 0 1) h)) = board_rx listening h @ map Cycle ps @ [Get] @ map Cycle qs)"
    if "sm_rxf (rx_machine (board_rx listening h)) \<noteq> []"
  proof -
    have "listening"
      using that by (cases listening) (simp_all add: board_rx_def sm_init_def)
    then show ?thesis
      using that unfolding ask
      by (intro conjI exI [of _ "[]"] exI [of _ "snd (sched (ph_calls h))"]) (auto simp: pass_def board_rx_def neq_Nil_conv)
  qed
qed

section \<open>Properties\<close>



end
