(* ===== verification/Pio_External.thy ===== *)
theory Pio_External
  imports Pio_Programs
begin

text \<open>
  The transmitter on the clock of the line, \<open>xck_txd\<close>, and the indicator program \<open>led_mirror\<close>.  The
  transmitter is shown to be a shifter that moves by one bit in each clock period in which CTS is up and
  a bit is waiting, and holds its level otherwise.
\<close>

section \<open>The shifter\<close>

text \<open>
  A clock period: bytes the processor offers, then the low and the high phase of the clock with their
  lengths in cycles, and CTS during the high phase.
\<close>

record clock_period =
  cp_puts :: "byte list"
  cp_low :: nat
  cp_high :: nat
  cp_cts :: bool

text \<open>
  The bits of the byte that is being sent, the bytes in the FIFO, and the level of the line.  The FIFO takes
  four bytes; a byte leaves it when the one before has been sent.
\<close>

type_synonym shifter = "bool list \<times> byte list \<times> bool"

fun shifter_load :: "shifter \<Rightarrow> shifter" where
  "shifter_load ([], b # bs, l) = (byte_bits True b, bs, l)"
| "shifter_load st = st"

fun shifter_put :: "byte \<Rightarrow> shifter \<Rightarrow> shifter" where
  "shifter_put b (cur, fifo, l) = (cur, if length fifo < 4 then fifo @ [b] else fifo, l)"

fun shifter_clock :: "bool \<Rightarrow> shifter \<Rightarrow> shifter" where
  "shifter_clock True (b # cur, fifo, l) = shifter_load (cur, fifo, b)"
| "shifter_clock _ st = st"

definition shifter_period :: "clock_period \<Rightarrow> shifter \<Rightarrow> shifter" where
  "shifter_period p st = shifter_clock (cp_cts p) (shifter_load (fold shifter_put (cp_puts p) st))"

fun shifter_samples :: "clock_period list \<Rightarrow> shifter \<Rightarrow> bool list" where
  "shifter_samples [] st = []"
| "shifter_samples (p # ps) st = (let st' = shifter_period p st in snd (snd st') # shifter_samples ps st')"

section \<open>The program\<close>

definition xck_levels :: "bool \<Rightarrow> bool \<Rightarrow> nat \<Rightarrow> bool" where
  "xck_levels clk cts p = (if p = V24_TXC_DCE then clk else p = V24_CTS \<and> cts)"

definition period_events :: "clock_period \<Rightarrow> pio_event list" where
  "period_events p = map (Put \<circ> ucast) (cp_puts p)
     @ replicate (cp_low p) (Cycle (xck_levels False (cp_cts p))) @ replicate (cp_high p) (Cycle (xck_levels True (cp_cts p)))"

text \<open>The level on the data pin at the end of each high phase, where the other end takes the bit.\<close>

fun xck_samples :: "clock_period list \<Rightarrow> pio_sm \<Rightarrow> bool list" where
  "xck_samples [] s = []"
| "xck_samples (p # ps) s =
     (let s' = pio_run xck xck_txd_program (period_events p) s in sm_pins s' V24_TXD # xck_samples ps s')"

text \<open>A machine that waits for the clock with bits to send, or for a byte.\<close>

definition xck_waits :: "nat \<Rightarrow> shifter \<Rightarrow> pio_sm \<Rightarrow> bool" where
  "xck_waits pc st s = (case st of (cur, fifo, l) \<Rightarrow>
     sm_delay s = 0 \<and> sm_txf s = map ucast fifo \<and> sm_pins s V24_TXD = l \<and> length cur \<le> 8
     \<and> (if cur = [] then sm_pc s = 0
        else sm_pc s = pc \<and> cur = map (bit (sm_osr s)) [0..<length cur] \<and> sm_x s = of_nat (length cur - 1)))"

abbreviation xck_cycle :: "bool \<Rightarrow> bool \<Rightarrow> pio_sm \<Rightarrow> pio_sm" where
  "xck_cycle clk cts \<equiv> pio_cycle xck xck_txd_program (xck_levels clk cts)"

lemma levels [simp]: "xck_levels clk cts V24_TXC_DCE = clk" "xck_levels clk cts V24_CTS = cts"
  by (simp_all add: xck_levels_def v24_pins)

lemma no_autopull [simp]: "autopull xck s = s"
  by (simp add: autopull_def)

lemma xck_step:
  assumes "sm_delay s = 0"
  shows "sm_pc s = 0 \<Longrightarrow> sm_txf s = [] \<Longrightarrow> xck_cycle clk cts s = s\<lparr>sm_tx_stall := True\<rparr>"
    "sm_pc s = 0 \<Longrightarrow> sm_txf s = w # ws \<Longrightarrow> xck_cycle clk cts s = s\<lparr>sm_osr := w, sm_osr_count := 0, sm_txf := ws, sm_pc := 1\<rparr>"
    "sm_pc s = 1 \<Longrightarrow> xck_cycle clk cts s = s\<lparr>sm_x := 7, sm_pc := 2\<rparr>"
    "sm_pc s = 2 \<Longrightarrow> xck_cycle clk cts s = (if clk then s else s\<lparr>sm_pc := 3\<rparr>)"
    "sm_pc s = 3 \<Longrightarrow> xck_cycle clk cts s = (if clk then s\<lparr>sm_pc := 4\<rparr> else s)"
    "sm_pc s = 4 \<Longrightarrow> xck_cycle clk cts s = s\<lparr>sm_pc := if cts then 6 else 5\<rparr>"
    "sm_pc s = 5 \<Longrightarrow> xck_cycle clk cts s = s\<lparr>sm_pc := 2\<rparr>"
    "sm_pc s = 6 \<Longrightarrow> xck_cycle clk cts s
       = s\<lparr>sm_pins := (sm_pins s)(V24_TXD := bit (sm_osr s) 0), sm_osr := drop_bit 1 (sm_osr s),
            sm_osr_count := min 32 (sm_osr_count s + 1), sm_pc := 7\<rparr>"
    "sm_pc s = 7 \<Longrightarrow> xck_cycle clk cts s = s\<lparr>sm_x := sm_x s - 1, sm_pc := if sm_x s \<noteq> 0 then 2 else 8\<rparr>"
    "sm_pc s = 8 \<Longrightarrow> xck_cycle clk cts s = s\<lparr>sm_pc := 0\<rparr>"
  using assms
  by (simp_all add: pio_cycle_def xck_txd_program_def pio_exec_def take_branch_def next_pc_def shift_out_def Let_def)

text \<open>While the clock level stays, a waiting machine waits on.\<close>

lemma xck_stays:
  assumes "xck_waits (if clk then 2 else 3) st s" "fst st = [] \<longrightarrow> fst (snd st) = []"
  shows "xck_waits (if clk then 2 else 3) st ((xck_cycle clk cts ^^ n) s)"
  using assms(1)
proof (induction n)
  case (Suc n)
  let ?s = "(xck_cycle clk cts ^^ n) s"
  obtain cur fifo l where st: "st = (cur, fifo, l)"
    by (metis prod_cases3)
  show ?case
  proof (cases "cur = []")
    case True
    then show ?thesis
      using Suc assms(2) xck_step(1) [of ?s] by (simp add: st xck_waits_def)
  next
    case False
    then show ?thesis
      using Suc xck_step(4,5) [of ?s] by (cases clk) (simp_all add: st xck_waits_def)
  qed
qed simp

lemma xck_held:
  assumes "xck_waits (if clk then 2 else 3) st ((xck_cycle clk cts ^^ k) s)" "fst st = [] \<longrightarrow> fst (snd st) = []" "k \<le> n"
  shows "xck_waits (if clk then 2 else 3) st ((xck_cycle clk cts ^^ n) s)"
proof -
  have "(xck_cycle clk cts ^^ n) s = (xck_cycle clk cts ^^ (n - k)) ((xck_cycle clk cts ^^ k) s)"
    using assms(3) funpow_add [of "n - k" k "xck_cycle clk cts"] by simp
  then show ?thesis
    using xck_stays [OF assms(1,2)] by simp
qed

lemma load_settles: "fst (shifter_load st) = [] \<longrightarrow> fst (snd (shifter_load st)) = []"
  by (cases st rule: shifter_load.cases) (auto simp: byte_bits_def)

lemma load_busy: "cur \<noteq> [] \<Longrightarrow> shifter_load (cur, fifo, l) = (cur, fifo, l)"
  by (cases cur) simp_all

lemma word_loaded: "byte_bits True b = map (bit (ucast b :: u32)) [0..<length (byte_bits True b)]"
  by (rule nth_equalityI) (simp_all add: bit_pos_def bit_simps del: upt_rec_numeral)

text \<open>In the low phase a byte is fetched if none is being sent.\<close>

lemma xck_low:
  assumes "xck_waits 2 st s" "3 \<le> n"
  shows "xck_waits 3 (shifter_load st) ((xck_cycle False cts ^^ n) s)"
proof -
  have "xck_waits 3 (shifter_load st) ((xck_cycle False cts ^^ 3) s)"
  proof (cases st rule: shifter_load.cases)
    case (1 b bs l)
    then show ?thesis
      using assms(1) word_loaded [of b] xck_step(2) [of s "ucast b" "map ucast bs"]
      by (simp add: xck_waits_def xck_step(3,4) numeral_3_eq_3)
  qed (use assms(1) in \<open>auto simp: xck_waits_def xck_step numeral_3_eq_3\<close>)
  then show ?thesis
    using xck_held [of False "shifter_load st" 3 cts s n] load_settles assms(2) by simp
qed

text \<open>In the high phase a bit goes out if CTS is up.\<close>

lemma osr_next:
  fixes osr :: u32
  assumes "b # cur = map (bit osr) [0..<Suc (length cur)]"
  shows "bit osr 0 = b" "cur = map (bit (drop_bit 1 osr)) [0..<length cur]"
proof -
  have "[0..<Suc (length cur)] = 0 # map Suc [0..<length cur]"
    by (simp add: upt_conv_Cons map_Suc_upt del: upt_Suc)
  then have "b = bit osr 0 \<and> cur = map (\<lambda>i. bit osr (Suc i)) [0..<length cur]"
    using assms by (simp add: o_def)
  then show "bit osr 0 = b" "cur = map (bit (drop_bit 1 osr)) [0..<length cur]"
    by (simp_all add: bit_drop_bit_eq o_def)
qed

lemma small_word: "n < 8 \<Longrightarrow> (of_nat n :: u32) = 0 \<longleftrightarrow> n = 0"
  using word_of_nat_eq_0_iff [of n, where ?'a = 32] by (auto dest: dvd_imp_le)

lemma xck_high:
  assumes "xck_waits 3 st s" "fst st = [] \<longrightarrow> fst (snd st) = []" "7 \<le> n"
  shows "xck_waits 2 (shifter_clock cts st) ((xck_cycle True cts ^^ n) s)"
proof -
  obtain cur fifo l where st: "st = (cur, fifo, l)"
    by (metis prod_cases3)
  show ?thesis
  proof (cases cur)
    case Nil
    then have "xck_waits 2 st ((xck_cycle True cts ^^ 0) s)"
      using assms(1) by (simp add: st xck_waits_def)
    then show ?thesis
      using xck_held [of True st 0 cts s n] assms(2) Nil by (cases cts) (simp_all add: st)
  next
    case (Cons b rest)
    have s: "sm_delay s = 0" "sm_pc s = 3" "sm_txf s = map ucast fifo" "sm_pins s V24_TXD = l" "length rest < 8"
      "sm_x s = of_nat (length rest)" "b # rest = map (bit (sm_osr s)) [0..<Suc (length rest)]"
      using assms(1) by (simp_all add: st Cons xck_waits_def)
    show ?thesis
    proof (cases cts)
      case False
      have "xck_waits 2 st ((xck_cycle True cts ^^ 3) s)"
        using assms(1) s False by (simp add: st Cons xck_waits_def xck_step numeral_3_eq_3)
      then show ?thesis
        using xck_held [of True st 3 cts s n] assms(2,3) False by (simp add: st)
    next
      case True
      note bits = osr_next [OF s(7)]
      let ?s4 = "s\<lparr>sm_pins := (sm_pins s)(V24_TXD := b), sm_osr := drop_bit 1 (sm_osr s),
          sm_osr_count := min 32 (sm_osr_count s + 1), sm_x := sm_x s - 1, sm_pc := if rest \<noteq> [] then 2 else 8\<rparr>"
      have x: "sm_x s \<noteq> 0 \<longleftrightarrow> rest \<noteq> []" "rest \<noteq> [] \<Longrightarrow> sm_x s - 1 = of_nat (length rest - 1)"
        using s(5,6) small_word [of "length rest"] by (cases rest; simp)+
      have s4: "(xck_cycle True cts ^^ 4) s = ?s4"
        using s(1,2) True x(1) bits(1) by (simp add: xck_step numeral_eq_Suc)
      have "(xck_cycle True cts ^^ 7) s = (xck_cycle True cts ^^ 3) ?s4"
        using funpow_add [of 3 4 "xck_cycle True cts"] s4 by simp
      moreover have "xck_waits 2 (shifter_clock cts st) ((xck_cycle True cts ^^ 3) ?s4)"
      proof (cases "rest = []")
        case True
        then show ?thesis
          using s(1,3) \<open>cts\<close> word_loaded
          by (cases fifo) (simp_all add: st Cons xck_waits_def xck_step numeral_3_eq_3)
      next
        case False
        then have "xck_waits 2 (rest, fifo, b) ?s4"
          using s(1,3,5) x(2) bits(2) by (simp add: xck_waits_def)
        then show ?thesis
          using xck_stays [of True "(rest, fifo, b)" ?s4 3 cts] False \<open>cts\<close> by (simp add: st Cons load_busy)
      qed
      ultimately have "xck_waits 2 (shifter_clock cts st) ((xck_cycle True cts ^^ 7) s)"
        by simp
      then show ?thesis
        using xck_held [of True "shifter_clock cts st" 7 cts s n] assms(3) load_settles True by (simp add: st Cons)
    qed
  qed
qed

text \<open>A clock period.\<close>

lemma xck_puts:
  assumes "xck_waits 2 st s"
  shows "xck_waits 2 (fold shifter_put bs st) (pio_run xck xck_txd_program (map (Put \<circ> ucast) bs) s)"
  using assms
proof (induction bs arbitrary: st s)
  case (Cons b bs)
  have "xck_waits 2 (shifter_put b st) (pio_step xck xck_txd_program (Put (ucast b)) s)"
    using Cons.prems by (cases st) (simp add: xck_waits_def)
  then show ?case
    using Cons.IH by simp
qed simp

lemma xck_period:
  assumes "xck_waits 2 st s" "3 \<le> cp_low p" "7 \<le> cp_high p"
  shows "xck_waits 2 (shifter_period p st) (pio_run xck xck_txd_program (period_events p) s)"
proof -
  have step: "pio_step xck xck_txd_program (Cycle pins) = pio_cycle xck xck_txd_program pins" for pins
    by (rule ext) simp
  show ?thesis
    using xck_high [OF xck_low [OF xck_puts [OF assms(1)] assms(2)] load_settles assms(3)]
    by (simp add: period_events_def shifter_period_def step)
qed

section \<open>The indicator\<close>

text \<open>
  \<open>led_mirror\<close> shifts every sample of RXD into the input register and tests the whole register, so with
  TXD low the LED is on when one of the last 32 samples was high, not when RXD is high.
\<close>

abbreviation "led \<equiv> sm_configure led_mirror_settings"

definition led_levels :: "bool \<Rightarrow> nat \<Rightarrow> bool" where
  "led_levels rxd p = (p = V24_RXD \<and> rxd)"

abbreviation led_cycle :: "bool \<Rightarrow> pio_sm \<Rightarrow> pio_sm" where
  "led_cycle rxd \<equiv> pio_cycle led led_mirror_program (led_levels rxd)"

lemma led_config [simp]:
  "sc_jmp_pin led = V24_TXD" "sc_in_base led = V24_RXD" "sc_set_base led = V24_STATUS_LED" "\<not> sc_in_right led"
  "\<not> sc_autopush led" "\<not> sc_autopull led"
  by (simp_all add: sm_configure_def led_mirror_settings_def sm_config_default_def)

text \<open>One pass through the program: five cycles, or six when the LED is on.\<close>

definition led_pass :: "bool \<Rightarrow> pio_sm \<Rightarrow> pio_sm" where
  "led_pass rxd s = (led_cycle rxd ^^ (if shift_in False rxd (sm_isr s) = 0 then 5 else 6)) s"

lemma led_step:
  assumes "sm_delay s = 0"
  shows "sm_pc s = 0 \<Longrightarrow> led_cycle rxd s = s\<lparr>sm_pc := 1\<rparr>"
    "sm_pc s = 1 \<Longrightarrow> led_cycle rxd s
       = s\<lparr>sm_isr := shift_in False rxd (sm_isr s), sm_isr_count := min 32 (sm_isr_count s + 1), sm_pc := 2\<rparr>"
    "sm_pc s = 2 \<Longrightarrow> led_cycle rxd s = s\<lparr>sm_x := sm_isr s, sm_pc := 3\<rparr>"
    "sm_pc s = 3 \<Longrightarrow> led_cycle rxd s = s\<lparr>sm_pc := if sm_x s = 0 then 6 else 4\<rparr>"
    "sm_pc s = 4 \<Longrightarrow> led_cycle rxd s = s\<lparr>sm_pins := (sm_pins s)(V24_STATUS_LED := True), sm_pc := 5\<rparr>"
    "sm_pc s = 5 \<Longrightarrow> led_cycle rxd s = s\<lparr>sm_pc := 0\<rparr>"
    "sm_pc s = 6 \<Longrightarrow> led_cycle rxd s = s\<lparr>sm_pins := (sm_pins s)(V24_STATUS_LED := False), sm_pc := 0\<rparr>"
  using assms
  by (simp_all add: pio_cycle_def led_mirror_program_def pio_exec_def take_branch_def next_pc_def autopull_def led_levels_def
      v24_pins(7,9) Let_def)

lemma led_pass:
  assumes "sm_pc s = 0" "sm_delay s = 0"
  shows "sm_pc (led_pass rxd s) = 0" "sm_delay (led_pass rxd s) = 0" "sm_isr (led_pass rxd s) = shift_in False rxd (sm_isr s)"
    "sm_pins (led_pass rxd s) V24_STATUS_LED \<longleftrightarrow> shift_in False rxd (sm_isr s) \<noteq> 0"
  using assms by (simp_all add: led_pass_def led_step numeral_eq_Suc)

lemma led_register:
  assumes "sm_pc s = 0" "sm_delay s = 0"
  shows "bit (sm_isr (fold led_pass rxds s)) i \<longleftrightarrow> i < 32 \<and> (if i < length rxds then rev rxds ! i else bit (sm_isr s) (i - length rxds))"
  using assms
proof (induction rxds arbitrary: s)
  case Nil
  then show ?case
    using bit_imp_le_length [of "sm_isr s" i] by auto
next
  case (Cons r rxds)
  have "bit (sm_isr (led_pass r s)) j \<longleftrightarrow> j < 32 \<and> (if j = 0 then r else bit (sm_isr s) (j - 1))" for j
    unfolding led_pass(3) [OF Cons.prems] shift_in_def if_False bit_or_iff bit_push_bit_iff
    by (auto simp: bit_simps)
  then show ?case
    using Cons.IH [of "led_pass r s"] led_pass(1,2) [OF Cons.prems] by (auto simp: nth_append)
qed

lemma led_mirror_stretches:
  assumes "rxds \<noteq> []"
  shows "sm_pins (fold led_pass rxds sm_init) V24_STATUS_LED \<longleftrightarrow> True \<in> set (take 32 (rev rxds))"
proof -
  obtain rs r where rxds: "rxds = rs @ [r]"
    using assms by (metis rev_exhaust)
  have start: "sm_pc sm_init = 0" "sm_delay sm_init = 0" "sm_isr sm_init = 0"
    by (simp_all add: sm_init_def)
  have pc: "sm_pc (fold led_pass rs sm_init) = 0 \<and> sm_delay (fold led_pass rs sm_init) = 0"
    using start(1,2) by (induction rs rule: rev_induct) (simp_all add: led_pass(1,2))
  have "sm_pins (fold led_pass rxds sm_init) V24_STATUS_LED \<longleftrightarrow> sm_isr (fold led_pass rxds sm_init) \<noteq> 0"
    using led_pass(3,4) [of "fold led_pass rs sm_init" r] pc by (simp add: rxds)
  also have "\<dots> \<longleftrightarrow> (\<exists>i. bit (sm_isr (fold led_pass rxds sm_init)) i)"
    using bit_eq_iff [of "sm_isr (fold led_pass rxds sm_init)" 0] by auto
  also have "\<dots> \<longleftrightarrow> True \<in> set (take 32 (rev rxds))"
    unfolding led_register [OF start(1,2)] start(3) in_set_conv_nth by (simp cong: conj_cong) blast
  finally show ?thesis .
qed

section \<open>Properties\<close>

text \<open>
  C18.  The externally clocked transmitter is a shifter.  The clock of the line has low phases of at least
  three and high phases of at least seven cycles.  Then in every period the level taken by the
  other end is that of the shifter: the next bit of the bytes accepted so far if CTS is up and one is waiting, and
  the level of the period before otherwise; no bit is skipped, repeated or cut short by a change of
  CTS or by a pause between bytes.
\<close>

theorem xck_txd_refines_shifter:
  assumes "list_all (\<lambda>p. 3 \<le> cp_low p \<and> 7 \<le> cp_high p) ps"
  shows "xck_samples ps sm_init = shifter_samples ps ([], [], False)"
proof -
  have "xck_samples ps s = shifter_samples ps st" if "xck_waits 2 st s" for st s
    using assms that
  proof (induction ps arbitrary: st s)
    case (Cons p ps)
    then have "xck_waits 2 (shifter_period p st) (pio_run xck xck_txd_program (period_events p) s)"
      by (simp add: xck_period)
    moreover from this have "sm_pins (pio_run xck xck_txd_program (period_events p) s) V24_TXD = snd (snd (shifter_period p st))"
      by (simp add: xck_waits_def split_beta)
    ultimately show ?case
      using Cons.IH Cons.prems(1) by (simp add: Let_def)
  qed simp
  then show ?thesis
    by (simp add: xck_waits_def sm_init_def)
qed

theorem xck_txd_refines_shifter_witness:
  "xck_samples (\<lparr>cp_puts = [0x05], cp_low = 3, cp_high = 7, cp_cts = True\<rparr>
      # map (\<lambda>c. \<lparr>cp_puts = [], cp_low = 8, cp_high = 9, cp_cts = c\<rparr>) [False, True, True, True, True, False, True, True, True, True]) sm_init
   = [True, True, False, True, False, False, False, False, False, False, False]"
  by (subst xck_txd_refines_shifter)
    (simp_all add: shifter_period_def byte_bits_def bit_pos_def upt_rec numeral_eq_Suc Let_def)

end
