(* ===== verification/Spec2Isabelle.thy ===== *)
theory Spec2Isabelle
  imports Ringbuffer Log_Wake Log_Independence Cli_Parser Reports Settings Delivery Board_Wire Pio_External
begin

text \<open>
  ether2ser is firmware for an RP2040 board with a W5500 Ethernet chip.  It bridges UDP and a
  synchronous V.24 serial line: datagrams from the network go out on the line as HDLC frames, frames
  from the line go out to the network as datagrams.  An operator configures it over a USB console, and
  the settings are kept in flash.  This development models the firmware under \<open>src/\<close> from the ring
  buffer up to \<open>main\<close> and its endless loop.

  \<^bold>\<open>The parts and how they interact.\<close>  \<open>main\<close> initialises the chip, the pins, the configuration (stored
  or default), the transmit queue and the two PIO state machines, and enters \<open>event_loop\<close>.  One
  iteration polls the console, empties the receive FIFO into the frame accumulator, moves bytes of
  queued frames to the transmit FIFO, takes one datagram from the chip unless the queue is too full,
  extracts and decodes the frames found in the accumulator and sends their payloads to the network,
  updates the statistics and dispatches queued events.  The console turns keys into lines, lines
  into events, and the dispatcher turns events into commands, settings, saves and restarts.  The
  second core prints log lines from a queue shared with the first.

  \<^bold>\<open>Theories and sources.\<close>
  \<^item> \<open>E2S_Prelude\<close>, \<open>Fifo_Spec\<close>: machine types, bit lists, ring slices; the interfaces \<open>safe_system\<close>
    (an invariant of a step system; interpreted for the RTS line, the two cores of the log queue, the
    frequency estimator and the main loop) and \<open>bounded_fifo\<close> (interpreted for the ring buffer and the event queue).
  \<^item> \<open>Error_Codes\<close> (\<open>system/error.h\<close>, \<open>error.c\<close>, \<open>platform/watchdog.c\<close>): result codes, and runs that stop.
  \<^item> \<open>Ringbuffer\<close> (\<open>system/ringbuffer.c\<close>), \<open>Event_Queue\<close> (\<open>system/event_queue.c\<close>), \<open>Log_Queue\<close>
    (\<open>system/log.c\<close>): the queues; \<open>Log_Wake\<close> (\<open>log.c\<close>, \<open>core1_entry\<close> of \<open>main.c\<close>): sleep and wake-up of the second core.
  \<^item> \<open>Hdlc_Common\<close>, \<open>Hdlc_Encoder\<close>, \<open>Hdlc_Decoder\<close>, \<open>Hdlc_Sync\<close> (\<open>protocol/*.c\<close>): CRC, framing in both
    directions, the accumulator and its search for frames in an unaligned bit stream; \<open>Hdlc_Link\<close>
    joins them.
  \<^item> \<open>V24_Config\<close>, \<open>V24_Driver\<close> (\<open>drivers/v24_config.h\<close>, \<open>gpio_driver.c\<close>, \<open>pio_tx_rx_driver.c\<close>),
    \<open>Tx_Queue\<close> (\<open>drivers/tx_queue.c\<close>), \<open>W5500_Driver\<close> (\<open>drivers/w5500_driver.c\<close>): the drivers.
  \<^item> \<open>Pio_Machine\<close>, \<open>Pio_Programs\<close>, \<open>Pio_External\<close> (\<open>src/pio/*.pio\<close>): the PIO state machine, and the programs that
    clock bits in and out.
  \<^item> \<open>Float32\<close>, \<open>Baudrate_Monitor\<close> (\<open>system/baudrate_monitor.c\<close>): binary32 rounding, and the frequency estimator.
  \<^item> \<open>C_String\<close>, \<open>Cli_Parser\<close> (\<open>system/cli_parser.c\<close>), \<open>Cli_Input\<close> (\<open>cli_usb_cdc.c\<close>), \<open>Cli_Commands\<close>
    (\<open>cli_commands.c\<close>): the console.
  \<^item> \<open>Persistent_Config\<close> (\<open>persistent_config.c\<close>), \<open>App_Context\<close> (\<open>app_context.h\<close>, \<open>app_init.c\<close>, \<open>main.c\<close>):
    the flash, the context and the start-up.  The whole state is the record \<open>firmware\<close>.
  \<^item> \<open>Event_Dispatch\<close> (\<open>event_dispatch.c\<close>), \<open>Event_Loop\<close> (\<open>event_loop.c\<close>): what events do, and the loop.
  \<^item> \<open>Reports\<close> (\<open>event_dispatch.c\<close>, \<open>persistent_config.c\<close>): the reports to the operator, as the calls of the logging macros with their text.
  \<^item> \<open>Loop_Invariant\<close>, \<open>Quiet_Board\<close>, \<open>Firmware\<close>, \<open>Settings\<close>, \<open>Bridge\<close>, \<open>Delivery\<close>, \<open>Unbounded_Loops\<close>, \<open>Log_Independence\<close>,
    \<open>Driver_Run\<close>, \<open>Board_Wire\<close>: theorems about the
    composed firmware; no code of their own.

  \<^bold>\<open>How the code is modelled.\<close>  A C function is a function on explicit state with the same name; file-
  and function-static variables are fields of that state.  A pointer is the object it points to, or
  an \<open>option\<close> where \<open>NULL\<close> is possible.  Code that is not in the repository is a parameter: the SDK and
  the hardware (\<open>'h sdk\<close>) and the chip with the vendor library (\<open>'w wiznet\<close>) are records of functions on
  an arbitrary state, and the models keep traces of the commands issued, the bytes received and the
  datagrams received.  Nothing is assumed of them but, where stated, these facts: \<open>recvfrom_contract\<close>
  (a positive result of \<open>recvfrom\<close> is the number of bytes written, at most the buffer's size),
  \<open>chip_accepts\<close> (the chip accepts its socket and memory settings), \<open>mailbox\<close> (\<open>recvfrom\<close> takes the waiting
  datagrams one by one, sending and reading registers leave them), \<open>fifo_empties\<close> (the receive FIFO
  is empty after finitely many reads), \<open>quiet\<close> (no console input, no received bytes), \<open>free_running\<close>
  (the transmitter always has room and CTS does not change) and \<open>pio_board\<close> (the line hardware is the PIO of \<open>Pio_Machine\<close>).  Errors are values; a run that cannot go on is \<open>Stopped\<close> with a
  reason, one of which is undefined behaviour.

  \<^bold>\<open>What is shown.\<close>
  \<^item> The composed firmware (\<open>Firmware\<close>): after start-up every iteration completes and nothing undefined
    is ever executed; the line carries the frames of the received datagrams in order, none missing;
    every datagram sent came over the line with its checksum; the transmit queue never overflows; the
    frame extraction loop terminates.  One invariant over the whole state carries these
    (\<open>Loop_Invariant\<close>).
  \<^item> From the line to the network (\<open>Bridge\<close>): with the internal clock every encoded frame that comes in
    rounds of received bytes as \<open>Hdlc_Link\<close> asks for leaves as one datagram with its payload, in order.
  \<^item> From the network to the line, and across two boards (\<open>Delivery\<close>): on a board with a free transmitter
    and a silent console and receiver (\<open>Quiet_Board\<close>), every waiting datagram is on the line as a complete
    frame after 1772 iterations per datagram, more than the bytes of the longest frame; a second board that
    receives these bytes sends the same payloads to its network.
  \<^item> Log output (\<open>Log_Independence\<close>): the main loop does the same with any log output as without.
  \<^item> Settings (\<open>Settings\<close>): saved settings survive a restart; a typed setting is in force and in flash
    after the next pass over the events; a new clock mode is stored before the restart it causes.
  \<^item> Framing: both encoders write their reference frames, both decoders recover the payload, the
    decoder computes the reference decoding on every input, corruption of two neighbouring bytes is
    detected, a stuffed frame holds no flag and fits its buffer, and the synchroniser delivers a frame
    unchanged however it is cut into chunks after the first.
  \<^item> Queues: ring buffer, event queue and transmit queue against lists; the log queue under every
    interleaving of the two cores, where no wake-up of the second core is lost either.
  \<^item> Drivers: no byte leaves before RTS is up, RTS is released only after the holdoff, the queue drains
    completely on a transmitter that takes bytes, the broadcast address is the last of the subnet, the
    frequency estimate is accurate on a steady clock and the estimator stays inside its arrays.
  \<^item> The firmware on the PIO (\<open>Board_Wire\<close>): two boards with the PIO programs (\<open>pio_board\<close>) and a cable between them; the second
    firmware reads the bytes the first one sends, from the first on, while no state machine is reset.  \<open>Driver_Run\<close> shows in
    which ways the main loop uses the driver at all.
  \<^item> PIO programs: over a cable between two boards the bytes received are the bytes sent, whatever CTS and the
    processors do, as long as the receiver has not flagged an overrun (\<open>bit_source\<close> is what the receiver relies on); the
    internally clocked transmitter takes \<open>TX_PIO_CYCLES_PER_BIT\<close> cycles per bit; the externally clocked
    one is a shifter that moves once per clock period.
  \<^item> Console: lines are split and parsed as printed, queued lines stay intact, a command only queues
    events, the status report fits the log queue, and the printed polarities can be typed back when no clock is inverted.
  \<^item> Flaws: an out-of-bounds read, a false lock of the synchroniser, RTS dropped early by a sticky flag
    and left up by a rate change, an idle filter that damages frames, a remote port that moves the
    listener, a division by zero and a prefix taken modulo 256.

  \<^bold>\<open>Loops and bounds.\<close>  Loops over data recurse on it; loops with another measure have termination
  proofs.  Two loops of \<open>event_loop.c\<close> and the printing loop of \<open>log.c\<close> have no bound in the source and are
  partial functions into \<open>option\<close>: the frame extraction and the printing loop are shown to return
  always, emptying the FIFO returns if the hardware's FIFO runs empty.  The endless loop of \<open>main\<close> is
  run for an arbitrary number \<open>n\<close> of iterations; all statements hold for every \<open>n\<close>.

  \<^bold>\<open>Not modelled.\<close>  The log calls inside the handlers: the composed firmware logs nothing, and \<open>Log_Independence\<close> shows that
  any log output and any activity of the second core leave everything else as it is; the text of log output other than the
  reports; \<open>led_blink.pio\<close> and \<open>tx_clock.pio\<close>, which the firmware does not load; the timing of the watchdog and of the sleeps; the examples, tests and board files.
\<close>

end
